(* ===== verification/Go_Prelude.thy ===== *)
theory Go_Prelude
  imports Main "HOL-Library.Word" "HOL-Library.AList" "HOL-Library.Monad_Syntax"
begin

unbundle bit_operations_syntax

text \<open>
  Shared vocabulary of the development: Go's sized integers, byte slices, run-time panics,
  the big- and little-endian accessors of \<^verbatim>\<open>encoding/binary\<close>, the built-in \<^verbatim>\<open>copy\<close> and Go maps.

  \<^item> A value of type \<^verbatim>\<open>'a go\<close> is the outcome of a Go expression that may panic:
    \<open>None\<close> is a run-time panic (index or slice bounds out of range), \<open>Some x\<close> a normal
    return. Every index and slice expression of the parsers is written with the checked
    accessors \<open>at\<close>, \<open>slice\<close>, \<open>rdBE16\<close>, \ldots, so freedom from panics is a theorem and
    not an assumption. (Go bounds a re-slice by the capacity, the model by the length: the
    model panics at least as often as the code.)
  \<^item> A slice is a list; \<^verbatim>\<open>nil\<close> is the empty list.
  \<^item> A Go map is an association list with distinct keys, with the operations of the
    language and the interface \<open>go_map_laws\<close> that its clients rely on.
\<close>

section \<open>Machine integers and byte slices\<close>

type_synonym byte = "8 word"
type_synonym bytes = "8 word list"
type_synonym u16 = "16 word"
type_synonym u32 = "32 word"
type_synonym u64 = "64 word"

type_synonym 'a go = "'a option"

named_theorems go_read \<open>reads that are in range\<close>
named_theorems layout \<open>byte layouts of encoded headers\<close>

definition at :: "'a list \<Rightarrow> nat \<Rightarrow> 'a go" where
  "at b i = (if i < length b then Some (b ! i) else None)"

definition slice :: "'a list \<Rightarrow> nat \<Rightarrow> nat \<Rightarrow> 'a list go" where
  "slice b lo hi = (if lo \<le> hi \<and> hi \<le> length b then Some (take (hi - lo) (drop lo b)) else None)"

definition slice_from :: "'a list \<Rightarrow> nat \<Rightarrow> 'a list go" where
  "slice_from b lo = slice b lo (length b)"

section \<open>encoding/binary\<close>

definition u16be :: "byte \<Rightarrow> byte \<Rightarrow> u16" where
  "u16be a b = push_bit 8 (ucast a) OR ucast b"

definition u32be :: "byte \<Rightarrow> byte \<Rightarrow> byte \<Rightarrow> byte \<Rightarrow> u32" where
  "u32be a b c d =
     push_bit 24 (ucast a) OR push_bit 16 (ucast b) OR push_bit 8 (ucast c) OR ucast d"

definition be16 :: "u16 \<Rightarrow> bytes" where
  "be16 w = [ucast (drop_bit 8 w), ucast w]"

definition be32 :: "u32 \<Rightarrow> bytes" where
  "be32 w = [ucast (drop_bit 24 w), ucast (drop_bit 16 w), ucast (drop_bit 8 w), ucast w]"

fun le_val :: "bytes \<Rightarrow> 'a::len word" where
  "le_val [] = 0"
| "le_val (b # bs) = ucast b OR push_bit 8 (le_val bs)"

fun le_bytes :: "nat \<Rightarrow> 'a::len word \<Rightarrow> bytes" where
  "le_bytes 0 w = []"
| "le_bytes (Suc n) w = ucast w # le_bytes n (drop_bit 8 w)"

definition be16_at :: "bytes \<Rightarrow> nat \<Rightarrow> u16" where
  "be16_at b lo = u16be (b ! lo) (b ! Suc lo)"

definition be32_at :: "bytes \<Rightarrow> nat \<Rightarrow> u32" where
  "be32_at b lo = u32be (b ! lo) (b ! (lo + 1)) (b ! (lo + 2)) (b ! (lo + 3))"

text \<open>\<^verbatim>\<open>binary.BigEndian.Uint16(b[lo:hi])\<close> and its relatives: the slice expression panics when out
  of bounds, the read when the slice is too short.\<close>

definition rdBE16 :: "bytes \<Rightarrow> nat \<Rightarrow> nat \<Rightarrow> u16 go" where
  "rdBE16 b lo hi = do { s \<leftarrow> slice b lo hi; y \<leftarrow> at s 1; x \<leftarrow> at s 0; Some (u16be x y) }"

definition rdBE32 :: "bytes \<Rightarrow> nat \<Rightarrow> nat \<Rightarrow> u32 go" where
  "rdBE32 b lo hi = do { s \<leftarrow> slice b lo hi; z \<leftarrow> at s 3; y \<leftarrow> at s 2; x \<leftarrow> at s 1; w \<leftarrow> at s 0;
     Some (u32be w x y z) }"

definition rdLE :: "nat \<Rightarrow> bytes \<Rightarrow> nat \<Rightarrow> nat \<Rightarrow> 'a::len word go" where
  "rdLE n b lo hi = do { s \<leftarrow> slice b lo hi; if n \<le> length s then Some (le_val (take n s)) else None }"

text \<open>The built-in \<^verbatim>\<open>copy(b[lo:], src)\<close> and \<^verbatim>\<open>copy(b[lo:hi], src)\<close>: as many bytes as fit.\<close>

definition copy_from :: "'a list \<Rightarrow> nat \<Rightarrow> 'a list \<Rightarrow> 'a list" where
  "copy_from b lo src = take lo b @ take (length b - lo) src @ drop (lo + length src) b"

definition copy_range :: "'a list \<Rightarrow> nat \<Rightarrow> nat \<Rightarrow> 'a list \<Rightarrow> 'a list" where
  "copy_range b lo hi src = copy_from b lo (take (hi - lo) src)"

definition make_bytes :: "nat \<Rightarrow> bytes" where
  "make_bytes n = replicate n 0"

section \<open>Lemmas on reads, copies and encodings\<close>

lemma at_in [simp, go_read]: "i < length b \<Longrightarrow> at b i = Some (b ! i)"
  by (simp add: at_def)

lemma at_eq_None [simp]: "at b i = None \<longleftrightarrow> length b \<le> i"
  by (simp add: at_def)

lemma slice_in [simp, go_read]:
  "lo \<le> hi \<Longrightarrow> hi \<le> length b \<Longrightarrow> slice b lo hi = Some (take (hi - lo) (drop lo b))"
  by (simp add: slice_def)

lemma slice_eq_None: "slice b lo hi = None \<longleftrightarrow> \<not> (lo \<le> hi \<and> hi \<le> length b)"
  by (simp add: slice_def)

lemma slice_from_in [simp, go_read]: "lo \<le> length b \<Longrightarrow> slice_from b lo = Some (drop lo b)"
  by (simp add: slice_from_def)

lemma rdBE16_in [simp, go_read]:
  "hi = lo + 2 \<Longrightarrow> hi \<le> length b \<Longrightarrow> rdBE16 b lo hi = Some (be16_at b lo)"
  by (simp add: rdBE16_def be16_at_def)

lemma rdBE32_in [simp, go_read]:
  "hi = lo + 4 \<Longrightarrow> hi \<le> length b \<Longrightarrow> rdBE32 b lo hi = Some (be32_at b lo)"
  by (simp add: rdBE32_def be32_at_def)

lemma rdLE_in [go_read]:
  "hi = lo + n \<Longrightarrow> hi \<le> length b \<Longrightarrow> rdLE n b lo hi = Some (le_val (take n (drop lo b)))"
  by (simp add: rdLE_def)

lemma bit_byte_high [simp]: "8 \<le> n \<Longrightarrow> \<not> bit (b :: byte) n"
  using bit_imp_le_length [of b n] by auto

lemma u16be_be16 [simp]: "u16be (ucast (drop_bit 8 w)) (ucast w) = (w :: u16)"
  unfolding u16be_def by (rule bit_word_eqI) (auto simp: bit_simps)

lemma u32be_be32 [simp]:
  "u32be (ucast (drop_bit 24 w)) (ucast (drop_bit 16 w)) (ucast (drop_bit 8 w)) (ucast w) = (w :: u32)"
proof (rule bit_word_eqI)
  fix n assume "n < LENGTH(32)"
  then show "bit (u32be (ucast (drop_bit 24 w)) (ucast (drop_bit 16 w)) (ucast (drop_bit 8 w)) (ucast w)) n
      = bit w n"
    by (cases "n < 8"; cases "n < 16"; cases "n < 24") (auto simp: u32be_def bit_simps)
qed

lemma be16_u16be [simp]: "be16 (u16be a b) = [a, b]"
  unfolding u16be_def be16_def
  by (auto intro!: bit_word_eqI simp: bit_simps)

lemma be32_u32be [simp]: "be32 (u32be a b c d) = [a, b, c, d]"
  unfolding u32be_def be32_def
  by (auto intro!: bit_word_eqI simp: bit_simps)

lemma be16_decode: "u16be (be16 v ! 0) (be16 v ! 1) = v"
  by (simp add: be16_def)

lemma be32_decode: "u32be (be32 v ! 0) (be32 v ! 1) (be32 v ! 2) (be32 v ! 3) = v"
  by (simp add: be32_def)

lemma be16_inj [simp]: "be16 v = be16 w \<longleftrightarrow> v = w"
  by (metis be16_decode)

lemma be32_inj [simp]: "be32 v = be32 w \<longleftrightarrow> v = w"
  by (metis be32_decode)

lemma u16be_eq_iff: "u16be a b = w \<longleftrightarrow> [a, b] = be16 w"
  by (metis be16_inj be16_u16be)

lemma u32be_eq_iff: "u32be a b c d = w \<longleftrightarrow> [a, b, c, d] = be32 w"
  by (metis be32_inj be32_u32be)

lemma length_be16 [simp]: "length (be16 w) = 2"
  by (simp add: be16_def)

lemma length_be32 [simp]: "length (be32 w) = 4"
  by (simp add: be32_def)

lemma length_le_bytes [simp]: "length (le_bytes n w) = n"
  by (induction n arbitrary: w) auto

lemma le_val_le_bytes_take:
  "(le_val (le_bytes n w) :: 'a::len word) = take_bit (8 * n) w"
proof (induction n arbitrary: w)
  case 0
  then show ?case by simp
next
  case (Suc n)
  have "bit (ucast (ucast w :: byte) OR push_bit 8 (take_bit (8 * n) (drop_bit 8 w)) :: 'a word) i
      = bit (take_bit (8 * Suc n) w) i" for i
    by (cases "i < 8") (auto simp: bit_simps dest: bit_imp_le_length)
  then show ?case by (simp add: Suc.IH bit_eq_iff)
qed

lemma le_val_le_bytes: "LENGTH('a) \<le> 8 * n \<Longrightarrow> le_val (le_bytes n w) = (w :: 'a::len word)"
  by (simp add: le_val_le_bytes_take take_bit_word_eq_self)

lemma le_val_bound: "8 * length bs \<le> n \<Longrightarrow> n < LENGTH('a) \<Longrightarrow> \<not> bit (le_val bs :: 'a::len word) n"
proof (induction bs arbitrary: n)
  case (Cons b bs)
  then show ?case by (auto simp: bit_simps)
qed simp

lemma le_bytes_le_val:
  "8 * length bs \<le> LENGTH('a) \<Longrightarrow> le_bytes (length bs) (le_val bs :: 'a::len word) = bs"
proof (induction bs)
  case (Cons b bs)
  let ?v = "le_val bs :: 'a word"
  have "bit (drop_bit 8 (ucast b OR push_bit 8 ?v)) i = bit ?v i" if "i < LENGTH('a)" for i
    using that Cons.prems le_val_bound [of bs i, where ?'a = 'a]
    by (cases "8 + i < LENGTH('a)") (auto simp: bit_simps dest: bit_imp_le_length)
  then have "drop_bit 8 (ucast b OR push_bit 8 ?v) = ?v" by (intro bit_word_eqI)
  moreover have "ucast (ucast b OR push_bit 8 ?v :: 'a word) = b"
    using Cons.prems by (intro bit_word_eqI) (auto simp: bit_simps)
  ultimately show ?case using Cons by simp
qed simp

lemma length_copy_from [simp]: "lo \<le> length b \<Longrightarrow> length (copy_from b lo src) = length b"
  by (simp add: copy_from_def min_def)

lemma length_copy_range [simp]: "lo \<le> length b \<Longrightarrow> length (copy_range b lo hi src) = length b"
  by (simp add: copy_range_def)

lemma length_make_bytes [simp]: "length (make_bytes n) = n"
  by (simp add: make_bytes_def)

text \<open>
  Builders allocate a zeroed buffer and store field after field into it. The buffer is split into
  one zero block per field (\<open>make_bytes_append\<close>); a store then skips the blocks before its
  offset and replaces the block it hits, so the whole sequence of stores rewrites to a
  concatenation of fields.
\<close>

definition pad :: "nat \<Rightarrow> bytes \<Rightarrow> bytes" where
  "pad n x = take n x @ replicate (n - length x) 0"

lemma length_pad [simp]: "length (pad n x) = n"
  by (simp add: pad_def)

lemma pad_id [simp]: "length x = n \<Longrightarrow> pad n x = x"
  by (simp add: pad_def)

lemma make_bytes_append: "make_bytes m @ make_bytes n = make_bytes (m + n)"
  by (simp add: make_bytes_def replicate_add)

lemma copy_range_skip [layout]:
  "length x \<le> lo \<Longrightarrow> lo \<le> hi \<Longrightarrow> copy_range (x @ r) lo hi src = x @ copy_range r (lo - length x) (hi - length x) src"
  by (simp add: copy_range_def copy_from_def add.commute)

lemma copy_range_skip1 [layout]:
  "0 < lo \<Longrightarrow> lo \<le> hi \<Longrightarrow> copy_range (v # r) lo hi src = v # copy_range r (lo - 1) (hi - 1) src"
  using copy_range_skip [of "[v]" lo hi r src] by simp

lemma copy_range_hit [layout]: "copy_range (make_bytes n @ r) 0 n src = pad n src @ r"
  by (cases "length src \<le> n") (simp_all add: copy_range_def copy_from_def pad_def make_bytes_def)

lemma copy_range_hit_end [layout]: "copy_range (make_bytes n) 0 n src = pad n src"
  using copy_range_hit [of n "[]" src] by simp

lemma copy_from_skip [layout]:
  "length x \<le> lo \<Longrightarrow> copy_from (x @ r) lo src = x @ copy_from r (lo - length x) src"
  by (simp add: copy_from_def add.commute)

lemma copy_from_skip1 [layout]: "0 < lo \<Longrightarrow> copy_from (v # r) lo src = v # copy_from r (lo - 1) src"
  using copy_from_skip [of "[v]" lo r src] by simp

lemma copy_from_hit [layout]: "copy_from (make_bytes (length src)) 0 src = src"
  by (simp add: copy_from_def)

lemma list_update_skip [layout]:
  "length x \<le> i \<Longrightarrow> (x @ r)[i := v] = x @ r[i - length x := v]"
  by (simp add: list_update_append)

lemma list_update_skip1 [layout]: "0 < i \<Longrightarrow> (y # r)[i := v] = y # r[i - 1 := v]"
  by (cases i) simp_all

lemmas zero_blocks = make_bytes_def replicate_add numeral_eq_Suc

lemma drop_Cons_nth: "i < length b \<Longrightarrow> drop i b = b ! i # drop (Suc i) b"
  by (simp add: Cons_nth_drop_Suc)

lemma take2_drop: "i + 2 \<le> length b \<Longrightarrow> take 2 (drop i b) = [b ! i, b ! Suc i]"
  by (simp add: drop_Cons_nth numeral_2_eq_2)

lemma take4_drop:
  assumes "i + 4 \<le> length b"
  shows "take 4 (drop i b) = [b ! i, b ! (i + 1), b ! (i + 2), b ! (i + 3)]"
proof -
  have "take 4 (drop i b) = take (2 + 2) (drop i b)" by simp
  also have "\<dots> = take 2 (drop i b) @ take 2 (drop (i + 2) b)"
    unfolding take_add by (simp add: add.commute)
  also have "\<dots> = [b ! i, b ! (i + 1), b ! (i + 2), b ! (i + 3)]"
    using assms take2_drop [of i b] take2_drop [of "i + 2" b] by (simp add: numeral_eq_Suc)
  finally show ?thesis .
qed

text \<open>A field read is decided by the bytes at its offset.\<close>

lemma be16_at_iff: "lo + 2 \<le> length b \<Longrightarrow> be16_at b lo = w \<longleftrightarrow> take 2 (drop lo b) = be16 w"
  by (simp add: be16_at_def u16be_eq_iff take2_drop)

lemma be32_at_iff: "lo + 4 \<le> length b \<Longrightarrow> be32_at b lo = w \<longleftrightarrow> take 4 (drop lo b) = be32 w"
  by (simp add: be32_at_def u32be_eq_iff take4_drop)

lemma be16_atI: "take 2 (drop lo b) = be16 w \<Longrightarrow> be16_at b lo = w"
  by (subst be16_at_iff) (auto dest: arg_cong [where f = length])

lemma be32_atI: "take 4 (drop lo b) = be32 w \<Longrightarrow> be32_at b lo = w"
  by (subst be32_at_iff) (auto dest: arg_cong [where f = length])

lemma be32_at_drop: "n + lo + 4 \<le> length b \<Longrightarrow> be32_at (drop n b) lo = be32_at b (n + lo)"
  by (simp add: be32_at_def add.assoc)

section \<open>Go maps\<close>

type_synonym ('k, 'v) gomap = "('k \<times> 'v) list"

definition mget :: "('k, 'v) gomap \<Rightarrow> 'k \<Rightarrow> 'v option" where
  "mget m k = map_of m k"

definition mput :: "('k, 'v) gomap \<Rightarrow> 'k \<Rightarrow> 'v \<Rightarrow> ('k, 'v) gomap" where
  "mput m k v = AList.update k v m"

definition mdel :: "('k, 'v) gomap \<Rightarrow> 'k \<Rightarrow> ('k, 'v) gomap" where
  "mdel m k = AList.delete k m"

definition mlen :: "('k, 'v) gomap \<Rightarrow> nat" where
  "mlen m = length m"

definition mwf :: "('k, 'v) gomap \<Rightarrow> bool" where
  "mwf m \<longleftrightarrow> distinct (map fst m)"

locale go_map_laws =
  fixes get :: "'m \<Rightarrow> 'k \<Rightarrow> 'v option"
    and put :: "'m \<Rightarrow> 'k \<Rightarrow> 'v \<Rightarrow> 'm"
    and del :: "'m \<Rightarrow> 'k \<Rightarrow> 'm"
    and len :: "'m \<Rightarrow> nat"
    and empty :: 'm
    and wf :: "'m \<Rightarrow> bool"
  assumes wf_empty: "wf empty"
    and get_empty: "get empty k = None"
    and len_empty: "len empty = 0"
    and wf_put: "wf m \<Longrightarrow> wf (put m k v)"
    and wf_del: "wf m \<Longrightarrow> wf (del m k)"
    and get_put: "get (put m k v) k' = (if k' = k then Some v else get m k')"
    and get_del: "get (del m k) k' = (if k' = k then None else get m k')"
    and len_put: "wf m \<Longrightarrow> len (put m k v) = (if get m k = None then Suc (len m) else len m)"
    and len_del: "wf m \<Longrightarrow> len (del m k) = (if get m k = None then len m else len m - 1)"
begin

lemma get_put_same: "get (put m k v) k = Some v"
  by (simp add: get_put)

lemma get_put_other: "k' \<noteq> k \<Longrightarrow> get (put m k v) k' = get m k'"
  by (simp add: get_put)

lemma get_del_same: "get (del m k) k = None"
  by (simp add: get_del)

lemma dom_put: "{k'. get (put m k v) k' \<noteq> None} = insert k {k'. get m k' \<noteq> None}"
  by (auto simp: get_put)

lemma dom_del: "{k'. get (del m k) k' \<noteq> None} = {k'. get m k' \<noteq> None} - {k}"
  by (auto simp: get_del)

lemma len_put_le: "wf m \<Longrightarrow> len (put m k v) \<le> Suc (len m)"
  by (simp add: len_put)

lemma len_del_le: "wf m \<Longrightarrow> len (del m k) \<le> len m"
  by (simp add: len_del)

end

lemma mget_mput: "mget (mput m k v) k' = (if k' = k then Some v else mget m k')"
  by (auto simp: mget_def mput_def update_conv)

lemma mget_mdel: "mget (mdel m k) k' = (if k' = k then None else mget m k')"
  by (auto simp: mget_def mdel_def delete_conv)

lemma fst_set_mget: "k \<in> fst ` set m \<longleftrightarrow> mget m k \<noteq> None"
  unfolding mget_def by (metis map_of_eq_None_iff)

lemma mlen_mput: "mlen (mput m k v) = (if mget m k = None then Suc (mlen m) else mlen m)"
proof (induction m)
  case Nil
  then show ?case by (simp add: mlen_def mput_def mget_def)
next
  case (Cons x m)
  then show ?case by (cases x) (auto simp: mlen_def mput_def mget_def)
qed

lemma mlen_mdel: "mwf m \<Longrightarrow> mlen (mdel m k) = (if mget m k = None then mlen m else mlen m - 1)"
proof (induction m)
  case Nil
  then show ?case by (simp add: mlen_def mdel_def mget_def)
next
  case (Cons x m)
  obtain a b where x: "x = (a, b)" by (cases x)
  have "mwf m" and a: "a \<notin> fst ` set m" using Cons.prems x by (auto simp: mwf_def)
  show ?case
  proof (cases "a = k")
    case True
    then have "AList.delete k m = m" using a by (simp add: delete_id)
    then show ?thesis using True x by (simp add: mlen_def mdel_def mget_def)
  next
    case False
    have pos: "0 < length m" if "map_of m k = Some y" for y
      using that by (cases m) auto
    show ?thesis using False Cons.IH [OF \<open>mwf m\<close>] x pos
      by (auto simp: mlen_def mdel_def mget_def split: if_splits)
  qed
qed

interpretation gm: go_map_laws mget mput mdel mlen "[]" mwf
proof unfold_locales
  show "mwf []" and "mget [] k = None" and "mlen [] = 0" for k
    by (simp_all add: mwf_def mget_def mlen_def)
  show "mwf m \<Longrightarrow> mwf (mput m k v)" for m k v
    by (simp add: mwf_def mput_def distinct_update)
  show "mwf m \<Longrightarrow> mwf (mdel m k)" for m k
    by (simp add: mwf_def mdel_def distinct_delete)
qed (simp_all add: mget_mput mget_mdel mlen_mput mlen_mdel)

lemmas gomap_simps = gm.get_empty gm.len_empty gm.get_put gm.get_del gm.wf_empty gm.wf_put gm.wf_del

section \<open>Machines that keep an invariant\<close>

text \<open>A component driven by a sequence of events: what one step keeps, a run keeps.\<close>

locale invariant_machine =
  fixes step :: "'s \<Rightarrow> 'e \<Rightarrow> 's" and inv :: "'s \<Rightarrow> bool"
  assumes step_inv: "inv s \<Longrightarrow> inv (step s e)"
begin

lemma run_inv: "inv s \<Longrightarrow> inv (foldl step s es)"
  by (induction es arbitrary: s) (auto intro: step_inv)

end

end
