(* ===== verification/Net_IP.thy ===== *)
theory Net_IP
  imports Go_Prelude
begin

text \<open>
  The parts of the standard library's package \<^verbatim>\<open>net\<close> the program uses: an address \<^verbatim>\<open>net.IP\<close> is a
  slice of 4 or 16 bytes (\<^verbatim>\<open>nil\<close> is the empty slice), with \<^verbatim>\<open>To4\<close>, \<^verbatim>\<open>To16\<close> and the textual form
  \<^verbatim>\<open>String\<close> (dotted decimal for IPv4 and IPv4-mapped addresses, RFC 5952 for IPv6). The main
  result is that the textual form determines the address, \<open>ip_string_inj\<close>, on which the
  responder's connection keys rest.
\<close>

section \<open>Addresses\<close>

definition v4InV6Prefix :: bytes where
  "v4InV6Prefix = [0, 0, 0, 0, 0, 0, 0, 0, 0, 0, 0xFF, 0xFF]"

definition To4 :: "bytes \<Rightarrow> bytes" where
  "To4 ip = (if length ip = 4 then ip
             else if length ip = 16 \<and> take 12 ip = v4InV6Prefix then drop 12 ip else [])"

definition To16 :: "bytes \<Rightarrow> bytes" where
  "To16 ip = (if length ip = 4 then v4InV6Prefix @ ip
              else if length ip = 16 then ip else [])"

section \<open>Numbers as text\<close>

definition digit_char :: "nat \<Rightarrow> char" where
  "digit_char d = (if d < 10 then char_of (48 + d) else char_of (87 + d))"

fun num_string :: "nat \<Rightarrow> nat \<Rightarrow> string" where
  "num_string b n = (if n < b \<or> b < 2 then [digit_char n]
                     else num_string b (n div b) @ [digit_char (n mod b)])"

declare num_string.simps [simp del]

definition dec_string :: "nat \<Rightarrow> string" where
  "dec_string n = num_string 10 n"

definition hex_string :: "nat \<Rightarrow> string" where
  "hex_string n = num_string 16 n"

fun join :: "string \<Rightarrow> string list \<Rightarrow> string" where
  "join sep [] = []"
| "join sep [x] = x"
| "join sep (x # y # xs) = x @ sep @ join sep (y # xs)"

section \<open>The textual form of an address\<close>

definition dotted :: "bytes \<Rightarrow> string" where
  "dotted ip = join ''.'' (map (dec_string \<circ> unat) ip)"

fun groups :: "bytes \<Rightarrow> nat list" where
  "groups (a # b # bs) = unat (u16be a b) # groups bs"
| "groups _ = []"

text \<open>The longest run of zero groups, at least two long, the first of equals: start and end.\<close>

definition zero_run :: "nat list \<Rightarrow> nat \<Rightarrow> nat" where
  "zero_run g i = length (takeWhile (\<lambda>x. x = 0) (drop i g))"

definition best_run :: "nat list \<Rightarrow> (nat \<times> nat) option" where
  "best_run g = foldl (\<lambda>best i. let l = zero_run g i in
       if 2 \<le> l \<and> (case best of None \<Rightarrow> True | Some (s, e) \<Rightarrow> e - s < l)
       then Some (i, i + l) else best) None [0..<length g]"

definition ip6_string :: "bytes \<Rightarrow> string" where
  "ip6_string ip = (let g = groups ip in
     case best_run g of
       None \<Rightarrow> join '':'' (map hex_string g)
     | Some (s, e) \<Rightarrow> join '':'' (map hex_string (take s g)) @ ''::'' @
                     join '':'' (map hex_string (drop e g)))"

definition hex2 :: "byte \<Rightarrow> string" where
  "hex2 b = [digit_char (unat b div 16), digit_char (unat b mod 16)]"

definition ip_string :: "bytes \<Rightarrow> string" where
  "ip_string ip =
     (if ip = [] then ''<nil>''
      else if length ip \<noteq> 4 \<and> length ip \<noteq> 16 then ''?'' @ concat (map hex2 ip)
      else if length (To4 ip) = 4 then dotted (To4 ip)
      else ip6_string ip)"

definition num_char :: "char \<Rightarrow> bool" where
  "num_char c \<longleftrightarrow> (let n = of_char c :: nat in 48 \<le> n \<and> n < 58 \<or> 97 \<le> n)"

section \<open>Lemmas\<close>

lemma length_To4: "length (To4 ip) = 4 \<or> To4 ip = []"
  by (simp add: To4_def)

lemma To4_4 [simp]: "length ip = 4 \<Longrightarrow> To4 ip = ip"
  by (simp add: To4_def)

lemma To16_16 [simp]: "length ip = 16 \<Longrightarrow> To16 ip = ip"
  by (simp add: To16_def)

lemma To16_4: "length ip = 4 \<Longrightarrow> To16 ip = v4InV6Prefix @ ip"
  by (simp add: To16_def)

lemma length_To16 [simp]: "length ip = 4 \<or> length ip = 16 \<Longrightarrow> length (To16 ip) = 16"
  by (auto simp: To16_def v4InV6Prefix_def)

lemma To4_To16: "length ip = 4 \<or> length ip = 16 \<Longrightarrow> To4 (To16 ip) = To4 ip"
  by (auto simp: To4_def To16_def v4InV6Prefix_def)

lemma To16_To4:
  assumes "length ip = 4 \<or> length ip = 16" and "To4 ip \<noteq> []"
  shows "To16 (To4 ip) = To16 ip"
proof -
  have "take 12 ip @ drop 12 ip = ip" by (rule append_take_drop_id)
  then show ?thesis using assms by (auto simp: To4_def To16_def split: if_splits simp del: append_take_drop_id)
qed

subsection \<open>Numbers\<close>

definition digit_val :: "char \<Rightarrow> nat" where
  "digit_val c = (let n = of_char c in if n < 58 then n - 48 else n - 87)"

definition num_val :: "nat \<Rightarrow> string \<Rightarrow> nat" where
  "num_val b s = foldl (\<lambda>a c. b * a + digit_val c) 0 s"

lemma digit_val_digit_char [simp]: "d < 16 \<Longrightarrow> digit_val (digit_char d) = d"
  by (auto simp: digit_val_def digit_char_def Let_def)

lemma num_val_num_string: "2 \<le> b \<Longrightarrow> b \<le> 16 \<Longrightarrow> num_val b (num_string b n) = n"
proof (induction b n rule: num_string.induct)
  case (1 b n)
  show ?case
  proof (cases "n < b")
    case True
    then show ?thesis using "1.prems" by (simp add: num_string.simps [of b n] num_val_def)
  next
    case False
    then have "num_val b (num_string b (n div b)) = n div b"
      using 1 by simp
    moreover have "n mod b < 16" using "1.prems" by (simp add: less_le_trans [OF mod_less_divisor])
    ultimately show ?thesis using False "1.prems"
      by (simp add: num_string.simps [of b n] num_val_def)
  qed
qed

lemma num_string_nonempty [simp]: "num_string b n \<noteq> []"
  by (subst num_string.simps) simp

lemma num_char_digit: "d < 16 \<Longrightarrow> num_char (digit_char d)"
  by (auto simp: num_char_def digit_char_def Let_def)

lemma num_string_num_char:
  "2 \<le> b \<Longrightarrow> b \<le> 16 \<Longrightarrow> c \<in> set (num_string b n) \<Longrightarrow> num_char c"
proof (induction b n rule: num_string.induct)
  case (1 b n)
  have mod: "n mod b < 16" using "1.prems" by (simp add: less_le_trans [OF mod_less_divisor])
  show ?case
  proof (cases "n < b")
    case True
    then have "c = digit_char n" and "n < 16"
      using "1.prems" by (auto simp: num_string.simps [of b n])
    then show ?thesis by (simp add: num_char_digit)
  next
    case False
    then have "c \<in> set (num_string b (n div b)) \<or> c = digit_char (n mod b)"
      using "1.prems" by (auto simp: num_string.simps [of b n])
    then show ?thesis
      using 1 False mod by (auto simp: num_char_digit)
  qed
qed

lemma dec_val: "num_val 10 (dec_string n) = n"
  by (simp add: dec_string_def num_val_num_string)

lemma dec_string_inj: "dec_string m = dec_string n \<longleftrightarrow> m = n"
  by (metis dec_val)

lemma hex_val: "num_val 16 (hex_string n) = n"
  by (simp add: hex_string_def num_val_num_string)

lemma dec_string_chars: "c \<in> set (dec_string n) \<Longrightarrow> num_char c"
  by (rule num_string_num_char [of 10 c n]) (simp_all add: dec_string_def)

lemma hex_string_chars: "c \<in> set (hex_string n) \<Longrightarrow> num_char c"
  by (rule num_string_num_char [of 16 c n]) (simp_all add: hex_string_def)

lemma not_num_char [simp]:
  "\<not> num_char (CHR ''.'')" "\<not> num_char (CHR '':'')" "\<not> num_char (CHR ''>'')"
  by (simp_all add: num_char_def Let_def)

lemma num_string_nonempty_dec_hex [simp]: "dec_string n \<noteq> []" "hex_string n \<noteq> []"
  by (simp_all add: dec_string_def hex_string_def)

subsection \<open>Splitting what was joined\<close>

fun split_on :: "char \<Rightarrow> string \<Rightarrow> string list" where
  "split_on c [] = [[]]"
| "split_on c (x # xs) =
     (if x = c then [] # split_on c xs
      else (case split_on c xs of [] \<Rightarrow> [[x]] | w # ws \<Rightarrow> (x # w) # ws))"

lemma split_on_nonempty [simp]: "split_on c s \<noteq> []"
  by (induction s) (auto split: list.splits)

lemma split_on_free: "c \<notin> set s \<Longrightarrow> split_on c s = [s]"
  by (induction s) auto

lemma split_on_append: "c \<notin> set x \<Longrightarrow> split_on c (x @ c # s) = x # split_on c s"
  by (induction x) auto

lemma split_on_join:
  "xs \<noteq> [] \<Longrightarrow> \<forall>x \<in> set xs. c \<notin> set x \<Longrightarrow> split_on c (join [c] xs) = xs"
  by (induction "[c]" xs rule: join.induct) (auto simp: split_on_free split_on_append)

lemma split_on_join_append:
  "xs \<noteq> [] \<Longrightarrow> \<forall>x \<in> set xs. c \<notin> set x \<Longrightarrow>
     split_on c (join [c] xs @ c # s) = xs @ split_on c s"
  by (induction "[c]" xs rule: join.induct) (auto simp: split_on_append)

lemma append_sep_last:
  "xs @ c # ys = xs' @ c # ys' \<Longrightarrow> c \<notin> set ys \<Longrightarrow> c \<notin> set ys' \<Longrightarrow> xs = xs' \<and> ys = ys'"
  by (auto simp: append_eq_append_conv2 Cons_eq_append_conv append_eq_Cons_conv)

lemma append_sep_first:
  "xs @ c # ys = xs' @ c # ys' \<Longrightarrow> c \<notin> set xs \<Longrightarrow> c \<notin> set xs' \<Longrightarrow> xs = xs' \<and> ys = ys'"
  by (auto simp: append_eq_append_conv2 Cons_eq_append_conv append_eq_Cons_conv)

subsection \<open>IPv4 text determines the address\<close>

lemma dotted_split: "ip \<noteq> [] \<Longrightarrow> split_on (CHR ''.'') (dotted ip) = map (dec_string \<circ> unat) ip"
  unfolding dotted_def by (rule split_on_join) (auto dest: dec_string_chars)

lemma inj_dec_unat: "inj (dec_string \<circ> (unat :: byte \<Rightarrow> nat))"
  by (auto simp: inj_def dec_string_inj word_unat_eq_iff)

lemma dotted_inj: "ip \<noteq> [] \<Longrightarrow> ip' \<noteq> [] \<Longrightarrow> dotted ip = dotted ip' \<Longrightarrow> ip = ip'"
  using dotted_split [of ip] dotted_split [of ip'] inj_map_eq_map [OF inj_dec_unat, of ip ip'] by simp

lemma join_set: "set (join sep xs) \<subseteq> set sep \<union> (\<Union>x \<in> set xs. set x)"
  by (induction sep xs rule: join.induct) auto

lemma dotted_no_sep: "CHR '':'' \<notin> set (dotted ip)" "CHR ''>'' \<notin> set (dotted ip)"
  using join_set [of "''.''" "map (dec_string \<circ> unat) ip"]
  by (auto simp: dotted_def dest!: dec_string_chars)

subsection \<open>IPv6 text determines the address\<close>

text \<open>Undoing the compression: the fields left and right of the empty one, and zeros between.\<close>

definition expand_fields :: "string list \<Rightarrow> nat list" where
  "expand_fields fs =
     (if [] \<in> set fs then
        let pre = takeWhile (\<lambda>f. f \<noteq> []) fs; post = rev (takeWhile (\<lambda>f. f \<noteq> []) (rev fs)) in
        map (num_val 16) pre @ replicate (8 - length pre - length post) 0 @ map (num_val 16) post
      else map (num_val 16) fs)"

lemma map_hex_val [simp]: "map (num_val 16 \<circ> hex_string) g = g"
  by (simp add: comp_def hex_val)

lemma hex_nonempty: "\<forall>x \<in> set (map hex_string g). x \<noteq> [] \<and> CHR '':'' \<notin> set x"
  by (auto dest: hex_string_chars)

lemma zero_run_prefix: "i + zero_run g i \<le> length g \<or> length g \<le> i"
  using length_takeWhile_le [of "\<lambda>x. x = 0" "drop i g"] by (auto simp: zero_run_def)

lemma zero_run_zeros: "take (zero_run g i) (drop i g) = replicate (zero_run g i) 0"
proof -
  have "takeWhile (\<lambda>x. x = 0) (drop i g) = take (zero_run g i) (drop i g)"
    unfolding zero_run_def by (rule takeWhile_eq_take)
  moreover have "replicate (length (takeWhile (\<lambda>x. x = 0) (drop i g))) 0
      = takeWhile (\<lambda>x. x = 0) (drop i g)"
    by (rule replicate_eqI [symmetric]) (auto dest: set_takeWhileD)
  ultimately show ?thesis by (simp add: zero_run_def)
qed

lemma best_run_Some:
  assumes "best_run g = Some (s, e)"
  shows "s < length g \<and> e = s + zero_run g s"
proof -
  have "foldl (\<lambda>best i. let l = zero_run g i in
       if 2 \<le> l \<and> (case best of None \<Rightarrow> True | Some (s, e) \<Rightarrow> e - s < l)
       then Some (i, i + l) else best) None [0..<n] = Some (s, e) \<Longrightarrow> s < n \<and> e = s + zero_run g s" for n
    by (induction n) (auto simp: Let_def split: if_splits)
  with assms show ?thesis by (simp add: best_run_def)
qed

lemma expand_compressed:
  assumes "length g = 8" "best_run g = Some (s, e)"
  shows "expand_fields (split_on (CHR '':'')
     (join '':'' (map hex_string (take s g)) @ ''::'' @ join '':'' (map hex_string (drop e g)))) = g"
proof -
  let ?pre = "map hex_string (take s g)" and ?post = "map hex_string (drop e g)"
  let ?mid = "\<lambda>xs. if xs = [] then [[]] else xs"
  note run = best_run_Some [OF assms(2)]
  have e: "e \<le> 8" "s \<le> e" using run zero_run_prefix [of s g] assms(1) by auto
  have "split_on (CHR '':'') (join '':'' ?pre @ ''::'' @ join '':'' ?post)
      = ?mid ?pre @ [[]] @ ?mid ?post"
    using hex_nonempty [of "take s g"] hex_nonempty [of "drop e g"]
    by (auto simp: split_on_join_append split_on_join)
  moreover have "takeWhile (\<lambda>f. f \<noteq> []) (?mid ?pre @ [[]] @ ?mid ?post) = ?pre"
    by (auto simp: takeWhile_tail)
  moreover have "takeWhile (\<lambda>f. f \<noteq> []) (rev (?mid ?pre @ [[]] @ ?mid ?post)) = rev ?post"
    by (auto simp: takeWhile_tail rev_map)
  moreover have "take s g @ replicate (e - s) 0 @ drop e g = g"
  proof -
    have "take (e - s) (drop s g) = replicate (e - s) 0"
      using zero_run_zeros [of g s] run by simp
    moreover have "take s g @ take (e - s) (drop s g) @ drop e g = g"
      using e by (metis append_take_drop_id drop_drop le_add_diff_inverse2)
    ultimately show ?thesis by simp
  qed
  ultimately show ?thesis
    using e assms(1) by (simp add: expand_fields_def Let_def)
qed

lemma expand_ip6_string:
  assumes "length (groups ip) = 8"
  shows "expand_fields (split_on (CHR '':'') (ip6_string ip)) = groups ip"
proof (cases "best_run (groups ip)")
  case None
  have "split_on (CHR '':'') (join '':'' (map hex_string (groups ip))) = map hex_string (groups ip)"
    by (rule split_on_join) (use assms in \<open>auto dest: hex_string_chars\<close>)
  moreover have "[] \<notin> set (map hex_string (groups ip))"
    using hex_nonempty [of "groups ip"] by blast
  ultimately show ?thesis using None by (simp add: ip6_string_def expand_fields_def)
next
  case (Some a)
  then show ?thesis
    using expand_compressed [OF assms] by (cases a) (simp add: ip6_string_def Let_def)
qed

lemma length_groups: "length (groups ip) = length ip div 2"
  by (induction ip rule: groups.induct) auto

lemma u16be_inj: "u16be a b = u16be c d \<longleftrightarrow> a = c \<and> b = d"
  by (metis be16_u16be list.inject)

lemma groups_inj: "length ip = length ip' \<Longrightarrow> even (length ip) \<Longrightarrow> groups ip = groups ip' \<Longrightarrow> ip = ip'"
proof (induction ip arbitrary: ip' rule: groups.induct)
  case (1 a b bs)
  then obtain c d cs where "ip' = c # d # cs"
    by (metis length_Suc_conv)
  with 1 show ?case by (auto simp: u16be_inj simp flip: word_unat_eq_iff)
qed auto

lemma ip6_string_inj:
  "length ip = 16 \<Longrightarrow> length ip' = 16 \<Longrightarrow> ip6_string ip = ip6_string ip' \<Longrightarrow> ip = ip'"
  using expand_ip6_string [of ip] expand_ip6_string [of ip'] groups_inj [of ip ip']
  by (simp add: length_groups)

lemma join_colon: "1 < length xs \<Longrightarrow> CHR '':'' \<in> set (join '':'' xs)"
  by (cases xs rule: join.cases [of "('':'', xs)" for xs, simplified]) auto

lemma ip6_string_colon: "length ip = 16 \<Longrightarrow> CHR '':'' \<in> set (ip6_string ip)"
  using join_colon [of "map hex_string (groups ip)"]
  by (auto simp: ip6_string_def Let_def length_groups split: option.splits)

lemma ip6_string_no_gt: "CHR ''>'' \<notin> set (ip6_string ip)"
proof -
  have "CHR ''>'' \<notin> set (join '':'' (map hex_string g))" for g
    using join_set [of "'':''" "map hex_string g"] by (auto dest!: hex_string_chars)
  then show ?thesis by (auto simp: ip6_string_def Let_def split: option.splits)
qed

text \<open>The textual form determines the address, up to the IPv4-mapped representation.\<close>

lemma ip_string_inj:
  assumes "length ip = 4 \<or> length ip = 16" "length ip' = 4 \<or> length ip' = 16"
    and eq: "ip_string ip = ip_string ip'"
  shows "To16 ip = To16 ip'"
proof -
  have str: "ip_string x = (if To4 x = [] then ip6_string x else dotted (To4 x))"
    if "length x = 4 \<or> length x = 16" for x
    using that length_To4 [of x] by (auto simp: ip_string_def)
  have v6: "length x = 16" if "length x = 4 \<or> length x = 16" "To4 x = []" for x
    using that by (auto simp: To4_def)
  show ?thesis
  proof (cases "To4 ip = []"; cases "To4 ip' = []")
    assume "To4 ip = []" "To4 ip' = []"
    then show ?thesis
      using eq assms v6 ip6_string_inj [of ip ip'] by (simp add: str)
  next
    assume "To4 ip = []" "To4 ip' \<noteq> []"
    then show ?thesis
      using eq assms v6 [of ip] ip6_string_colon [of ip] dotted_no_sep [of "To4 ip'"] by (simp add: str)
  next
    assume "To4 ip \<noteq> []" "To4 ip' = []"
    then show ?thesis
      using eq assms v6 [of ip'] ip6_string_colon [of ip'] dotted_no_sep [of "To4 ip"] by (simp add: str)
  next
    assume "To4 ip \<noteq> []" "To4 ip' \<noteq> []"
    then show ?thesis
      using eq assms dotted_inj [of "To4 ip" "To4 ip'"] To16_To4 [of ip] To16_To4 [of ip']
      by (simp add: str)
  qed
qed

lemma ip_string_no_gt: "length ip = 4 \<or> length ip = 16 \<Longrightarrow> CHR ''>'' \<notin> set (ip_string ip)"
  by (auto simp: ip_string_def dotted_no_sep ip6_string_no_gt)

end
