(* ===== verification/Pkt.thy ===== *)
theory Pkt
  imports Net_IP
begin

text \<open>
  Package \<^verbatim>\<open>internal/pkt\<close>: the byte-exact packet builders used by the client for probes and by the
  agent for replies. Each builder is the source's sequence of stores into a zeroed buffer; the
  \<open>layout\<close> lemmas show the concatenation of header fields it produces, and the checksum section
  shows that what the builders emit passes the Internet checksum test.
\<close>

section \<open>Constants\<close>

definition ICMPEchoReply :: byte where [simp]: "ICMPEchoReply = 0"
definition ICMPEchoRequest :: byte where [simp]: "ICMPEchoRequest = 8"
definition ICMPv6EchoRequest :: byte where [simp]: "ICMPv6EchoRequest = 128"
definition ICMPv6EchoReply :: byte where [simp]: "ICMPv6EchoReply = 129"

definition EtherTypeIPv4 :: u16 where [simp]: "EtherTypeIPv4 = 0x0800"
definition EtherTypeIPv6 :: u16 where [simp]: "EtherTypeIPv6 = 0x86DD"
definition EtherTypeVLAN :: u16 where [simp]: "EtherTypeVLAN = 0x8100"

definition FlagFIN :: byte where [simp]: "FlagFIN = 0x01"
definition FlagSYN :: byte where [simp]: "FlagSYN = 0x02"
definition FlagRST :: byte where [simp]: "FlagRST = 0x04"
definition FlagPSH :: byte where [simp]: "FlagPSH = 0x08"
definition FlagACK :: byte where [simp]: "FlagACK = 0x10"

definition ProtoICMP :: byte where [simp]: "ProtoICMP = 1"
definition ProtoTCP :: byte where [simp]: "ProtoTCP = 6"
definition ProtoUDP :: byte where [simp]: "ProtoUDP = 17"
definition ProtoICMPv6 :: byte where [simp]: "ProtoICMPv6 = 58"

section \<open>Checksums\<close>

text \<open>The summing loop: 16-bit words in network order, an odd last byte padded with zero.\<close>

fun sum16 :: "bytes \<Rightarrow> u32 \<Rightarrow> u32" where
  "sum16 (a # b # r) s = sum16 r (s + (push_bit 8 (ucast a) OR ucast b))"
| "sum16 [x] s = s + push_bit 8 (ucast x)"
| "sum16 [] s = s"

lemma unat_low16: "unat ((s :: u32) AND 0xFFFF) = unat s mod 65536"
proof -
  have "(0xFFFF :: u32) = mask 16" by (simp add: mask_eq_exp_minus_1)
  then have "s AND 0xFFFF = take_bit 16 s" by (simp add: take_bit_eq_mask)
  then show ?thesis by (simp add: unsigned_take_bit_eq take_bit_nat_def)
qed

lemma unat_high16: "unat (drop_bit 16 (s :: u32)) = unat s div 65536"
  by (simp add: unat_drop_bit_eq drop_bit_nat_def)

lemma unat_fold_step:
  "unat (((s :: u32) AND 0xFFFF) + drop_bit 16 s) = unat s mod 65536 + unat s div 65536"
proof -
  have "unat s < 2 ^ 32" using unsigned_less [of s, where ?'a = nat] by simp
  then have "unat s div 65536 < 65536" by (simp add: less_mult_imp_div_less)
  moreover have "unat s mod 65536 < 65536" by simp
  ultimately have "unat s mod 65536 + unat s div 65536 < 4294967296" by linarith
  then show ?thesis by (simp add: unat_word_ariths unat_low16 unat_high16)
qed

lemma drop16_eq_0: "drop_bit 16 (s :: u32) = 0 \<longleftrightarrow> unat s < 65536"
proof -
  have "drop_bit 16 s = 0 \<longleftrightarrow> unat s div 65536 = 0"
    by (simp add: word_unat_eq_iff unat_high16)
  then show ?thesis by (simp add: div_eq_0_iff)
qed

function fold16 :: "u32 \<Rightarrow> u32" where
  "fold16 s = (if drop_bit 16 s \<noteq> 0 then fold16 ((s AND 0xFFFF) + drop_bit 16 s) else s)"
  by pat_completeness auto
termination
proof (relation "measure unat")
  fix s :: u32
  assume "drop_bit 16 s \<noteq> 0"
  then have "65536 \<le> unat s" by (simp add: drop16_eq_0)
  then have "0 < unat s div 65536" by (simp add: div_greater_zero_iff)
  moreover have "unat s = unat s mod 65536 + 65536 * (unat s div 65536)" by simp
  ultimately have "unat s mod 65536 + unat s div 65536 < unat s" by linarith
  then show "((s AND 0xFFFF) + drop_bit 16 s, s) \<in> measure unat"
    by (simp add: unat_fold_step)
qed simp

declare fold16.simps [simp del]

definition checksum :: "bytes \<Rightarrow> u16" where
  "checksum b = NOT (ucast (fold16 (sum16 b 0)))"

definition l4Checksum :: "byte \<Rightarrow> bytes \<Rightarrow> bytes \<Rightarrow> bytes \<Rightarrow> u16" where
  "l4Checksum proto src dst segment =
     (let pseudo = make_bytes (12 + length segment);
          pseudo = copy_range pseudo 0 4 (To4 src);
          pseudo = copy_range pseudo 4 8 (To4 dst);
          pseudo = pseudo[9 := proto];
          pseudo = copy_range pseudo 10 12 (be16 (of_nat (length segment)));
          pseudo = copy_from pseudo 12 segment
      in checksum pseudo)"

definition l4Checksum6 :: "byte \<Rightarrow> bytes \<Rightarrow> bytes \<Rightarrow> bytes \<Rightarrow> u16" where
  "l4Checksum6 nextHdr src dst segment =
     (let ph = make_bytes (40 + length segment);
          ph = copy_range ph 0 16 (To16 src);
          ph = copy_range ph 16 32 (To16 dst);
          ph = copy_range ph 32 36 (be32 (of_nat (length segment)));
          ph = ph[39 := nextHdr];
          ph = copy_from ph 40 segment
      in checksum ph)"

section \<open>Builders\<close>

definition IPv4 :: "byte \<Rightarrow> byte \<Rightarrow> byte \<Rightarrow> bytes \<Rightarrow> bytes \<Rightarrow> bytes \<Rightarrow> bytes" where
  "IPv4 tos ttl proto src dst payload =
     (let total = 20 + length payload;
          h = make_bytes total;
          h = h[0 := 0x45];
          h = h[1 := tos];
          h = copy_range h 2 4 (be16 (of_nat total));
          h = copy_range h 4 6 (be16 0);
          h = copy_range h 6 8 (be16 0x4000);
          h = h[8 := ttl];
          h = h[9 := proto];
          h = copy_range h 12 16 (To4 src);
          h = copy_range h 16 20 (To4 dst);
          h = copy_range h 10 12 (be16 (checksum (take 20 h)));
          h = copy_from h 20 payload
      in h)"

definition ICMP :: "byte \<Rightarrow> u16 \<Rightarrow> u16 \<Rightarrow> bytes \<Rightarrow> bytes" where
  "ICMP icmpType ident seq payload =
     (let b = make_bytes (8 + length payload);
          b = b[0 := icmpType];
          b = b[1 := 0];
          b = copy_range b 4 6 (be16 ident);
          b = copy_range b 6 8 (be16 seq);
          b = copy_from b 8 payload;
          b = copy_range b 2 4 (be16 (checksum b))
      in b)"

definition UDP :: "bytes \<Rightarrow> bytes \<Rightarrow> u16 \<Rightarrow> u16 \<Rightarrow> bytes \<Rightarrow> bytes" where
  "UDP src dst sport dport payload =
     (let b = make_bytes (8 + length payload);
          b = copy_range b 0 2 (be16 sport);
          b = copy_range b 2 4 (be16 dport);
          b = copy_range b 4 6 (be16 (of_nat (8 + length payload)));
          b = copy_from b 8 payload;
          b = copy_range b 6 8 (be16 (l4Checksum ProtoUDP src dst b))
      in b)"

definition TCP :: "bytes \<Rightarrow> bytes \<Rightarrow> u16 \<Rightarrow> u16 \<Rightarrow> u32 \<Rightarrow> u32 \<Rightarrow> byte \<Rightarrow> bytes \<Rightarrow> bytes" where
  "TCP src dst sport dport seq ack flags payload =
     (let b = make_bytes (20 + length payload);
          b = copy_range b 0 2 (be16 sport);
          b = copy_range b 2 4 (be16 dport);
          b = copy_range b 4 8 (be32 seq);
          b = copy_range b 8 12 (be32 ack);
          b = b[12 := push_bit 4 5];
          b = b[13 := flags];
          b = copy_range b 14 16 (be16 0xFFFF);
          b = copy_from b 20 payload;
          b = copy_range b 16 18 (be16 (l4Checksum ProtoTCP src dst b))
      in b)"

definition Ethernet :: "bytes \<Rightarrow> bytes \<Rightarrow> u16 \<Rightarrow> bytes \<Rightarrow> bytes" where
  "Ethernet dstMAC srcMAC etherType payload =
     (let b = make_bytes (14 + length payload);
          b = copy_range b 0 6 dstMAC;
          b = copy_range b 6 12 srcMAC;
          b = copy_range b 12 14 (be16 etherType);
          b = copy_from b 14 payload
      in b)"

definition EthernetVLAN :: "bytes \<Rightarrow> bytes \<Rightarrow> u16 \<Rightarrow> u16 \<Rightarrow> bytes \<Rightarrow> bytes" where
  "EthernetVLAN dstMAC srcMAC vlanID etherType payload =
     (let b = make_bytes (18 + length payload);
          b = copy_range b 0 6 dstMAC;
          b = copy_range b 6 12 srcMAC;
          b = copy_range b 12 14 (be16 EtherTypeVLAN);
          b = copy_range b 14 16 (be16 (vlanID AND 0x0FFF));
          b = copy_range b 16 18 (be16 etherType);
          b = copy_from b 18 payload
      in b)"

definition IPv6 :: "byte \<Rightarrow> byte \<Rightarrow> byte \<Rightarrow> bytes \<Rightarrow> bytes \<Rightarrow> bytes \<Rightarrow> bytes" where
  "IPv6 tc hopLimit nextHdr src dst payload =
     (let b = make_bytes (40 + length payload);
          b = b[0 := 0x60 OR drop_bit 4 tc];
          b = b[1 := push_bit 4 tc AND 0xF0];
          b = copy_range b 4 6 (be16 (of_nat (length payload)));
          b = b[6 := nextHdr];
          b = b[7 := hopLimit];
          b = copy_range b 8 24 (To16 src);
          b = copy_range b 24 40 (To16 dst);
          b = copy_from b 40 payload
      in b)"

definition ICMPv6 :: "byte \<Rightarrow> u16 \<Rightarrow> u16 \<Rightarrow> bytes \<Rightarrow> bytes \<Rightarrow> bytes \<Rightarrow> bytes" where
  "ICMPv6 icmpType ident seq src dst payload =
     (let b = make_bytes (8 + length payload);
          b = b[0 := icmpType];
          b = b[1 := 0];
          b = copy_range b 4 6 (be16 ident);
          b = copy_range b 6 8 (be16 seq);
          b = copy_from b 8 payload;
          b = copy_range b 2 4 (be16 (l4Checksum6 ProtoICMPv6 src dst b))
      in b)"

definition UDP6 :: "bytes \<Rightarrow> bytes \<Rightarrow> u16 \<Rightarrow> u16 \<Rightarrow> bytes \<Rightarrow> bytes" where
  "UDP6 src dst sport dport payload =
     (let b = make_bytes (8 + length payload);
          b = copy_range b 0 2 (be16 sport);
          b = copy_range b 2 4 (be16 dport);
          b = copy_range b 4 6 (be16 (of_nat (8 + length payload)));
          b = copy_from b 8 payload;
          b = copy_range b 6 8 (be16 (l4Checksum6 ProtoUDP src dst b))
      in b)"

definition TCP6 :: "bytes \<Rightarrow> bytes \<Rightarrow> u16 \<Rightarrow> u16 \<Rightarrow> u32 \<Rightarrow> u32 \<Rightarrow> byte \<Rightarrow> bytes \<Rightarrow> bytes" where
  "TCP6 src dst sport dport seq ack flags payload =
     (let b = make_bytes (20 + length payload);
          b = copy_range b 0 2 (be16 sport);
          b = copy_range b 2 4 (be16 dport);
          b = copy_range b 4 8 (be32 seq);
          b = copy_range b 8 12 (be32 ack);
          b = b[12 := push_bit 4 5];
          b = b[13 := flags];
          b = copy_range b 14 16 (be16 0xFFFF);
          b = copy_from b 20 payload;
          b = copy_range b 16 18 (be16 (l4Checksum6 ProtoTCP src dst b))
      in b)"

definition VXLAN :: "u32 \<Rightarrow> bytes \<Rightarrow> bytes" where
  "VXLAN vni innerFrame =
     (let b = make_bytes (8 + length innerFrame);
          b = b[0 := 0x08];
          b = copy_range b 4 8 (be32 (push_bit 8 vni));
          b = copy_from b 8 innerFrame
      in b)"

section \<open>Layouts\<close>

definition addr4 :: "bytes \<Rightarrow> bytes" where
  "addr4 ip = pad 4 (To4 ip)"

definition addr16 :: "bytes \<Rightarrow> bytes" where
  "addr16 ip = pad 16 (To16 ip)"

lemma length_addr [simp]: "length (addr4 ip) = 4" "length (addr16 ip) = 16"
  by (simp_all add: addr4_def addr16_def)

lemma addr4_id [simp]: "length ip = 4 \<Longrightarrow> addr4 ip = ip"
  by (simp add: addr4_def)

lemma addr16_id [simp]: "length ip = 16 \<Longrightarrow> addr16 ip = ip"
  by (simp add: addr16_def)

lemma l4Checksum_layout:
  "l4Checksum proto src dst seg =
     checksum (addr4 src @ addr4 dst @ [0, proto] @ be16 (of_nat (length seg)) @ seg)"
proof -
  have "make_bytes (12 + length seg) =
      make_bytes 4 @ make_bytes 4 @ 0 # 0 # make_bytes 2 @ make_bytes (length seg)"
    by (simp add: zero_blocks)
  then show ?thesis
    unfolding l4Checksum_def by (simp add: layout Let_def addr4_def)
qed

lemma l4Checksum6_layout:
  "l4Checksum6 nh src dst seg =
     checksum (addr16 src @ addr16 dst @ be32 (of_nat (length seg)) @ [0, 0, 0, nh] @ seg)"
proof -
  have "make_bytes (40 + length seg) =
      make_bytes 16 @ make_bytes 16 @ make_bytes 4 @ 0 # 0 # 0 # 0 # make_bytes (length seg)"
    by (simp add: zero_blocks)
  then show ?thesis
    unfolding l4Checksum6_def by (simp add: layout Let_def addr16_def)
qed

definition ip4_front :: "byte \<Rightarrow> byte \<Rightarrow> byte \<Rightarrow> nat \<Rightarrow> bytes" where
  "ip4_front tos ttl proto len =
     [0x45, tos] @ be16 (of_nat len) @ be16 0 @ be16 0x4000 @ [ttl, proto]"

lemma length_ip4_front [simp]: "length (ip4_front tos ttl proto len) = 10"
  by (simp add: ip4_front_def)

lemma IPv4_layout:
  "IPv4 tos ttl proto src dst p =
     (let f = ip4_front tos ttl proto (20 + length p); a = addr4 src @ addr4 dst
      in f @ be16 (checksum (f @ make_bytes 2 @ a)) @ a @ p)"
proof -
  have "make_bytes (20 + length p) =
      0 # 0 # make_bytes 2 @ make_bytes 2 @ make_bytes 2 @ 0 # 0 # make_bytes 2 @
      make_bytes 4 @ make_bytes 4 @ make_bytes (length p)"
    by (simp add: zero_blocks)
  then show ?thesis
    unfolding IPv4_def by (simp add: layout Let_def addr4_def ip4_front_def)
qed

definition icmp_front :: "byte \<Rightarrow> bytes" where
  "icmp_front t = [t, 0]"

lemma length_icmp_front [simp]: "length (icmp_front t) = 2"
  by (simp add: icmp_front_def)

lemma make_bytes_icmp: "make_bytes (8 + n) = 0 # 0 # make_bytes 2 @ make_bytes 2 @ make_bytes 2 @ make_bytes n"
  by (simp add: zero_blocks)

lemma ICMP_layout:
  "ICMP t i q p = (let r = be16 i @ be16 q @ p in
     icmp_front t @ be16 (checksum (icmp_front t @ make_bytes 2 @ r)) @ r)"
  unfolding ICMP_def make_bytes_icmp by (simp add: layout Let_def icmp_front_def)

lemma ICMPv6_layout:
  "ICMPv6 t i q src dst p = (let r = be16 i @ be16 q @ p in
     icmp_front t @ be16 (l4Checksum6 58 src dst (icmp_front t @ make_bytes 2 @ r)) @ r)"
  unfolding ICMPv6_def make_bytes_icmp by (simp add: layout Let_def icmp_front_def)

definition udp_front :: "u16 \<Rightarrow> u16 \<Rightarrow> nat \<Rightarrow> bytes" where
  "udp_front sport dport len = be16 sport @ be16 dport @ be16 (of_nat len)"

lemma length_udp_front [simp]: "length (udp_front sport dport len) = 6"
  by (simp add: udp_front_def)

lemma make_bytes_udp: "make_bytes (8 + n) = make_bytes 2 @ make_bytes 2 @ make_bytes 2 @ make_bytes 2 @ make_bytes n"
  by (simp add: zero_blocks)

lemma UDP_layout:
  "UDP src dst sport dport p = (let f = udp_front sport dport (8 + length p) in
     f @ be16 (l4Checksum 17 src dst (f @ make_bytes 2 @ p)) @ p)"
  unfolding UDP_def make_bytes_udp by (simp add: layout Let_def udp_front_def)

lemma UDP6_layout:
  "UDP6 src dst sport dport p = (let f = udp_front sport dport (8 + length p) in
     f @ be16 (l4Checksum6 17 src dst (f @ make_bytes 2 @ p)) @ p)"
  unfolding UDP6_def make_bytes_udp by (simp add: layout Let_def udp_front_def)

definition tcp_front :: "u16 \<Rightarrow> u16 \<Rightarrow> u32 \<Rightarrow> u32 \<Rightarrow> byte \<Rightarrow> bytes" where
  "tcp_front sport dport seq ack flags =
     be16 sport @ be16 dport @ be32 seq @ be32 ack @ [0x50, flags] @ be16 0xFFFF"

lemma length_tcp_front [simp]: "length (tcp_front sport dport seq ack flags) = 16"
  by (simp add: tcp_front_def)

lemma make_bytes_tcp: "make_bytes (20 + n) = make_bytes 2 @ make_bytes 2 @ make_bytes 4 @ make_bytes 4 @
    0 # 0 # make_bytes 2 @ make_bytes 2 @ make_bytes 2 @ make_bytes n"
  by (simp add: zero_blocks)

lemma TCP_layout:
  "TCP src dst sport dport seq ack flags p = (let f = tcp_front sport dport seq ack flags; r = make_bytes 2 @ p in
     f @ be16 (l4Checksum 6 src dst (f @ make_bytes 2 @ r)) @ r)"
  unfolding TCP_def make_bytes_tcp by (simp add: layout Let_def tcp_front_def)

lemma TCP6_layout:
  "TCP6 src dst sport dport seq ack flags p = (let f = tcp_front sport dport seq ack flags; r = make_bytes 2 @ p in
     f @ be16 (l4Checksum6 6 src dst (f @ make_bytes 2 @ r)) @ r)"
  unfolding TCP6_def make_bytes_tcp by (simp add: layout Let_def tcp_front_def)

lemma Ethernet_layout: "Ethernet d s et p = pad 6 d @ pad 6 s @ be16 et @ p"
proof -
  have "make_bytes (14 + length p) = make_bytes 6 @ make_bytes 6 @ make_bytes 2 @ make_bytes (length p)"
    by (simp add: zero_blocks)
  then show ?thesis unfolding Ethernet_def by (simp add: layout Let_def)
qed

lemma EthernetVLAN_layout:
  "EthernetVLAN d s vid et p = pad 6 d @ pad 6 s @ be16 0x8100 @ be16 (vid AND 0x0FFF) @ be16 et @ p"
proof -
  have "make_bytes (18 + length p) = make_bytes 6 @ make_bytes 6 @ make_bytes 2 @ make_bytes 2 @
      make_bytes 2 @ make_bytes (length p)"
    by (simp add: zero_blocks)
  then show ?thesis unfolding EthernetVLAN_def by (simp add: layout Let_def)
qed

lemma IPv6_layout:
  "IPv6 tc hop nh src dst p = [0x60 OR drop_bit 4 tc, push_bit 4 tc AND 0xF0, 0, 0] @
     be16 (of_nat (length p)) @ [nh, hop] @ addr16 src @ addr16 dst @ p"
proof -
  have "make_bytes (40 + length p) = 0 # 0 # 0 # 0 # make_bytes 2 @ 0 # 0 # make_bytes 16 @
      make_bytes 16 @ make_bytes (length p)"
    by (simp add: zero_blocks)
  then show ?thesis unfolding IPv6_def by (simp add: layout Let_def addr16_def)
qed

lemma VXLAN_layout: "VXLAN vni p = [0x08, 0, 0, 0] @ be32 (push_bit 8 vni) @ p"
proof -
  have "make_bytes (8 + length p) = 0 # 0 # 0 # 0 # make_bytes 4 @ make_bytes (length p)"
    by (simp add: zero_blocks)
  then show ?thesis unfolding VXLAN_def by (simp add: layout Let_def)
qed

section \<open>Correctness of the checksums\<close>

text \<open>The sum of a buffer as a number, without the wrap-around of \<^verbatim>\<open>uint32\<close>.\<close>

fun wsum :: "bytes \<Rightarrow> nat" where
  "wsum (a # b # r) = 256 * unat a + unat b + wsum r"
| "wsum [x] = 256 * unat x"
| "wsum [] = 0"

lemma unat_byte: "unat (b :: byte) < 256"
  using unsigned_less [of b, where ?'a = nat] by simp

lemma unat_hi: "unat (push_bit 8 (ucast (a :: byte)) :: u32) = 256 * unat a"
  using unat_byte [of a] by (simp add: push_bit_eq_mult unat_word_ariths unsigned_ucast_eq
      take_bit_nat_def)

lemma unat_pair32: "unat (push_bit 8 (ucast a) OR ucast b :: u32) = 256 * unat (a :: byte) + unat (b :: byte)"
proof -
  have "push_bit 8 (ucast a) OR ucast b = (push_bit 8 (ucast a) + ucast b :: u32)"
    by (rule disjunctive_add_eq_or [symmetric]) (auto simp: bit_eq_iff bit_simps)
  moreover have "unat (ucast b :: u32) = unat b"
    using unat_byte [of b] by (simp add: unsigned_ucast_eq take_bit_nat_def)
  ultimately show ?thesis
    using unat_byte [of a] unat_byte [of b] by (simp add: unat_word_ariths unat_hi)
qed

lemma unat_u16be: "unat (u16be a b) = 256 * unat a + unat b"
proof -
  have "u16be a b = push_bit 8 (ucast a) + ucast b"
    unfolding u16be_def
    by (rule disjunctive_add_eq_or [symmetric]) (auto simp: bit_eq_iff bit_simps)
  moreover have "unat (ucast x :: u16) = unat x" for x :: byte
    using unat_byte [of x] by (simp add: unsigned_ucast_eq take_bit_nat_def)
  ultimately show ?thesis
    using unat_byte [of a] unat_byte [of b] by (simp add: unat_word_ariths push_bit_eq_mult)
qed

lemma unat_sum16: "unat s + wsum b < 2 ^ 32 \<Longrightarrow> unat (sum16 b s) = unat s + wsum b"
proof (induction b s rule: sum16.induct)
  case (1 a b r s)
  have "unat (s + (push_bit 8 (ucast a) OR ucast b)) = unat s + (256 * unat a + unat b)"
    using "1.prems" by (simp add: unat_word_ariths unat_pair32)
  then show ?case using 1 by simp
next
  case (2 x s)
  then show ?case by (simp add: unat_word_ariths unat_hi)
qed simp

lemma wsum_le: "wsum b \<le> 65535 * ((length b + 1) div 2)"
proof (induction b rule: wsum.induct)
  case (1 a b r)
  have "256 * unat a + unat b \<le> 65535"
    using unat_byte [of a] unat_byte [of b] by simp
  then show ?case using 1 by simp
next
  case (2 x)
  then show ?case using unat_byte [of x] by simp
qed simp

lemma wsum_append: "even (length a) \<Longrightarrow> wsum (a @ b) = wsum a + wsum b"
  by (induction a rule: wsum.induct) auto

lemma wsum_be16: "wsum (be16 c) = unat c"
  using unat_u16be [of "ucast (drop_bit 8 c)" "ucast c"] by (simp add: be16_def)

lemma fold16_spec:
  "unat (fold16 s) < 65536 \<and> unat (fold16 s) mod 65535 = unat s mod 65535 \<and> (fold16 s = 0 \<longleftrightarrow> s = 0)"
proof (induction s rule: fold16.induct)
  case (1 s)
  show ?case
  proof (cases "drop_bit 16 s = 0")
    case True
    then show ?thesis by (simp add: fold16.simps [of s] drop16_eq_0)
  next
    case False
    let ?t = "(s AND 0xFFFF) + drop_bit 16 s"
    have pos: "0 < unat s div 65536" using False by (simp add: drop16_eq_0 div_greater_zero_iff)
    have "unat s = unat s mod 65536 + unat s div 65536 + 65535 * (unat s div 65536)"
      by simp
    then have "unat s mod 65535 = unat ?t mod 65535"
      unfolding unat_fold_step by (metis mod_mult_self2)
    moreover have "?t \<noteq> 0 \<and> s \<noteq> 0"
      using pos unat_fold_step [of s] by auto
    ultimately show ?thesis
      using 1 [OF False] False by (simp add: fold16.simps [of s])
  qed
qed

lemma unat_checksum: "unat (checksum b) = 65535 - unat (fold16 (sum16 b 0))"
proof -
  let ?f = "fold16 (sum16 b 0)"
  have f: "unat ?f < 65536" using fold16_spec by blast
  then have "unat (ucast ?f :: u16) = unat ?f"
    by (simp add: unsigned_ucast_eq take_bit_nat_def)
  moreover have "NOT (x :: u16) = 65535 - x" for x
  proof -
    have "(65535 :: u16) = - 1" by simp
    then show ?thesis by (simp only: not_eq_complement) simp
  qed
  ultimately show ?thesis
    using f by (simp add: checksum_def unat_sub word_le_nat_alt)
qed

text \<open>A buffer passes the Internet checksum test exactly when its sum is a nonzero multiple of 65535.\<close>

lemma checksum_eq_0_iff:
  assumes "wsum b < 2 ^ 32"
  shows "checksum b = 0 \<longleftrightarrow> 0 < wsum b \<and> wsum b mod 65535 = 0"
proof -
  let ?f = "fold16 (sum16 b 0)"
  have s: "unat (sum16 b 0) = wsum b" using assms unat_sum16 [of 0 b] by simp
  note spec = fold16_spec [of "sum16 b 0"]
  have "checksum b = 0 \<longleftrightarrow> unat ?f = 65535"
    using unat_checksum [of b] spec by (auto simp: word_unat_eq_iff)
  also have "\<dots> \<longleftrightarrow> ?f \<noteq> 0 \<and> unat ?f mod 65535 = 0"
  proof -
    have "unat ?f = 65535" if "unat ?f mod 65535 = 0" "0 < unat ?f"
    proof -
      from that obtain q where q: "unat ?f = 65535 * q" by auto
      then show ?thesis using spec that(2) by (cases q rule: nat.exhaust; cases "q - 1") auto
    qed
    then show ?thesis by (auto simp: unat_gt_0)
  qed
  also have "\<dots> \<longleftrightarrow> 0 < wsum b \<and> wsum b mod 65535 = 0"
    using spec s by (auto simp: word_unat_eq_iff)
  finally show ?thesis .
qed

text \<open>Storing the checksum of a buffer in its zero checksum field makes the buffer pass the test.\<close>

lemma checksum_insert:
  assumes "even (length pre)" and "length (pre @ make_bytes 2 @ post) \<le> 131070"
  shows "checksum (pre @ be16 (checksum (pre @ make_bytes 2 @ post)) @ post) = 0"
proof -
  let ?z = "pre @ make_bytes 2 @ post"
  let ?c = "checksum ?z"
  have z2: "wsum (make_bytes 2) = 0" "length (make_bytes 2) = 2"
    by (simp_all add: make_bytes_def numeral_2_eq_2)
  have sum: "wsum (pre @ be16 ?c @ post) = wsum ?z + unat ?c"
    using assms(1) by (simp add: wsum_append wsum_be16 z2)
  have "wsum ?z \<le> 65535 * 65535"
  proof -
    have "(length ?z + 1) div 2 \<le> 65535" using assms(2) by linarith
    then show ?thesis using wsum_le [of ?z] by (meson le_trans mult_le_mono2)
  qed
  then have zlt: "wsum ?z < 2 ^ 32" and lt: "wsum ?z + 65535 < 2 ^ 32" by simp_all
  have s: "unat (sum16 ?z 0) = wsum ?z" using zlt unat_sum16 [of 0 ?z] by simp
  note spec = fold16_spec [of "sum16 ?z 0"]
  have c: "unat ?c = 65535 - unat (fold16 (sum16 ?z 0))" by (rule unat_checksum)
  have f: "unat (fold16 (sum16 ?z 0)) + unat ?c = 65535" using c spec by linarith
  have "(wsum ?z + unat ?c) mod 65535 = (unat (fold16 (sum16 ?z 0)) + unat ?c) mod 65535"
    by (rule mod_add_cong) (use spec s in simp_all)
  then have m: "(wsum ?z + unat ?c) mod 65535 = 0" by (simp only: f mod_self)
  have "0 < wsum ?z + unat ?c"
  proof (cases "wsum ?z = 0")
    case True
    then have "fold16 (sum16 ?z 0) = 0" using spec s by (simp add: word_unat_eq_iff)
    then show ?thesis using f by simp
  qed simp
  moreover have "wsum ?z + unat ?c < 2 ^ 32" using lt f by linarith
  ultimately show ?thesis
    using m sum checksum_eq_0_iff [of "pre @ be16 ?c @ post"] by simp
qed

lemma checksum_pseudo_insert:
  assumes "even (length ps)" "even (length f)" "length ps + length f + 2 + length r \<le> 131070"
  shows "checksum (ps @ f @ be16 (checksum (ps @ f @ make_bytes 2 @ r)) @ r) = 0"
  using checksum_insert [of "ps @ f" r] assms by simp

lemma l4Checksum_insert:
  assumes "even (length f)" "length f + length r \<le> 131056"
  shows "l4Checksum proto src dst (f @ be16 (l4Checksum proto src dst (f @ make_bytes 2 @ r)) @ r) = 0"
  using checksum_pseudo_insert
    [of "addr4 src @ addr4 dst @ [0, proto] @ be16 (of_nat (length f + (2 + length r)))" f r] assms
  by (simp add: l4Checksum_layout)

lemma l4Checksum6_insert:
  assumes "even (length f)" "length f + length r \<le> 131028"
  shows "l4Checksum6 nh src dst (f @ be16 (l4Checksum6 nh src dst (f @ make_bytes 2 @ r)) @ r) = 0"
  using checksum_pseudo_insert
    [of "addr16 src @ addr16 dst @ be32 (of_nat (length f + (2 + length r))) @ [0, 0, 0, nh]" f r] assms
  by (simp add: l4Checksum6_layout)

lemma length_IPv4 [simp]: "length (IPv4 tos ttl proto src dst p) = 20 + length p"
  by (simp add: IPv4_layout Let_def)

lemma length_IPv6 [simp]: "length (IPv6 tc hop nh src dst p) = 40 + length p"
  by (simp add: IPv6_layout)

lemma length_transport [simp]:
  "length (ICMP t i q p) = 8 + length p"
  "length (ICMPv6 t i q src dst p) = 8 + length p"
  "length (UDP src dst sp dp p) = 8 + length p"
  "length (UDP6 src dst sp dp p) = 8 + length p"
  "length (TCP src dst sp dp sq ak fl p) = 20 + length p"
  "length (TCP6 src dst sp dp sq ak fl p) = 20 + length p"
  "length (VXLAN vni p) = 8 + length p"
  by (simp_all add: ICMP_layout ICMPv6_layout UDP_layout UDP6_layout TCP_layout TCP6_layout
      VXLAN_layout Let_def)

section \<open>The checksum of RFC 1071\<close>

text \<open>The standard's definition: 16-bit words added with end-around carry, then complemented.\<close>

definition ocadd :: "nat \<Rightarrow> nat \<Rightarrow> nat" where
  "ocadd x y = (if x + y \<ge> 65536 then x + y - 65535 else x + y)"

fun words16 :: "bytes \<Rightarrow> nat list" where
  "words16 (a # b # r) = (256 * unat a + unat b) # words16 r"
| "words16 [x] = [256 * unat x]"
| "words16 [] = []"

definition rfc1071 :: "bytes \<Rightarrow> nat" where
  "rfc1071 b = 65535 - foldl ocadd 0 (words16 b)"

lemma ocadd_spec:
  assumes "x < 65536" "y < 65536"
  shows "ocadd x y < 65536" "ocadd x y mod 65535 = (x + y) mod 65535" "ocadd x y = 0 \<longleftrightarrow> x + y = 0"
proof -
  have "(x + y - 65535) mod 65535 = (x + y) mod 65535" if "65535 \<le> x + y"
    using that by (simp add: le_mod_geq)
  then show "ocadd x y mod 65535 = (x + y) mod 65535" by (simp add: ocadd_def)
qed (use assms in \<open>auto simp: ocadd_def\<close>)

lemma foldl_ocadd_spec:
  assumes "\<forall>w \<in> set ws. w < 65536" "x < 65536"
  shows "foldl ocadd x ws < 65536 \<and> foldl ocadd x ws mod 65535 = (x + sum_list ws) mod 65535 \<and>
    (foldl ocadd x ws = 0 \<longleftrightarrow> x + sum_list ws = 0)"
  using assms
proof (induction ws arbitrary: x)
  case (Cons w ws)
  then have w: "w < 65536" by simp
  note o = ocadd_spec [OF Cons.prems(2) w]
  have "(ocadd x w + sum_list ws) mod 65535 = (x + w + sum_list ws) mod 65535"
    using o(2) by (metis mod_add_left_eq)
  then show ?case using Cons.IH [OF _ o(1)] Cons.prems(1) o(3) by (auto simp: add.assoc)
qed simp

lemma words16_less: "\<forall>w \<in> set (words16 b). w < 65536"
proof (induction b rule: words16.induct)
  case (1 a b r)
  then show ?case using unat_byte [of a] unat_byte [of b] by simp
next
  case (2 x)
  then show ?case using unat_byte [of x] by simp
qed simp

lemma sum_words16: "sum_list (words16 b) = wsum b"
  by (induction b rule: words16.induct) simp_all

lemma residue_unique:
  assumes "x < 65536" "y < 65536" "x mod 65535 = y mod 65535" "x = 0 \<longleftrightarrow> y = (0 :: nat)"
  shows "x = y"
proof -
  have "z = (if z mod 65535 = 0 then if z = 0 then 0 else 65535 else z mod 65535)" if "z < 65536" for z :: nat
    using that by (cases "z = 65535") auto
  from this [OF assms(1)] this [OF assms(2)] show ?thesis using assms(3,4) by metis
qed

text \<open>A segment with the pseudo header of RFC 768/9293 and of RFC 8200 in front.\<close>

definition pseudo4 :: "byte \<Rightarrow> bytes \<Rightarrow> bytes \<Rightarrow> bytes \<Rightarrow> bytes" where
  "pseudo4 proto src dst seg = addr4 src @ addr4 dst @ [0, proto] @ be16 (of_nat (length seg)) @ seg"

definition pseudo6 :: "byte \<Rightarrow> bytes \<Rightarrow> bytes \<Rightarrow> bytes \<Rightarrow> bytes" where
  "pseudo6 nh src dst seg = addr16 src @ addr16 dst @ be32 (of_nat (length seg)) @ [0, 0, 0, nh] @ seg"

lemma checksum_pseudo:
  "checksum (pseudo4 proto src dst seg) = l4Checksum proto src dst seg"
  "checksum (pseudo6 proto src dst seg) = l4Checksum6 proto src dst seg"
  by (simp_all add: pseudo4_def pseudo6_def l4Checksum_layout l4Checksum6_layout)

section \<open>Properties\<close>

text \<open>
  C31: The folding checksum is the Internet checksum. For buffers of up to 131070 bytes (twice what a
  16-bit length can describe) the 32-bit accumulator does not lose a carry: the deferred-carry loop
  gives the complement of the one's complement sum that RFC 1071 defines.
\<close>

theorem checksum_reference:
  assumes "length b \<le> 131070"
  shows "unat (checksum b) = rfc1071 b"
proof -
  have "(length b + 1) div 2 \<le> 65535" using assms by linarith
  then have "wsum b \<le> 65535 * 65535" using wsum_le [of b] by (meson le_trans mult_le_mono2)
  then have s: "unat (sum16 b 0) = wsum b" using unat_sum16 [of 0 b] by simp
  note f = fold16_spec [of "sum16 b 0"] and o = foldl_ocadd_spec [OF words16_less [of b], of 0]
  have "unat (fold16 (sum16 b 0)) = foldl ocadd 0 (words16 b)"
    by (rule residue_unique) (use f o s in \<open>auto simp: sum_words16 word_unat_eq_iff\<close>)
  then show ?thesis by (simp add: unat_checksum rfc1071_def)
qed

theorem checksum_reference_witness:
  "unat (checksum [0x00, 0x01, 0xF2, 0x03, 0xF4, 0xF5, 0xF6, 0xF7]) = 0x220D"
  using checksum_reference [of "[0x00, 0x01, 0xF2, 0x03, 0xF4, 0xF5, 0xF6, 0xF7]"]
  by (simp add: rfc1071_def ocadd_def)

text \<open>
  The IPv4 header passes the header checksum test, for every choice of fields, addresses and
  payload.
\<close>

theorem ipv4_header_verifies:
  "checksum (take 20 (IPv4 tos ttl proto src dst p)) = 0"
  using checksum_insert [of "ip4_front tos ttl proto (20 + length p)" "addr4 src @ addr4 dst"]
  by (simp add: IPv4_layout Let_def)

text \<open>
  C30: Every transport segment the builders emit passes the checksum test of its protocol: ICMP over
  the message alone, ICMPv6, UDP and TCP over the message and the pseudo header of its addresses,
  for every choice of fields and every payload of up to 131000 bytes.
\<close>

theorem transport_checksums_verify:
  assumes "length p \<le> 131000"
  shows "checksum (ICMP t i q p) = 0 \<and> checksum (pseudo6 ProtoICMPv6 src dst (ICMPv6 t i q src dst p)) = 0 \<and>
     checksum (pseudo4 ProtoUDP src dst (UDP src dst sp dp p)) = 0 \<and> checksum (pseudo6 ProtoUDP src dst (UDP6 src dst sp dp p)) = 0 \<and>
     checksum (pseudo4 ProtoTCP src dst (TCP src dst sp dp sq ak fl p)) = 0 \<and>
     checksum (pseudo6 ProtoTCP src dst (TCP6 src dst sp dp sq ak fl p)) = 0"
proof (intro conjI)
  show "checksum (ICMP t i q p) = 0"
    using assms checksum_insert [of "icmp_front t" "be16 i @ be16 q @ p"] by (simp add: ICMP_layout Let_def checksum_pseudo)
  show "checksum (pseudo6 ProtoICMPv6 src dst (ICMPv6 t i q src dst p)) = 0"
    using assms l4Checksum6_insert [of "icmp_front t" "be16 i @ be16 q @ p"] by (simp add: ICMPv6_layout Let_def checksum_pseudo)
  show "checksum (pseudo4 ProtoUDP src dst (UDP src dst sp dp p)) = 0"
    using assms l4Checksum_insert [of "udp_front sp dp (8 + length p)" p] by (simp add: UDP_layout Let_def checksum_pseudo)
  show "checksum (pseudo6 ProtoUDP src dst (UDP6 src dst sp dp p)) = 0"
    using assms l4Checksum6_insert [of "udp_front sp dp (8 + length p)" p] by (simp add: UDP6_layout Let_def checksum_pseudo)
  show "checksum (pseudo4 ProtoTCP src dst (TCP src dst sp dp sq ak fl p)) = 0"
    using assms l4Checksum_insert [of "tcp_front sp dp sq ak fl"] by (simp add: TCP_layout Let_def checksum_pseudo)
  show "checksum (pseudo6 ProtoTCP src dst (TCP6 src dst sp dp sq ak fl p)) = 0"
    using assms l4Checksum6_insert [of "tcp_front sp dp sq ak fl"] by (simp add: TCP6_layout Let_def checksum_pseudo)
qed

theorem transport_checksums_verify_witness:
  "checksum (pseudo4 ProtoUDP [10, 0, 0, 1] [10, 0, 0, 2] (UDP [10, 0, 0, 1] [10, 0, 0, 2] 40000 7 [1, 2, 3])) = 0"
  using transport_checksums_verify [of "[1, 2, 3]" 0 0 0 "[10, 0, 0, 1]" "[10, 0, 0, 2]" 40000 7 0 0 0] by simp

text \<open>A computed checksum of zero is transmitted as zero, the value that means "no checksum" in UDP.\<close>

lemma udp_can_send_zero_checksum:
  "drop 6 (UDP [0, 0, 0, 0] [0, 0, 0, 0] 40000 25502 []) = [0, 0]"
  by code_simp

end
