(* ===== verification/Tfmeta.thy ===== *)
theory Tfmeta
  imports Sha256
begin

text \<open>
  Package \<^verbatim>\<open>internal/tfmeta\<close>: the wire constants and the \<^verbatim>\<open>traceflow_meta\<close> control block carried in
  every marked packet, its encoding, decoding and HMAC authentication.

  The interface \<open>payload_auth\<close> is what the responder relies on of this package; it is
  interpreted below on \<open>Sign\<close> and \<open>Verify\<close>. The interface \<open>codec\<close> is shared by every
  fixed-width encoding of the program.
\<close>

section \<open>Constants and the control block\<close>

definition ToS :: byte where [simp]: "ToS = 0xF8"
definition Magic :: u32 where "Magic = 0x54464C4F"
definition TTLMax :: byte where [simp]: "TTLMax = 255"
definition VXLANPort :: u16 where [simp]: "VXLANPort = 4789"
definition MetaSize :: nat where [simp]: "MetaSize = 30"
definition AuthSize :: nat where [simp]: "AuthSize = 32"
definition SignedSize :: nat where [simp]: "SignedSize = MetaSize + AuthSize"

definition IfaceRegular :: byte where [simp]: "IfaceRegular = 0"
definition IfaceVXLAN :: byte where [simp]: "IfaceVXLAN = 1"
definition IfaceAuto :: byte where [simp]: "IfaceAuto = 2"

record Meta =
  ID :: bytes
  Deliver :: bool
  NeedResponse :: bool
  Timestamp :: u64

definition wf_meta :: "Meta \<Rightarrow> bool" where
  "wf_meta m \<longleftrightarrow> length (ID m) = 16"

datatype meta_error = PayloadTooShort nat nat | BadMagic

section \<open>Operations\<close>

definition MagicBytes :: bytes where
  "MagicBytes = copy_from (make_bytes 4) 0 (be32 Magic)"

definition Marshal :: "Meta \<Rightarrow> bytes" where
  "Marshal m =
     (let buf = make_bytes MetaSize;
          buf = copy_range buf 0 4 (be32 Magic);
          buf = copy_range buf 4 20 (ID m);
          buf = (if Deliver m then buf[20 := 1] else buf);
          buf = (if NeedResponse m then buf[21 := 1] else buf)
      in copy_range buf 22 30 (le_bytes 8 (Timestamp m)))"

definition Sign :: "bytes \<Rightarrow> bytes \<Rightarrow> bytes" where
  "Sign core key = hmac_sha256 key core"

definition Signed :: "Meta \<Rightarrow> bytes \<Rightarrow> bytes" where
  "Signed m key = (let core = Marshal m in if length key = 0 then core else core @ Sign core key)"

definition Verify :: "bytes \<Rightarrow> bytes \<Rightarrow> bool go" where
  "Verify payload key =
     (if length key = 0 then Some True
      else if length payload < SignedSize then Some False
      else do {
        core \<leftarrow> slice payload 0 MetaSize;
        mac \<leftarrow> slice payload MetaSize SignedSize;
        Some (Sign core key = mac) })"

definition Unmarshal :: "bytes \<Rightarrow> (meta_error + Meta) go" where
  "Unmarshal b =
     (if length b < MetaSize then Some (Inl (PayloadTooShort (length b) MetaSize))
      else do {
        magic \<leftarrow> rdBE32 b 0 4;
        if magic \<noteq> Magic then Some (Inl BadMagic)
        else do {
          i \<leftarrow> slice b 4 20;
          d \<leftarrow> at b 20;
          n \<leftarrow> at b 21;
          ts \<leftarrow> rdLE 8 b 22 30;
          Some (Inr \<lparr>ID = copy_from (make_bytes 16) 0 i, Deliver = (d = 1), NeedResponse = (n = 1),
                     Timestamp = ts\<rparr>) } })"

section \<open>Interfaces\<close>

text \<open>A fixed-width encoding with a decoder that ignores what follows it.\<close>

locale codec =
  fixes enc :: "'a \<Rightarrow> bytes" and dec :: "bytes \<Rightarrow> 'a option" and width :: nat and wf :: "'a \<Rightarrow> bool"
  assumes length_enc: "wf a \<Longrightarrow> length (enc a) = width"
    and dec_enc: "wf a \<Longrightarrow> dec (enc a @ rest) = Some a"
begin

lemma dec_enc_exact: "wf a \<Longrightarrow> dec (enc a) = Some a"
  using dec_enc [of a "[]"] by simp

lemma enc_inj: "wf a \<Longrightarrow> wf b \<Longrightarrow> enc a = enc b \<Longrightarrow> a = b"
  by (metis dec_enc_exact option.inject)

lemma enc_prefix_free: "wf a \<Longrightarrow> wf b \<Longrightarrow> enc a @ r = enc b @ s \<Longrightarrow> a = b \<and> r = s"
  by (metis dec_enc length_enc append_eq_append_conv option.inject)

end

text \<open>What the responder relies on: authenticators are 32 bytes after a 30-byte core, verification
  never panics, is off without a key, and otherwise checks exactly the first 62 bytes.\<close>

locale payload_auth =
  fixes sign :: "bytes \<Rightarrow> bytes \<Rightarrow> bytes" and verify :: "bytes \<Rightarrow> bytes \<Rightarrow> bool go"
  assumes sign_len: "length (sign c k) = 32"
    and verify_off: "verify p [] = Some True"
    and verify_short: "k \<noteq> [] \<Longrightarrow> length p < 62 \<Longrightarrow> verify p k = Some False"
    and verify_long: "k \<noteq> [] \<Longrightarrow> 62 \<le> length p \<Longrightarrow>
          verify p k = Some (sign (take 30 p) k = take 32 (drop 30 p))"
begin

lemma verify_total: "\<exists>ok. verify p k = Some ok"
  by (cases "k = []"; cases "length p < 62") (auto simp: verify_off verify_short verify_long)

lemma verify_needs_mac: "verify p k = Some True \<Longrightarrow> k \<noteq> [] \<Longrightarrow> 62 \<le> length p"
  using verify_short [of k p] by (cases "length p < 62") auto

lemma verify_signed: "length core = 30 \<Longrightarrow> verify (core @ sign core k @ rest) k = Some True"
  by (cases "k = []") (simp_all add: verify_off verify_long sign_len)

lemma verify_resign:
  "62 \<le> length p \<Longrightarrow> verify (copy_range p 30 62 (sign (take 30 p) k)) k = Some True"
proof -
  assume len: "62 \<le> length p"
  have "copy_range p 30 62 (sign (take 30 p) k) = take 30 p @ sign (take 30 p) k @ drop 62 p"
    using len by (simp add: copy_range_def copy_from_def sign_len)
  then show ?thesis using len by (simp add: verify_signed)
qed

text \<open>Two payloads that verify with the same authenticator have cores the MAC does not separate.\<close>

lemma verify_same_mac:
  "k \<noteq> [] \<Longrightarrow> verify p k = Some True \<Longrightarrow> verify q k = Some True \<Longrightarrow>
     take 32 (drop 30 p) = take 32 (drop 30 q) \<Longrightarrow> sign (take 30 p) k = sign (take 30 q) k"
  using verify_needs_mac [of p k] verify_needs_mac [of q k] by (simp add: verify_long)

end

interpretation auth: payload_auth Sign Verify
  by unfold_locales (auto simp: Verify_def Sign_def)

section \<open>Lemmas\<close>

lemma be32_Magic: "be32 Magic = [0x54, 0x46, 0x4C, 0x4F]"
  by (simp add: be32_def Magic_def)

definition flag_byte :: "bool \<Rightarrow> byte" where
  "flag_byte b = (if b then 1 else 0)"

lemma flag_byte_eq_1 [simp]: "flag_byte b = 1 \<longleftrightarrow> b"
  by (simp add: flag_byte_def)

lemma Marshal_layout [layout]:
  assumes "wf_meta m"
  shows "Marshal m = be32 Magic @ ID m @ [flag_byte (Deliver m), flag_byte (NeedResponse m)]
           @ le_bytes 8 (Timestamp m)"
proof -
  have 1: "copy_range (make_bytes 30) 0 4 (be32 Magic) = be32 Magic @ make_bytes 26"
    by (simp add: copy_range_def copy_from_def make_bytes_def)
  have 2: "copy_range (be32 Magic @ make_bytes 26) 4 20 (ID m)
      = be32 Magic @ ID m @ [0, 0] @ make_bytes 8"
    using assms by (simp add: wf_meta_def copy_range_def copy_from_def make_bytes_def numeral_eq_Suc)
  have 3: "copy_range (be32 Magic @ ID m @ [x, y] @ make_bytes 8) 22 30 (le_bytes 8 t)
      = be32 Magic @ ID m @ [x, y] @ le_bytes 8 t" for x y and t :: u64
    using assms by (simp add: wf_meta_def copy_range_def copy_from_def)
  show ?thesis
    using assms unfolding Marshal_def Let_def MetaSize_def 1 2
    by (simp add: list_update_append wf_meta_def flag_byte_def 3 [simplified])
qed

lemma length_Marshal [simp]: "wf_meta m \<Longrightarrow> length (Marshal m) = 30"
  by (simp add: Marshal_layout wf_meta_def)

lemma length_Sign [simp]: "length (Sign c k) = 32"
  by (simp add: Sign_def)

lemma Verify_eq:
  "Verify p k = Some (k = [] \<or> 62 \<le> length p \<and> Sign (take 30 p) k = take 32 (drop 30 p))"
  by (simp add: Verify_def)

text \<open>The decoder as one equation on payloads long enough to hold a control block.\<close>

lemma Unmarshal_eq:
  "Unmarshal b = Some
     (if length b < 30 then Inl (PayloadTooShort (length b) 30)
      else if take 4 b \<noteq> be32 Magic then Inl BadMagic
      else Inr \<lparr>ID = take 16 (drop 4 b), Deliver = (b ! 20 = 1), NeedResponse = (b ! 21 = 1),
                Timestamp = le_val (take 8 (drop 22 b))\<rparr>)"
proof (cases "length b < 30")
  case True
  then show ?thesis by (simp add: Unmarshal_def)
next
  case False
  have "be32_at b 0 = Magic \<longleftrightarrow> take 4 b = be32 Magic"
    using False by (simp add: be32_at_iff)
  moreover have "copy_from (make_bytes 16) 0 (take 16 (drop 4 b)) = take 16 (drop 4 b)"
    using False by (simp add: copy_from_def)
  ultimately show ?thesis
    using False by (simp add: Unmarshal_def rdLE_in)
qed

lemma Unmarshal_Marshal: "wf_meta m \<Longrightarrow> Unmarshal (Marshal m @ rest) = Some (Inr m)"
  by (simp add: Unmarshal_eq Marshal_layout wf_meta_def nth_append le_val_le_bytes)

definition decode_meta :: "bytes \<Rightarrow> Meta option" where
  "decode_meta b = (case Unmarshal b of Some (Inr m) \<Rightarrow> Some m | _ \<Rightarrow> None)"

interpretation metac: codec Marshal decode_meta 30 wf_meta
  by unfold_locales (simp_all add: decode_meta_def Unmarshal_Marshal)

lemma Unmarshal_wf: "Unmarshal b = Some (Inr m) \<Longrightarrow> wf_meta m"
  by (auto simp: Unmarshal_eq wf_meta_def split: if_splits)

lemma Signed_eq: "Signed m key = Marshal m @ (if key = [] then [] else Sign (Marshal m) key)"
  by (simp add: Signed_def Let_def)

lemma length_Signed: "wf_meta m \<Longrightarrow> length (Signed m key) = (if key = [] then 30 else 62)"
  by (simp add: Signed_eq)

lemma Unmarshal_Signed: "wf_meta m \<Longrightarrow> Unmarshal (Signed m key @ rest) = Some (Inr m)"
  by (simp add: Signed_eq Unmarshal_Marshal)

lemma Verify_Signed: "wf_meta m \<Longrightarrow> Verify (Signed m key @ rest) key = Some True"
  using auth.verify_signed [of "Marshal m" key rest]
  by (cases "key = []") (simp_all add: Signed_eq auth.verify_off)

section \<open>Properties\<close>

text \<open>
  C33: Round trip of the control block. What the client signs with a key decodes to the same control
  block and verifies under that key, whatever follows it in the payload; the signed form is 30 bytes
  without a key and 62 with one.
\<close>

theorem meta_roundtrip:
  assumes "wf_meta m"
  shows "Unmarshal (Signed m key @ rest) = Some (Inr m) \<and> Verify (Signed m key @ rest) key = Some True \<and>
    length (Signed m key) = (if key = [] then MetaSize else SignedSize)"
  using assms by (simp add: Unmarshal_Signed Verify_Signed length_Signed)

theorem meta_roundtrip_witness:
  "Unmarshal (Signed \<lparr>ID = replicate 16 7, Deliver = True, NeedResponse = False, Timestamp = 9\<rparr> [1, 2] @ [3]) =
     Some (Inr \<lparr>ID = replicate 16 7, Deliver = True, NeedResponse = False, Timestamp = 9\<rparr>)"
  using meta_roundtrip [of "\<lparr>ID = replicate 16 7, Deliver = True, NeedResponse = False, Timestamp = 9\<rparr>" "[1, 2]" "[3]"]
  by (simp add: wf_meta_def)

text \<open>
  Decoding. \<^verbatim>\<open>Unmarshal\<close> never panics; it reports a short payload with its length, a wrong magic
  word, and otherwise reads the fields at their offsets. A decoded block whose flag bytes are 0 or 1
  encodes back to the very bytes it was read from.
\<close>

theorem unmarshal_branches:
  "(length b < MetaSize \<longrightarrow> Unmarshal b = Some (Inl (PayloadTooShort (length b) MetaSize))) \<and>
   (MetaSize \<le> length b \<longrightarrow> take 4 b \<noteq> MagicBytes \<longrightarrow> Unmarshal b = Some (Inl BadMagic)) \<and>
   (MetaSize \<le> length b \<longrightarrow> take 4 b = MagicBytes \<longrightarrow>
      (\<exists>m. Unmarshal b = Some (Inr m) \<and> wf_meta m \<and>
           (b ! 20 \<in> {0, 1} \<and> b ! 21 \<in> {0, 1} \<longrightarrow> Marshal m = take MetaSize b)))"
proof -
  have magic: "MagicBytes = be32 Magic" by (simp add: MagicBytes_def copy_from_def make_bytes_def)
  have "Marshal m = take 30 b" if b: "Unmarshal b = Some (Inr m)" "b ! 20 \<in> {0, 1}" "b ! 21 \<in> {0, 1}" for m
  proof -
    have len: "30 \<le> length b" and m4: "take 4 b = be32 Magic"
      and m: "m = \<lparr>ID = take 16 (drop 4 b), Deliver = (b ! 20 = 1), NeedResponse = (b ! 21 = 1),
                Timestamp = le_val (take 8 (drop 22 b))\<rparr>"
      using b(1) by (auto simp: Unmarshal_eq split: if_splits)
    have "take (4 + (16 + (2 + 8))) b = take 4 b @ take 16 (drop 4 b) @ take 2 (drop 20 b) @ take 8 (drop 22 b)"
      unfolding take_add by (simp add: take_drop)
    moreover have "take 2 (drop 20 b) = [flag_byte (Deliver m), flag_byte (NeedResponse m)]"
      using len b(2,3) by (auto simp: take2_drop m flag_byte_def)
    moreover have "le_bytes 8 (Timestamp m) = take 8 (drop 22 b)"
      using len le_bytes_le_val [of "take 8 (drop 22 b)", where ?'a = 64] by (simp add: m)
    ultimately show ?thesis
      using Unmarshal_wf [OF b(1)] m4 by (simp add: Marshal_layout m)
  qed
  then show ?thesis by (auto simp: Unmarshal_eq magic wf_meta_def)
qed

theorem unmarshal_branches_witness:
  "Unmarshal [1, 2, 3] = Some (Inl (PayloadTooShort 3 MetaSize))"
  using unmarshal_branches [of "[1, 2, 3]"] by simp

text \<open>
  Authentication. With a key, \<^verbatim>\<open>Verify\<close> accepts a payload exactly when it has 62 bytes and bytes
  30 to 61 are the HMAC-SHA-256 of the first 30 under that key; without a key it accepts everything.
  It never panics. What follows byte 62 plays no part.
\<close>

theorem verify_exact:
  "Verify p key = Some (key = [] \<or>
     SignedSize \<le> length p \<and> hmac_sha256 key (take MetaSize p) = take AuthSize (drop MetaSize p))"
  by (simp add: Verify_eq Sign_def)

end
