(* ===== verification/Net_Parse.thy ===== *)
theory Net_Parse
  imports Net_IP
begin

text \<open>
  The parsers of the standard library's package \<^verbatim>\<open>net\<close> the program calls on its flags and on what OVN
  reports: \<^verbatim>\<open>net.ParseIP\<close> (dotted decimal without leading zeros, RFC 4291 text with at most one
  \<^verbatim>\<open>::\<close>, an embedded IPv4 tail, no zone) and \<^verbatim>\<open>net.ParseMAC\<close>. The main result is that parsing undoes
  printing, \<open>ParseIP_ip_string\<close>.
\<close>

section \<open>net.ParseIP\<close>

definition hexval :: "char \<Rightarrow> nat option" where
  "hexval c = (let n = of_char c :: nat in
     if 48 \<le> n \<and> n \<le> 57 then Some (n - 48)
     else if 97 \<le> n \<and> n \<le> 102 then Some (n - 87)
     else if 65 \<le> n \<and> n \<le> 70 then Some (n - 55) else None)"

definition decval :: "char \<Rightarrow> nat option" where
  "decval c = (let n = of_char c :: nat in if 48 \<le> n \<and> n \<le> 57 then Some (n - 48) else None)"

text \<open>The four decimal fields: value and number of digits of the current field, fields read.\<close>

fun v4fields :: "string \<Rightarrow> nat \<Rightarrow> nat \<Rightarrow> bytes \<Rightarrow> bytes option" where
  "v4fields [] val digs acc = (if length acc = 3 \<and> 0 < digs then Some (acc @ [of_nat val]) else None)"
| "v4fields (c # cs) val digs acc =
     (case decval c of
        Some d \<Rightarrow> if digs = 1 \<and> val = 0 then None
                  else if 255 < val * 10 + d then None
                  else v4fields cs (val * 10 + d) (Suc digs) acc
      | None \<Rightarrow> if c = CHR ''.'' then
                  if digs = 0 \<or> length acc = 3 then None else v4fields cs 0 0 (acc @ [of_nat val])
                else None)"

text \<open>A hexadecimal group of at most four digits: number of digits, value, rest.\<close>

fun hexgroup :: "nat \<Rightarrow> nat \<Rightarrow> string \<Rightarrow> (nat \<times> nat \<times> string) option" where
  "hexgroup off acc [] = Some (off, acc, [])"
| "hexgroup off acc (c # cs) =
     (case hexval c of
        None \<Rightarrow> Some (off, acc, c # cs)
      | Some d \<Rightarrow> if 3 < off then None else hexgroup (Suc off) (16 * acc + d) cs)"

text \<open>The loop over at most eight groups: address bytes so far, position of the ellipsis.\<close>

fun v6loop :: "nat \<Rightarrow> string \<Rightarrow> bytes \<Rightarrow> nat option \<Rightarrow> (bytes \<times> nat option \<times> string) option" where
  "v6loop 0 s ip ell = Some (ip, ell, s)"
| "v6loop (Suc n) s ip ell =
     (case hexgroup 0 0 s of
        None \<Rightarrow> None
      | Some (off, acc, rest) \<Rightarrow>
          if off = 0 then None
          else if rest \<noteq> [] \<and> hd rest = CHR ''.'' then
            if ell = None \<and> length ip \<noteq> 12 \<or> 16 < length ip + 4 then None
            else (case v4fields s 0 0 [] of None \<Rightarrow> None | Some f \<Rightarrow> Some (ip @ f, ell, []))
          else let ip = ip @ [of_nat (acc div 256), of_nat acc] in
            (case rest of
               [] \<Rightarrow> Some (ip, ell, [])
             | c # t \<Rightarrow>
                 if c \<noteq> CHR '':'' \<or> t = [] then None
                 else if hd t = CHR '':'' then
                   if ell \<noteq> None then None
                   else if tl t = [] then Some (ip, Some (length ip), [])
                   else v6loop n (tl t) ip (Some (length ip))
                 else v6loop n t ip ell))"

definition parse6 :: "string \<Rightarrow> bytes option" where
  "parse6 s =
     (let lead = (take 2 s = ''::''); s = (if lead then drop 2 s else s) in
      if lead \<and> s = [] then Some (replicate 16 0)
      else case v6loop 8 s [] (if lead then Some 0 else None) of
        None \<Rightarrow> None
      | Some (ip, ell, rest) \<Rightarrow>
          if rest \<noteq> [] then None
          else if length ip < 16 then
            (case ell of None \<Rightarrow> None
             | Some e \<Rightarrow> Some (take e ip @ replicate (16 - length ip) 0 @ drop e ip))
          else if ell \<noteq> None then None else Some ip)"

definition ParseIP :: "string \<Rightarrow> bytes option" where
  "ParseIP s =
     (if CHR ''%'' \<in> set s then None
      else case List.find (\<lambda>c. c = CHR ''.'' \<or> c = CHR '':'') s of
        None \<Rightarrow> None
      | Some c \<Rightarrow> if c = CHR ''.'' then map_option (\<lambda>f. v4InV6Prefix @ f) (v4fields s 0 0 []) else parse6 s)"

section \<open>net.ParseMAC\<close>

text \<open>\<^verbatim>\<open>xtoi2\<close>: two hexadecimal digits followed by the separator or the end; the second digit may be
  missing (the library stops at the first character that is no digit).\<close>

definition xtoi2 :: "string \<Rightarrow> char \<Rightarrow> byte option" where
  "xtoi2 s e =
     (if 2 < length s \<and> s ! 2 \<noteq> e then None
      else (case s of
         a # b # _ \<Rightarrow> (case (hexval a, hexval b) of
             (None, _) \<Rightarrow> None | (Some x, None) \<Rightarrow> Some (of_nat x) | (Some x, Some y) \<Rightarrow> Some (of_nat (16 * x + y)))
       | _ \<Rightarrow> None))"

fun collect :: "'a option list \<Rightarrow> 'a list option" where
  "collect [] = Some []"
| "collect (None # xs) = None"
| "collect (Some x # xs) = map_option (\<lambda>r. x # r) (collect xs)"

definition ParseMAC :: "string \<Rightarrow> bytes option" where
  "ParseMAC s =
     (if length s < 14 then None
      else if s ! 2 = CHR '':'' \<or> s ! 2 = CHR ''-'' then
        let n = (length s + 1) div 3 in
        if (length s + 1) mod 3 \<noteq> 0 \<or> n \<notin> {6, 8, 20} then None
        else collect (map (\<lambda>i. xtoi2 (drop (3 * i) s) (s ! 2)) [0..<n])
      else if s ! 4 = CHR ''.'' then
        let n = 2 * (length s + 1) div 5 in
        if (length s + 1) mod 5 \<noteq> 0 \<or> n \<notin> {6, 8, 20} then None
        else collect (concat (map (\<lambda>i. [xtoi2 (take 2 (drop (5 * i) s)) (CHR 0x00),
               xtoi2 (drop (5 * i + 2) s) (s ! 4)]) [0..<n div 2]))
      else None)"

section \<open>Sizes\<close>

lemma v4fields_length: "v4fields s v d acc = Some f \<Longrightarrow> length acc \<le> 3 \<Longrightarrow> length f = 4"
  by (induction s v d acc rule: v4fields.induct) (auto split: option.splits if_splits)

lemma v6loop_length:
  assumes "v6loop n s ip ell = Some (ip', ell', rest)" "length ip + 2 * n = 16"
  shows "length ip' \<le> 16"
  using assms
proof (induction n s ip ell rule: v6loop.induct)
  case (2 n s ip ell)
  then show ?case
    by (auto simp: Let_def split: option.splits if_splits list.splits prod.splits dest!: v4fields_length)
qed simp

lemma ParseIP_length: "ParseIP s = Some ip \<Longrightarrow> length ip = 16"
proof -
  assume p: "ParseIP s = Some ip"
  have "length ip = 16" if "parse6 s = Some ip"
    using that v6loop_length [of 8 _ "[]"]
    by (fastforce simp: parse6_def Let_def min_def split: option.splits if_splits prod.splits)
  then show ?thesis
    using p by (auto simp: ParseIP_def v4InV6Prefix_def split: option.splits if_splits dest!: v4fields_length)
qed

section \<open>Parsing undoes printing\<close>

lemma hexval_digit [simp]: "d < 16 \<Longrightarrow> hexval (digit_char d) = Some d"
  by (auto simp: hexval_def digit_char_def Let_def)

lemma decval_digit [simp]: "d < 10 \<Longrightarrow> decval (digit_char d) = Some d"
  by (auto simp: decval_def digit_char_def Let_def)

lemma hexval_sep [simp]: "hexval (CHR '':'') = None" "decval (CHR ''.'') = None"
  by (simp_all add: hexval_def decval_def Let_def)

lemma num_string_step: "2 \<le> b \<Longrightarrow> b \<le> n \<Longrightarrow> num_string b n = num_string b (n div b) @ [digit_char (n mod b)]"
  by (subst num_string.simps) simp

lemma num_string_digit: "n < b \<Longrightarrow> num_string b n = [digit_char n]"
  by (subst num_string.simps) simp

lemma v4fields_dec:
  "n \<le> 255 \<Longrightarrow> \<exists>k > 0. v4fields (num_string 10 n @ rest) 0 0 acc = v4fields rest n k acc"
proof (induction n arbitrary: rest rule: less_induct)
  case (less n)
  show ?case
  proof (cases "n < 10")
    case True
    then show ?thesis using less.prems by (auto simp: num_string_digit)
  next
    case False
    have small: "n div 10 < n" "n div 10 \<le> 255" and nz: "n div 10 \<noteq> 0" using False less.prems by (simp_all add: div_eq_0_iff)
    from less.IH [OF small, of "digit_char (n mod 10) # rest"] obtain k where
      "0 < k" "v4fields (num_string 10 (n div 10) @ digit_char (n mod 10) # rest) 0 0 acc =
        v4fields (digit_char (n mod 10) # rest) (n div 10) k acc" by blast
    then show ?thesis using False less.prems
      by (intro exI [of _ "Suc k"]) (simp add: num_string_step nz)
  qed
qed

lemma v4fields_dotted:
  "length acc + length ip = 4 \<Longrightarrow> ip \<noteq> [] \<Longrightarrow> v4fields (dotted ip) 0 0 acc = Some (acc @ ip)"
proof (induction ip arbitrary: acc)
  case (Cons b ip)
  have b: "unat b \<le> 255" using unsigned_less [of b, where ?'a = nat] by simp
  show ?case
  proof (cases ip)
    case Nil
    with Cons.prems v4fields_dec [OF b, of "[]" acc] show ?thesis by (auto simp: dotted_def dec_string_def)
  next
    case (Cons c cs)
    then have "dotted (b # ip) = num_string 10 (unat b) @ CHR ''.'' # dotted ip"
      by (simp add: dotted_def dec_string_def)
    with Cons Cons.prems Cons.IH [of "acc @ [b]"] v4fields_dec [OF b, of "CHR ''.'' # dotted ip" acc]
    show ?thesis by auto
  qed
qed simp


lemma length_num_string: "2 \<le> b \<Longrightarrow> n < b ^ k \<Longrightarrow> 0 < k \<Longrightarrow> length (num_string b n) \<le> k"
proof (induction k arbitrary: n)
  case (Suc k)
  show ?case
  proof (cases "n < b")
    case True
    then show ?thesis by (simp add: num_string_digit)
  next
    case False
    then have "0 < k" using Suc.prems by (cases k) auto
    moreover have "n div b < b ^ k" using Suc.prems by (simp add: less_mult_imp_div_less mult.commute)
    ultimately show ?thesis using Suc.IH [of "n div b"] Suc.prems False by (simp add: num_string_step)
  qed
qed simp

lemma hexgroup_hex:
  "length (num_string 16 n) \<le> 4 \<Longrightarrow>
     hexgroup 0 0 (num_string 16 n @ rest) = hexgroup (length (num_string 16 n)) n rest"
proof (induction n arbitrary: rest rule: less_induct)
  case (less n)
  show ?case
  proof (cases "n < 16")
    case True
    then show ?thesis by (simp add: num_string_digit)
  next
    case False
    have "n div 16 < n" "length (num_string 16 (n div 16)) \<le> 3"
      using False less.prems by (simp_all add: num_string_step)
    then show ?thesis
      using False less.IH [of "n div 16" "digit_char (n mod 16) # rest"] by (simp add: num_string_step)
  qed
qed

definition ungroups :: "nat list \<Rightarrow> bytes" where
  "ungroups gs = concat (map (\<lambda>g. [of_nat (g div 256), of_nat g]) gs)"

lemma ungroups_Nil [simp]: "ungroups [] = []"
  by (simp add: ungroups_def)

lemma length_ungroups [simp]: "length (ungroups gs) = 2 * length gs"
  by (induction gs) (simp_all add: ungroups_def)

lemma ungroups_Cons: "gs \<noteq> [] \<Longrightarrow> ungroups (g # gs) = ungroups [g] @ ungroups gs"
  by (simp add: ungroups_def)

lemma ungroups_append: "ungroups (a @ b) = ungroups a @ ungroups b"
  by (simp add: ungroups_def)

lemma ungroups_zero: "ungroups (replicate n 0) = replicate (2 * n) 0"
  by (induction n) (simp_all add: ungroups_def)

lemma ungroups_groups: "even (length ip) \<Longrightarrow> ungroups (groups ip) = ip"
proof (induction ip rule: groups.induct)
  case (1 a b bs)
  have "unat (u16be a b) = 256 * unat a + unat b"
  proof -
    have "u16be a b = push_bit 8 (ucast a) + ucast b"
      unfolding u16be_def by (rule disjunctive_add_eq_or [symmetric]) (auto simp: bit_eq_iff bit_simps)
    then show ?thesis
      using unsigned_less [of a, where ?'a = nat] unsigned_less [of b, where ?'a = nat]
      by (simp add: unat_word_ariths push_bit_eq_mult unsigned_ucast_eq take_bit_nat_def)
  qed
  moreover have "(of_nat (256 * unat a + unat b) :: byte) = b"
  proof -
    have "(256 :: byte) = 0" by simp
    then have "256 * a + b = b" by (simp only: mult_zero_left add_0)
    then show ?thesis by simp
  qed
  ultimately show ?case using 1 unsigned_less [of b, where ?'a = nat]
    by (simp add: ungroups_def del: of_nat_add of_nat_mult)
qed (auto simp: ungroups_def)

lemma groups_less: "g \<in> set (groups ip) \<Longrightarrow> g < 65536"
proof (induction ip rule: groups.induct)
  case (1 a b bs)
  then show ?case using unsigned_less [of "u16be a b", where ?'a = nat] by auto
qed auto

lemma hexgroup_field:
  assumes "g < 65536" "rest = [] \<or> hd rest = CHR '':''"
  shows "\<exists>off > 0. hexgroup 0 0 (hex_string g @ rest) = Some (off, g, rest)"
proof -
  have len: "length (num_string 16 g) \<le> 4" using length_num_string [of 16 g 4] assms(1) by simp
  have pos: "0 < length (num_string 16 g)" by simp
  show ?thesis
    using assms(2) hexgroup_hex [OF len, of rest] pos by (cases rest) (auto simp: hex_string_def)
qed

lemma v6loop_group:
  assumes "g < 65536" "rest = [] \<or> hd rest = CHR '':''"
  shows "v6loop (Suc n) (hex_string g @ rest) ip ell =
     (let ip = ip @ ungroups [g] in
      case rest of [] \<Rightarrow> Some (ip, ell, [])
      | c # t \<Rightarrow> if t = [] then None
                 else if hd t = CHR '':'' then
                   if ell \<noteq> None then None
                   else if tl t = [] then Some (ip, Some (length ip), [])
                   else v6loop n (tl t) ip (Some (length ip))
                 else v6loop n t ip ell)"
  using hexgroup_field [OF assms] assms(2)
  by (cases rest) (auto simp: ungroups_def Let_def)

declare v6loop.simps(2) [simp del]

lemma hex_string_hd: "hd (hex_string g @ r) \<noteq> CHR '':''"
  using hex_string_chars [of "hd (hex_string g)" g] by (cases "hex_string g") auto

lemma v6loop_join:
  assumes "\<forall>g \<in> set gs. g < 65536" "gs \<noteq> []"
  shows "v6loop (length gs + k) (join '':'' (map hex_string gs)) ip ell = Some (ip @ ungroups gs, ell, [])"
  using assms
proof (induction gs arbitrary: ip)
  case (Cons g gs)
  show ?case
  proof (cases gs)
    case Nil
    then show ?thesis using Cons.prems v6loop_group [of g "[]" k ip ell] by (simp add: ungroups_def Let_def)
  next
    case (Cons h hs)
    let ?t = "join '':'' (map hex_string gs)"
    have "?t \<noteq> []" "hd ?t \<noteq> CHR '':''"
      using Cons hex_string_hd [of h "[]"] hex_string_hd [of h] by (cases hs; simp)+
    moreover have "v6loop (length gs + k) ?t (ip @ ungroups [g]) ell = Some ((ip @ ungroups [g]) @ ungroups gs, ell, [])"
      using Cons Cons.IH Cons.prems by simp
    ultimately show ?thesis
      using Cons Cons.prems v6loop_group [of g "CHR '':'' # ?t" "length gs + k" ip ell] by (simp add: ungroups_def Let_def)
  qed
qed simp

lemma join_hex_hd:
  assumes "gs \<noteq> []"
  shows "join '':'' (map hex_string gs) \<noteq> []" "hd (join '':'' (map hex_string gs)) \<noteq> CHR '':''"
proof -
  obtain g hs where gs: "gs = g # hs" using assms by (cases gs) auto
  then show "join '':'' (map hex_string gs) \<noteq> []" by (cases hs) simp_all
  show "hd (join '':'' (map hex_string gs)) \<noteq> CHR '':''"
    using gs hex_string_hd [of g "[]"] by (cases hs) simp_all
qed

lemma v6loop_ellipsis:
  assumes "\<forall>g \<in> set gs. g < 65536" "gs \<noteq> []"
  shows "v6loop (length gs + k) (join '':'' (map hex_string gs) @ ''::'' @ t) ip None =
    (let ip = ip @ ungroups gs in
     if t = [] then Some (ip, Some (length ip), []) else v6loop k t ip (Some (length ip)))"
  using assms
proof (induction gs arbitrary: ip)
  case (Cons g gs)
  show ?case
  proof (cases "gs = []")
    case True
    then show ?thesis using Cons.prems v6loop_group [of g "''::'' @ t" k ip None] by (simp add: ungroups_def Let_def)
  next
    case False
    let ?t = "join '':'' (map hex_string gs) @ ''::'' @ t"
    have j: "join '':'' (map hex_string (g # gs)) = hex_string g @ CHR '':'' # join '':'' (map hex_string gs)"
      using False by (cases gs) simp_all
    have "?t \<noteq> []" "hd ?t \<noteq> CHR '':''" using join_hex_hd [OF False] by simp_all
    then show ?thesis
      using False Cons.IH [of "ip @ ungroups [g]"] Cons.prems
        v6loop_group [of g "CHR '':'' # ?t" "length gs + k" ip None]
      unfolding j by (simp add: ungroups_Cons Let_def)
  qed
qed simp

lemma best_run_long:
  assumes "best_run g = Some (s, e)"
  shows "s + 2 \<le> e \<and> e \<le> length g \<and> g = take s g @ replicate (e - s) 0 @ drop e g"
proof -
  have "foldl (\<lambda>best i. let l = zero_run g i in
       if 2 \<le> l \<and> (case best of None \<Rightarrow> True | Some (s, e) \<Rightarrow> e - s < l)
       then Some (i, i + l) else best) None [0..<n] = Some (s, e) \<Longrightarrow> s + 2 \<le> e" for n
    by (induction n) (auto simp: Let_def split: if_splits)
  then have two: "s + 2 \<le> e" using assms by (simp add: best_run_def)
  note run = best_run_Some [OF assms]
  have e: "e \<le> length g" using run zero_run_prefix [of s g] by auto
  have "take (e - s) (drop s g) = replicate (e - s) 0" using zero_run_zeros [of g s] run by simp
  moreover have "take s g @ take (e - s) (drop s g) @ drop e g = g"
    using two by (metis add_leD1 append_take_drop_id drop_drop le_add_diff_inverse2)
  ultimately show ?thesis using two e by simp
qed

lemma parse6_groups:
  assumes "length g = 8" "\<forall>x \<in> set g. x < 65536"
  shows "parse6 (case best_run g of None \<Rightarrow> join '':'' (map hex_string g)
     | Some (s, e) \<Rightarrow> join '':'' (map hex_string (take s g)) @ ''::'' @ join '':'' (map hex_string (drop e g))) =
     Some (ungroups g)"
proof (cases "best_run g")
  case None
  let ?t = "join '':'' (map hex_string g)"
  have ne: "g \<noteq> []" using assms(1) by auto
  have "take 2 ?t \<noteq> ''::''" using join_hex_hd [OF ne] by (cases ?t) auto
  then show ?thesis
    using None assms(1) v6loop_join [OF assms(2) ne, of 0 "[]" None] by (auto simp: parse6_def Let_def)
next
  case (Some a)
  obtain s e where a: "a = (s, e)" by (cases a)
  note run = best_run_long [OF Some [unfolded a]]
  let ?pre = "take s g" and ?post = "drop e g"
  let ?p = "join '':'' (map hex_string ?post)"
  have small: "\<forall>x \<in> set ?pre. x < 65536" "\<forall>x \<in> set ?post. x < 65536"
    using assms(2) by (auto dest: in_set_takeD in_set_dropD)
  have u: "ungroups g = ungroups ?pre @ replicate (2 * (e - s)) 0 @ ungroups ?post"
    using run by (metis ungroups_append ungroups_zero)
  have post: "v6loop (length ?post + k) ?p ip ell = Some (ip @ ungroups ?post, ell, [])" if "?post \<noteq> []" for k ip ell
    using v6loop_join [OF small(2) that] .
  have ne: "?p \<noteq> []" if "?post \<noteq> []" using join_hex_hd [OF that] by simp
  have len: "length ?pre = s" "length ?post = 8 - e" using run assms(1) by simp_all
  show ?thesis
  proof (cases "s = 0")
    case True
    have "v6loop 8 ?p [] (Some 0) = Some (ungroups ?post, Some 0, [])" if "?post \<noteq> []"
      using post [OF that, of e "[]" "Some 0"] len run assms(1) by simp
    then have "parse6 (''::'' @ ?p) = Some (replicate (2 * e) 0 @ ungroups ?post)"
      using ne run assms(1) len by (cases "?post = []") (auto simp: parse6_def)
    then show ?thesis using Some a u True by simp
  next
    case False
    then have pre: "?pre \<noteq> []" using len run by auto
    let ?t = "join '':'' (map hex_string ?pre) @ ''::'' @ ?p"
    have hd: "take 2 ?t \<noteq> ''::''" using join_hex_hd [OF pre] by (cases "join '':'' (map hex_string ?pre)") auto
    have "v6loop 8 ?t [] None = Some (ungroups ?pre @ ungroups ?post, Some (2 * s), [])"
      using v6loop_ellipsis [OF small(1) pre, of "8 - s" ?p "[]"] post [of "e - s" "ungroups ?pre" "Some (2 * s)"]
        ne len run assms(1) by (cases "?post = []") (auto simp: Let_def)
    moreover have "2 * s + 2 * (8 - e) < 16" "16 - (2 * s + 2 * (8 - e)) = 2 * (e - s)"
      using run assms(1) by arith+
    ultimately show ?thesis
      using Some a u hd run assms(1) len by (simp add: parse6_def Let_def)
  qed
qed

lemma ip6_string_chars: "c \<in> set (ip6_string ip) \<Longrightarrow> c = CHR '':'' \<or> num_char c"
proof -
  have "c \<in> set (join '':'' (map hex_string g)) \<Longrightarrow> c = CHR '':'' \<or> num_char c" for g
    using join_set [of "'':''" "map hex_string g"] by (auto dest!: hex_string_chars)
  then show "c \<in> set (ip6_string ip) \<Longrightarrow> c = CHR '':'' \<or> num_char c"
    by (auto simp: ip6_string_def Let_def split: option.splits)
qed

lemma dotted_chars: "c \<in> set (dotted ip) \<Longrightarrow> c = CHR ''.'' \<or> num_char c"
proof -
  assume "c \<in> set (dotted ip)"
  then have "c \<in> set ''.'' \<union> (\<Union>x \<in> set (map (dec_string \<circ> unat) ip). set x)"
    using join_set unfolding dotted_def by blast
  then show ?thesis using dec_string_chars by auto
qed

lemma find_only:
  assumes "c \<in> set s" "\<And>x. x \<in> set s \<Longrightarrow> P x \<Longrightarrow> x = c" "P c"
  shows "List.find P s = Some c"
  using assms(1,2)
proof (induction s)
  case (Cons a s)
  show ?case
  proof (cases "P a")
    case True
    then show ?thesis using Cons.prems(2) [of a] by simp
  next
    case False
    then have "c \<in> set s" using Cons.prems(1) assms(3) by auto
    then have "List.find P s = Some c" using Cons.IH Cons.prems(2) by (meson list.set_intros(2))
    then show ?thesis using False by simp
  qed
qed simp

lemma ParseIP_dotted: "length ip = 4 \<Longrightarrow> ParseIP (dotted ip) = Some (v4InV6Prefix @ ip)"
proof -
  assume len: "length ip = 4"
  then obtain a b r where "ip = a # b # r" by (auto simp: length_Suc_conv numeral_eq_Suc)
  then have "CHR ''.'' \<in> set (dotted ip)" by (simp add: dotted_def)
  then have "List.find (\<lambda>c. c = CHR ''.'' \<or> c = CHR '':'') (dotted ip) = Some (CHR ''.'')"
    using dotted_no_sep by (intro find_only) auto
  moreover have "CHR ''%'' \<notin> set (dotted ip)"
    using dotted_chars [of "CHR ''%''" ip] by (auto simp: num_char_def)
  moreover have "v4fields (dotted ip) 0 0 [] = Some ip" using v4fields_dotted [of "[]" ip] len by fastforce
  ultimately show ?thesis by (simp add: ParseIP_def)
qed

lemma ParseIP_ip6_string: "length ip = 16 \<Longrightarrow> ParseIP (ip6_string ip) = Some ip"
proof -
  assume len: "length ip = 16"
  have "List.find (\<lambda>c. c = CHR ''.'' \<or> c = CHR '':'') (ip6_string ip) = Some (CHR '':'')"
    using ip6_string_colon [OF len] by (intro find_only) (auto dest!: ip6_string_chars)
  moreover have "CHR ''%'' \<notin> set (ip6_string ip)"
    using ip6_string_chars [of "CHR ''%''" ip] by (auto simp: num_char_def)
  moreover have "parse6 (ip6_string ip) = Some ip"
    using parse6_groups [of "groups ip"] groups_less [of _ ip] ungroups_groups [of ip] len
    by (simp add: length_groups ip6_string_def Let_def)
  ultimately show ?thesis by (simp add: ParseIP_def)
qed

lemma ParseIP_ip_string:
  assumes "length ip = 4 \<or> length ip = 16"
  shows "ParseIP (ip_string ip) = Some (To16 ip)"
proof (cases "To4 ip = []")
  case True
  then show ?thesis using assms ParseIP_ip6_string [of ip] by (auto simp: ip_string_def To4_def)
next
  case False
  then have "length (To4 ip) = 4" using length_To4 by blast
  then show ?thesis
    using assms ParseIP_dotted [of "To4 ip"] To16_To4 [OF assms False] To16_4 [of "To4 ip"] by (auto simp: ip_string_def)
qed

end
