(* ===== verification/Client.thy ===== *)
theory Client
  imports Pkt Tfmeta Net_Parse
begin

text \<open>
  The client (\<^verbatim>\<open>client/main.go\<close>, \<^verbatim>\<open>client/sniffer.go\<close>): it builds marked probes, sends them, and
  recognises the replies among the frames of an AF_PACKET sniffer by run id. The operating system is
  the record \<open>env\<close> of answers the program gets from it; a fatal log message ends the program and is
  an error value; what the sniffer delivers until the deadline is a list of events.
\<close>

section \<open>Parsers of the sniffer\<close>

record capture =
  c_proto :: byte
  c_icmpType :: byte
  c_srcPort :: u16
  c_dstPort :: u16
  c_tcpFlags :: byte
  c_tcpSeq :: u32
  c_vni :: u32
  c_srcIP :: string
  c_payload :: bytes
  c_meta :: Meta

definition capture0 :: capture where
  "capture0 = \<lparr>c_proto = 0, c_icmpType = 0, c_srcPort = 0, c_dstPort = 0, c_tcpFlags = 0, c_tcpSeq = 0,
     c_vni = 0, c_srcIP = [], c_payload = [],
     c_meta = \<lparr>ID = replicate 16 0, Deliver = False, NeedResponse = False, Timestamp = 0\<rparr>\<rparr>"

record ipHdr =
  h_tos :: byte
  h_proto :: byte
  h_src :: bytes
  h_dst :: bytes

record ip6Hdr =
  h6_tos :: byte
  h6_nextHdr :: byte
  h6_src :: bytes

text \<open>The loop over VLAN tags: ethertype, offset, VID so far.\<close>

fun stripL2_tags :: "nat \<Rightarrow> bytes \<Rightarrow> u16 \<Rightarrow> nat \<Rightarrow> u16 \<Rightarrow> (u16 \<times> nat \<times> u16) option go" where
  "stripL2_tags 0 frame et off vlan = Some (Some (et, off, vlan))"
| "stripL2_tags (Suc n) frame et off vlan =
     (if et = EtherTypeVLAN \<or> et = 0x88A8 then
        if length frame < off + 4 then Some None
        else do {
          vlan' \<leftarrow> (if vlan = 0 then do { t \<leftarrow> rdBE16 frame off (off + 2); Some (t AND 0x0FFF) }
                   else Some vlan);
          et' \<leftarrow> rdBE16 frame (off + 2) (off + 4);
          stripL2_tags n frame et' (off + 4) vlan' }
      else Some (Some (et, off, vlan)))"

definition stripL2 :: "bytes \<Rightarrow> (bytes \<times> u16 \<times> u16) option go" where
  "stripL2 frame =
     (if length frame < 14 then Some None
      else do {
        et \<leftarrow> rdBE16 frame 12 14;
        r \<leftarrow> stripL2_tags 2 frame et 14 0;
        case r of None \<Rightarrow> Some None
        | Some (et', off, vlan) \<Rightarrow> do { l3 \<leftarrow> slice_from frame off; Some (Some (l3, et', vlan)) } })"

definition ipv4 :: "bytes \<Rightarrow> (ipHdr \<times> bytes) option go" where
  "ipv4 l3 =
     (if length l3 < 20 then Some None
      else do {
        b0 \<leftarrow> at l3 0;
        let ihl = unat (b0 AND 0x0F) * 4;
        if ihl < 20 \<or> length l3 < ihl then Some None
        else do {
          tos \<leftarrow> at l3 1;
          proto \<leftarrow> at l3 9;
          src \<leftarrow> slice l3 12 16;
          dst \<leftarrow> slice l3 16 20;
          rest \<leftarrow> slice_from l3 ihl;
          Some (Some (\<lparr>h_tos = tos, h_proto = proto, h_src = src, h_dst = dst\<rparr>, rest)) } })"

definition ipv6 :: "bytes \<Rightarrow> (ip6Hdr \<times> bytes) option go" where
  "ipv6 l3 =
     (if length l3 < 40 then Some None
      else do {
        b0 \<leftarrow> at l3 0;
        b1 \<leftarrow> at l3 1;
        let tc = push_bit 4 (b0 AND 0x0F) OR drop_bit 4 b1;
        nh \<leftarrow> at l3 6;
        src \<leftarrow> slice l3 8 24;
        rest \<leftarrow> slice_from l3 40;
        Some (Some (\<lparr>h6_tos = tc, h6_nextHdr = nh, h6_src = src\<rparr>, rest)) })"

definition sniffOuterUDP :: "u16 \<Rightarrow> bytes \<Rightarrow> bytes option go" where
  "sniffOuterUDP etherType l3 =
     (if etherType = EtherTypeIPv4 then do {
        r \<leftarrow> ipv4 l3;
        case r of None \<Rightarrow> Some None
        | Some (ip, l4) \<Rightarrow> Some (if h_proto ip = ProtoUDP then Some l4 else None) }
      else if etherType = EtherTypeIPv6 then do {
        r \<leftarrow> ipv6 l3;
        case r of None \<Rightarrow> Some None
        | Some (ip, l4) \<Rightarrow> Some (if h6_nextHdr ip = ProtoUDP then Some l4 else None) }
      else Some None)"

definition l4Fields :: "capture \<Rightarrow> byte \<Rightarrow> bytes \<Rightarrow> (capture \<times> bytes) option go" where
  "l4Fields c proto l4 =
     (if proto = ProtoICMP \<or> proto = ProtoICMPv6 then
        if length l4 < 8 then Some None
        else do {
          t \<leftarrow> at l4 0;
          p \<leftarrow> slice_from l4 8;
          Some (Some (c\<lparr>c_icmpType := t\<rparr>, p)) }
      else if proto = ProtoUDP then
        if length l4 < 8 then Some None
        else do {
          sp \<leftarrow> rdBE16 l4 0 2;
          dp \<leftarrow> rdBE16 l4 2 4;
          p \<leftarrow> slice_from l4 8;
          Some (Some (c\<lparr>c_srcPort := sp, c_dstPort := dp\<rparr>, p)) }
      else if proto = ProtoTCP then
        if length l4 < 20 then Some None
        else do {
          sp \<leftarrow> rdBE16 l4 0 2;
          dp \<leftarrow> rdBE16 l4 2 4;
          sq \<leftarrow> rdBE32 l4 4 8;
          fl \<leftarrow> at l4 13;
          b12 \<leftarrow> at l4 12;
          let doff = unat (drop_bit 4 b12) * 4;
          if doff < 20 \<or> length l4 < doff then Some None
          else do {
            p \<leftarrow> slice_from l4 doff;
            Some (Some (c\<lparr>c_srcPort := sp, c_dstPort := dp, c_tcpSeq := sq, c_tcpFlags := fl\<rparr>, p)) } }
      else Some None)"

text \<open>The VXLAN peek of \<^verbatim>\<open>parseMarked\<close>: the VNI (0 without encapsulation), packet and ethertype to go on
  with, or rejection.\<close>

definition peekVXLAN :: "bytes \<Rightarrow> u16 \<Rightarrow> (u32 \<times> bytes \<times> u16) option go" where
  "peekVXLAN l3 et = do {
     u \<leftarrow> sniffOuterUDP et l3;
     case u of None \<Rightarrow> Some (Some (0, l3, et))
     | Some ol4 \<Rightarrow>
         if length ol4 < 8 then Some (Some (0, l3, et))
         else do {
           port \<leftarrow> rdBE16 ol4 2 4;
           if port \<noteq> VXLANPort then Some (Some (0, l3, et))
           else do {
             vxl \<leftarrow> slice_from ol4 8;
             if length vxl < 8 then Some None
             else do {
               b0 \<leftarrow> at vxl 0;
               if b0 AND 0x08 = 0 then Some None
               else do {
                 w \<leftarrow> rdBE32 vxl 4 8;
                 inner \<leftarrow> slice_from vxl 8;
                 r \<leftarrow> stripL2 inner;
                 case r of None \<Rightarrow> Some None
                 | Some (il3, iet, _) \<Rightarrow> Some (Some (drop_bit 8 w, il3, iet)) } } } } }"

definition parseMarked :: "bytes \<Rightarrow> capture option go" where
  "parseMarked frame = do {
     r \<leftarrow> stripL2 frame;
     case r of None \<Rightarrow> Some None
     | Some (l3, et, _) \<Rightarrow> do {
         v \<leftarrow> peekVXLAN l3 et;
         case v of None \<Rightarrow> Some None
         | Some (vni, l3, et) \<Rightarrow> do {
             h \<leftarrow> (if et = EtherTypeIPv4 then do {
                      p \<leftarrow> ipv4 l3;
                      Some (case p of None \<Rightarrow> None | Some (ip, rest) \<Rightarrow>
                        if h_tos ip AND 0xFC \<noteq> ToS then None else Some (ip_string (h_src ip), h_proto ip, rest)) }
                  else if et = EtherTypeIPv6 then do {
                      p \<leftarrow> ipv6 l3;
                      Some (case p of None \<Rightarrow> None | Some (ip, rest) \<Rightarrow>
                        if h6_tos ip AND 0xFC \<noteq> ToS then None else Some (ip_string (h6_src ip), h6_nextHdr ip, rest)) }
                  else Some None);
             case h of None \<Rightarrow> Some None
             | Some (src, proto, l4) \<Rightarrow> do {
                 f \<leftarrow> l4Fields (capture0\<lparr>c_vni := vni, c_srcIP := src, c_proto := proto\<rparr>) proto l4;
                 case f of None \<Rightarrow> Some None
                 | Some (c, payload) \<Rightarrow> do {
                     u \<leftarrow> Unmarshal payload;
                     case u of Inl _ \<Rightarrow> Some None
                     | Inr meta \<Rightarrow> Some (Some (c\<lparr>c_meta := meta, c_payload := payload\<rparr>)) } } } } }"

text \<open>One pass of the receive loop: \<^verbatim>\<open>next\<close> timed out or failed, or delivered a frame. The list ends
  when the deadline has passed.\<close>

datatype sniff = SniffErr | SniffFrame bytes

definition next_capture :: "sniff \<Rightarrow> capture option go" where
  "next_capture e = (case e of SniffErr \<Rightarrow> Some None | SniffFrame f \<Rightarrow> parseMarked f)"

fun recvMatch :: "bytes \<Rightarrow> (capture \<Rightarrow> bool) \<Rightarrow> sniff list \<Rightarrow> capture option go" where
  "recvMatch i match [] = Some None"
| "recvMatch i match (e # evs) = do {
     r \<leftarrow> next_capture e;
     case r of None \<Rightarrow> recvMatch i match evs
     | Some c \<Rightarrow>
         if ID (c_meta c) \<noteq> i then recvMatch i match evs
         else if match c then Some (Some c)
         else recvMatch i match evs }"

section \<open>Flags and environment\<close>

record flags =
  f_src :: string
  f_dst :: string
  f_innerSrc :: string
  f_innerDst :: string
  f_sport :: int
  f_dport :: int
  f_vni :: int
  f_vlan :: int
  f_iface :: string
  f_dstMAC :: string
  f_srcMAC :: string
  f_asVM :: bool
  f_hmacKey :: bytes
  f_response :: bool
  f_deliver :: bool

text \<open>Answers of the environment: the local address of a dialled UDP socket,
  \<^verbatim>\<open>net.InterfaceByName\<close> (index and hardware address), a fresh UUID, the clock in nanoseconds,
  whether the sniffer's socket opens and binds, and whether the sending socket opens and sends.\<close>

record env =
  dialLocal :: "bytes \<Rightarrow> bytes option"
  ifByName :: "string \<Rightarrow> (nat \<times> bytes) option"
  newUUID :: bytes
  nowNano :: u64
  sniffOK :: bool
  sendOK :: bool

datatype fatal = InvalidIP string | NoSourceIP | NeedL2Flags | NoSuchInterface string | BadDstMAC | BadSrcMAC
  | SnifferFailed | SendFailed | NeedVXLANFlags

text \<open>What leaves the host: a frame on an interface, or an IP packet handed to the kernel for routing.\<close>

datatype sent = Frame nat bytes | Packet bytes bytes

definition payload :: "flags \<Rightarrow> Meta \<Rightarrow> bytes" where
  "payload f m = Signed m (f_hmacKey f)"

definition newMeta :: "env \<Rightarrow> flags \<Rightarrow> Meta \<times> bytes" where
  "newMeta e f = (\<lparr>ID = newUUID e, Deliver = f_deliver f, NeedResponse = f_response f, Timestamp = nowNano e\<rparr>, newUUID e)"

definition startSniffer :: "env \<Rightarrow> fatal + unit" where
  "startSniffer e = (if sniffOK e then Inr () else Inl SnifferFailed)"

definition mustIP :: "string \<Rightarrow> fatal + bytes" where
  "mustIP s = (case ParseIP s of None \<Rightarrow> Inl (InvalidIP s) | Some ip \<Rightarrow> Inr ip)"

text \<open>A source address that does not parse is Go's \<^verbatim>\<open>nil\<close>, not an error.\<close>

definition srcIP :: "env \<Rightarrow> flags \<Rightarrow> bytes \<Rightarrow> fatal + bytes" where
  "srcIP e f dst =
     (if f_src f \<noteq> [] then Inr (case ParseIP (f_src f) of None \<Rightarrow> [] | Some ip \<Rightarrow> ip)
      else case dialLocal e dst of None \<Rightarrow> Inl NoSourceIP | Some ip \<Rightarrow> Inr ip)"

section \<open>Probes\<close>

definition isV6 :: "bytes \<Rightarrow> bool" where
  "isV6 ip \<longleftrightarrow> To4 ip = []"

definition icmpL3 :: "bytes \<Rightarrow> bytes \<Rightarrow> u16 \<Rightarrow> u16 \<Rightarrow> bytes \<Rightarrow> bytes \<times> bool" where
  "icmpL3 src dst ident seq pl =
     (if isV6 dst then
        (IPv6 ToS TTLMax ProtoICMPv6 src dst (ICMPv6 ICMPv6EchoRequest ident seq src dst pl), True)
      else (IPv4 ToS TTLMax ProtoICMP src dst (ICMP ICMPEchoRequest ident seq pl), False))"

definition udpL3 :: "bytes \<Rightarrow> bytes \<Rightarrow> u16 \<Rightarrow> u16 \<Rightarrow> bytes \<Rightarrow> bytes \<times> bool" where
  "udpL3 src dst sport dport pl =
     (if isV6 dst then (IPv6 ToS TTLMax ProtoUDP src dst (UDP6 src dst sport dport pl), True)
      else (IPv4 ToS TTLMax ProtoUDP src dst (UDP src dst sport dport pl), False))"

text \<open>The closure \<^verbatim>\<open>send\<close> of \<^verbatim>\<open>runTCP\<close>, up to \<^verbatim>\<open>emit\<close>.\<close>

definition tcpL3 :: "bytes \<Rightarrow> bytes \<Rightarrow> u16 \<Rightarrow> u16 \<Rightarrow> u32 \<Rightarrow> u32 \<Rightarrow> byte \<Rightarrow> bytes \<Rightarrow> bytes" where
  "tcpL3 src dst sp dp seq ack fl pl =
     (if isV6 dst then IPv6 ToS TTLMax ProtoTCP src dst (TCP6 src dst sp dp seq ack fl pl)
      else IPv4 ToS TTLMax ProtoTCP src dst (TCP src dst sp dp seq ack fl pl))"

definition isEchoReply :: "capture \<Rightarrow> bool" where
  "isEchoReply c \<longleftrightarrow> c_proto c = ProtoICMP \<and> c_icmpType c = ICMPEchoReply \<or>
                     c_proto c = ProtoICMPv6 \<and> c_icmpType c = ICMPv6EchoReply"

section \<open>Sending\<close>

definition sendL2 :: "env \<Rightarrow> flags \<Rightarrow> bytes \<Rightarrow> bool \<Rightarrow> fatal + sent" where
  "sendL2 e f l3 v6 =
     (if f_iface f = [] \<or> f_dstMAC f = [] then Inl NeedL2Flags
      else case ifByName e (f_iface f) of
        None \<Rightarrow> Inl (NoSuchInterface (f_iface f))
      | Some (idx, hw) \<Rightarrow>
          (case ParseMAC (f_dstMAC f) of
            None \<Rightarrow> Inl BadDstMAC
          | Some dmac \<Rightarrow>
              (case (if f_srcMAC f \<noteq> [] then ParseMAC (f_srcMAC f) else Some hw) of
                None \<Rightarrow> Inl BadSrcMAC
              | Some smac \<Rightarrow>
                  let et = (if v6 then EtherTypeIPv6 else EtherTypeIPv4);
                      frame = (if 0 < f_vlan f then EthernetVLAN dmac smac (of_int (f_vlan f)) et l3
                               else Ethernet dmac smac et l3)
                  in if sendOK e then Inr (Frame idx frame) else Inl SendFailed)))"

definition sendIP :: "env \<Rightarrow> bytes \<Rightarrow> bytes \<Rightarrow> fatal + sent" where
  "sendIP e dst ipPacket =
     (if sendOK e then Inr (Packet (copy_from (make_bytes 4) 0 (To4 dst)) ipPacket) else Inl SendFailed)"

definition emit :: "env \<Rightarrow> flags \<Rightarrow> bytes \<Rightarrow> bytes \<Rightarrow> bool \<Rightarrow> fatal + sent" where
  "emit e f dst l3 v6 =
     (if v6 \<or> 0 < f_vlan f \<or> f_iface f \<noteq> [] then sendL2 e f l3 v6 else sendIP e dst l3)"

section \<open>Sub-commands\<close>

text \<open>The result of a run: the fatal error that ended it, or what was sent and the reply it logged
  (\<open>None\<close>: none within the timeout, or none awaited).\<close>

definition bindE :: "'e + 'a \<Rightarrow> ('a \<Rightarrow> ('e + 'b) go) \<Rightarrow> ('e + 'b) go" where
  "bindE x k = (case x of Inl e \<Rightarrow> Some (Inl e) | Inr a \<Rightarrow> k a)"

type_synonym outcome = "(fatal + sent list \<times> capture option) go"

definition await :: "flags \<Rightarrow> bytes \<Rightarrow> (capture \<Rightarrow> bool) \<Rightarrow> sniff list \<Rightarrow> sent \<Rightarrow> outcome" where
  "await f i match evs s =
     (if f_response f then do { c \<leftarrow> recvMatch i match evs; Some (Inr ([s], c)) }
      else Some (Inr ([s], None)))"

definition runICMP :: "env \<Rightarrow> flags \<Rightarrow> sniff list \<Rightarrow> outcome" where
  "runICMP e f evs =
     bindE (mustIP (f_dst f)) (\<lambda>dst.
     bindE (srcIP e f dst) (\<lambda>src.
       let (meta, i) = newMeta e f;
           (l3, v6) = icmpL3 src dst 0x1234 1 (payload f meta)
       in bindE (startSniffer e) (\<lambda>sn. bindE (emit e f dst l3 v6) (await f i isEchoReply evs))))"

definition runUDP :: "env \<Rightarrow> flags \<Rightarrow> sniff list \<Rightarrow> outcome" where
  "runUDP e f evs =
     (let f = (if f_dport f = 0 then f\<lparr>f_dport := 7\<rparr> else f) in
     bindE (mustIP (f_dst f)) (\<lambda>dst.
     bindE (srcIP e f dst) (\<lambda>src.
       let (meta, i) = newMeta e f;
           (l3, v6) = udpL3 src dst (of_int (f_sport f)) (of_int (f_dport f)) (payload f meta)
       in bindE (startSniffer e) (\<lambda>sn. bindE (emit e f dst l3 v6)
            (await f i (\<lambda>c. c_proto c = ProtoUDP \<and> c_dstPort c = of_int (f_sport f)) evs)))))"

definition dummyMAC :: bytes where
  "dummyMAC = [0x02, 0, 0, 0, 0, 0x01]"

definition runVXLAN :: "env \<Rightarrow> flags \<Rightarrow> sniff list \<Rightarrow> outcome" where
  "runVXLAN e f evs =
     (if f_innerSrc f = [] \<or> f_innerDst f = [] \<or> f_vni f = 0 then Some (Inl NeedVXLANFlags)
      else
      bindE (mustIP (f_dst f)) (\<lambda>outerDst.
      bindE (srcIP e f outerDst) (\<lambda>outerSrc.
      bindE (mustIP (f_innerSrc f)) (\<lambda>innerSrc.
      bindE (mustIP (f_innerDst f)) (\<lambda>innerDst.
        let (meta, i) = newMeta e f;
            (innerIP, innerV6) = icmpL3 innerSrc innerDst 0x1234 1 (payload f meta);
            innerEt = (if innerV6 then EtherTypeIPv6 else EtherTypeIPv4);
            innerEth = Ethernet dummyMAC dummyMAC innerEt innerIP;
            vxlan = VXLAN (of_int (f_vni f)) innerEth;
            outerV6 = isV6 outerDst;
            outerL3 = (if outerV6
              then IPv6 0 TTLMax ProtoUDP outerSrc outerDst (UDP6 outerSrc outerDst (of_int (f_sport f)) VXLANPort vxlan)
              else IPv4 0 TTLMax ProtoUDP outerSrc outerDst (UDP outerSrc outerDst (of_int (f_sport f)) VXLANPort vxlan))
        in bindE (startSniffer e) (\<lambda>sn. bindE (emit e f outerDst outerL3 outerV6)
             (await f i (\<lambda>c. c_vni c = of_int (f_vni f) \<and> isEchoReply c) evs)))))))"

definition clientISN :: u32 where "clientISN = 0x2000"

definition PING :: bytes where
  "PING = [0x54, 0x52, 0x41, 0x43, 0x45, 0x46, 0x4C, 0x4F, 0x57, 0x2D, 0x50, 0x49, 0x4E, 0x47]"

text \<open>The dialogue: SYN, wait for the SYN/ACK, ACK, then (with data) data, wait, FIN, wait. \<open>evs1\<close>, \<open>evs2\<close>
  and \<open>evs3\<close> are what the sniffer delivers during the three waits; the result lists what was sent and
  what was captured.\<close>

definition runTCP :: "env \<Rightarrow> flags \<Rightarrow> bool \<Rightarrow> sniff list \<Rightarrow> sniff list \<Rightarrow> sniff list \<Rightarrow>
    (fatal + sent list \<times> capture list) go" where
  "runTCP e f withData evs1 evs2 evs3 =
     (let f = (if f_dport f = 0 then f\<lparr>f_dport := 80\<rparr> else f) in
     bindE (mustIP (f_dst f)) (\<lambda>dst.
     bindE (srcIP e f dst) (\<lambda>src.
     bindE (startSniffer e) (\<lambda>sn.
       let sp = of_int (f_sport f); dp = of_int (f_dport f);
           (meta, i) = newMeta e f;
           send = (\<lambda>seq ack fl pl. emit e f dst (tcpL3 src dst sp dp seq ack fl pl) (isV6 dst));
           caught = (\<lambda>c. case c of None \<Rightarrow> [] | Some x \<Rightarrow> [x])
       in bindE (send clientISN 0 FlagSYN (payload f meta)) (\<lambda>s1. do {
            r1 \<leftarrow> recvMatch i (\<lambda>c. c_proto c = ProtoTCP \<and> c_dstPort c = sp \<and>
                                   c_tcpFlags c AND FlagSYN \<noteq> 0 \<and> c_tcpFlags c AND FlagACK \<noteq> 0) evs1;
            case r1 of None \<Rightarrow> Some (Inr ([s1], []))
            | Some synack \<Rightarrow>
                let serverISN = c_tcpSeq synack in
                bindE (send (clientISN + 1) (serverISN + 1) FlagACK (payload f meta)) (\<lambda>s2.
                  if \<not> withData then Some (Inr ([s1, s2], [synack]))
                  else
                    let data = payload f meta @ PING in
                    bindE (send (clientISN + 1) (serverISN + 1) (FlagPSH OR FlagACK) data) (\<lambda>s3. do {
                      r2 \<leftarrow> recvMatch i (\<lambda>c. c_proto c = ProtoTCP \<and> c_dstPort c = sp \<and>
                                              c_tcpFlags c AND FlagPSH \<noteq> 0) evs2;
                      bindE (send (clientISN + 1 + of_nat (length data)) (serverISN + 1) (FlagFIN OR FlagACK) (payload f meta)) (\<lambda>s4. do {
                        r3 \<leftarrow> recvMatch i (\<lambda>c. c_proto c = ProtoTCP \<and> c_dstPort c = sp \<and>
                                                c_tcpFlags c AND FlagFIN \<noteq> 0) evs3;
                        Some (Inr ([s1, s2, s3, s4], [synack] @ caught r2 @ caught r3)) }) })) })))))"

end
