(* ===== verification/Frames.thy ===== *)
theory Frames
  imports Pkt Tfmeta
begin

text \<open>
  The agent's frame parsers and L2 framing (\<^verbatim>\<open>agent/responder.go\<close>, "tiny parsers"). Results follow
  Go's comma-ok idiom: \<open>Some None\<close> is a rejected input, \<open>Some (Some x)\<close> an accepted one, and
  \<open>None\<close> a run-time panic. The equations \<open>parseL2_eq\<close>, \<open>parseIPv4_eq\<close>, \<open>parseIPv6_eq\<close> show that no
  input makes a parser panic; the interface \<open>framing\<close> states that parsing undoes building and is
  interpreted for the IPv4, IPv6 and Ethernet builders of package \<^verbatim>\<open>pkt\<close>.
\<close>

section \<open>Ethernet and VLAN\<close>

record l2info =
  l2_dst :: bytes
  l2_src :: bytes
  l2_etherType :: u16
  l2_vlan :: u16
  l2_l3 :: bytes

text \<open>The loop over at most two VLAN tags: ethertype, offset and outermost VID so far.\<close>

fun parseL2_tags :: "nat \<Rightarrow> bytes \<Rightarrow> u16 \<Rightarrow> nat \<Rightarrow> u16 \<Rightarrow> (u16 \<times> nat \<times> u16) option go" where
  "parseL2_tags 0 frame et off vlan = Some (Some (et, off, vlan))"
| "parseL2_tags (Suc n) frame et off vlan =
     (if et = EtherTypeVLAN \<or> et = 0x88A8 then
        if length frame < off + 4 then Some None
        else do {
          vlan' \<leftarrow> (if vlan = 0 then do { t \<leftarrow> rdBE16 frame off (off + 2); Some (t AND 0x0FFF) }
                   else Some vlan);
          et' \<leftarrow> rdBE16 frame (off + 2) (off + 4);
          parseL2_tags n frame et' (off + 4) vlan' }
      else Some (Some (et, off, vlan)))"

definition parseL2 :: "bytes \<Rightarrow> l2info option go" where
  "parseL2 frame =
     (if length frame < 14 then Some None
      else do {
        d \<leftarrow> slice frame 0 6;
        s \<leftarrow> slice frame 6 12;
        et \<leftarrow> rdBE16 frame 12 14;
        r \<leftarrow> parseL2_tags 2 frame et 14 0;
        case r of None \<Rightarrow> Some None
        | Some (et', off, vlan) \<Rightarrow> do {
            l3 \<leftarrow> slice_from frame off;
            Some (Some \<lparr>l2_dst = d, l2_src = s, l2_etherType = et', l2_vlan = vlan, l2_l3 = l3\<rparr>) } })"

definition frameL2 :: "bytes \<Rightarrow> bytes \<Rightarrow> u16 \<Rightarrow> u16 \<Rightarrow> bytes \<Rightarrow> bytes" where
  "frameL2 dstMAC srcMAC vlan etherType payload =
     (if vlan \<noteq> 0 then EthernetVLAN dstMAC srcMAC vlan etherType payload
      else Ethernet dstMAC srcMAC etherType payload)"

section \<open>IPv4 and IPv6\<close>

record ipInfo =
  ip_tos :: byte
  ip_proto :: byte
  ip_src :: bytes
  ip_dst :: bytes

definition parseIPv4 :: "bytes \<Rightarrow> (ipInfo \<times> bytes) option go" where
  "parseIPv4 l3 =
     (if length l3 < 20 then Some None
      else do {
        b0 \<leftarrow> at l3 0;
        let ihl = unat (b0 AND 0x0F) * 4;
        if ihl < 20 \<or> length l3 < ihl then Some None
        else do {
          tos \<leftarrow> at l3 1;
          proto \<leftarrow> at l3 9;
          src \<leftarrow> slice l3 12 16;
          dst \<leftarrow> slice l3 16 20;
          rest \<leftarrow> slice_from l3 ihl;
          Some (Some (\<lparr>ip_tos = tos, ip_proto = proto, ip_src = src, ip_dst = dst\<rparr>, rest)) } })"

record ip6Info =
  ip6_tos :: byte
  ip6_nextHdr :: byte
  ip6_src :: bytes
  ip6_dst :: bytes

definition parseIPv6 :: "bytes \<Rightarrow> (ip6Info \<times> bytes) option go" where
  "parseIPv6 l3 =
     (if length l3 < 40 then Some None
      else do {
        b0 \<leftarrow> at l3 0;
        b1 \<leftarrow> at l3 1;
        let tc = push_bit 4 (b0 AND 0x0F) OR drop_bit 4 b1;
        nh \<leftarrow> at l3 6;
        src \<leftarrow> slice l3 8 24;
        dst \<leftarrow> slice l3 24 40;
        rest \<leftarrow> slice_from l3 40;
        Some (Some (\<lparr>ip6_tos = tc, ip6_nextHdr = nh, ip6_src = src, ip6_dst = dst\<rparr>, rest)) })"

section \<open>The outer headers of VXLAN\<close>

definition outerUDP :: "u16 \<Rightarrow> bytes \<Rightarrow> (bytes \<times> bytes \<times> bytes) option go" where
  "outerUDP etherType l3 =
     (if etherType = EtherTypeIPv4 then do {
        r \<leftarrow> parseIPv4 l3;
        case r of None \<Rightarrow> Some None
        | Some (ip, rest) \<Rightarrow>
            if ip_proto ip \<noteq> ProtoUDP then Some None else Some (Some (ip_src ip, ip_dst ip, rest)) }
      else if etherType = EtherTypeIPv6 then do {
        r \<leftarrow> parseIPv6 l3;
        case r of None \<Rightarrow> Some None
        | Some (ip, rest) \<Rightarrow>
            if ip6_nextHdr ip \<noteq> ProtoUDP then Some None else Some (Some (ip6_src ip, ip6_dst ip, rest)) }
      else Some None)"

definition isVXLANFrame :: "bytes \<Rightarrow> bool go" where
  "isVXLANFrame frame = do {
     r \<leftarrow> parseL2 frame;
     case r of None \<Rightarrow> Some False
     | Some l2 \<Rightarrow> do {
         u \<leftarrow> outerUDP (l2_etherType l2) (l2_l3 l2);
         case u of None \<Rightarrow> Some False
         | Some (_, _, l4) \<Rightarrow>
             if 8 \<le> length l4 then do { port \<leftarrow> rdBE16 l4 2 4; Some (port = VXLANPort) }
             else Some False } }"

section \<open>No input makes a parser panic\<close>

lemma parseIPv4_eq:
  "parseIPv4 l3 = Some
     (let ihl = unat (l3 ! 0 AND 0x0F) * 4 in
      if length l3 < 20 \<or> ihl < 20 \<or> length l3 < ihl then None
      else Some (\<lparr>ip_tos = l3 ! 1, ip_proto = l3 ! 9, ip_src = take 4 (drop 12 l3),
                  ip_dst = take 4 (drop 16 l3)\<rparr>, drop ihl l3))"
proof (cases "length l3 < 20")
  case False
  then have "l3 \<noteq> []" by auto
  with False show ?thesis by (simp add: parseIPv4_def Let_def)
qed (simp add: parseIPv4_def Let_def)

lemma parseIPv6_eq:
  "parseIPv6 l3 = Some
     (if length l3 < 40 then None
      else Some (\<lparr>ip6_tos = push_bit 4 (l3 ! 0 AND 0x0F) OR drop_bit 4 (l3 ! 1), ip6_nextHdr = l3 ! 6,
                  ip6_src = take 16 (drop 8 l3), ip6_dst = take 16 (drop 24 l3)\<rparr>, drop 40 l3))"
proof (cases "length l3 < 40")
  case False
  then have "l3 \<noteq> []" by auto
  with False show ?thesis by (simp add: parseIPv6_def Let_def)
qed (simp add: parseIPv6_def)

lemma parseL2_tags_total:
  "off \<le> length frame \<Longrightarrow> \<exists>r. parseL2_tags n frame et off vlan = Some r \<and>
     (\<forall>et' off' vlan'. r = Some (et', off', vlan') \<longrightarrow> off' \<le> length frame)"
  by (induction n arbitrary: et off vlan) auto

lemma parseL2_total: "\<exists>r. parseL2 frame = Some r"
proof (cases "length frame < 14")
  case True
  then show ?thesis by (simp add: parseL2_def)
next
  case False
  then obtain r where "parseL2_tags 2 frame (be16_at frame 12) 14 0 = Some r"
    and "\<forall>et' off' vlan'. r = Some (et', off', vlan') \<longrightarrow> off' \<le> length frame"
    using parseL2_tags_total [of 14 frame 2 "be16_at frame 12" 0] by auto
  then show ?thesis
    using False by (cases r) (auto simp: parseL2_def)
qed

lemma outerUDP_total: "\<exists>r. outerUDP et l3 = Some r"
  by (auto simp: outerUDP_def parseIPv4_eq parseIPv6_eq Let_def)

lemma outerUDP_lengths:
  assumes "outerUDP et l3 = Some (Some (s, d, l4))"
  shows "et = 0x0800 \<and> length s = 4 \<and> length d = 4 \<or> et = 0x86DD \<and> length s = 16 \<and> length d = 16"
  using assms by (auto simp: outerUDP_def parseIPv4_eq parseIPv6_eq Let_def split: if_splits)

lemma isVXLANFrame_total: "\<exists>r. isVXLANFrame frame = Some r"
proof -
  obtain r where r: "parseL2 frame = Some r" using parseL2_total by blast
  show ?thesis
  proof (cases r)
    case None
    with r show ?thesis by (auto simp: isVXLANFrame_def)
  next
    case (Some l2)
    obtain u where u: "outerUDP (l2_etherType l2) (l2_l3 l2) = Some u" using outerUDP_total by blast
    with r Some show ?thesis by (cases u) (auto simp: isVXLANFrame_def)
  qed
qed

section \<open>Parsing undoes building\<close>

locale framing =
  fixes wrap :: "'h \<Rightarrow> bytes \<Rightarrow> bytes" and unwrap :: "bytes \<Rightarrow> ('h \<times> bytes) option go"
    and wf :: "'h \<Rightarrow> bool"
  assumes unwrap_wrap: "wf h \<Longrightarrow> unwrap (wrap h p) = Some (Some (h, p))"
begin

lemma wrap_inj: "wf h \<Longrightarrow> wf h' \<Longrightarrow> wrap h p = wrap h' p' \<Longrightarrow> h = h' \<and> p = p'"
  by (metis unwrap_wrap option.inject prod.inject)

lemma payload_recovered: "wf h \<Longrightarrow> map_option (map_option snd) (unwrap (wrap h p)) = Some (Some p)"
  by (simp add: unwrap_wrap)

end

definition wf_ipInfo :: "ipInfo \<Rightarrow> bool" where
  "wf_ipInfo i \<longleftrightarrow> length (ip_src i) = 4 \<and> length (ip_dst i) = 4"

definition wf_ip6Info :: "ip6Info \<Rightarrow> bool" where
  "wf_ip6Info i \<longleftrightarrow> length (ip6_src i) = 16 \<and> length (ip6_dst i) = 16"

definition wrap4 :: "byte \<Rightarrow> ipInfo \<Rightarrow> bytes \<Rightarrow> bytes" where
  "wrap4 ttl i p = IPv4 (ip_tos i) ttl (ip_proto i) (ip_src i) (ip_dst i) p"

definition wrap6 :: "byte \<Rightarrow> ip6Info \<Rightarrow> bytes \<Rightarrow> bytes" where
  "wrap6 hop i p = IPv6 (ip6_tos i) hop (ip6_nextHdr i) (ip6_src i) (ip6_dst i) p"

lemma parseIPv4_IPv4:
  assumes "length src = 4" "length dst = 4"
  shows "parseIPv4 (IPv4 tos ttl proto src dst p) =
     Some (Some (\<lparr>ip_tos = tos, ip_proto = proto, ip_src = src, ip_dst = dst\<rparr>, p))"
  using assms
  by (simp add: parseIPv4_eq IPv4_layout ip4_front_def Let_def nth_append be16_def)

lemma tc_nibbles: "push_bit 4 ((0x60 OR drop_bit 4 tc) AND 0x0F) OR drop_bit 4 (push_bit 4 tc AND 0xF0) = (tc :: byte)"
proof -
  have low: "x AND 0x0F = take_bit 4 x" for x :: byte
    by (simp add: take_bit_eq_mask mask_eq_exp_minus_1)
  have "(0xF0 :: byte) = NOT (mask 4)" by (simp add: mask_eq_exp_minus_1)
  then have "push_bit 4 tc AND 0xF0 = push_bit 4 tc AND NOT (mask 4)" by simp
  also have "\<dots> = push_bit 4 tc"
    by (rule bit_word_eqI) (auto simp: bit_and_iff bit_not_iff bit_mask_iff bit_push_bit_iff)
  finally have high: "push_bit 4 tc AND 0xF0 = push_bit 4 tc" .
  have "take_bit 4 (0x60 OR drop_bit 4 tc) = take_bit 4 (drop_bit 4 tc)"
    by (simp only: take_bit_or) simp
  moreover have "push_bit 4 (take_bit 4 (drop_bit 4 tc)) OR drop_bit 4 (push_bit 4 tc) = tc"
    by (rule bit_word_eqI)
      (auto simp: bit_or_iff bit_push_bit_iff bit_take_bit_iff bit_drop_bit_eq)
  ultimately show ?thesis by (simp only: low high)
qed

lemma parseIPv6_IPv6:
  assumes "length src = 16" "length dst = 16"
  shows "parseIPv6 (IPv6 tc hop nh src dst p) =
     Some (Some (\<lparr>ip6_tos = tc, ip6_nextHdr = nh, ip6_src = src, ip6_dst = dst\<rparr>, p))"
  using assms tc_nibbles [of tc]
  by (simp add: parseIPv6_eq IPv6_layout nth_append be16_def)

interpretation fr4: framing "wrap4 ttl" parseIPv4 wf_ipInfo
  by unfold_locales (simp add: wrap4_def wf_ipInfo_def parseIPv4_IPv4)

interpretation fr6: framing "wrap6 hop" parseIPv6 wf_ip6Info
  by unfold_locales (simp add: wrap6_def wf_ip6Info_def parseIPv6_IPv6)

definition vlan_type :: "u16 \<Rightarrow> bool" where
  "vlan_type et \<longleftrightarrow> et = EtherTypeVLAN \<or> et = 0x88A8"

lemma vlan_type_ip [simp]: "\<not> vlan_type 0x0800" "\<not> vlan_type 0x86DD"
  by (simp_all add: vlan_type_def)

lemma parseL2_Ethernet:
  assumes "length d = 6" "length s = 6" "\<not> vlan_type et"
  shows "parseL2 (Ethernet d s et p) =
     Some (Some \<lparr>l2_dst = d, l2_src = s, l2_etherType = et, l2_vlan = 0, l2_l3 = p\<rparr>)"
proof -
  have "be16_at (Ethernet d s et p) 12 = et"
    using assms by (intro be16_atI) (simp add: Ethernet_layout)
  then show ?thesis
    using assms by (simp add: parseL2_def numeral_2_eq_2 vlan_type_def) (simp add: Ethernet_layout)
qed

lemma parseL2_EthernetVLAN:
  assumes "length d = 6" "length s = 6" "\<not> vlan_type et"
  shows "parseL2 (EthernetVLAN d s vid et p) =
     Some (Some \<lparr>l2_dst = d, l2_src = s, l2_etherType = et, l2_vlan = vid AND 0x0FFF, l2_l3 = p\<rparr>)"
proof -
  let ?f = "EthernetVLAN d s vid et p"
  have "be16_at ?f 12 = 0x8100" and "be16_at ?f 14 = vid AND 0x0FFF" and "be16_at ?f 16 = et"
    using assms by (auto intro!: be16_atI simp: EthernetVLAN_layout)
  moreover have "length ?f = 18 + length p" "take 6 ?f = d" "take 6 (drop 6 ?f) = s" "drop 18 ?f = p"
    using assms by (simp_all add: EthernetVLAN_layout)
  ultimately show ?thesis
    using assms by (simp add: parseL2_def numeral_2_eq_2 vlan_type_def)
qed

lemma parseL2_macs:
  assumes "parseL2 frame = Some (Some l2)"
  shows "length (l2_dst l2) = 6" "length (l2_src l2) = 6"
  using assms by (auto simp: parseL2_def split: if_splits option.splits bind_splits)

lemma parseL2_reframe:
  assumes "length d = 6" "length s = 6" "\<not> vlan_type et"
  shows "parseL2 (frameL2 d s vlan et p) =
     Some (Some \<lparr>l2_dst = d, l2_src = s, l2_etherType = et, l2_vlan = vlan AND 0x0FFF, l2_l3 = p\<rparr>)"
  using assms by (simp add: frameL2_def parseL2_Ethernet parseL2_EthernetVLAN)

type_synonym l2hdr = "bytes \<times> bytes \<times> u16 \<times> u16"

definition wf_l2 :: "l2hdr \<Rightarrow> bool" where
  "wf_l2 h \<longleftrightarrow> (case h of (d, s, vlan, et) \<Rightarrow>
     length d = 6 \<and> length s = 6 \<and> vlan AND 0x0FFF = vlan \<and> \<not> vlan_type et)"

definition wrapL2 :: "l2hdr \<Rightarrow> bytes \<Rightarrow> bytes" where
  "wrapL2 h p = (case h of (d, s, vlan, et) \<Rightarrow> frameL2 d s vlan et p)"

definition unwrapL2 :: "bytes \<Rightarrow> (l2hdr \<times> bytes) option go" where
  "unwrapL2 f = map_option (map_option
     (\<lambda>i. ((l2_dst i, l2_src i, l2_vlan i, l2_etherType i), l2_l3 i))) (parseL2 f)"

lemma parseL2_frameL2:
  assumes "length d = 6" "length s = 6" "vlan AND 0x0FFF = vlan" "\<not> vlan_type et"
  shows "parseL2 (frameL2 d s vlan et p) =
     Some (Some \<lparr>l2_dst = d, l2_src = s, l2_etherType = et, l2_vlan = vlan, l2_l3 = p\<rparr>)"
  using assms by (simp add: frameL2_def parseL2_Ethernet parseL2_EthernetVLAN)

interpretation frL2: framing wrapL2 unwrapL2 wf_l2
  by unfold_locales (auto simp: wrapL2_def unwrapL2_def wf_l2_def parseL2_frameL2)

section \<open>Properties\<close>

text \<open>
  C32: Parsing undoes building. For every header the builders are given (6-byte MAC addresses, a VLAN
  id of 12 bits, 4- or 16-byte IP addresses) and every payload, the agent's parsers return exactly
  the fields and the payload; hence different headers or payloads give different frames.
\<close>

theorem parse_build:
  assumes "length d = 6" "length s = 6" "vlan AND 0x0FFF = vlan" "\<not> vlan_type et"
    and "length a = 4" "length b = 4" "length a6 = 16" "length b6 = 16"
  shows "parseL2 (frameL2 d s vlan et p) =
       Some (Some \<lparr>l2_dst = d, l2_src = s, l2_etherType = et, l2_vlan = vlan, l2_l3 = p\<rparr>) \<and>
     parseIPv4 (IPv4 tos ttl proto a b p) =
       Some (Some (\<lparr>ip_tos = tos, ip_proto = proto, ip_src = a, ip_dst = b\<rparr>, p)) \<and>
     parseIPv6 (IPv6 tos ttl proto a6 b6 p) =
       Some (Some (\<lparr>ip6_tos = tos, ip6_nextHdr = proto, ip6_src = a6, ip6_dst = b6\<rparr>, p))"
  using assms by (simp add: parseL2_frameL2 parseIPv4_IPv4 parseIPv6_IPv6)

theorem parse_build_witness:
  "parseL2 (frameL2 [1, 2, 3, 4, 5, 6] [6, 5, 4, 3, 2, 1] 42 0x0800 [9]) =
     Some (Some \<lparr>l2_dst = [1, 2, 3, 4, 5, 6], l2_src = [6, 5, 4, 3, 2, 1], l2_etherType = 0x0800, l2_vlan = 42, l2_l3 = [9]\<rparr>)"
  using parse_build [of "[1, 2, 3, 4, 5, 6]" "[6, 5, 4, 3, 2, 1]" 42 "0x0800" "[10, 0, 0, 1]" "[10, 0, 0, 2]"
      "replicate 16 0" "replicate 16 1" "[9]"] by simp

end
