(* ===== verification/Metrics.thy ===== *)
theory Metrics
  imports Go_Prelude
begin

text \<open>
  The agent's userspace counters (\<^verbatim>\<open>agent/metrics.go\<close>). The atomic counters are plain fields here:
  every operation of the model that touches them is one atomic \<^verbatim>\<open>Add\<close> or \<^verbatim>\<open>Store\<close>.
\<close>

record metrics =
  parseErrors :: u64
  readErrors :: u64
  repliesSent :: u64
  authFailures :: u64
  tapsWatched :: u64
  vxlanWatched :: u64

definition metrics0 :: metrics where
  "metrics0 = \<lparr>parseErrors = 0, readErrors = 0, repliesSent = 0, authFailures = 0,
     tapsWatched = 0, vxlanWatched = 0\<rparr>"

text \<open>One per-CPU counter summed over the CPUs; \<open>lookup\<close> is the map read of the eBPF library,
  \<open>None\<close> when it fails.\<close>

definition sumPerCPU :: "(u32 \<Rightarrow> u64 list option) \<Rightarrow> u32 \<Rightarrow> u64" where
  "sumPerCPU lookup key = (case lookup key of None \<Rightarrow> 0 | Some vals \<Rightarrow> foldl (+) 0 vals)"

lemma foldl_plus_word: "foldl (+) s vals = s + sum_list (vals :: u64 list)"
  by (induction vals arbitrary: s) (simp_all add: add.assoc)

lemma sumPerCPU_eq: "lookup key = Some vals \<Longrightarrow> sumPerCPU lookup key = sum_list vals"
  by (simp add: sumPerCPU_def foldl_plus_word)

end
