(* ===== verification/Responder.thy ===== *)
theory Responder
  imports Frames Metrics
begin

text \<open>
  The agent's responder (\<^verbatim>\<open>agent/responder.go\<close>): the state machine that reads raw frames and answers
  marked probes addressed to a local VM. Operations take and return the state \<open>rstate\<close>, the
  source's \<^verbatim>\<open>responder\<close> struct together with the process counters it updates; a reply of \<open>None\<close> is
  Go's \<^verbatim>\<open>nil\<close>. System calls are parameters: whether \<^verbatim>\<open>Sendto\<close> succeeds, what \<^verbatim>\<open>Recvmsg\<close> delivers, how
  control messages are split.
\<close>

section \<open>State\<close>

record tcpFlow =
  serverNext :: u32

record responder =
  r_iface :: nat
  r_ifType :: byte
  r_fd :: nat
  r_localIPs :: "(bytes, bool) gomap"
  r_tcpRespond :: bool
  r_hmacKey :: bytes
  r_flows :: "(string, tcpFlow) gomap"

record rstate = responder +
  mtr :: metrics

section \<open>Keys and locality\<close>

definition htons :: "u16 \<Rightarrow> u16" where
  "htons v = (push_bit 8 v AND 0xff00) OR drop_bit 8 v"

definition key16 :: "bytes \<Rightarrow> bytes" where
  "key16 ip = copy_from (make_bytes 16) 0 (To16 ip)"

definition isLocal :: "rstate \<Rightarrow> bytes \<Rightarrow> bool" where
  "isLocal r ip = (case mget (r_localIPs r) (key16 ip) of None \<Rightarrow> False | Some b \<Rightarrow> b)"

definition newResponder ::
  "nat option \<Rightarrow> bool \<Rightarrow> nat \<Rightarrow> byte \<Rightarrow> bytes list \<Rightarrow> bool \<Rightarrow> bytes \<Rightarrow> metrics \<Rightarrow> rstate option" where
  "newResponder sock bind_ok iface ifType localIPs tcpRespond hmacKey m =
     (case sock of None \<Rightarrow> None
      | Some fd \<Rightarrow> if \<not> bind_ok then None
          else Some \<lparr>r_iface = iface, r_ifType = ifType, r_fd = fd,
            r_localIPs = foldl (\<lambda>s ip. mput s (key16 ip) True) [] localIPs,
            r_tcpRespond = tcpRespond, r_hmacKey = hmacKey, r_flows = [], mtr = m\<rparr>)"

section \<open>Authentication and the payload of a reply\<close>

definition authOK :: "rstate \<Rightarrow> bytes \<Rightarrow> (bool \<times> rstate) go" where
  "authOK r payload =
     (if length (r_hmacKey r) = 0 then Some (True, r)
      else do {
        ok \<leftarrow> Verify payload (r_hmacKey r);
        if ok then Some (True, r)
        else Some (False, r\<lparr>mtr := (mtr r)\<lparr>authFailures := authFailures (mtr r) + 1\<rparr>\<rparr>) })"

text \<open>The condition guarding every reply, in its short-circuit order.\<close>

definition gate :: "rstate \<Rightarrow> bytes \<Rightarrow> (bool \<times> rstate) go" where
  "gate r payload = do {
     u \<leftarrow> Unmarshal payload;
     case u of Inl _ \<Rightarrow> Some (False, r)
     | Inr meta \<Rightarrow>
         if \<not> NeedResponse meta \<or> Deliver meta then Some (False, r) else authOK r payload }"

definition sanitize :: "rstate \<Rightarrow> bytes \<Rightarrow> bytes go" where
  "sanitize r p =
     (let out = copy_from (make_bytes (length p)) 0 p;
          out = (if MetaSize \<le> length out then out[20 := 0, 21 := 0] else out)
      in if 0 < length (r_hmacKey r) \<and> SignedSize \<le> length out then do {
           core \<leftarrow> slice out 0 MetaSize;
           Some (copy_range out MetaSize SignedSize (Sign core (r_hmacKey r))) }
         else Some out)"

section \<open>TCP\<close>

definition flowKey :: "bytes \<Rightarrow> bytes \<Rightarrow> u16 \<Rightarrow> u16 \<Rightarrow> string" where
  "flowKey src dst sport dport =
     ip_string src @ '':'' @ dec_string (unat sport) @ ''>'' @ ip_string dst @ '':'' @ dec_string (unat dport)"

fun fnv32a :: "u32 \<Rightarrow> bytes \<Rightarrow> u32" where
  "fnv32a h [] = h"
| "fnv32a h (b # bs) = fnv32a ((h XOR ucast b) * 16777619) bs"

definition serverISN :: "bytes \<Rightarrow> bytes \<Rightarrow> u16 \<Rightarrow> u16 \<Rightarrow> u32" where
  "serverISN src dst sport dport =
     (let h = fnv32a 2166136261 (To16 src);
          h = fnv32a h (To16 dst);
          p = make_bytes 4;
          p = copy_range p 0 2 (be16 sport);
          p = copy_range p 2 4 (be16 dport)
      in fnv32a h p)"

text \<open>The closure \<^verbatim>\<open>mk\<close> of \<^verbatim>\<open>buildTCPReply\<close>.\<close>

definition mkTCP :: "bytes \<Rightarrow> bytes \<Rightarrow> u16 \<Rightarrow> u16 \<Rightarrow> bool \<Rightarrow> u32 \<Rightarrow> u32 \<Rightarrow> byte \<Rightarrow> bytes \<Rightarrow> bytes" where
  "mkTCP src dst sport dport v6 seq ack fl payload =
     (if v6 then IPv6 ToS TTLMax ProtoTCP dst src (TCP6 dst src dport sport seq ack fl payload)
      else IPv4 ToS TTLMax ProtoTCP dst src (TCP dst src dport sport seq ack fl payload))"

definition buildTCPReply ::
  "rstate \<Rightarrow> bytes \<Rightarrow> bytes \<Rightarrow> bytes \<Rightarrow> bool \<Rightarrow> (bytes option \<times> rstate) go" where
  "buildTCPReply r src dst tcp v6 =
     (if \<not> r_tcpRespond r \<or> length tcp < 20 then Some (None, r)
      else do {
        sport \<leftarrow> rdBE16 tcp 0 2;
        dport \<leftarrow> rdBE16 tcp 2 4;
        clientSeq \<leftarrow> rdBE32 tcp 4 8;
        b12 \<leftarrow> at tcp 12;
        let doff = unat (drop_bit 4 b12) * 4;
        if doff < 20 \<or> length tcp < doff then Some (None, r)
        else do {
          flags \<leftarrow> at tcp 13;
          data \<leftarrow> slice_from tcp doff;
          let key = flowKey src dst sport dport;
          if flags AND FlagRST \<noteq> 0 then Some (None, r\<lparr>r_flows := mdel (r_flows r) key\<rparr>)
          else do {
            (ok, r) \<leftarrow> gate r data;
            if \<not> ok then Some (None, r)
            else if flags AND FlagSYN \<noteq> 0 \<and> flags AND FlagACK = 0 then do {
              let isn = serverISN src dst sport dport;
              let fl = (if 4096 < mlen (r_flows r) then [] else r_flows r);
              echo \<leftarrow> sanitize r data;
              let r = r\<lparr>r_flows := mput fl key \<lparr>serverNext = isn + 1 + of_nat (length echo)\<rparr>\<rparr>;
              Some (Some (mkTCP src dst sport dport v6 isn (clientSeq + 1) (FlagSYN OR FlagACK) echo), r) }
            else if flags AND FlagFIN \<noteq> 0 then do {
              let seq = (case mget (r_flows r) key of
                           None \<Rightarrow> serverISN src dst sport dport + 1
                         | Some f \<Rightarrow> serverNext f);
              let r = r\<lparr>r_flows := mdel (r_flows r) key\<rparr>;
              echo \<leftarrow> sanitize r data;
              Some (Some (mkTCP src dst sport dport v6 seq (clientSeq + of_nat (length data) + 1)
                            (FlagFIN OR FlagACK) echo), r) }
            else if flags AND FlagPSH \<noteq> 0 \<and> 0 < length data then do {
              let f = (case mget (r_flows r) key of
                         None \<Rightarrow> \<lparr>serverNext = serverISN src dst sport dport + 1\<rparr>
                       | Some f \<Rightarrow> f);
              echo \<leftarrow> sanitize r data;
              let seg = mkTCP src dst sport dport v6 (serverNext f) (clientSeq + of_nat (length data))
                          (FlagPSH OR FlagACK) echo;
              let f = f\<lparr>serverNext := serverNext f + of_nat (length echo)\<rparr>;
              Some (Some seg, r\<lparr>r_flows := mput (r_flows r) key f\<rparr>) }
            else Some (None, r) } } })"

section \<open>Replies\<close>

definition buildReplyL4 ::
  "rstate \<Rightarrow> bytes \<Rightarrow> bytes \<Rightarrow> byte \<Rightarrow> bytes \<Rightarrow> bool \<Rightarrow> (bytes option \<times> rstate) go" where
  "buildReplyL4 r src dst proto l4 v6 =
     (if proto = ProtoICMP \<or> proto = ProtoICMPv6 then
        if length l4 < 8 then Some (None, r)
        else do {
          payload \<leftarrow> slice_from l4 8;
          (ok, r) \<leftarrow> gate r payload;
          if \<not> ok then Some (None, r)
          else do {
            ident \<leftarrow> rdBE16 l4 4 6;
            seq \<leftarrow> rdBE16 l4 6 8;
            echo \<leftarrow> sanitize r payload;
            if v6 then Some (Some (IPv6 ToS TTLMax ProtoICMPv6 dst src
                                     (ICMPv6 ICMPv6EchoReply ident seq dst src echo)), r)
            else Some (Some (IPv4 ToS TTLMax ProtoICMP dst src
                               (ICMP ICMPEchoReply ident seq echo)), r) } }
      else if proto = ProtoUDP then
        if length l4 < 8 then Some (None, r)
        else do {
          payload \<leftarrow> slice_from l4 8;
          (ok, r) \<leftarrow> gate r payload;
          if \<not> ok then Some (None, r)
          else do {
            sport \<leftarrow> rdBE16 l4 0 2;
            dport \<leftarrow> rdBE16 l4 2 4;
            echo \<leftarrow> sanitize r payload;
            if v6 then Some (Some (IPv6 ToS TTLMax ProtoUDP dst src (UDP6 dst src dport sport echo)), r)
            else Some (Some (IPv4 ToS TTLMax ProtoUDP dst src (UDP dst src dport sport echo)), r) } }
      else if proto = ProtoTCP then buildTCPReply r src dst l4 v6
      else Some (None, r))"

definition buildReply :: "rstate \<Rightarrow> u16 \<Rightarrow> bytes \<Rightarrow> (bytes option \<times> rstate) go" where
  "buildReply r etherType l3 =
     (if etherType = EtherTypeIPv4 then do {
        p \<leftarrow> parseIPv4 l3;
        case p of None \<Rightarrow> Some (None, r)
        | Some (ip, rest) \<Rightarrow>
            if ip_tos ip AND 0xFC \<noteq> ToS then Some (None, r)
            else if \<not> isLocal r (ip_dst ip) then Some (None, r)
            else buildReplyL4 r (ip_src ip) (ip_dst ip) (ip_proto ip) rest False }
      else if etherType = EtherTypeIPv6 then do {
        p \<leftarrow> parseIPv6 l3;
        case p of None \<Rightarrow> Some (None, r)
        | Some (ip, rest) \<Rightarrow>
            if ip6_tos ip AND 0xFC \<noteq> ToS then Some (None, r)
            else if \<not> isLocal r (ip6_dst ip) then Some (None, r)
            else buildReplyL4 r (ip6_src ip) (ip6_dst ip) (ip6_nextHdr ip) rest True }
      else Some (None, r))"

section \<open>Frames in, frames out\<close>

definition send :: "bool \<Rightarrow> rstate \<Rightarrow> bytes \<Rightarrow> (bytes option \<times> rstate) go" where
  "send sendto_ok r frame = do {
     addr \<leftarrow> slice frame 0 6;
     if \<not> sendto_ok then Some (None, r)
     else Some (Some frame, r\<lparr>mtr := (mtr r)\<lparr>repliesSent := repliesSent (mtr r) + 1\<rparr>\<rparr>) }"

definition orVlan :: "u16 \<Rightarrow> u16 \<Rightarrow> u16" where
  "orVlan inline aux = (if inline \<noteq> 0 then inline else aux)"

definition handleRegular :: "bool \<Rightarrow> rstate \<Rightarrow> bytes \<Rightarrow> u16 \<Rightarrow> (bytes option \<times> rstate) go" where
  "handleRegular sendto_ok r frame auxVlan = do {
     p \<leftarrow> parseL2 frame;
     case p of None \<Rightarrow> Some (None, r)
     | Some l2 \<Rightarrow> do {
         (reply, r) \<leftarrow> buildReply r (l2_etherType l2) (l2_l3 l2);
         case reply of None \<Rightarrow> Some (None, r)
         | Some rep \<Rightarrow> send sendto_ok r
             (frameL2 (l2_src l2) (l2_dst l2) (orVlan (l2_vlan l2) auxVlan) (l2_etherType l2) rep) } }"

definition handleVXLAN :: "bool \<Rightarrow> rstate \<Rightarrow> bytes \<Rightarrow> u16 \<Rightarrow> (bytes option \<times> rstate) go" where
  "handleVXLAN sendto_ok r frame auxVlan = do {
     p \<leftarrow> parseL2 frame;
     case p of None \<Rightarrow> Some (None, r)
     | Some oL2 \<Rightarrow> do {
         u \<leftarrow> outerUDP (l2_etherType oL2) (l2_l3 oL2);
         case u of None \<Rightarrow> Some (None, r)
         | Some (osrc, odst, ol4) \<Rightarrow>
             if length ol4 < 8 then Some (None, r)
             else do {
               port \<leftarrow> rdBE16 ol4 2 4;
               if port \<noteq> VXLANPort then Some (None, r)
               else do {
                 vxl \<leftarrow> slice_from ol4 8;
                 if length vxl < 8 then Some (None, r)
                 else do {
                   b0 \<leftarrow> at vxl 0;
                   if b0 AND 0x08 = 0 then Some (None, r)
                   else do {
                     w \<leftarrow> rdBE32 vxl 4 8;
                     let vni = drop_bit 8 w;
                     inner \<leftarrow> slice_from vxl 8;
                     q \<leftarrow> parseL2 inner;
                     case q of None \<Rightarrow> Some (None, r)
                     | Some iL2 \<Rightarrow> do {
                         (reply, r) \<leftarrow> buildReply r (l2_etherType iL2) (l2_l3 iL2);
                         case reply of None \<Rightarrow> Some (None, r)
                         | Some innerReply \<Rightarrow>
                             let innerEth = frameL2 (l2_src iL2) (l2_dst iL2) (l2_vlan iL2)
                                              (l2_etherType iL2) innerReply;
                                 vxlan = VXLAN vni innerEth;
                                 outerIP = (if l2_etherType oL2 = EtherTypeIPv6
                                   then IPv6 0 TTLMax ProtoUDP odst osrc
                                          (UDP6 odst osrc VXLANPort VXLANPort vxlan)
                                   else IPv4 0 TTLMax ProtoUDP odst osrc
                                          (UDP odst osrc VXLANPort VXLANPort vxlan))
                             in send sendto_ok r (frameL2 (l2_src oL2) (l2_dst oL2)
                                  (orVlan (l2_vlan oL2) auxVlan) (l2_etherType oL2) outerIP) } } } } } } }"

definition handle :: "bool \<Rightarrow> rstate \<Rightarrow> bytes \<Rightarrow> u16 \<Rightarrow> (bytes option \<times> rstate) go" where
  "handle sendto_ok r frame auxVlan =
     (if r_ifType r = IfaceVXLAN then handleVXLAN sendto_ok r frame auxVlan
      else if r_ifType r = IfaceRegular then handleRegular sendto_ok r frame auxVlan
      else do {
        v \<leftarrow> isVXLANFrame frame;
        if v then handleVXLAN sendto_ok r frame auxVlan
        else handleRegular sendto_ok r frame auxVlan })"

section \<open>The receive loop\<close>

text \<open>\<^verbatim>\<open>struct tpacket_auxdata\<close>, in the byte order of the (little-endian) targets the program is built for.\<close>

definition vlanFromAuxData :: "bytes \<Rightarrow> u16 option go" where
  "vlanFromAuxData d =
     (if length d < 20 then Some None
      else do {
        status \<leftarrow> (rdLE 4 d 0 4 :: u32 go);
        if status AND 0x10 = 0 then Some None
        else do {
          tci \<leftarrow> (rdLE 2 d 16 18 :: u16 go);
          Some (Some (tci AND 0x0FFF)) } })"

definition SOL_PACKET :: nat where "SOL_PACKET = 263"
definition PACKET_AUXDATA :: nat where "PACKET_AUXDATA = 8"

fun auxVLAN_scan :: "(nat \<times> nat \<times> bytes) list \<Rightarrow> u16 go" where
  "auxVLAN_scan [] = Some 0"
| "auxVLAN_scan ((lvl, typ, d) # scms) =
     (if lvl \<noteq> SOL_PACKET \<or> typ \<noteq> PACKET_AUXDATA then auxVLAN_scan scms
      else do {
        v \<leftarrow> vlanFromAuxData d;
        case v of Some vid \<Rightarrow> Some vid | None \<Rightarrow> auxVLAN_scan scms })"

definition auxVLAN :: "(bytes \<Rightarrow> (nat \<times> nat \<times> bytes) list option) \<Rightarrow> bytes \<Rightarrow> u16 go" where
  "auxVLAN parseSCM oob = (case parseSCM oob of None \<Rightarrow> Some 0 | Some scms \<Rightarrow> auxVLAN_scan scms)"

text \<open>What one \<^verbatim>\<open>Recvmsg\<close> delivers, and whether a \<^verbatim>\<open>Sendto\<close> made while handling it succeeds.\<close>

datatype errno = EBADF | EINTR | OtherErrno
datatype recv = RecvErr errno | RecvFrame bytes bytes bool

fun Loop :: "(bytes \<Rightarrow> (nat \<times> nat \<times> bytes) list option) \<Rightarrow> rstate \<Rightarrow> recv list \<Rightarrow> (bytes list \<times> rstate) go" where
  "Loop parseSCM r [] = Some ([], r)"
| "Loop parseSCM r (RecvErr e # evs) =
     (if e = EBADF \<or> e = EINTR then Some ([], r) else Loop parseSCM r evs)"
| "Loop parseSCM r (RecvFrame frame oob sendto_ok # evs) = do {
     auxVlan \<leftarrow> auxVLAN parseSCM oob;
     (out, r) \<leftarrow> handle sendto_ok r frame auxVlan;
     (outs, r) \<leftarrow> Loop parseSCM r evs;
     Some ((case out of None \<Rightarrow> outs | Some f \<Rightarrow> f # outs), r) }"

section \<open>What a payload asks for\<close>

definition asks :: "bytes \<Rightarrow> bool" where
  "asks p = (case Unmarshal p of Some (Inr m) \<Rightarrow> NeedResponse m \<and> \<not> Deliver m | _ \<Rightarrow> False)"

definition authentic :: "bytes \<Rightarrow> bytes \<Rightarrow> bool" where
  "authentic key p = (Verify p key = Some True)"

definition bump_auth :: "rstate \<Rightarrow> rstate" where
  "bump_auth r = r\<lparr>mtr := (mtr r)\<lparr>authFailures := authFailures (mtr r) + 1\<rparr>\<rparr>"

definition san :: "bytes \<Rightarrow> bytes \<Rightarrow> bytes" where
  "san key p =
     (let out = (if 30 \<le> length p then p[20 := 0, 21 := 0] else p)
      in if key \<noteq> [] \<and> 62 \<le> length p then copy_range out 30 62 (Sign (take 30 out) key) else out)"

lemma gate_eq:
  "gate r p = Some (asks p \<and> authentic (r_hmacKey r) p,
     if asks p \<and> \<not> authentic (r_hmacKey r) p then bump_auth r else r)"
proof -
  obtain u where u: "Unmarshal p = Some u" by (simp add: Unmarshal_eq)
  obtain ok where ok: "Verify p (r_hmacKey r) = Some ok" using auth.verify_total by blast
  have "ok" if "r_hmacKey r = []" using that ok auth.verify_off by simp
  then show ?thesis
    using u ok by (cases u)
      (auto simp: gate_def asks_def authentic_def authOK_def bump_auth_def)
qed

lemma sanitize_eq: "sanitize r p = Some (san (r_hmacKey r) p)"
  by (simp add: sanitize_def san_def Let_def copy_from_def make_bytes_def)

lemma length_san [simp]: "length (san key p) = length p"
  by (simp add: san_def Let_def)

lemma Unmarshal_flags_cleared:
  assumes "Unmarshal p = Some (Inr m)"
  shows "Unmarshal (p[20 := 0, 21 := 0]) = Some (Inr (m\<lparr>Deliver := False, NeedResponse := False\<rparr>))"
proof -
  have len: "30 \<le> length p" using assms by (auto simp: Unmarshal_eq split: if_splits)
  have "take 4 (p[20 := 0, 21 := 0]) = take 4 p"
    and "take 16 (drop 4 (p[20 := 0, 21 := 0])) = take 16 (drop 4 p)"
    and "take 8 (drop 22 (p[20 := 0, 21 := 0])) = take 8 (drop 22 p)"
    by (simp_all add: drop_update_swap drop_update_cancel)
  with assms len show ?thesis by (auto simp: Unmarshal_eq split: if_splits)
qed

lemma Unmarshal_prefix:
  "30 \<le> length p \<Longrightarrow> take 30 p = take 30 q \<Longrightarrow> 30 \<le> length q \<Longrightarrow> Unmarshal q = Unmarshal p"
proof -
  assume l: "30 \<le> length p" "30 \<le> length q" and eq: "take 30 p = take 30 q"
  have sub: "take n (drop k p) = take n (drop k q)" if "k + n \<le> 30" for n k
    using that eq by (metis take_drop take_take min.absorb1 add.commute)
  have nth: "p ! k = q ! k" if "k < 30" for k
    using that eq by (metis nth_take)
  show ?thesis
    using l sub [of 0 4] sub [of 4 16] sub [of 22 8] nth [of 20] nth [of 21]
    by (simp add: Unmarshal_eq)
qed

lemma Unmarshal_san:
  assumes "Unmarshal p = Some (Inr m)"
  shows "Unmarshal (san key p) = Some (Inr (m\<lparr>Deliver := False, NeedResponse := False\<rparr>))"
proof -
  have len: "30 \<le> length p" using assms by (auto simp: Unmarshal_eq split: if_splits)
  let ?out = "p[20 := 0, 21 := 0]"
  have "take 30 (san key p) = take 30 ?out"
    using len by (simp add: san_def Let_def copy_range_def copy_from_def min_def)
  then have "Unmarshal (san key p) = Unmarshal ?out"
    using len by (intro Unmarshal_prefix) simp_all
  with Unmarshal_flags_cleared [OF assms] show ?thesis by simp
qed

lemma asksE:
  assumes "asks p"
  obtains m where "Unmarshal p = Some (Inr m)" "NeedResponse m" "\<not> Deliver m" "30 \<le> length p"
  using assms by (auto simp: asks_def Unmarshal_eq split: option.splits sum.splits if_splits)

lemma not_asks_san: "\<not> asks (san key p)"
proof (cases "\<exists>m. Unmarshal p = Some (Inr m)")
  case True
  then show ?thesis by (auto simp: asks_def Unmarshal_san)
next
  case False
  have "Unmarshal (san key p) \<noteq> Some (Inr m)" for m
  proof (cases "30 \<le> length p")
    case True
    then have "take 4 (san key p) = take 4 p"
      by (simp add: san_def Let_def copy_range_def copy_from_def min_def)
    then show ?thesis using False by (auto simp: Unmarshal_eq split: if_splits)
  next
    case False
    then show ?thesis by (simp add: Unmarshal_eq)
  qed
  then show ?thesis by (auto simp: asks_def split: option.splits sum.splits)
qed

lemma authentic_san:
  assumes "authentic key p"
  shows "authentic key (san key p)"
proof (cases "key = []")
  case True
  then show ?thesis by (simp add: authentic_def auth.verify_off)
next
  case False
  then have len: "62 \<le> length p"
    using assms auth.verify_needs_mac [of p key] by (simp add: authentic_def)
  then show ?thesis
    using False auth.verify_resign [of "p[20 := 0, 21 := 0]" key]
    by (simp add: authentic_def san_def Let_def)
qed

end
