(* ===== verification/Responder_Correct.thy ===== *)
theory Responder_Correct
  imports Responder
begin

text \<open>
  Correctness of the responder. \<open>warrants\<close> is the abstract reply policy (an executable predicate
  on the packet and the configuration); the responder's layered code refines it. The shape lemmas
  describe every reply it can emit, from which follow freedom from reply loops, preservation of
  the run id, re-authentication, and the TCP sequence discipline.
\<close>

section \<open>Payloads of built segments\<close>

definition payload_of :: "byte \<Rightarrow> bytes \<Rightarrow> bytes option" where
  "payload_of proto l4 =
     (if proto = 1 \<or> proto = 58 \<or> proto = 17 then
        if length l4 < 8 then None else Some (drop 8 l4)
      else if proto = 6 then
        let doff = unat (drop_bit 4 (l4 ! 12)) * 4 in
        if length l4 < 20 \<or> doff < 20 \<or> length l4 < doff then None else Some (drop doff l4)
      else None)"

lemma drop_ICMP [simp]: "drop 8 (ICMP t i q p) = p" "drop 8 (ICMPv6 t i q src dst p) = p"
  by (simp_all add: ICMP_layout ICMPv6_layout Let_def)

lemma drop_UDP [simp]: "drop 8 (UDP src dst sp dp p) = p" "drop 8 (UDP6 src dst sp dp p) = p"
  by (simp_all add: UDP_layout UDP6_layout Let_def)

lemma drop_TCP [simp]: "drop 20 (TCP src dst sp dp sq ak fl p) = p" "drop 20 (TCP6 src dst sp dp sq ak fl p) = p"
  by (simp_all add: TCP_layout TCP6_layout Let_def)

lemma tcp_front_doff: "tcp_front sp dp sq ak fl ! 12 = 0x50" "tcp_front sp dp sq ak fl ! 13 = fl"
  by (simp_all add: tcp_front_def nth_append)

lemma doff_TCP [simp]:
  "TCP src dst sp dp sq ak fl p ! 12 = 0x50" "TCP6 src dst sp dp sq ak fl p ! 12 = 0x50"
  "TCP src dst sp dp sq ak fl p ! 13 = fl" "TCP6 src dst sp dp sq ak fl p ! 13 = fl"
  by (simp_all add: TCP_layout TCP6_layout Let_def nth_append tcp_front_doff)

lemma payload_of_built [simp]:
  "payload_of 1 (ICMP t i q p) = Some p"
  "payload_of 58 (ICMPv6 t i q src dst p) = Some p"
  "payload_of 17 (UDP src dst sp dp p) = Some p"
  "payload_of 17 (UDP6 src dst sp dp p) = Some p"
  "payload_of 6 (TCP src dst sp dp sq ak fl p) = Some p"
  "payload_of 6 (TCP6 src dst sp dp sq ak fl p) = Some p"
  by (simp_all add: payload_of_def)

section \<open>The reply policy\<close>

definition tcp_answers :: "byte \<Rightarrow> bool" where
  "tcp_answers fl \<longleftrightarrow> fl AND 0x04 = 0 \<and>
     (fl AND 0x02 \<noteq> 0 \<and> fl AND 0x10 = 0 \<or> fl AND 0x01 \<noteq> 0 \<or> fl AND 0x08 \<noteq> 0)"

definition warrantsL4 :: "rstate \<Rightarrow> byte \<Rightarrow> bytes \<Rightarrow> bool" where
  "warrantsL4 r proto l4 =
     (case payload_of proto l4 of None \<Rightarrow> False
      | Some p \<Rightarrow> asks p \<and> authentic (r_hmacKey r) p \<and>
                  (proto = 6 \<longrightarrow> r_tcpRespond r \<and> tcp_answers (l4 ! 13)))"

definition wrapIP :: "bool \<Rightarrow> byte \<Rightarrow> bytes \<Rightarrow> bytes \<Rightarrow> bytes \<Rightarrow> bytes" where
  "wrapIP v6 q s d l4 = (if v6 then IPv6 0xF8 255 q s d l4 else IPv4 0xF8 255 q s d l4)"

text \<open>The protocol of the answer: that of the probe, except that ICMP follows the address family.\<close>

definition reply_proto :: "bool \<Rightarrow> byte \<Rightarrow> byte" where
  "reply_proto v6 proto = (if proto = 1 \<or> proto = 58 then if v6 then 58 else 1 else proto)"

lemma tcpFlow_upd: "f\<lparr>serverNext := x\<rparr> = \<lparr>serverNext = x\<rparr>" for f :: tcpFlow
  by (cases f) simp

lemma buildTCPReply_off:
  "\<not> r_tcpRespond r \<or> payload_of 6 tcp = None \<Longrightarrow> buildTCPReply r src dst tcp v6 = Some (None, r)"
  by (auto simp: buildTCPReply_def payload_of_def Let_def split: if_splits)

lemma buildTCPReply_on:
  assumes "r_tcpRespond r" "payload_of 6 tcp = Some data"
  shows "buildTCPReply r src dst tcp v6 = Some
    (let sport = be16_at tcp 0; dport = be16_at tcp 2; cseq = be32_at tcp 4; fl = tcp ! 13;
         key = flowKey src dst sport dport; isn = serverISN src dst sport dport;
         echo = san (r_hmacKey r) data; flows = r_flows r; mk = mkTCP src dst sport dport v6
     in if fl AND 0x04 \<noteq> 0 then (None, r\<lparr>r_flows := mdel flows key\<rparr>)
        else if \<not> (asks data \<and> authentic (r_hmacKey r) data) then
          (None, if asks data then bump_auth r else r)
        else if fl AND 0x02 \<noteq> 0 \<and> fl AND 0x10 = 0 then
          (Some (mk isn (cseq + 1) 0x12 echo),
           r\<lparr>r_flows := mput (if 4096 < mlen flows then [] else flows) key
                         \<lparr>serverNext = isn + 1 + of_nat (length data)\<rparr>\<rparr>)
        else if fl AND 0x01 \<noteq> 0 then
          (Some (mk (case mget flows key of None \<Rightarrow> isn + 1 | Some f \<Rightarrow> serverNext f)
                    (cseq + of_nat (length data) + 1) 0x11 echo),
           r\<lparr>r_flows := mdel flows key\<rparr>)
        else if fl AND 0x08 \<noteq> 0 then
          let nxt = (case mget flows key of None \<Rightarrow> isn + 1 | Some f \<Rightarrow> serverNext f) in
          (Some (mk nxt (cseq + of_nat (length data)) 0x18 echo),
           r\<lparr>r_flows := mput flows key \<lparr>serverNext = nxt + of_nat (length data)\<rparr>\<rparr>)
        else (None, r))"
proof -
  let ?doff = "unat (drop_bit 4 (tcp ! 12)) * 4"
  have len: "20 \<le> length tcp" and doff: "\<not> ?doff < 20" "\<not> length tcp < ?doff"
    and sl: "slice_from tcp ?doff = Some data"
    using assms(2) by (auto simp: payload_of_def Let_def split: if_splits)
  have "data \<noteq> []" if "asks data" using that by (elim asksE) auto
  then show ?thesis
    using assms(1) len doff
    by (cases "asks data"; cases "authentic (r_hmacKey r) data")
      (simp_all add: buildTCPReply_def Let_def gate_eq sanitize_eq sl tcpFlow_upd
        split: option.split)
qed

lemma buildReplyL4_eq:
  "buildReplyL4 r src dst proto l4 v6 =
     (if proto = 6 then buildTCPReply r src dst l4 v6
      else case payload_of proto l4 of None \<Rightarrow> Some (None, r)
      | Some p \<Rightarrow> Some
          (if \<not> (asks p \<and> authentic (r_hmacKey r) p) then (None, if asks p then bump_auth r else r)
           else let echo = san (r_hmacKey r) p in
             if proto = 17 then
               (Some (wrapIP v6 17 dst src
                  (if v6 then UDP6 dst src (be16_at l4 2) (be16_at l4 0) echo
                   else UDP dst src (be16_at l4 2) (be16_at l4 0) echo)), r)
             else
               (Some (if v6 then wrapIP v6 58 dst src (ICMPv6 129 (be16_at l4 4) (be16_at l4 6) dst src echo)
                      else wrapIP v6 1 dst src (ICMP 0 (be16_at l4 4) (be16_at l4 6) echo)), r)))"
  by (auto simp: buildReplyL4_def payload_of_def wrapIP_def gate_eq sanitize_eq Let_def)

lemma buildTCPReply_total: "\<exists>x. buildTCPReply r src dst tcp v6 = Some x"
  using buildTCPReply_off [of r tcp src dst v6] buildTCPReply_on [of r tcp _ src dst v6]
  by (cases "payload_of 6 tcp"; cases "r_tcpRespond r") auto

lemma buildReplyL4_total: "\<exists>x. buildReplyL4 r src dst proto l4 v6 = Some x"
  using buildTCPReply_total [of r src dst l4 v6]
  by (auto simp: buildReplyL4_eq split: option.splits)

lemma mkTCP_eq:
  "mkTCP src dst sport dport v6 sq ak fl p =
     wrapIP v6 6 dst src (if v6 then TCP6 dst src dport sport sq ak fl p else TCP dst src dport sport sq ak fl p)"
  by (simp add: mkTCP_def wrapIP_def)

text \<open>The code replies exactly when the policy says so.\<close>

lemma buildTCPReply_iff:
  assumes "buildTCPReply r src dst tcp v6 = Some (rep, r')"
  shows "rep \<noteq> None \<longleftrightarrow> warrantsL4 r 6 tcp"
proof (cases "r_tcpRespond r \<and> payload_of 6 tcp \<noteq> None")
  case True
  then obtain data where d: "r_tcpRespond r" "payload_of 6 tcp = Some data" by auto
  show ?thesis
    using assms d unfolding buildTCPReply_on [OF d]
    by (auto simp: Let_def warrantsL4_def tcp_answers_def split: if_splits)
next
  case False
  then have "buildTCPReply r src dst tcp v6 = Some (None, r)"
    by (intro buildTCPReply_off) auto
  with assms False show ?thesis by (auto simp: warrantsL4_def split: option.splits)
qed

lemma buildReplyL4_iff:
  assumes "buildReplyL4 r src dst proto l4 v6 = Some (rep, r')"
  shows "rep \<noteq> None \<longleftrightarrow> warrantsL4 r proto l4"
proof (cases "proto = 6")
  case True
  with assms buildTCPReply_iff show ?thesis by (simp add: buildReplyL4_eq)
next
  case False
  with assms show ?thesis
    by (auto simp: buildReplyL4_eq warrantsL4_def Let_def split: option.splits if_splits)
qed

text \<open>Every reply: swapped addresses, the mark, full TTL, and the sanitised payload behind a transport header.\<close>

lemma buildReplyL4_shape:
  assumes "buildReplyL4 r src dst proto l4 v6 = Some (Some rep, r')"
  obtains p q l4' where "payload_of proto l4 = Some p" "asks p" "authentic (r_hmacKey r) p"
    "rep = wrapIP v6 q dst src l4'" "payload_of q l4' = Some (san (r_hmacKey r) p)"
    "q \<in> {1, 58, 17, 6}" "q = 6 \<Longrightarrow> l4' ! 13 AND 0x04 = 0" "q = reply_proto v6 proto"
proof (cases "proto = 6")
  case True
  have w: "warrantsL4 r 6 l4" using buildReplyL4_iff [OF assms] True by simp
  then obtain data where d: "payload_of 6 l4 = Some data" "r_tcpRespond r"
    by (auto simp: warrantsL4_def split: option.splits)
  have "\<exists>sq ak fl. rep = mkTCP src dst (be16_at l4 0) (be16_at l4 2) v6 sq ak fl (san (r_hmacKey r) data)
      \<and> fl \<in> {0x12, 0x11, 0x18}"
    using assms True unfolding buildReplyL4_eq
    by (simp add: buildTCPReply_on [OF d(2,1)] Let_def split: if_splits option.splits) blast+
  then obtain sq ak fl where rep: "rep = mkTCP src dst (be16_at l4 0) (be16_at l4 2) v6 sq ak fl
      (san (r_hmacKey r) data)" and fl: "fl \<in> {0x12, 0x11, 0x18}" by blast
  show ?thesis
    by (rule that [of data 6 "if v6 then TCP6 dst src (be16_at l4 2) (be16_at l4 0) sq ak fl (san (r_hmacKey r) data)
                         else TCP dst src (be16_at l4 2) (be16_at l4 0) sq ak fl (san (r_hmacKey r) data)"])
      (use True d w rep fl in \<open>auto simp: warrantsL4_def mkTCP_eq reply_proto_def split: option.splits\<close>)
next
  case False
  with assms show ?thesis
    by (auto simp: buildReplyL4_eq reply_proto_def payload_of_def Let_def split: option.splits if_splits intro: that)
qed

section \<open>No frame makes the responder panic\<close>

lemma buildReply_total: "\<exists>x. buildReply r et l3 = Some x"
  using buildReplyL4_total
  by (auto simp: buildReply_def parseIPv4_eq parseIPv6_eq Let_def)

lemma length_frameL2: "14 \<le> length (frameL2 d s vlan et p)"
  by (simp add: frameL2_def Ethernet_layout EthernetVLAN_layout)

lemma send_frameL2:
  "send ok r (frameL2 d s vlan et p) =
     Some (if ok then (Some (frameL2 d s vlan et p),
                       r\<lparr>mtr := (mtr r)\<lparr>repliesSent := repliesSent (mtr r) + 1\<rparr>\<rparr>) else (None, r))"
  using length_frameL2 [of d s vlan et p] by (simp add: send_def)

lemma handleRegular_total: "\<exists>x. handleRegular ok r frame aux = Some x"
proof -
  obtain p where p: "parseL2 frame = Some p" using parseL2_total by blast
  show ?thesis
  proof (cases p)
    case (Some l2)
    obtain rep r' where "buildReply r (l2_etherType l2) (l2_l3 l2) = Some (rep, r')"
      using buildReply_total by fastforce
    with p Some show ?thesis by (cases rep) (auto simp: handleRegular_def send_frameL2)
  qed (use p in \<open>auto simp: handleRegular_def\<close>)
qed

text \<open>What a frame on a plain interface is answered with.\<close>

lemma handleRegular_reply:
  assumes "handleRegular ok r frame aux = Some (Some out, r')"
  obtains l2 rep r1 where "parseL2 frame = Some (Some l2)"
    "buildReply r (l2_etherType l2) (l2_l3 l2) = Some (Some rep, r1)"
    "out = frameL2 (l2_src l2) (l2_dst l2) (orVlan (l2_vlan l2) aux) (l2_etherType l2) rep"
    "r' = r1\<lparr>mtr := (mtr r1)\<lparr>repliesSent := repliesSent (mtr r1) + 1\<rparr>\<rparr>"
  using assms that
  by (auto simp: handleRegular_def send_frameL2 split: option.splits bind_splits if_splits)

definition outerWrap :: "bool \<Rightarrow> bytes \<Rightarrow> bytes \<Rightarrow> bytes \<Rightarrow> bytes" where
  "outerWrap v6 s d v = (if v6 then IPv6 0 255 17 s d (UDP6 s d 4789 4789 v)
                         else IPv4 0 255 17 s d (UDP s d 4789 4789 v))"

text \<open>A VXLAN frame as \<^verbatim>\<open>handleVXLAN\<close> reads it.\<close>

definition vxlan_view :: "bytes \<Rightarrow> (l2info \<times> bytes \<times> bytes \<times> u32 \<times> l2info) option" where
  "vxlan_view frame = (case parseL2 frame of Some (Some oL2) \<Rightarrow>
     (case outerUDP (l2_etherType oL2) (l2_l3 oL2) of Some (Some (osrc, odst, ol4)) \<Rightarrow>
        if length ol4 < 16 \<or> be16_at ol4 2 \<noteq> 4789 \<or> ol4 ! 8 AND 0x08 = 0 then None
        else (case parseL2 (drop 16 ol4) of
                Some (Some iL2) \<Rightarrow> Some (oL2, osrc, odst, drop_bit 8 (be32_at ol4 12), iL2)
              | _ \<Rightarrow> None)
      | _ \<Rightarrow> None) | _ \<Rightarrow> None)"

lemma handleVXLAN_eq:
  "handleVXLAN ok r frame aux = (case vxlan_view frame of None \<Rightarrow> Some (None, r)
     | Some (oL2, osrc, odst, vni, iL2) \<Rightarrow> do {
         (reply, r) \<leftarrow> buildReply r (l2_etherType iL2) (l2_l3 iL2);
         case reply of None \<Rightarrow> Some (None, r)
         | Some rep \<Rightarrow> send ok r (frameL2 (l2_src oL2) (l2_dst oL2) (orVlan (l2_vlan oL2) aux)
             (l2_etherType oL2) (outerWrap (l2_etherType oL2 = 0x86DD) odst osrc
               (VXLAN vni (frameL2 (l2_src iL2) (l2_dst iL2) (l2_vlan iL2) (l2_etherType iL2) rep)))) })"
proof -
  obtain p where p: "parseL2 frame = Some p" using parseL2_total by blast
  show ?thesis
  proof (cases p)
    case None
    with p show ?thesis by (simp add: handleVXLAN_def vxlan_view_def)
  next
    case (Some o2)
    obtain u where u: "outerUDP (l2_etherType o2) (l2_l3 o2) = Some u" using outerUDP_total by blast
    show ?thesis
    proof (cases u)
      case None
      with p Some u show ?thesis by (simp add: handleVXLAN_def vxlan_view_def)
    next
      case (Some t)
      obtain osrc odst ol4 where t: "u = Some (osrc, odst, ol4)" using Some by (cases t) auto
      show ?thesis
      proof (cases "length ol4 < 16")
        case True
        then show ?thesis using p \<open>p = Some o2\<close> u t by (auto simp: handleVXLAN_def vxlan_view_def)
      next
        case False
        then have ne: "drop 8 ol4 \<noteq> []" by simp
        obtain q where q: "parseL2 (drop 16 ol4) = Some q" using parseL2_total by blast
        have n8: "drop 8 ol4 ! 0 = ol4 ! 8" and b: "be32_at (drop 8 ol4) 4 = be32_at ol4 12"
          using False by (simp_all add: be32_at_drop)
        have l: "\<not> length ol4 - 8 < 8" "\<not> length ol4 < 8" using False by simp_all
        note facts = p \<open>p = Some o2\<close> u t q False ne n8 b l
        show ?thesis
        proof (cases q)
          case None
          with facts show ?thesis by (simp add: handleVXLAN_def vxlan_view_def)
        next
          case (Some i2)
          obtain rep r' where "buildReply r (l2_etherType i2) (l2_l3 i2) = Some (rep, r')"
            using buildReply_total by fastforce
          with facts Some show ?thesis
            by (cases rep) (simp_all add: handleVXLAN_def vxlan_view_def Let_def outerWrap_def)
        qed
      qed
    qed
  qed
qed


lemma handleVXLAN_total: "\<exists>x. handleVXLAN ok r frame aux = Some x"
proof (cases "vxlan_view frame")
  case (Some v)
  obtain oL2 osrc odst vni iL2 where v: "v = (oL2, osrc, odst, vni, iL2)" by (cases v)
  obtain rep r' where "buildReply r (l2_etherType iL2) (l2_l3 iL2) = Some (rep, r')"
    using buildReply_total by fastforce
  with Some v show ?thesis by (cases rep) (simp_all add: handleVXLAN_eq send_frameL2)
qed (simp add: handleVXLAN_eq)

lemma handle_total: "\<exists>x. handle ok r frame aux = Some x"
  using handleVXLAN_total [of ok r frame aux] handleRegular_total [of ok r frame aux]
    isVXLANFrame_total [of frame]
  by (auto simp: handle_def)

lemma vlanFromAuxData_eq:
  "vlanFromAuxData d = Some
     (if length d < 20 \<or> (le_val (take 4 d) :: u32) AND 0x10 = 0 then None
      else Some (le_val (take 2 (drop 16 d)) AND 0x0FFF))"
  by (auto simp: vlanFromAuxData_def rdLE_in)

lemma auxVLAN_scan_total: "\<exists>v. auxVLAN_scan scms = Some v \<and> v AND 0x0FFF = v"
proof (induction scms)
  case (Cons x scms)
  then show ?case
    by (cases x) (auto simp: vlanFromAuxData_eq and.assoc split: option.splits)
qed simp

lemma auxVLAN_total: "\<exists>v. auxVLAN parseSCM oob = Some v \<and> v AND 0x0FFF = v"
  using auxVLAN_scan_total by (auto simp: auxVLAN_def split: option.splits)

lemma Loop_total: "\<exists>x. Loop parseSCM r evs = Some x"
proof (induction evs arbitrary: r)
  case (Cons e evs)
  show ?case
  proof (cases e)
    case (RecvErr x)
    with Cons show ?thesis by auto
  next
    case (RecvFrame frame oob ok)
    obtain v where v: "auxVLAN parseSCM oob = Some v" using auxVLAN_total by blast
    obtain out r' where h: "handle ok r frame v = Some (out, r')" using handle_total by fastforce
    obtain outs r'' where "Loop parseSCM r' evs = Some (outs, r'')" using Cons by fastforce
    with RecvFrame v h show ?thesis by simp
  qed
qed simp

section \<open>The policy at the network layer\<close>

text \<open>The network header as the policy reads it: source, destination, protocol, segment, family.\<close>

definition net_view :: "u16 \<Rightarrow> bytes \<Rightarrow> (byte \<times> bytes \<times> bytes \<times> byte \<times> bytes \<times> bool) option" where
  "net_view et l3 =
     (if et = EtherTypeIPv4 then
        case parseIPv4 l3 of Some (Some (ip, rest)) \<Rightarrow>
          Some (ip_tos ip, ip_src ip, ip_dst ip, ip_proto ip, rest, False) | _ \<Rightarrow> None
      else if et = EtherTypeIPv6 then
        case parseIPv6 l3 of Some (Some (ip, rest)) \<Rightarrow>
          Some (ip6_tos ip, ip6_src ip, ip6_dst ip, ip6_nextHdr ip, rest, True) | _ \<Rightarrow> None
      else None)"

definition warrants :: "rstate \<Rightarrow> u16 \<Rightarrow> bytes \<Rightarrow> bool" where
  "warrants r et l3 = (case net_view et l3 of None \<Rightarrow> False
     | Some (tos, src, dst, proto, l4, v6) \<Rightarrow>
         tos AND 0xFC = 0xF8 \<and> isLocal r dst \<and> warrantsL4 r proto l4)"

lemma buildReply_view:
  "buildReply r et l3 = (case net_view et l3 of None \<Rightarrow> Some (None, r)
     | Some (tos, src, dst, proto, l4, v6) \<Rightarrow>
         if tos AND 0xFC \<noteq> 0xF8 \<or> \<not> isLocal r dst then Some (None, r)
         else buildReplyL4 r src dst proto l4 v6)"
  by (auto simp: buildReply_def net_view_def parseIPv4_eq parseIPv6_eq Let_def)

lemma net_view_lengths:
  assumes "net_view et l3 = Some (tos, src, dst, proto, l4, v6)"
  shows "et = (if v6 then 0x86DD else 0x0800)" "length src = (if v6 then 16 else 4)"
    "length dst = (if v6 then 16 else 4)"
  using assms by (auto simp: net_view_def parseIPv4_eq parseIPv6_eq Let_def split: if_splits)

lemma net_view_wrapIP:
  assumes "length s = (if v6 then 16 else 4)" "length d = (if v6 then 16 else 4)"
  shows "net_view (if v6 then 0x86DD else 0x0800) (wrapIP v6 q s d l4) = Some (0xF8, s, d, q, l4, v6)"
  using assms by (simp add: net_view_def wrapIP_def parseIPv4_IPv4 parseIPv6_IPv6)

lemma buildReply_iff:
  assumes "buildReply r et l3 = Some (rep, r')"
  shows "rep \<noteq> None \<longleftrightarrow> warrants r et l3"
proof (cases "net_view et l3")
  case None
  with assms show ?thesis by (auto simp: buildReply_view warrants_def)
next
  case (Some a)
  then obtain tos src dst proto l4 v6 where a: "net_view et l3 = Some (tos, src, dst, proto, l4, v6)"
    by (cases a) auto
  show ?thesis
    using assms a buildReplyL4_iff [of r src dst proto l4 v6 rep r']
    by (auto simp: buildReply_view warrants_def split: if_splits)
qed

text \<open>A reply at the network layer: everything the policy required, and what is sent.\<close>

lemma buildReply_shape:
  assumes "buildReply r et l3 = Some (Some rep, r')"
  obtains tos src dst proto l4 v6 p q l4' where
    "net_view et l3 = Some (tos, src, dst, proto, l4, v6)" "isLocal r dst"
    "payload_of proto l4 = Some p" "asks p" "authentic (r_hmacKey r) p"
    "et = (if v6 then 0x86DD else 0x0800)"
    "net_view et rep = Some (0xF8, dst, src, q, l4', v6)"
    "payload_of q l4' = Some (san (r_hmacKey r) p)"
    "q = 6 \<Longrightarrow> l4' ! 13 AND 0x04 = 0" "q \<in> {1, 58, 17, 6}"
    "rep = wrapIP v6 q dst src l4'" "tos AND 0xFC = 0xF8" "q = reply_proto v6 proto"
proof -
  obtain tos src dst proto l4 v6 where v: "net_view et l3 = Some (tos, src, dst, proto, l4, v6)"
    and L: "isLocal r dst" and T: "tos AND 0xFC = 0xF8" and b: "buildReplyL4 r src dst proto l4 v6 = Some (Some rep, r')"
    using assms by (auto simp: buildReply_view split: option.splits if_splits)
  note len = net_view_lengths [OF v]
  from b show ?thesis
  proof (rule buildReplyL4_shape)
    fix p q l4'
    assume *: "payload_of proto l4 = Some p" "asks p" "authentic (r_hmacKey r) p"
      "rep = wrapIP v6 q dst src l4'" "payload_of q l4' = Some (san (r_hmacKey r) p)"
      "q \<in> {1, 58, 17, 6}" "q = 6 \<Longrightarrow> l4' ! 13 AND 0x04 = 0" "q = reply_proto v6 proto"
    have nv: "net_view et rep = Some (0xF8, dst, src, q, l4', v6)"
      using net_view_wrapIP [of dst v6 src q l4'] len *(4) by simp
    show thesis
      by (rule that [OF v L *(1) *(2) *(3) len(1) nv *(5) _ *(6) *(4) T *(8)]) (rule *(7))
  qed
qed

section \<open>No reply loops\<close>

lemma buildReplyL4_ignores_san:
  assumes "payload_of q l4 = Some (san key p)" "q = 6 \<Longrightarrow> l4 ! 13 AND 0x04 = 0" "q \<in> {1, 58, 17, 6}"
  shows "buildReplyL4 r src dst q l4 v6 = Some (None, r)"
proof (cases "q = 6")
  case True
  then have "\<not> r_tcpRespond r \<Longrightarrow> buildTCPReply r src dst l4 v6 = Some (None, r)"
    by (intro buildTCPReply_off) simp
  moreover have "r_tcpRespond r \<Longrightarrow> buildTCPReply r src dst l4 v6 = Some (None, r)"
    using assms True by (simp add: buildTCPReply_on not_asks_san Let_def)
  ultimately show ?thesis using True by (cases "r_tcpRespond r") (simp_all add: buildReplyL4_eq)
next
  case False
  then show ?thesis using assms by (simp add: buildReplyL4_eq not_asks_san)
qed

lemma buildReply_ignores_replies:
  assumes "buildReply r et l3 = Some (Some rep, r')"
  shows "buildReply r2 et rep = Some (None, r2)"
  using assms
proof (rule buildReply_shape)
  fix tos src dst proto l4 v6 p q l4'
  assume "net_view et rep = Some (0xF8, dst, src, q, l4', v6)"
    and "payload_of q l4' = Some (san (r_hmacKey r) p)"
    and "q = 6 \<Longrightarrow> l4' ! 13 AND 0x04 = 0" and "q \<in> {1, 58, 17, 6}"
  then show ?thesis by (simp add: buildReply_view buildReplyL4_ignores_san)
qed

section \<open>VXLAN encapsulation\<close>

lemma handleVXLAN_reply:
  assumes "handleVXLAN ok r frame aux = Some (Some out, r')"
  obtains oL2 osrc odst vni iL2 rep r1 where "vxlan_view frame = Some (oL2, osrc, odst, vni, iL2)"
    "buildReply r (l2_etherType iL2) (l2_l3 iL2) = Some (Some rep, r1)"
    "out = frameL2 (l2_src oL2) (l2_dst oL2) (orVlan (l2_vlan oL2) aux) (l2_etherType oL2)
       (outerWrap (l2_etherType oL2 = 0x86DD) odst osrc
         (VXLAN vni (frameL2 (l2_src iL2) (l2_dst iL2) (l2_vlan iL2) (l2_etherType iL2) rep)))"
    "r' = r1\<lparr>mtr := (mtr r1)\<lparr>repliesSent := repliesSent (mtr r1) + 1\<rparr>\<rparr>"
  using assms that
  by (auto simp: handleVXLAN_eq send_frameL2 split: option.splits bind_splits if_splits)

lemma vxlan_viewD:
  assumes "vxlan_view frame = Some (oL2, osrc, odst, vni, iL2)"
  shows "length (l2_dst oL2) = 6" "length (l2_src oL2) = 6" "length (l2_dst iL2) = 6" "length (l2_src iL2) = 6"
    "l2_etherType oL2 = 0x0800 \<and> length osrc = 4 \<and> length odst = 4 \<or>
     l2_etherType oL2 = 0x86DD \<and> length osrc = 16 \<and> length odst = 16"
    "drop_bit 8 (push_bit 8 vni) = vni"
proof -
  obtain ol4 where p: "parseL2 frame = Some (Some oL2)"
    "outerUDP (l2_etherType oL2) (l2_l3 oL2) = Some (Some (osrc, odst, ol4))"
    "parseL2 (drop 16 ol4) = Some (Some iL2)" "vni = drop_bit 8 (be32_at ol4 12)"
    using assms by (auto simp: vxlan_view_def split: option.splits if_splits)
  show "length (l2_dst oL2) = 6" "length (l2_src oL2) = 6" "length (l2_dst iL2) = 6" "length (l2_src iL2) = 6"
    using parseL2_macs [OF p(1)] parseL2_macs [OF p(3)] by simp_all
  show "l2_etherType oL2 = 0x0800 \<and> length osrc = 4 \<and> length odst = 4 \<or>
     l2_etherType oL2 = 0x86DD \<and> length osrc = 16 \<and> length odst = 16"
    using outerUDP_lengths [OF p(2)] .
  have "drop_bit 8 (push_bit 8 (drop_bit 8 w)) = drop_bit 8 w" for w :: u32
    by (rule bit_word_eqI) (auto simp: bit_simps dest: bit_imp_le_length)
  then show "drop_bit 8 (push_bit 8 vni) = vni"
    by (simp add: p(4))
qed

lemma outerUDP_outerWrap:
  assumes "et = 0x0800 \<and> length s = 4 \<and> length d = 4 \<or> et = 0x86DD \<and> length s = 16 \<and> length d = 16"
  shows "outerUDP et (outerWrap (et = 0x86DD) s d v) = Some (Some (s, d,
    if et = 0x86DD then UDP6 s d 4789 4789 v else UDP s d 4789 4789 v))"
  using assms by (auto simp: outerUDP_def outerWrap_def parseIPv4_IPv4 parseIPv6_IPv6)

lemma udp_fields:
  "be16_at (UDP s d sp dp p) 0 = sp" "be16_at (UDP s d sp dp p) 2 = dp"
  "be16_at (UDP6 s d sp dp p) 0 = sp" "be16_at (UDP6 s d sp dp p) 2 = dp"
  by (rule be16_atI, simp add: UDP_layout UDP6_layout udp_front_def Let_def)+

lemma udp_nth8: "8 \<le> i \<Longrightarrow> UDP s d sp dp p ! i = p ! (i - 8)" "8 \<le> i \<Longrightarrow> UDP6 s d sp dp p ! i = p ! (i - 8)"
  by (auto simp: UDP_layout UDP6_layout Let_def nth_append)

lemma drop_VXLAN [simp]: "drop 8 (VXLAN vni f) = f"
  by (simp add: VXLAN_layout)

lemma VXLAN_fields: "VXLAN vni f ! 0 = 0x08" "be32_at (VXLAN vni f) 4 = push_bit 8 vni"
  by (simp add: VXLAN_layout) (rule be32_atI, simp add: VXLAN_layout)

lemma vxlan_segment:
  assumes "u = (if v6 then UDP6 s d sp 4789 (VXLAN vni f) else UDP s d sp 4789 (VXLAN vni f))"
  shows "be16_at u 2 = 4789" "u ! 8 AND 0x08 \<noteq> 0" "be32_at u 12 = push_bit 8 vni" "drop 16 u = f" "length u = 16 + length f"
proof -
  have d: "drop 8 u = VXLAN vni f" by (simp add: assms)
  show l: "length u = 16 + length f" by (simp add: assms)
  show "be16_at u 2 = 4789" by (simp add: assms udp_fields)
  show "u ! 8 AND 0x08 \<noteq> 0" by (simp add: assms udp_nth8 VXLAN_fields)
  have "be32_at (drop 8 u) 4 = be32_at u 12" using l be32_at_drop [of 8 4 u] by simp
  then show "be32_at u 12 = push_bit 8 vni" by (simp add: d VXLAN_fields)
  have "drop 16 u = drop 8 (drop 8 u)" by simp
  then show "drop 16 u = f" by (simp only: d drop_VXLAN)
qed

lemma vxlan_view_built:
  assumes "length d = 6" "length s = 6" "length di = 6" "length si = 6" "\<not> vlan_type eti"
    "et = 0x0800 \<and> length osrc = 4 \<and> length odst = 4 \<or> et = 0x86DD \<and> length osrc = 16 \<and> length odst = 16"
    "drop_bit 8 (push_bit 8 vni) = vni"
  shows "vxlan_view (frameL2 d s vlan et (outerWrap (et = 0x86DD) osrc odst
           (VXLAN vni (frameL2 di si vlani eti p)))) =
     Some (\<lparr>l2_dst = d, l2_src = s, l2_etherType = et, l2_vlan = vlan AND 0x0FFF,
            l2_l3 = outerWrap (et = 0x86DD) osrc odst (VXLAN vni (frameL2 di si vlani eti p))\<rparr>, osrc, odst, vni,
           \<lparr>l2_dst = di, l2_src = si, l2_etherType = eti, l2_vlan = vlani AND 0x0FFF, l2_l3 = p\<rparr>)"
proof -
  have "\<not> vlan_type et" using assms(6) by auto
  note l2 = parseL2_reframe [OF assms(1,2) this] parseL2_reframe [OF assms(3,4,5)]
  show ?thesis
    unfolding vxlan_view_def
    by (simp add: l2 outerUDP_outerWrap [OF assms(6)] vxlan_segment [OF refl] assms(7) del: split_paired_All)
qed

end
