(* ===== verification/Responder_Props.thy ===== *)
theory Responder_Props
  imports Responder_Correct
begin

text \<open>
  The properties of the responder at the level of whole frames: the reply policy, what is sent,
  the absence of reply loops between any two agents, VXLAN re-encapsulation, and freedom from
  run-time panics of the receive loop.
\<close>

section \<open>A concrete agent and probes\<close>

definition demo_meta :: Meta where
  "demo_meta = \<lparr>ID = [1, 2, 3, 4, 5, 6, 7, 8, 9, 10, 11, 12, 13, 14, 15, 16], Deliver = False,
                NeedResponse = True, Timestamp = 1700000000000000000\<rparr>"

definition demo_agent :: "byte \<Rightarrow> rstate" where
  "demo_agent ifType = \<lparr>r_iface = 3, r_ifType = ifType, r_fd = 7,
     r_localIPs = mput [] (key16 [10, 0, 0, 2]) True, r_tcpRespond = True, r_hmacKey = [],
     r_flows = [], mtr = metrics0\<rparr>"

definition demo_udp :: bytes where
  "demo_udp = IPv4 0xF8 255 17 [10, 0, 0, 1] [10, 0, 0, 2]
     (UDP [10, 0, 0, 1] [10, 0, 0, 2] 40000 7 (Marshal demo_meta))"

definition demo_frame :: bytes where
  "demo_frame = frameL2 [2, 0, 0, 0, 0, 2] [2, 0, 0, 0, 0, 1] 42 0x0800 demo_udp"

definition demo_vxlan :: bytes where
  "demo_vxlan = frameL2 [4, 0, 0, 0, 0, 2] [4, 0, 0, 0, 0, 1] 0 0x0800
     (outerWrap False [192, 0, 2, 1] [192, 0, 2, 2] (VXLAN 100 demo_frame))"

definition sends_reply :: "(bytes option \<times> rstate) go \<Rightarrow> bool" where
  "sends_reply x = (case x of Some (Some _, _) \<Rightarrow> True | _ \<Rightarrow> False)"

lemma sends_replyE: "sends_reply x \<Longrightarrow> (\<And>out r. x = Some (Some out, r) \<Longrightarrow> P) \<Longrightarrow> P"
  by (auto simp: sends_reply_def split: option.splits prod.splits)

lemma demo_regular: "sends_reply (handle True (demo_agent 2) demo_frame 0)"
  by code_simp

lemma demo_regular': "sends_reply (handleRegular True (demo_agent 0) demo_frame 0)"
  by code_simp

lemma demo_encapsulated: "sends_reply (handleVXLAN True (demo_agent 1) demo_vxlan 0)"
  by code_simp

section \<open>Replies are ignored by every responder\<close>

lemma vxlan_view_bare:
  assumes "payload_of q l4' = Some (san key p)" "asks p"
    "length s = (if v6 then 16 else 4)" "length d = (if v6 then 16 else 4)"
    "length dm = 6" "length sm = 6"
  shows "vxlan_view (frameL2 dm sm vlan (if v6 then 0x86DD else 0x0800) (wrapIP v6 q s d l4')) = None"
proof -
  let ?et = "if v6 then 0x86DD else 0x0800 :: u16"
  have "\<not> vlan_type ?et" by simp
  note l2 = parseL2_reframe [OF assms(5,6) this, of vlan "wrapIP v6 q s d l4'"]
  have u: "outerUDP ?et (wrapIP v6 q s d l4') = Some (if q = 17 then Some (s, d, l4') else None)"
    using assms(3,4) by (simp add: outerUDP_def wrapIP_def parseIPv4_IPv4 parseIPv6_IPv6)
  have "l4' ! 8 AND 0x08 = 0" if "q = 17"
  proof -
    have 8: "8 \<le> length l4'" and d: "drop 8 l4' = san key p"
      using assms(1) that by (auto simp: payload_of_def split: if_splits)
    obtain m where m: "Unmarshal p = Some (Inr m)" "30 \<le> length p" using assms(2) by (rule asksE)
    have "take 4 (san key p) = be32 Magic"
      using Unmarshal_san [OF m(1), of key] by (auto simp: Unmarshal_eq split: if_splits)
    then have "san key p ! 0 = 0x54" by (metis be32_Magic nth_Cons_0 nth_take zero_less_numeral)
    moreover have "l4' ! 8 = san key p ! 0" using 8 by (simp flip: d)
    ultimately show ?thesis by simp
  qed
  then show ?thesis by (simp add: vxlan_view_def l2 u)
qed

lemma regular_reply_ignored:
  assumes "handleRegular ok r frame aux = Some (Some out, r')"
  shows "handleRegular ok2 r2 out aux2 = Some (None, r2) \<and> handleVXLAN ok2 r2 out aux2 = Some (None, r2)"
  using assms
proof (rule handleRegular_reply)
  fix l2 rep r1
  assume l2: "parseL2 frame = Some (Some l2)"
    and b: "buildReply r (l2_etherType l2) (l2_l3 l2) = Some (Some rep, r1)"
    and out: "out = frameL2 (l2_src l2) (l2_dst l2) (orVlan (l2_vlan l2) aux) (l2_etherType l2) rep"
  note macs = parseL2_macs [OF l2]
  from b show ?thesis
  proof (rule buildReply_shape)
    fix tos src dst proto l4 v6 p q l4'
    assume v: "net_view (l2_etherType l2) (l2_l3 l2) = Some (tos, src, dst, proto, l4, v6)"
      and p: "asks p" "payload_of q l4' = Some (san (r_hmacKey r) p)"
      and et: "l2_etherType l2 = (if v6 then 0x86DD else 0x0800)"
      and rep: "rep = wrapIP v6 q dst src l4'"
    have "vxlan_view out = None"
      using vxlan_view_bare [OF p(2,1) _ _ macs(2,1), of dst v6 src] net_view_lengths [OF v]
      by (simp add: out et rep)
    moreover have "parseL2 out = Some (Some \<lparr>l2_dst = l2_src l2, l2_src = l2_dst l2,
        l2_etherType = l2_etherType l2, l2_vlan = orVlan (l2_vlan l2) aux AND 0x0FFF, l2_l3 = rep\<rparr>)"
      unfolding out by (rule parseL2_reframe) (use macs et in auto)
    ultimately show ?thesis
      by (simp add: handleVXLAN_eq handleRegular_def buildReply_ignores_replies [OF b])
  qed
qed

lemma buildReply_outerWrap:
  assumes "et = 0x0800 \<and> length s = 4 \<and> length d = 4 \<or> et = 0x86DD \<and> length s = 16 \<and> length d = 16"
  shows "buildReply r et (outerWrap (et = 0x86DD) s d v) = Some (None, r)"
  using assms
  by (auto simp: buildReply_view net_view_def outerWrap_def parseIPv4_IPv4 parseIPv6_IPv6)

text \<open>The frame sent in VXLAN mode, parsed back: as a frame and as an encapsulation.\<close>

lemma vxlan_reply_view:
  assumes v: "vxlan_view frame = Some (oL2, osrc, odst, vni, iL2)"
    and b: "buildReply r (l2_etherType iL2) (l2_l3 iL2) = Some (Some rep, r1)"
    and out: "out = frameL2 (l2_src oL2) (l2_dst oL2) (orVlan (l2_vlan oL2) aux) (l2_etherType oL2)
       (outerWrap (l2_etherType oL2 = 0x86DD) odst osrc
         (VXLAN vni (frameL2 (l2_src iL2) (l2_dst iL2) (l2_vlan iL2) (l2_etherType iL2) rep)))"
  shows "\<exists>l2. parseL2 out = Some (Some l2) \<and>
      vxlan_view out = Some (l2, odst, osrc, vni, \<lparr>l2_dst = l2_src iL2, l2_src = l2_dst iL2,
        l2_etherType = l2_etherType iL2, l2_vlan = l2_vlan iL2 AND 0x0FFF, l2_l3 = rep\<rparr>) \<and>
      l2_dst l2 = l2_src oL2 \<and> l2_src l2 = l2_dst oL2 \<and> l2_etherType l2 = l2_etherType oL2 \<and>
      l2_vlan l2 = orVlan (l2_vlan oL2) aux AND 0x0FFF \<and>
      buildReply r2 (l2_etherType l2) (l2_l3 l2) = Some (None, r2)"
proof -
  note vd = vxlan_viewD [OF v]
  have outer: "l2_etherType oL2 = 0x0800 \<and> length odst = 4 \<and> length osrc = 4 \<or>
      l2_etherType oL2 = 0x86DD \<and> length odst = 16 \<and> length osrc = 16" using vd(5) by blast
  have nv: "\<not> vlan_type (l2_etherType oL2)" and nvi: "\<not> vlan_type (l2_etherType iL2)"
    using outer b by (auto simp: buildReply_def split: if_splits)
  show ?thesis
    unfolding out
    using vxlan_view_built [OF vd(2,1,4,3) nvi outer vd(6), of "orVlan (l2_vlan oL2) aux" "l2_vlan iL2" rep]
      parseL2_reframe [OF vd(2,1) nv] buildReply_outerWrap [OF outer]
    by simp
qed

lemma vxlan_reply_ignored:
  assumes "handleVXLAN ok r frame aux = Some (Some out, r')"
  shows "handleRegular ok2 r2 out aux2 = Some (None, r2) \<and> handleVXLAN ok2 r2 out aux2 = Some (None, r2)"
  using assms
proof (rule handleVXLAN_reply)
  fix oL2 osrc odst vni iL2 rep r1
  assume v: "vxlan_view frame = Some (oL2, osrc, odst, vni, iL2)"
    and b: "buildReply r (l2_etherType iL2) (l2_l3 iL2) = Some (Some rep, r1)"
    and out: "out = frameL2 (l2_src oL2) (l2_dst oL2) (orVlan (l2_vlan oL2) aux) (l2_etherType oL2)
       (outerWrap (l2_etherType oL2 = 0x86DD) odst osrc
         (VXLAN vni (frameL2 (l2_src iL2) (l2_dst iL2) (l2_vlan iL2) (l2_etherType iL2) rep)))"
  from vxlan_reply_view [OF v b out, of r2] show ?thesis
    by (elim exE conjE) (simp add: handleVXLAN_eq handleRegular_def buildReply_ignores_replies [OF b])
qed

text \<open>The part of the state that handling frames never changes.\<close>

definition r_config :: "rstate \<Rightarrow> (bytes, bool) gomap \<times> bytes \<times> byte \<times> bool" where
  "r_config r = (r_localIPs r, r_hmacKey r, r_ifType r, r_tcpRespond r)"

lemma r_config_upd [simp]:
  "r_config (r\<lparr>r_flows := f\<rparr>) = r_config r" "r_config (r\<lparr>mtr := m\<rparr>) = r_config r"
  "r_config (bump_auth r) = r_config r"
  by (simp_all add: r_config_def bump_auth_def)

lemma buildTCPReply_config:
  "buildTCPReply r src dst tcp v6 = Some (rep, r') \<Longrightarrow> r_config r' = r_config r"
  using buildTCPReply_off [of r tcp src dst v6] buildTCPReply_on [of r tcp _ src dst v6]
  by (cases "r_tcpRespond r"; cases "payload_of 6 tcp") (auto simp: Let_def split: if_splits)

lemma buildReply_config:
  "buildReply r et l3 = Some (rep, r') \<Longrightarrow> r_config r' = r_config r"
  by (auto simp: buildReply_view buildReplyL4_eq Let_def
      split: option.splits if_splits dest: buildTCPReply_config)

lemma handle_config:
  assumes "handle ok r frame aux = Some (out, r')"
  shows "r_config r' = r_config r"
proof -
  have "r_config r' = r_config r" if "handleRegular ok r frame aux = Some (out, r')"
    using that by (auto simp: handleRegular_def send_frameL2
        split: if_splits option.splits bind_splits simp: buildReply_config)
  moreover have "r_config r' = r_config r" if "handleVXLAN ok r frame aux = Some (out, r')"
    using that by (auto simp: handleVXLAN_eq send_frameL2
        split: if_splits option.splits bind_splits simp: buildReply_config)
  ultimately show ?thesis
    using assms by (auto simp: handle_def split: if_splits bind_splits)
qed

text \<open>
  C2: No reply loops. Whatever frame an agent answers, on whatever kind of interface, the frame it
  sends is answered by no agent: neither by itself nor by any other responder \<open>r2\<close>, in any mode
  (regular, VXLAN or auto), with any key and any set of local addresses. The state of the agent
  that sees the reply is unchanged.
\<close>

theorem no_reply_loop:
  assumes "handle ok r frame aux = Some (Some out, r')"
  shows "handle ok2 r2 out aux2 = Some (None, r2)"
proof -
  have cases: "handleRegular ok r frame aux = Some (Some out, r') \<or> handleVXLAN ok r frame aux = Some (Some out, r')"
    using assms by (auto simp: handle_def split: if_splits bind_splits)
  have both: "handleRegular ok2 r2 out aux2 = Some (None, r2) \<and> handleVXLAN ok2 r2 out aux2 = Some (None, r2)"
    using cases
  proof
    assume "handleRegular ok r frame aux = Some (Some out, r')"
    then show ?thesis by (rule regular_reply_ignored)
  next
    assume "handleVXLAN ok r frame aux = Some (Some out, r')"
    then show ?thesis by (rule vxlan_reply_ignored)
  qed
  obtain v where "isVXLANFrame out = Some v" using isVXLANFrame_total by blast
  with both show ?thesis by (auto simp: handle_def)
qed

theorem no_reply_loop_witness:
  "\<exists>out r'. handle True (demo_agent 2) demo_frame 0 = Some (Some out, r') \<and>
     handle True (demo_agent 2) out 0 = Some (None, demo_agent 2)"
  using demo_regular no_reply_loop [of True "demo_agent 2" demo_frame 0] by (blast elim: sends_replyE)

section \<open>What is answered, and with what\<close>

text \<open>
  C1: The reply policy. On a plain interface the responder sends a frame exactly when the frame
  parses as Ethernet and its network packet warrants an answer: it is IPv4 or IPv6, carries the
  mark in its traffic class, is addressed to a local VM, and its transport payload starts with a
  control block that asks for a response, does not ask for delivery and verifies under the agent's
  key (for TCP also: TCP answers are enabled and the segment is a SYN, a FIN or data). Nothing else
  is ever answered, nothing that qualifies is missed, and no input makes the code panic.
\<close>

theorem reply_policy:
  "\<exists>out r'. handleRegular True r frame aux = Some (out, r') \<and>
     (out \<noteq> None \<longleftrightarrow> (\<exists>l2. parseL2 frame = Some (Some l2) \<and> warrants r (l2_etherType l2) (l2_l3 l2)))"
proof -
  obtain p where p: "parseL2 frame = Some p" using parseL2_total by blast
  show ?thesis
  proof (cases p)
    case None
    with p show ?thesis by (simp add: handleRegular_def)
  next
    case (Some l2)
    obtain rep r' where b: "buildReply r (l2_etherType l2) (l2_l3 l2) = Some (rep, r')"
      using buildReply_total by fastforce
    with p Some buildReply_iff [OF b] show ?thesis
      by (cases rep) (simp_all add: handleRegular_def send_frameL2)
  qed
qed

text \<open>What a reply packet is, whatever carried the probe.\<close>

lemma buildReply_answers:
  assumes "buildReply r et l3 = Some (Some rep, r1)"
  obtains tos src dst proto l4 v6 l4' p p' m where
    "net_view et l3 = Some (tos, src, dst, proto, l4, v6)" "tos AND 0xFC = ToS" "isLocal r dst"
    "net_view et rep = Some (ToS, dst, src, reply_proto v6 proto, l4', v6)"
    "payload_of proto l4 = Some p" "payload_of (reply_proto v6 proto) l4' = Some p'" "length p' = length p"
    "Unmarshal p = Some (Inr m)" "NeedResponse m" "\<not> Deliver m" "Verify p (r_hmacKey r) = Some True"
    "Unmarshal p' = Some (Inr (m\<lparr>Deliver := False, NeedResponse := False\<rparr>))" "Verify p' (r_hmacKey r) = Some True"
    "et = (if v6 then 0x86DD else 0x0800)"
  using assms
proof (rule buildReply_shape)
  fix tos src dst proto l4 v6 p q l4'
  assume net: "net_view et l3 = Some (tos, src, dst, proto, l4, v6)" "isLocal r dst" "tos AND 0xFC = 0xF8"
      "net_view et rep = Some (0xF8, dst, src, q, l4', v6)"
    and pl: "payload_of proto l4 = Some p" "asks p" "authentic (r_hmacKey r) p"
      "payload_of q l4' = Some (san (r_hmacKey r) p)"
    and et: "et = (if v6 then 0x86DD else 0x0800)" and q: "q = reply_proto v6 proto"
  obtain m where m: "Unmarshal p = Some (Inr m)" "NeedResponse m" "\<not> Deliver m" using pl(2) by (rule asksE)
  show thesis
    by (rule that [of tos src dst proto l4 v6 l4' p "san (r_hmacKey r) p" m])
      (use net pl q m et Unmarshal_san [OF m(1)] authentic_san [OF pl(3)] in \<open>simp_all add: authentic_def\<close>)
qed

text \<open>
  C9: The answer. Every frame the responder sends on a plain interface answers a marked packet to a
  local VM: MAC addresses and IP addresses are swapped, the outermost VLAN tag (inline, or stripped
  by the NIC and recovered from aux data) is put back, the mark is set, the transport protocol is
  that of the probe, and the payload carries the same run id and timestamp with both flags cleared,
  verifying under the agent's key.
\<close>

theorem reply_answers_probe:
  assumes "handleRegular ok r frame aux = Some (Some out, r')"
  shows "\<exists>l2 l2' tos src dst proto l4 v6 l4' p p' m.
     parseL2 frame = Some (Some l2) \<and> parseL2 out = Some (Some l2') \<and>
     l2_dst l2' = l2_src l2 \<and> l2_src l2' = l2_dst l2 \<and> l2_etherType l2' = l2_etherType l2 \<and>
     l2_vlan l2' = (if l2_vlan l2 \<noteq> 0 then l2_vlan l2 else aux) AND 0x0FFF \<and>
     net_view (l2_etherType l2) (l2_l3 l2) = Some (tos, src, dst, proto, l4, v6) \<and>
     tos AND 0xFC = ToS \<and> isLocal r dst \<and>
     net_view (l2_etherType l2) (l2_l3 l2') = Some (ToS, dst, src, reply_proto v6 proto, l4', v6) \<and>
     payload_of proto l4 = Some p \<and> payload_of (reply_proto v6 proto) l4' = Some p' \<and> length p' = length p \<and>
     Unmarshal p = Some (Inr m) \<and> NeedResponse m \<and> \<not> Deliver m \<and> Verify p (r_hmacKey r) = Some True \<and>
     Unmarshal p' = Some (Inr (m\<lparr>Deliver := False, NeedResponse := False\<rparr>)) \<and>
     Verify p' (r_hmacKey r) = Some True"
  using assms
proof (rule handleRegular_reply)
  fix l2 rep r1
  assume l2: "parseL2 frame = Some (Some l2)"
    and b: "buildReply r (l2_etherType l2) (l2_l3 l2) = Some (Some rep, r1)"
    and out: "out = frameL2 (l2_src l2) (l2_dst l2) (orVlan (l2_vlan l2) aux) (l2_etherType l2) rep"
  let ?l2 = "\<lparr>l2_dst = l2_src l2, l2_src = l2_dst l2, l2_etherType = l2_etherType l2,
      l2_vlan = orVlan (l2_vlan l2) aux AND 0x0FFF, l2_l3 = rep\<rparr>"
  have "\<not> vlan_type (l2_etherType l2)" by (rule buildReply_answers [OF b]) simp
  then have out': "parseL2 out = Some (Some ?l2)"
    unfolding out by (intro parseL2_reframe) (use parseL2_macs [OF l2] in auto)
  show ?thesis
    by (rule buildReply_answers [OF b], rule exI [of _ l2], rule exI [of _ ?l2])
      (use l2 out' in \<open>simp add: orVlan_def\<close>)
qed

theorem reply_answers_probe_witness:
  "\<exists>out r' l2 l2'. handleRegular True (demo_agent 0) demo_frame 0 = Some (Some out, r') \<and>
     parseL2 demo_frame = Some (Some l2) \<and> parseL2 out = Some (Some l2') \<and>
     l2_dst l2' = l2_src l2 \<and> l2_vlan l2' = (if l2_vlan l2 \<noteq> 0 then l2_vlan l2 else 0) AND 0x0FFF"
  using demo_regular' reply_answers_probe [of True "demo_agent 0" demo_frame 0]
  by (elim sends_replyE) blast

text \<open>
  C18: VXLAN re-encapsulation. A frame sent in VXLAN mode is again a VXLAN frame that decapsulates
  to the reply. Outer: MAC and IP addresses are swapped, the address family and the VNI are kept and the outer
  tag (inline, or stripped by the NIC) is restored. Inner: MAC and IP addresses are swapped, the inner VLAN
  tag and EtherType are kept, the probe was a marked packet to a local VM, the reply carries the mark, the
  protocol of the probe, and a payload of the same length with the probe's run id and timestamp, both flags
  cleared, that verifies under the agent's key.
\<close>

theorem vxlan_reencapsulates:
  assumes "handleVXLAN ok r frame aux = Some (Some out, r')"
  shows "\<exists>oL2 osrc odst vni iL2 oL2' iL2' tos src dst proto l4 v6 l4' p p' m.
     vxlan_view frame = Some (oL2, osrc, odst, vni, iL2) \<and>
     vxlan_view out = Some (oL2', odst, osrc, vni, iL2') \<and>
     l2_dst oL2' = l2_src oL2 \<and> l2_src oL2' = l2_dst oL2 \<and> l2_etherType oL2' = l2_etherType oL2 \<and>
     l2_vlan oL2' = (if l2_vlan oL2 \<noteq> 0 then l2_vlan oL2 else aux) AND 0x0FFF \<and>
     l2_dst iL2' = l2_src iL2 \<and> l2_src iL2' = l2_dst iL2 \<and> l2_etherType iL2' = l2_etherType iL2 \<and>
     l2_vlan iL2' = l2_vlan iL2 AND 0x0FFF \<and>
     net_view (l2_etherType iL2) (l2_l3 iL2) = Some (tos, src, dst, proto, l4, v6) \<and>
     tos AND 0xFC = ToS \<and> isLocal r dst \<and>
     net_view (l2_etherType iL2) (l2_l3 iL2') = Some (ToS, dst, src, reply_proto v6 proto, l4', v6) \<and>
     payload_of proto l4 = Some p \<and> payload_of (reply_proto v6 proto) l4' = Some p' \<and> length p' = length p \<and>
     Unmarshal p = Some (Inr m) \<and> NeedResponse m \<and> \<not> Deliver m \<and> Verify p (r_hmacKey r) = Some True \<and>
     Unmarshal p' = Some (Inr (m\<lparr>Deliver := False, NeedResponse := False\<rparr>)) \<and>
     Verify p' (r_hmacKey r) = Some True \<and>
     (\<exists>r1. buildReply r (l2_etherType iL2) (l2_l3 iL2) = Some (Some (l2_l3 iL2'), r1))"
  using assms
proof (rule handleVXLAN_reply)
  fix oL2 osrc odst vni iL2 rep r1
  assume v: "vxlan_view frame = Some (oL2, osrc, odst, vni, iL2)"
    and b: "buildReply r (l2_etherType iL2) (l2_l3 iL2) = Some (Some rep, r1)"
    and out: "out = frameL2 (l2_src oL2) (l2_dst oL2) (orVlan (l2_vlan oL2) aux) (l2_etherType oL2)
       (outerWrap (l2_etherType oL2 = 0x86DD) odst osrc
         (VXLAN vni (frameL2 (l2_src iL2) (l2_dst iL2) (l2_vlan iL2) (l2_etherType iL2) rep)))"
  let ?in = "\<lparr>l2_dst = l2_src iL2, l2_src = l2_dst iL2, l2_etherType = l2_etherType iL2,
      l2_vlan = l2_vlan iL2 AND 0x0FFF, l2_l3 = rep\<rparr>"
  obtain l2 where l2: "vxlan_view out = Some (l2, odst, osrc, vni, ?in)"
      "l2_dst l2 = l2_src oL2" "l2_src l2 = l2_dst oL2" "l2_etherType l2 = l2_etherType oL2"
      "l2_vlan l2 = orVlan (l2_vlan oL2) aux AND 0x0FFF"
    using vxlan_reply_view [OF v b out] by blast
  show ?thesis
    by (rule buildReply_answers [OF b], intro exI [of _ oL2] exI [of _ osrc] exI [of _ odst] exI [of _ vni] exI [of _ iL2]
        exI [of _ l2] exI [of _ ?in]) (use v l2 b in \<open>simp add: orVlan_def\<close>)
qed

theorem vxlan_reencapsulates_witness:
  "\<exists>out r' vni oL2 iL2 oL2' iL2' l4'. handleVXLAN True (demo_agent 1) demo_vxlan 0 = Some (Some out, r') \<and>
     vxlan_view demo_vxlan = Some (oL2, [192, 0, 2, 1], [192, 0, 2, 2], vni, iL2) \<and>
     vxlan_view out = Some (oL2', [192, 0, 2, 2], [192, 0, 2, 1], vni, iL2') \<and>
     net_view (l2_etherType iL2') (l2_l3 iL2') = Some (ToS, [10, 0, 0, 2], [10, 0, 0, 1], 17, l4', False)"
proof -
  have v: "(case vxlan_view demo_vxlan of Some (_, s, d, _, i) \<Rightarrow> s = [192, 0, 2, 1] \<and> d = [192, 0, 2, 2] \<and>
      (case net_view (l2_etherType i) (l2_l3 i) of Some (_, a, b, q, _, v6) \<Rightarrow>
         a = [10, 0, 0, 1] \<and> b = [10, 0, 0, 2] \<and> q = 17 \<and> \<not> v6 | None \<Rightarrow> False) | _ \<Rightarrow> False)"
    by code_simp
  from demo_encapsulated obtain out r' where h: "handleVXLAN True (demo_agent 1) demo_vxlan 0 = Some (Some out, r')"
    by (rule sends_replyE)
  from vxlan_reencapsulates [OF h] h v show ?thesis
    by (elim exE conjE) (simp add: reply_proto_def)
qed

section \<open>No frame makes the responder panic\<close>

text \<open>
  C35: Robustness of the receive loop. For every sequence of received frames (any bytes at all, any
  control messages) and receive errors, the loop runs without a run-time panic, sends at most one
  frame per frame received, and keeps the configuration (local addresses, key, interface type,
  whether TCP is answered).
\<close>

theorem Loop_never_panics:
  "\<exists>outs r'. Loop parseSCM r evs = Some (outs, r') \<and> length outs \<le> length evs \<and> r_config r' = r_config r"
proof (induction evs arbitrary: r)
  case (Cons e evs)
  show ?case
  proof (cases e)
    case (RecvErr x)
    with Cons [of r] show ?thesis by (auto intro: le_SucI)
  next
    case (RecvFrame frame oob ok)
    obtain v where v: "auxVLAN parseSCM oob = Some v" using auxVLAN_total by blast
    obtain out r1 where h: "handle ok r frame v = Some (out, r1)" using handle_total by fastforce
    from Cons [of r1] RecvFrame v h handle_config [OF h] show ?thesis
      by (auto split: option.split intro: le_SucI)
  qed
qed simp

end
