(* ===== verification/Responder_Tcp.thy ===== *)
theory Responder_Tcp
  imports Responder_Props
begin

text \<open>
  The TCP side of the responder: connection keys, sequence numbers over a whole dialogue, isolation
  of connections from each other and the size of the flow table.
\<close>

section \<open>Connection keys\<close>

lemma flowKey_split:
  assumes "length a = 4 \<or> length a = 16" "length a' = 4 \<or> length a' = 16"
    and "flowKey a b sp dp = flowKey a' b' sp' dp'"
  shows "ip_string a @ '':'' @ dec_string (unat sp) = ip_string a' @ '':'' @ dec_string (unat sp')"
    and "ip_string b @ '':'' @ dec_string (unat dp) = ip_string b' @ '':'' @ dec_string (unat dp')"
proof -
  have no: "CHR ''>'' \<notin> set (ip_string x @ '':'' @ dec_string (unat p))"
    if "length x = 4 \<or> length x = 16" for x and p :: u16
    using ip_string_no_gt [OF that] by (auto dest: dec_string_chars)
  have key: "flowKey x y p q = (ip_string x @ '':'' @ dec_string (unat p)) @
      CHR ''>'' # (ip_string y @ '':'' @ dec_string (unat q))" for x y p q
    by (simp only: flowKey_def append_assoc append_Cons append_Nil)
  note split = append_sep_first [OF assms(3) [unfolded key] no [OF assms(1)] no [OF assms(2)]]
  show "ip_string a @ '':'' @ dec_string (unat sp) = ip_string a' @ '':'' @ dec_string (unat sp')"
    using split by (rule conjunct1)
  show "ip_string b @ '':'' @ dec_string (unat dp) = ip_string b' @ '':'' @ dec_string (unat dp')"
    using split by (rule conjunct2)
qed

lemma host_port_inj:
  assumes "ip_string a @ '':'' @ dec_string (unat sp) = ip_string a' @ '':'' @ dec_string (unat sp')"
    and "length a = 4 \<or> length a = 16" "length a' = 4 \<or> length a' = 16"
  shows "To16 a = To16 a' \<and> sp = (sp' :: u16)"
proof -
  have "CHR '':'' \<notin> set (dec_string (unat p))" for p :: u16
    using not_num_char by (auto dest: dec_string_chars)
  then have "ip_string a = ip_string a' \<and> dec_string (unat sp) = dec_string (unat sp')"
    using assms(1) by (intro append_sep_last [of _ "CHR '':''"]) (simp_all only: append_Cons append_Nil not_False_eq_True)
  then show ?thesis
    using ip_string_inj [OF assms(2,3)] by (simp add: dec_string_inj word_unat_eq_iff)
qed

lemma flowKey_inj:
  assumes "length a = 4 \<or> length a = 16" "length a' = 4 \<or> length a' = 16"
    "length b = 4 \<or> length b = 16" "length b' = 4 \<or> length b' = 16"
    and "flowKey a b sp dp = flowKey a' b' sp' dp'"
  shows "To16 a = To16 a' \<and> To16 b = To16 b' \<and> sp = sp' \<and> dp = dp'"
  using flowKey_split [OF assms(1,2,5)] host_port_inj [of a sp a' sp'] host_port_inj [of b dp b' dp'] assms
  by blast

section \<open>One segment\<close>

text \<open>A segment of the connection \<open>sp\<close>, \<open>dp\<close> with flags \<open>fl\<close> whose payload \<open>p\<close> is answered.\<close>

definition probe_seg :: "bytes \<Rightarrow> u16 \<Rightarrow> u16 \<Rightarrow> byte \<Rightarrow> bytes \<Rightarrow> bytes \<Rightarrow> bool" where
  "probe_seg key sp dp fl t p \<longleftrightarrow>
     payload_of 6 t = Some p \<and> asks p \<and> authentic key p \<and> t ! 13 = fl \<and> be16_at t 0 = sp \<and> be16_at t 2 = dp"

lemma tcp_syn:
  assumes "r_tcpRespond r" "probe_seg (r_hmacKey r) sp dp 0x02 t p"
  shows "buildTCPReply r src dst t v6 = Some
    (Some (mkTCP src dst sp dp v6 (serverISN src dst sp dp) (be32_at t 4 + 1) 0x12 (san (r_hmacKey r) p)),
     r\<lparr>r_flows := mput (if 4096 < mlen (r_flows r) then [] else r_flows r) (flowKey src dst sp dp)
                   \<lparr>serverNext = serverISN src dst sp dp + 1 + of_nat (length p)\<rparr>\<rparr>)"
  using assms by (simp add: probe_seg_def buildTCPReply_on Let_def)

lemma tcp_data:
  assumes "r_tcpRespond r" "probe_seg (r_hmacKey r) sp dp 0x18 t p"
    and "mget (r_flows r) (flowKey src dst sp dp) = Some f"
  shows "buildTCPReply r src dst t v6 = Some
    (Some (mkTCP src dst sp dp v6 (serverNext f) (be32_at t 4 + of_nat (length p)) 0x18 (san (r_hmacKey r) p)),
     r\<lparr>r_flows := mput (r_flows r) (flowKey src dst sp dp) \<lparr>serverNext = serverNext f + of_nat (length p)\<rparr>\<rparr>)"
  using assms by (simp add: probe_seg_def buildTCPReply_on Let_def)

lemma tcp_fin:
  assumes "r_tcpRespond r" "probe_seg (r_hmacKey r) sp dp 0x11 t p"
    and "mget (r_flows r) (flowKey src dst sp dp) = Some f"
  shows "buildTCPReply r src dst t v6 = Some
    (Some (mkTCP src dst sp dp v6 (serverNext f) (be32_at t 4 + of_nat (length p) + 1) 0x11 (san (r_hmacKey r) p)),
     r\<lparr>r_flows := mdel (r_flows r) (flowKey src dst sp dp)\<rparr>)"
  using assms by (simp add: probe_seg_def buildTCPReply_on Let_def)

section \<open>A dialogue\<close>

text \<open>Feeding the segments of one connection to the responder, in order.\<close>

fun feed :: "bytes \<Rightarrow> bytes \<Rightarrow> bool \<Rightarrow> rstate \<Rightarrow> bytes list \<Rightarrow> (bytes option list \<times> rstate) go" where
  "feed src dst v6 r [] = Some ([], r)"
| "feed src dst v6 r (t # ts) = do {
     (out, r) \<leftarrow> buildTCPReply r src dst t v6;
     (outs, r) \<leftarrow> feed src dst v6 r ts;
     Some (out # outs, r) }"

text \<open>What a contiguous byte stream looks like: reply \<open>i\<close> starts where reply \<open>i - 1\<close> ended, and
  acknowledges the client's segment. \<open>mk\<close> builds a segment from sequence number, acknowledgement,
  flags and payload.\<close>

fun stream :: "(u32 \<Rightarrow> u32 \<Rightarrow> byte \<Rightarrow> bytes \<Rightarrow> bytes) \<Rightarrow> bytes \<Rightarrow> u32 \<Rightarrow> (bytes \<times> bytes) list \<Rightarrow> bytes option list" where
  "stream mk key n [] = []"
| "stream mk key n ((t, p) # tps) =
     Some (mk n (be32_at t 4 + of_nat (length p)) 0x18 (san key p)) #
     stream mk key (n + of_nat (length p)) tps"

definition stream_len :: "(bytes \<times> bytes) list \<Rightarrow> u32" where
  "stream_len tps = of_nat (sum_list (map (length \<circ> snd) tps))"

lemma feed_append:
  "feed src dst v6 r (xs @ ys) = do {
     (a, r) \<leftarrow> feed src dst v6 r xs; (b, r) \<leftarrow> feed src dst v6 r ys; Some (a @ b, r) }"
proof (induction xs arbitrary: r)
  case (Cons x xs)
  show ?case
    by (cases "buildTCPReply r src dst x v6")
      (auto simp: Cons split: bind_splits)
qed (auto split: bind_splits)

lemma feed_data:
  assumes "r_tcpRespond r" "\<forall>(t, p) \<in> set tps. probe_seg (r_hmacKey r) sp dp 0x18 t p"
    and "mget (r_flows r) (flowKey src dst sp dp) = Some \<lparr>serverNext = n\<rparr>"
  shows "\<exists>r'. feed src dst v6 r (map fst tps) =
      Some (stream (mkTCP src dst sp dp v6) (r_hmacKey r) n tps, r') \<and>
      mget (r_flows r') (flowKey src dst sp dp) = Some \<lparr>serverNext = n + stream_len tps\<rparr> \<and>
      r_tcpRespond r' \<and> r_hmacKey r' = r_hmacKey r"
  using assms
proof (induction tps arbitrary: r n)
  case Nil
  then show ?case by (simp add: stream_len_def)
next
  case (Cons tp tps)
  obtain t p where tp: "tp = (t, p)" by (cases tp)
  let ?r = "r\<lparr>r_flows := mput (r_flows r) (flowKey src dst sp dp) \<lparr>serverNext = n + of_nat (length p)\<rparr>\<rparr>"
  have b: "buildTCPReply r src dst t v6 = Some (Some (mkTCP src dst sp dp v6 n
      (be32_at t 4 + of_nat (length p)) 0x18 (san (r_hmacKey r) p)), ?r)"
    using tcp_data [of r sp dp t p src dst] Cons.prems tp by simp
  have "mget (r_flows ?r) (flowKey src dst sp dp) = Some \<lparr>serverNext = n + of_nat (length p)\<rparr>"
    by (simp add: gomap_simps)
  from Cons.IH [of ?r, OF _ _ this] Cons.prems tp b show ?case
    by (auto simp: stream_len_def add.assoc)
qed

text \<open>
  C17: Sequence discipline of a TCP dialogue. Against an agent that answers TCP, a SYN, any number of
  data segments and a FIN of one connection (each carrying an authentic control block that asks for
  a response) are all answered: the SYN by a SYN/ACK with the connection's initial sequence number,
  acknowledging the SYN; each data segment by its echo, whose sequence number starts exactly where
  the previous reply ended (the SYN counting one) and which acknowledges the data; the FIN by a
  FIN/ACK in sequence. Afterwards the connection is forgotten. Other connections may be in the table
  at the start, in any number.
\<close>

theorem tcp_dialogue:
  assumes "r_tcpRespond r" "probe_seg (r_hmacKey r) sp dp 0x02 s ps"
    and "\<forall>(t, p) \<in> set tps. probe_seg (r_hmacKey r) sp dp 0x18 t p"
    and "probe_seg (r_hmacKey r) sp dp 0x11 f pf"
  shows "\<exists>r'. let mk = mkTCP src dst sp dp v6; key = r_hmacKey r; isn = serverISN src dst sp dp;
                 n = isn + 1 + of_nat (length ps) in
     feed src dst v6 r ([s] @ map fst tps @ [f]) = Some
       ([Some (mk isn (be32_at s 4 + 1) 0x12 (san key ps))] @ stream mk key n tps @
        [Some (mk (n + stream_len tps) (be32_at f 4 + of_nat (length pf) + 1) 0x11 (san key pf))], r') \<and>
     mget (r_flows r') (flowKey src dst sp dp) = None"
proof -
  let ?k = "flowKey src dst sp dp" and ?n = "serverISN src dst sp dp + 1 + of_nat (length ps) :: u32"
  let ?r1 = "r\<lparr>r_flows := mput (if 4096 < mlen (r_flows r) then [] else r_flows r) ?k \<lparr>serverNext = ?n\<rparr>\<rparr>"
  have "mget (r_flows ?r1) ?k = Some \<lparr>serverNext = ?n\<rparr>" by (simp add: gomap_simps)
  then obtain r2 where r2: "feed src dst v6 ?r1 (map fst tps) =
        Some (stream (mkTCP src dst sp dp v6) (r_hmacKey r) ?n tps, r2)"
      "mget (r_flows r2) ?k = Some \<lparr>serverNext = ?n + stream_len tps\<rparr>" "r_tcpRespond r2" "r_hmacKey r2 = r_hmacKey r"
    using feed_data [of ?r1 tps sp dp src dst ?n v6] assms(1,3) by auto
  note fin = tcp_fin [OF r2(3) _ r2(2), of f pf v6, unfolded r2(4), OF assms(4)]
  show ?thesis
    using tcp_syn [OF assms(1,2), of src dst v6] r2(1) fin
    by (simp add: feed_append Let_def gomap_simps)
qed

definition demo_seg :: "byte \<Rightarrow> bytes" where
  "demo_seg fl = TCP [10, 0, 0, 1] [10, 0, 0, 2] 40000 80 0x2000 0 fl (Marshal demo_meta)"

lemma demo_probe_seg:
  "probe_seg (r_hmacKey (demo_agent 0)) 40000 80 fl (demo_seg fl) (Marshal demo_meta)"
proof -
  have "asks (Marshal demo_meta)" by code_simp
  moreover have "be16_at (TCP a b sp dp x y z p) 0 = sp \<and> be16_at (TCP a b sp dp x y z p) 2 = dp" for a b sp dp x y z p
    by (auto intro!: be16_atI simp: TCP_layout tcp_front_def Let_def)
  ultimately show ?thesis
    by (simp add: probe_seg_def demo_seg_def authentic_def demo_agent_def auth.verify_off)
qed

theorem tcp_dialogue_witness:
  "\<exists>outs r'. feed [10, 0, 0, 1] [10, 0, 0, 2] False (demo_agent 0) [demo_seg 0x02, demo_seg 0x18, demo_seg 0x11] =
     Some (outs, r') \<and> length outs = 3 \<and> mget (r_flows r') (flowKey [10, 0, 0, 1] [10, 0, 0, 2] 40000 80) = None"
  using tcp_dialogue [of "demo_agent 0" 40000 80 "demo_seg 0x02" "Marshal demo_meta"
      "[(demo_seg 0x18, Marshal demo_meta)]" "demo_seg 0x11" "Marshal demo_meta" "[10, 0, 0, 1]" "[10, 0, 0, 2]" False]
    demo_probe_seg
  by (auto simp: demo_agent_def Let_def)

section \<open>Isolation of connections\<close>

text \<open>What a segment does to the flow table: opens its connection, carries data of it or closes it.\<close>

datatype flow_kind = Opens | Carries | Closes

definition seg_kind :: "rstate \<Rightarrow> bytes \<Rightarrow> flow_kind option" where
  "seg_kind r t =
     (case payload_of 6 t of None \<Rightarrow> None
      | Some p \<Rightarrow>
          if \<not> r_tcpRespond r then None
          else if t ! 13 AND 0x04 \<noteq> 0 then Some Closes
          else if \<not> (asks p \<and> authentic (r_hmacKey r) p) then None
          else if t ! 13 AND 0x02 \<noteq> 0 \<and> t ! 13 AND 0x10 = 0 then Some Opens
          else if t ! 13 AND 0x01 \<noteq> 0 then Some Closes
          else if t ! 13 AND 0x08 \<noteq> 0 then Some Carries
          else None)"

lemma buildTCPReply_flows:
  assumes "buildTCPReply r src dst t v6 = Some (rep, r')"
  obtains "seg_kind r t = None" "r_flows r' = r_flows r"
  | "seg_kind r t = Some Closes" "r_flows r' = mdel (r_flows r) (flowKey src dst (be16_at t 0) (be16_at t 2))"
  | f where "seg_kind r t = Some Carries" "r_flows r' = mput (r_flows r) (flowKey src dst (be16_at t 0) (be16_at t 2)) f"
  | f where "seg_kind r t = Some Opens"
      "r_flows r' = mput (if 4096 < mlen (r_flows r) then [] else r_flows r) (flowKey src dst (be16_at t 0) (be16_at t 2)) f"
proof (cases "r_tcpRespond r \<and> payload_of 6 t \<noteq> None")
  case True
  then obtain p where p: "payload_of 6 t = Some p" and R: "r_tcpRespond r" by blast
  show ?thesis
    using assms that R p unfolding buildTCPReply_on [OF R p] seg_kind_def
    by (auto simp: Let_def bump_auth_def split: if_splits option.splits)
next
  case False
  then have "buildTCPReply r src dst t v6 = Some (None, r)" "seg_kind r t = None"
    by (auto simp: buildTCPReply_off seg_kind_def split: option.split)
  with assms that(1) show ?thesis by simp
qed

text \<open>
  C36: Isolation of connections. Handling a segment of one connection leaves the state of every other as it
  was, with one exception, which is the code's bound on the table: an answered SYN that finds more than 4096
  connections forgets all others. Two connections whose source, destination or ports differ (addresses
  compared as the 16-byte values Go compares) have different keys.
\<close>

theorem tcp_flow_isolation:
  assumes "buildTCPReply r src dst t v6 = Some (rep, r')"
    and "length src = 4 \<or> length src = 16" "length dst = 4 \<or> length dst = 16"
    and "length src2 = 4 \<or> length src2 = 16" "length dst2 = 4 \<or> length dst2 = 16"
    and "To16 src2 \<noteq> To16 src \<or> To16 dst2 \<noteq> To16 dst \<or> sp2 \<noteq> be16_at t 0 \<or> dp2 \<noteq> be16_at t 2"
  shows "mget (r_flows r') (flowKey src2 dst2 sp2 dp2) =
    (if 4096 < mlen (r_flows r) \<and> seg_kind r t = Some Opens then None else mget (r_flows r) (flowKey src2 dst2 sp2 dp2))"
proof -
  have "flowKey src2 dst2 sp2 dp2 \<noteq> flowKey src dst (be16_at t 0) (be16_at t 2)"
    using flowKey_inj [OF assms(4,2,5,3)] assms(6) by blast
  with assms(1) show ?thesis by (elim buildTCPReply_flows) (auto simp: gomap_simps)
qed

theorem tcp_flow_isolation_witness:
  "\<exists>rep r'. buildTCPReply (demo_agent 0) [10, 0, 0, 1] [10, 0, 0, 2] (demo_seg 0x02) False = Some (rep, r') \<and>
     mget (r_flows r') (flowKey [10, 0, 0, 1] [10, 0, 0, 2] 40000 81) = None"
proof -
  have port: "be16_at (demo_seg 0x02) 2 = 80" using demo_probe_seg [of "0x02"] by (simp add: probe_seg_def)
  obtain rep r' where b: "buildTCPReply (demo_agent 0) [10, 0, 0, 1] [10, 0, 0, 2] (demo_seg 0x02) False = Some (rep, r')"
    using buildTCPReply_total by fastforce
  have "mget (r_flows (demo_agent 0)) k = None \<and> mlen (r_flows (demo_agent 0)) = 0" for k
    by (simp add: demo_agent_def gomap_simps)
  with b port tcp_flow_isolation [OF b, of "[10, 0, 0, 1]" "[10, 0, 0, 2]" 40000 81] show ?thesis by simp
qed

section \<open>The flow table\<close>

text \<open>The packet a frame is read as: the encapsulated one on a VXLAN interface, and in auto mode when the frame
  goes to the VXLAN port; and of that packet, when it is a marked one to a local address, the
  addresses, the protocol and the transport segment.\<close>

definition handled_packet :: "rstate \<Rightarrow> bytes \<Rightarrow> (u16 \<times> bytes) option" where
  "handled_packet r frame =
     (if r_ifType r = 1 \<or> r_ifType r \<noteq> 0 \<and> isVXLANFrame frame = Some True
      then map_option (\<lambda>(_, _, _, _, l2). (l2_etherType l2, l2_l3 l2)) (vxlan_view frame)
      else (case parseL2 frame of Some (Some l2) \<Rightarrow> Some (l2_etherType l2, l2_l3 l2) | _ \<Rightarrow> None))"

definition local_probe :: "rstate \<Rightarrow> bytes \<Rightarrow> (bytes \<times> bytes \<times> byte \<times> bytes \<times> bool) option" where
  "local_probe r frame =
     (case handled_packet r frame of None \<Rightarrow> None
      | Some (et, l3) \<Rightarrow> (case net_view et l3 of None \<Rightarrow> None
          | Some (tos, src, dst, proto, l4, v6) \<Rightarrow>
              if tos AND 0xFC = 0xF8 \<and> isLocal r dst then Some (src, dst, proto, l4, v6) else None))"

lemma handle_packet:
  assumes "handle ok r frame aux = Some (out, r')"
  shows "case handled_packet r frame of None \<Rightarrow> r' = r
    | Some (et, l3) \<Rightarrow> \<exists>rep r1. buildReply r et l3 = Some (rep, r1) \<and> r_flows r' = r_flows r1 \<and>
        authFailures (mtr r') = authFailures (mtr r1)"
proof -
  obtain v where v: "isVXLANFrame frame = Some v" using isVXLANFrame_total by blast
  show ?thesis
    using assms v
    by (auto simp: handle_def handled_packet_def handleRegular_def handleVXLAN_eq send_frameL2
        split: if_splits option.splits bind_splits)
qed

lemma handle_probe:
  assumes "handle ok r frame aux = Some (out, r')"
  shows "case local_probe r frame of None \<Rightarrow> r_flows r' = r_flows r \<and> authFailures (mtr r') = authFailures (mtr r)
    | Some (src, dst, proto, l4, v6) \<Rightarrow> \<exists>rep r1. buildReplyL4 r src dst proto l4 v6 = Some (rep, r1) \<and>
        r_flows r' = r_flows r1 \<and> authFailures (mtr r') = authFailures (mtr r1)"
proof (cases "handled_packet r frame")
  case None
  then show ?thesis using handle_packet [OF assms] by (simp add: local_probe_def)
next
  case (Some x)
  obtain et l3 where x: "x = (et, l3)" by (cases x)
  show ?thesis
  proof (cases "net_view et l3")
    case None
    then show ?thesis using handle_packet [OF assms] Some x by (simp add: local_probe_def buildReply_view)
  next
    case (Some y)
    obtain tos src dst proto l4 v6 where y: "y = (tos, src, dst, proto, l4, v6)" by (cases y)
    show ?thesis
      using handle_packet [OF assms] \<open>handled_packet r frame = Some x\<close> x Some y
      by (cases "tos AND 0xFC = 0xF8 \<and> isLocal r dst") (auto simp: local_probe_def buildReply_view)
  qed
qed

text \<open>The operation on the flow table a frame stands for, with the key of its connection.\<close>

definition flow_op :: "rstate \<Rightarrow> bool \<times> bytes \<times> u16 \<Rightarrow> (flow_kind \<times> string) option" where
  "flow_op r e = (case e of (ok, frame, aux) \<Rightarrow>
     (case local_probe r frame of None \<Rightarrow> None
      | Some (src, dst, proto, l4, v6) \<Rightarrow>
          if proto = 6 then map_option (\<lambda>kd. (kd, flowKey src dst (be16_at l4 0) (be16_at l4 2))) (seg_kind r l4)
          else None))"

lemma config_reads:
  assumes "r_config r' = r_config r"
  shows "local_probe r' = local_probe r" "seg_kind r' = seg_kind r" "flow_op r' = flow_op r"
proof -
  have eq: "r_localIPs r' = r_localIPs r" "r_hmacKey r' = r_hmacKey r" "r_ifType r' = r_ifType r" "r_tcpRespond r' = r_tcpRespond r"
    using assms by (simp_all add: r_config_def)
  show l: "local_probe r' = local_probe r" and k: "seg_kind r' = seg_kind r"
    by (simp_all only: local_probe_def handled_packet_def isLocal_def seg_kind_def fun_eq_iff eq simp_thms)
  show "flow_op r' = flow_op r" by (simp only: fun_eq_iff flow_op_def l k simp_thms)
qed

lemma handle_flows:
  assumes "handle ok r frame aux = Some (out, r')"
  obtains "flow_op r (ok, frame, aux) = None" "r_flows r' = r_flows r"
  | k where "flow_op r (ok, frame, aux) = Some (Closes, k)" "r_flows r' = mdel (r_flows r) k"
  | k f where "flow_op r (ok, frame, aux) = Some (Carries, k)" "r_flows r' = mput (r_flows r) k f"
  | k f where "flow_op r (ok, frame, aux) = Some (Opens, k)"
      "r_flows r' = mput (if 4096 < mlen (r_flows r) then [] else r_flows r) k f"
proof (cases "local_probe r frame")
  case None
  then show ?thesis using handle_probe [OF assms] that(1) by (simp add: flow_op_def)
next
  case (Some x)
  obtain src dst proto l4 v6 where x: "x = (src, dst, proto, l4, v6)" by (cases x)
  obtain rep r1 where b: "buildReplyL4 r src dst proto l4 v6 = Some (rep, r1)" "r_flows r' = r_flows r1"
    using handle_probe [OF assms] Some x by auto
  show ?thesis
  proof (cases "proto = 6")
    case True
    with b(1) have "buildTCPReply r src dst l4 v6 = Some (rep, r1)" by (simp add: buildReplyL4_eq)
    then show ?thesis
      by (rule buildTCPReply_flows) (use that Some x True b(2) in \<open>auto simp: flow_op_def\<close>)
  next
    case False
    with b have "r_flows r' = r_flows r" by (auto simp: buildReplyL4_eq Let_def bump_auth_def split: option.splits if_splits)
    with that(1) Some x False show ?thesis by (simp add: flow_op_def)
  qed
qed

text \<open>The effect of a frame on the state, and the counter of sent replies.\<close>

lemma buildReply_sent: "buildReply r et l3 = Some (rep, r') \<Longrightarrow> repliesSent (mtr r') = repliesSent (mtr r)"
proof -
  have "repliesSent (mtr r') = repliesSent (mtr r)" if "buildTCPReply r src dst t v6 = Some (rep, r')" for src dst t v6
    using that buildTCPReply_off [of r t src dst v6] buildTCPReply_on [of r t _ src dst v6]
    by (cases "r_tcpRespond r"; cases "payload_of 6 t") (auto simp: Let_def bump_auth_def split: if_splits)
  then show "buildReply r et l3 = Some (rep, r') \<Longrightarrow> repliesSent (mtr r') = repliesSent (mtr r)"
    by (auto simp: buildReply_view buildReplyL4_eq Let_def bump_auth_def split: option.splits if_splits)
qed

lemma handle_step:
  assumes "handle ok r frame aux = Some (out, r')"
  shows "repliesSent (mtr r') = repliesSent (mtr r) + (if out = None then 0 else 1)"
proof -
  have "handleRegular ok r frame aux = Some (out, r') \<or> handleVXLAN ok r frame aux = Some (out, r')"
    using assms by (auto simp: handle_def split: if_splits bind_splits)
  then show ?thesis
    by (auto simp: handleRegular_def handleVXLAN_eq send_frameL2 buildReply_sent
        split: if_splits option.splits bind_splits)
qed

text \<open>A frame as an event of the agent, and what every event keeps: the tables are Go maps (one
  entry per key).\<close>

definition agent_step :: "rstate \<Rightarrow> bool \<times> bytes \<times> u16 \<Rightarrow> rstate" where
  "agent_step r e = (case e of (ok, frame, aux) \<Rightarrow>
     case handle ok r frame aux of None \<Rightarrow> r | Some (_, r') \<Rightarrow> r')"

definition tables_ok :: "rstate \<Rightarrow> bool" where
  "tables_ok r \<longleftrightarrow> mwf (r_flows r) \<and> mwf (r_localIPs r)"

interpretation agent: invariant_machine agent_step tables_ok
proof
  fix r and e :: "bool \<times> bytes \<times> u16"
  assume inv: "tables_ok r"
  obtain ok frame aux where e: "e = (ok, frame, aux)" by (cases e)
  obtain out r' where h: "handle ok r frame aux = Some (out, r')" using handle_total by fastforce
  have "r_localIPs r' = r_localIPs r" using handle_config [OF h] by (simp add: r_config_def)
  with inv h e show "tables_ok (agent_step r e)"
    by (rule_tac handle_flows [OF h]) (simp_all add: agent_step_def tables_ok_def gomap_simps)
qed

lemma newResponder_Some:
  assumes "newResponder sock bok i t ips tr k m = Some r"
  shows "r_localIPs r = foldl (\<lambda>s ip. mput s (key16 ip) True) [] ips" "r_flows r = []" "mtr r = m"
  using assms by (auto simp: newResponder_def split: option.splits if_splits)

lemma local_set_wf: "mwf s \<Longrightarrow> mwf (foldl (\<lambda>s ip. mput s (key16 ip) True) s ips)"
  by (induction ips arbitrary: s) (simp_all add: gomap_simps)

lemma local_set_get:
  "mget (foldl (\<lambda>s ip. mput s (key16 ip) True) s ips) k = (if k \<in> key16 ` set ips then Some True else mget s k)"
  by (induction ips arbitrary: s) (auto simp: gomap_simps)

lemma agent_step_config: "r_config (agent_step r e) = r_config r"
  by (auto simp: agent_step_def handle_config split: prod.split option.split)

lemma agent_run_config: "r_config (foldl agent_step r es) = r_config r"
  by (induction es arbitrary: r) (simp_all add: agent_step_config)

text \<open>The operations of a run, those on one connection, and the data segments since the last opening.\<close>

definition flow_ops :: "rstate \<Rightarrow> (bool \<times> bytes \<times> u16) list \<Rightarrow> (flow_kind \<times> string) list" where
  "flow_ops r es = List.map_filter (flow_op r) es"

definition ops_on :: "string \<Rightarrow> (flow_kind \<times> string) list \<Rightarrow> flow_kind list" where
  "ops_on k ops = map fst (filter (\<lambda>op. snd op = k) ops)"

definition stray :: "(flow_kind \<times> string) list \<Rightarrow> nat" where
  "stray ops = length (filter (\<lambda>op. fst op = Carries) (takeWhile (\<lambda>op. fst op \<noteq> Opens) (rev ops)))"

lemma flow_ops_snoc:
  "flow_ops r (es @ [e]) = flow_ops r es @ (case flow_op r e of None \<Rightarrow> [] | Some op \<Rightarrow> [op])"
  by (simp add: flow_ops_def map_filter_def split: option.split)

lemma ops_on_snoc: "ops_on k (ops @ [(kd, k')]) = ops_on k ops @ (if k' = k then [kd] else [])"
  by (simp add: ops_on_def)

lemma stray_snoc:
  "stray (ops @ [(Opens, k)]) = 0" "stray (ops @ [(Closes, k)]) = stray ops" "stray (ops @ [(Carries, k)]) = Suc (stray ops)"
  by (simp_all add: stray_def)

text \<open>What links the flow table to the operations so far.\<close>

definition flows_tell :: "(string, tcpFlow) gomap \<Rightarrow> (flow_kind \<times> string) list \<Rightarrow> bool" where
  "flows_tell fl ops \<longleftrightarrow> mwf fl \<and> mlen fl \<le> 4097 + stray ops \<and>
     (\<forall>k. mget fl k \<noteq> None \<longrightarrow> ops_on k ops \<noteq> [] \<and> last (ops_on k ops) \<noteq> Closes) \<and>
     (card (snd ` set ops) \<le> 4096 \<longrightarrow>
        (\<forall>k. ops_on k ops \<noteq> [] \<longrightarrow> last (ops_on k ops) \<noteq> Closes \<longrightarrow> mget fl k \<noteq> None))"

lemma flows_tell_small:
  assumes "flows_tell fl ops"
  shows "mlen fl \<le> card (snd ` set ops)"
proof -
  have "fst ` set fl \<subseteq> snd ` set ops"
  proof
    fix k assume "k \<in> fst ` set fl"
    then have "mget fl k \<noteq> None" by (simp add: mget_def map_of_eq_None_iff)
    then have "ops_on k ops \<noteq> []" using assms by (simp add: flows_tell_def)
    then show "k \<in> snd ` set ops" by (auto simp: ops_on_def filter_empty_conv)
  qed
  then have "card (fst ` set fl) \<le> card (snd ` set ops)" by (intro card_mono) simp_all
  moreover have "card (fst ` set fl) = mlen fl"
    using assms distinct_card [of "map fst fl"] by (simp add: flows_tell_def mwf_def mlen_def)
  ultimately show ?thesis by simp
qed

lemma card_keys_snoc: "card (snd ` set (ops @ [op])) \<le> 4096 \<Longrightarrow> card (snd ` set ops) \<le> 4096"
  by (rule le_trans [rotated], assumption, rule card_mono) auto

lemma flows_tell_step:
  assumes "flows_tell fl ops"
  shows "flows_tell (mdel fl k) (ops @ [(Closes, k)])" "flows_tell (mput fl k f) (ops @ [(Carries, k)])"
    "flows_tell (mput (if 4096 < mlen fl then [] else fl) k f) (ops @ [(Opens, k)])"
proof -
  have small: "\<not> 4096 < mlen fl" if "card (snd ` set (ops @ [op])) \<le> 4096" for op
    using flows_tell_small [OF assms] card_keys_snoc [OF that] by simp
  note inv = assms [unfolded flows_tell_def]
  have len: "mlen (mdel fl k) \<le> mlen fl" "mlen (mput fl k f) \<le> Suc (mlen fl)"
    using inv by (simp_all add: gm.len_del_le gm.len_put_le)
  show "flows_tell (mdel fl k) (ops @ [(Closes, k)])"
    using inv len card_keys_snoc [of ops "(Closes, k)"] unfolding flows_tell_def
    by (auto simp: stray_snoc ops_on_snoc gomap_simps split: if_splits)
  show "flows_tell (mput fl k f) (ops @ [(Carries, k)])"
    using inv len card_keys_snoc [of ops "(Carries, k)"] unfolding flows_tell_def
    by (auto simp: stray_snoc ops_on_snoc gomap_simps split: if_splits)
  let ?fl = "if 4096 < mlen fl then [] else fl" and ?ops = "ops @ [(Opens, k)]"
  have fl: "mwf ?fl" "mlen ?fl \<le> 4096" using inv by (simp_all add: gomap_simps)
  show "flows_tell (mput ?fl k f) ?ops"
    unfolding flows_tell_def
  proof (intro conjI allI impI)
    show "mwf (mput ?fl k f)" using fl(1) by (rule gm.wf_put)
    show "mlen (mput ?fl k f) \<le> 4097 + stray ?ops" using gm.len_put_le [OF fl(1), of k f] fl(2) by (simp only: stray_snoc)
  next
    fix k' assume "mget (mput ?fl k f) k' \<noteq> None"
    then have "k' = k \<or> mget fl k' \<noteq> None" by (simp add: gomap_simps split: if_splits)
    then show "ops_on k' ?ops \<noteq> []" "last (ops_on k' ?ops) \<noteq> Closes" using inv by (auto simp: ops_on_snoc)
  next
    fix k' assume c: "card (snd ` set ?ops) \<le> 4096" and on: "ops_on k' ?ops \<noteq> []" "last (ops_on k' ?ops) \<noteq> Closes"
    have "?fl = fl" using small [OF c] by simp
    then show "mget (mput ?fl k f) k' \<noteq> None"
      using inv card_keys_snoc [OF c] on by (auto simp: ops_on_snoc gm.get_put split: if_splits)
  qed
qed

lemma flow_table_tells:
  assumes "r_flows r = []"
  shows "flows_tell (r_flows (foldl agent_step r es)) (flow_ops r es)"
proof (induction es rule: rev_induct)
  case Nil
  then show ?case using assms by (simp add: flows_tell_def flow_ops_def map_filter_def ops_on_def gomap_simps)
next
  case (snoc e es)
  let ?r = "foldl agent_step r es"
  obtain ok frame aux where e: "e = (ok, frame, aux)" by (cases e)
  obtain out r' where h: "handle ok ?r frame aux = Some (out, r')" using handle_total by fastforce
  have r': "foldl agent_step r (es @ [e]) = r'" using h e by (simp add: agent_step_def)
  have op: "flow_op ?r (ok, frame, aux) = flow_op r e" using config_reads(3) [OF agent_run_config] e by simp
  show ?case
    by (rule handle_flows [OF h])
      (use snoc in \<open>simp_all only: r' op flow_ops_snoc option.case append_Nil2 flows_tell_step\<close>)
qed

text \<open>
  C39: The flow table tells which connections are open. Run a freshly created responder, of any interface type,
  over any sequence of frames, and let its operations be those of the marked TCP segments to local addresses: an
  answered SYN opens, an answered data segment carries, an answered FIN or any RST closes. Then (1) a connection is in
  the table only if it has operations and the last one did not close it, so a closed connection is
  always forgotten; (2) as long as the run concerns at most 4096 connections, every such connection is in the
  table, so none is lost; (3) whatever the run, the table has at most 4097 entries besides one for each data
  segment answered since the last opening.
\<close>

theorem flow_table_run:
  assumes "newResponder sock bok i t ips tr k m = Some r"
  shows "let fl = r_flows (foldl agent_step r es); ops = flow_ops r es in
    (\<forall>k. mget fl k \<noteq> None \<longrightarrow> ops_on k ops \<noteq> [] \<and> last (ops_on k ops) \<noteq> Closes) \<and>
    (card (snd ` set ops) \<le> 4096 \<longrightarrow> (\<forall>k. mget fl k \<noteq> None \<longleftrightarrow> ops_on k ops \<noteq> [] \<and> last (ops_on k ops) \<noteq> Closes)) \<and>
    mlen fl \<le> 4097 + stray ops"
  using flow_table_tells [OF newResponder_Some(2) [OF assms], of es]
  by (auto simp: flows_tell_def Let_def)

definition demo_tcp_frame :: "byte \<Rightarrow> bytes" where
  "demo_tcp_frame fl = frameL2 [2, 0, 0, 0, 0, 2] [2, 0, 0, 0, 0, 1] 0 0x0800
     (IPv4 0xF8 255 6 [10, 0, 0, 1] [10, 0, 0, 2] (demo_seg fl))"

lemma demo_tcp_op:
  "flow_op (demo_agent 0) (ok, demo_tcp_frame 0x02, aux) = Some (Opens, flowKey [10, 0, 0, 1] [10, 0, 0, 2] 40000 80)"
  "flow_op (demo_agent 0) (ok, demo_tcp_frame 0x11, aux) = Some (Closes, flowKey [10, 0, 0, 1] [10, 0, 0, 2] 40000 80)"
proof -
  have l: "local_probe (demo_agent 0) (demo_tcp_frame fl) = Some ([10, 0, 0, 1], [10, 0, 0, 2], 6, demo_seg fl, False)" for fl
  proof -
    have "isLocal (demo_agent 0) [10, 0, 0, 2]" by code_simp
    then show ?thesis
      by (simp add: local_probe_def handled_packet_def demo_tcp_frame_def parseL2_reframe net_view_def parseIPv4_IPv4 demo_agent_def)
  qed
  note seg = demo_probe_seg [unfolded probe_seg_def]
  have R: "r_tcpRespond (demo_agent 0)" by (simp add: demo_agent_def)
  show "flow_op (demo_agent 0) (ok, demo_tcp_frame 0x02, aux) = Some (Opens, flowKey [10, 0, 0, 1] [10, 0, 0, 2] 40000 80)"
    "flow_op (demo_agent 0) (ok, demo_tcp_frame 0x11, aux) = Some (Closes, flowKey [10, 0, 0, 1] [10, 0, 0, 2] 40000 80)"
    using seg [of "0x02"] seg [of "0x11"] R by (simp_all add: flow_op_def l seg_kind_def)
qed

theorem flow_table_run_witness:
  "\<exists>r. newResponder (Some 7) True 3 0 [[10, 0, 0, 2]] True [] metrics0 = Some r \<and>
     mget (r_flows (foldl agent_step r [(True, demo_tcp_frame 0x02, 0)])) (flowKey [10, 0, 0, 1] [10, 0, 0, 2] 40000 80) \<noteq> None \<and>
     mget (r_flows (foldl agent_step r [(True, demo_tcp_frame 0x02, 0), (True, demo_tcp_frame 0x11, 0)]))
       (flowKey [10, 0, 0, 1] [10, 0, 0, 2] 40000 80) = None"
proof -
  let ?k = "flowKey [10, 0, 0, 1] [10, 0, 0, 2] 40000 80"
  obtain r where r: "newResponder (Some 7) True 3 0 [[10, 0, 0, 2]] True [] metrics0 = Some r"
    and c: "r_config r = r_config (demo_agent 0)"
    by (simp add: newResponder_def r_config_def demo_agent_def)
  have ops: "flow_ops r [(True, demo_tcp_frame 0x02, 0)] = [(Opens, ?k)]"
    "flow_ops r [(True, demo_tcp_frame 0x02, 0), (True, demo_tcp_frame 0x11, 0)] = [(Opens, ?k), (Closes, ?k)]"
    by (simp_all add: flow_ops_def map_filter_def config_reads(3) [OF c] demo_tcp_op)
  note run = flow_table_run [OF r, unfolded Let_def]
  have 1: "mget (r_flows (foldl agent_step r [(True, demo_tcp_frame 0x02, 0)])) ?k \<noteq> None"
    using conjunct1 [OF conjunct2 [OF run [of "[(True, demo_tcp_frame 0x02, 0)]", unfolded ops]]]
    by (simp add: ops_on_def)
  have 2: "mget (r_flows (foldl agent_step r [(True, demo_tcp_frame 0x02, 0), (True, demo_tcp_frame 0x11, 0)])) ?k = None"
    using spec [OF conjunct1 [OF run [of "[(True, demo_tcp_frame 0x02, 0), (True, demo_tcp_frame 0x11, 0)]", unfolded ops]], of ?k]
    by (simp add: ops_on_def)
  from r 1 2 show ?thesis by blast
qed

text \<open>
  The cap on the flow table. An answered SYN leaves at most 4097 connections in the table,
  whatever it held before; the other answered segments have no such cap: a data segment of an
  untracked connection adds an entry to a table of any size.
\<close>

theorem flow_table_cap:
  assumes "mwf (r_flows r)" "r_tcpRespond r"
  shows "(probe_seg (r_hmacKey r) sp dp 0x02 t p \<longrightarrow>
            (\<exists>rep r'. buildTCPReply r src dst t v6 = Some (rep, r') \<and> mlen (r_flows r') \<le> 4097)) \<and>
         (probe_seg (r_hmacKey r) sp dp 0x18 t p \<longrightarrow> mget (r_flows r) (flowKey src dst sp dp) = None \<longrightarrow>
            (\<exists>rep r'. buildTCPReply r src dst t v6 = Some (rep, r') \<and> mlen (r_flows r') = Suc (mlen (r_flows r))))"
proof (intro conjI impI)
  assume "probe_seg (r_hmacKey r) sp dp 0x02 t p"
  from tcp_syn [OF assms(2) this, of src dst v6] assms(1)
  show "\<exists>rep r'. buildTCPReply r src dst t v6 = Some (rep, r') \<and> mlen (r_flows r') \<le> 4097"
    by (auto simp: gm.len_put gm.len_empty gm.wf_empty)
next
  assume "probe_seg (r_hmacKey r) sp dp 0x18 t p" "mget (r_flows r) (flowKey src dst sp dp) = None"
  with assms show "\<exists>rep r'. buildTCPReply r src dst t v6 = Some (rep, r') \<and> mlen (r_flows r') = Suc (mlen (r_flows r))"
    by (simp add: probe_seg_def buildTCPReply_on Let_def gm.len_put)
qed

theorem flow_table_cap_witness:
  "(\<exists>rep r'. buildTCPReply (demo_agent 0) [10, 0, 0, 1] [10, 0, 0, 2] (demo_seg 0x02) False = Some (rep, r') \<and>
      mlen (r_flows r') \<le> 4097) \<and>
   (\<exists>rep r'. buildTCPReply (demo_agent 0) [10, 0, 0, 1] [10, 0, 0, 2] (demo_seg 0x18) False = Some (rep, r') \<and>
      mlen (r_flows r') = 1)"
proof -
  have "mwf (r_flows (demo_agent 0)) \<and> r_tcpRespond (demo_agent 0) \<and> mlen (r_flows (demo_agent 0)) = 0 \<and>
      mget (r_flows (demo_agent 0)) k = None" for k
    by (simp add: demo_agent_def gomap_simps)
  then show ?thesis
    using flow_table_cap [of "demo_agent 0" 40000 80 _ "Marshal demo_meta" "[10, 0, 0, 1]" "[10, 0, 0, 2]" False]
      demo_probe_seg [of "0x02"] demo_probe_seg [of "0x18"] by (metis One_nat_def)
qed

text \<open>
  The reply counter is exact. Over a whole run of the receive loop the \<^verbatim>\<open>repliesSent\<close> counter
  grows by the number of frames sent (modulo the 64-bit wrap of the counter).
\<close>

lemma replies_counted:
  "\<exists>outs r'. Loop parseSCM r evs = Some (outs, r') \<and>
     repliesSent (mtr r') = repliesSent (mtr r) + of_nat (length outs)"
proof (induction evs arbitrary: r)
  case (Cons e evs)
  show ?case
  proof (cases e)
    case (RecvErr x)
    with Cons [of r] show ?thesis by auto
  next
    case (RecvFrame frame oob ok)
    obtain v where v: "auxVLAN parseSCM oob = Some v" using auxVLAN_total by blast
    obtain out r1 where h: "handle ok r frame v = Some (out, r1)" using handle_total by fastforce
    from Cons [of r1] RecvFrame v h handle_step [OF h] show ?thesis
      by (auto split: option.split)
  qed
qed simp

text \<open>
  So is the counter of authentication failures: it grows by the number of frames read before the loop ends that
  hold a marked probe to a local address, of a protocol the responder speaks, which asks for an answer and does not
  verify under the agent's key.
\<close>

definition auth_rejected :: "rstate \<Rightarrow> bytes \<Rightarrow> bool" where
  "auth_rejected r frame =
     (case local_probe r frame of None \<Rightarrow> False
      | Some (src, dst, proto, l4, v6) \<Rightarrow>
          (case payload_of proto l4 of None \<Rightarrow> False
           | Some p \<Rightarrow> asks p \<and> \<not> authentic (r_hmacKey r) p \<and>
               (proto = 6 \<longrightarrow> r_tcpRespond r \<and> l4 ! 13 AND 0x04 = 0)))"

fun heard :: "recv list \<Rightarrow> bytes list" where
  "heard [] = []"
| "heard (RecvErr e # evs) = (if e = EBADF \<or> e = EINTR then [] else heard evs)"
| "heard (RecvFrame frame oob ok # evs) = frame # heard evs"

lemma auth_rejected_config: "r_config r' = r_config r \<Longrightarrow> auth_rejected r' = auth_rejected r"
proof -
  assume c: "r_config r' = r_config r"
  then have eq: "r_hmacKey r' = r_hmacKey r" "r_tcpRespond r' = r_tcpRespond r" by (simp_all add: r_config_def)
  show ?thesis by (simp only: fun_eq_iff auth_rejected_def config_reads(1) [OF c] eq simp_thms)
qed

lemma buildTCPReply_auth:
  assumes "buildTCPReply r src dst t v6 = Some (rep, r')"
  shows "authFailures (mtr r') = authFailures (mtr r) +
    (case payload_of 6 t of None \<Rightarrow> 0
     | Some p \<Rightarrow> if asks p \<and> \<not> authentic (r_hmacKey r) p \<and> r_tcpRespond r \<and> t ! 13 AND 0x04 = 0 then 1 else 0)"
  using assms buildTCPReply_off [of r t src dst v6] buildTCPReply_on [of r t _ src dst v6]
  by (cases "r_tcpRespond r"; cases "payload_of 6 t") (auto simp: Let_def bump_auth_def split: if_splits)

lemma handle_auth:
  assumes "handle ok r frame aux = Some (out, r')"
  shows "authFailures (mtr r') = authFailures (mtr r) + (if auth_rejected r frame then 1 else 0)"
proof (cases "local_probe r frame")
  case None
  then show ?thesis using handle_probe [OF assms] by (simp add: auth_rejected_def)
next
  case (Some x)
  obtain src dst proto l4 v6 where x: "x = (src, dst, proto, l4, v6)" by (cases x)
  obtain rep r1 where b: "buildReplyL4 r src dst proto l4 v6 = Some (rep, r1)" "authFailures (mtr r') = authFailures (mtr r1)"
    using handle_probe [OF assms] Some x by auto
  show ?thesis
  proof (cases "proto = 6")
    case True
    with b(1) have "buildTCPReply r src dst l4 v6 = Some (rep, r1)" by (simp add: buildReplyL4_eq)
    from buildTCPReply_auth [OF this] b(2) Some x True show ?thesis
      by (simp add: auth_rejected_def split: option.split)
  next
    case False
    with b Some x show ?thesis
      by (auto simp: auth_rejected_def buildReplyL4_eq Let_def bump_auth_def split: option.splits if_splits)
  qed
qed

lemma auth_counted:
  "\<exists>outs r'. Loop parseSCM r evs = Some (outs, r') \<and>
     authFailures (mtr r') = authFailures (mtr r) + of_nat (length (filter (auth_rejected r) (heard evs)))"
proof (induction evs arbitrary: r)
  case (Cons e evs)
  show ?case
  proof (cases e)
    case (RecvErr x)
    with Cons [of r] show ?thesis by auto
  next
    case (RecvFrame frame oob ok)
    obtain v where v: "auxVLAN parseSCM oob = Some v" using auxVLAN_total by blast
    obtain out r1 where h: "handle ok r frame v = Some (out, r1)" using handle_total by fastforce
    from Cons [of r1] RecvFrame v h handle_auth [OF h] auth_rejected_config [OF handle_config [OF h]] show ?thesis
      by auto
  qed
qed simp

section \<open>Which addresses are local\<close>

text \<open>
  Locality. A responder created for a list of VM addresses treats an address as local exactly
  when its 16-byte form (IPv4 as IPv4-mapped) is that of a listed address.
\<close>

theorem local_addresses:
  "map_option (\<lambda>r. isLocal r ip) (newResponder (Some fd) True i t ips tr k m) =
     Some (key16 ip \<in> key16 ` set ips)"
  by (simp add: newResponder_def isLocal_def local_set_get gomap_simps)

end
