(* ===== verification/End_To_End.thy ===== *)
theory End_To_End
  imports Client Responder_Tcp
begin

text \<open>
  Client and agent together: the client's copies of the frame parsers agree with the agent's, no
  frame makes the sniffer panic, and a probe the client sends to a local VM is answered by the agent
  with a frame the client recognises as the reply of this run.
\<close>

section \<open>The two sets of parsers agree\<close>

lemma stripL2_tags_eq: "stripL2_tags n frame et off vlan = parseL2_tags n frame et off vlan"
  by (induction n arbitrary: et off vlan) (simp_all cong: if_cong)

lemma stripL2_eq: "stripL2 frame = map_option (map_option (\<lambda>i. (l2_l3 i, l2_etherType i, l2_vlan i))) (parseL2 frame)"
proof (cases "length frame < 14")
  case True
  then show ?thesis by (simp add: stripL2_def parseL2_def)
next
  case False
  then obtain r where "parseL2_tags 2 frame (be16_at frame 12) 14 0 = Some r"
    and "\<forall>et' off' vlan'. r = Some (et', off', vlan') \<longrightarrow> off' \<le> length frame"
    using parseL2_tags_total [of 14 frame 2 "be16_at frame 12" 0] by auto
  with False show ?thesis
    by (cases r) (auto simp: stripL2_def parseL2_def stripL2_tags_eq)
qed

lemma ipv4_eq: "ipv4 l3 = map_option (map_option (\<lambda>(i, rest).
    (\<lparr>h_tos = ip_tos i, h_proto = ip_proto i, h_src = ip_src i, h_dst = ip_dst i\<rparr>, rest))) (parseIPv4 l3)"
proof (cases "length l3 < 20")
  case True
  then show ?thesis by (simp add: ipv4_def parseIPv4_def)
next
  case False
  then have "l3 \<noteq> []" by auto
  with False show ?thesis by (simp add: ipv4_def parseIPv4_eq Let_def)
qed

lemma ipv6_eq: "ipv6 l3 = map_option (map_option (\<lambda>(i, rest).
    (\<lparr>h6_tos = ip6_tos i, h6_nextHdr = ip6_nextHdr i, h6_src = ip6_src i\<rparr>, rest))) (parseIPv6 l3)"
proof (cases "length l3 < 40")
  case True
  then show ?thesis by (simp add: ipv6_def parseIPv6_def)
next
  case False
  then have "l3 \<noteq> []" by auto
  with False show ?thesis by (simp add: ipv6_def parseIPv6_eq Let_def)
qed

lemma sniffOuterUDP_eq: "sniffOuterUDP et l3 = map_option (map_option (\<lambda>(s, d, l4). l4)) (outerUDP et l3)"
  by (auto simp: sniffOuterUDP_def outerUDP_def ipv4_eq ipv6_eq parseIPv4_eq parseIPv6_eq Let_def)

text \<open>
  Client and agent read frames alike. The client's own copies of the Ethernet/VLAN, IPv4, IPv6
  and outer-UDP parsers return, on every input, what the agent's parsers return.
\<close>

theorem parsers_agree:
  "stripL2 frame = map_option (map_option (\<lambda>i. (l2_l3 i, l2_etherType i, l2_vlan i))) (parseL2 frame) \<and>
   ipv4 l3 = map_option (map_option (\<lambda>(i, rest).
     (\<lparr>h_tos = ip_tos i, h_proto = ip_proto i, h_src = ip_src i, h_dst = ip_dst i\<rparr>, rest))) (parseIPv4 l3) \<and>
   ipv6 l3 = map_option (map_option (\<lambda>(i, rest).
     (\<lparr>h6_tos = ip6_tos i, h6_nextHdr = ip6_nextHdr i, h6_src = ip6_src i\<rparr>, rest))) (parseIPv6 l3) \<and>
   sniffOuterUDP et l3 = map_option (map_option (\<lambda>(s, d, l4). l4)) (outerUDP et l3)"
  by (simp add: stripL2_eq ipv4_eq ipv6_eq sniffOuterUDP_eq)

section \<open>The sniffer\<close>

lemma stripL2_total: "\<exists>r. stripL2 frame = Some r"
  using parseL2_total [of frame] by (auto simp: stripL2_eq)

lemma ipv46_total: "\<exists>r. ipv4 l3 = Some r" "\<exists>r. ipv6 l3 = Some r" "\<exists>r. sniffOuterUDP et l3 = Some r"
  using outerUDP_total [of et l3] by (auto simp: ipv4_eq ipv6_eq sniffOuterUDP_eq parseIPv4_eq parseIPv6_eq)

lemma peekVXLAN_total: "\<exists>r. peekVXLAN l3 et = Some r"
proof -
  obtain u where u: "sniffOuterUDP et l3 = Some u" using ipv46_total by blast
  show ?thesis
  proof (cases u)
    case (Some ol4)
    have ne: "drop 8 ol4 \<noteq> []" if "\<not> length (drop 8 ol4) < 8" using that by auto
    obtain r where "stripL2 (drop 16 ol4) = Some r" using stripL2_total by blast
    with u Some ne show ?thesis by (cases r) (auto simp: peekVXLAN_def)
  qed (use u in \<open>simp add: peekVXLAN_def\<close>)
qed

lemma l4Fields_eq:
  "l4Fields c proto l4 = Some (map_option (\<lambda>p.
     (if proto = 6 then c\<lparr>c_srcPort := be16_at l4 0, c_dstPort := be16_at l4 2, c_tcpSeq := be32_at l4 4, c_tcpFlags := l4 ! 13\<rparr>
      else if proto = 17 then c\<lparr>c_srcPort := be16_at l4 0, c_dstPort := be16_at l4 2\<rparr>
      else c\<lparr>c_icmpType := l4 ! 0\<rparr>, p)) (payload_of proto l4))"
proof -
  have "l4 \<noteq> []" if "8 \<le> length l4" using that by auto
  then show ?thesis by (auto simp: l4Fields_def payload_of_def Let_def not_less)
qed

text \<open>What the sniffer makes of a network packet, in the terms of the reply policy.\<close>

definition capture_of :: "u32 \<Rightarrow> bytes \<Rightarrow> u16 \<Rightarrow> capture option" where
  "capture_of vni l3 et = (case net_view et l3 of None \<Rightarrow> None
     | Some (tos, src, dst, proto, l4, v6) \<Rightarrow>
         if tos AND 0xFC \<noteq> 0xF8 then None
         else case payload_of proto l4 of None \<Rightarrow> None
           | Some p \<Rightarrow> (case Unmarshal p of Some (Inr m) \<Rightarrow>
               Some ((let c = capture0\<lparr>c_vni := vni, c_srcIP := ip_string src, c_proto := proto, c_meta := m, c_payload := p\<rparr> in
                 if proto = 6 then c\<lparr>c_srcPort := be16_at l4 0, c_dstPort := be16_at l4 2, c_tcpSeq := be32_at l4 4, c_tcpFlags := l4 ! 13\<rparr>
                 else if proto = 17 then c\<lparr>c_srcPort := be16_at l4 0, c_dstPort := be16_at l4 2\<rparr>
                 else c\<lparr>c_icmpType := l4 ! 0\<rparr>)) | _ \<Rightarrow> None))"

definition header_of :: "u16 \<Rightarrow> bytes \<Rightarrow> (string \<times> byte \<times> bytes) option" where
  "header_of et l3 = (case net_view et l3 of None \<Rightarrow> None
     | Some (tos, src, dst, proto, l4, v6) \<Rightarrow>
         if tos AND 0xFC \<noteq> 0xF8 then None else Some (ip_string src, proto, l4))"

lemma header_eq:
  "(if et = EtherTypeIPv4 then do {
      p \<leftarrow> ipv4 l3;
      Some (case p of None \<Rightarrow> None | Some (ip, rest) \<Rightarrow>
        if h_tos ip AND 0xFC \<noteq> ToS then None else Some (ip_string (h_src ip), h_proto ip, rest)) }
    else if et = EtherTypeIPv6 then do {
      p \<leftarrow> ipv6 l3;
      Some (case p of None \<Rightarrow> None | Some (ip, rest) \<Rightarrow>
        if h6_tos ip AND 0xFC \<noteq> ToS then None else Some (ip_string (h6_src ip), h6_nextHdr ip, rest)) }
    else Some None) = Some (header_of et l3)"
  by (auto simp: header_of_def net_view_def ipv4_eq ipv6_eq parseIPv4_eq parseIPv6_eq Let_def)

lemma parseMarked_eq:
  "parseMarked frame = Some (case the (parseL2 frame) of None \<Rightarrow> None
     | Some l2 \<Rightarrow> (case the (peekVXLAN (l2_l3 l2) (l2_etherType l2)) of None \<Rightarrow> None
        | Some (vni, l3, et) \<Rightarrow> capture_of vni l3 et))"
proof -
  obtain r where r: "parseL2 frame = Some r" using parseL2_total by blast
  show ?thesis
  proof (cases r)
    case None
    with r show ?thesis by (simp add: parseMarked_def stripL2_eq)
  next
    case (Some l2)
    obtain v where v: "peekVXLAN (l2_l3 l2) (l2_etherType l2) = Some v" using peekVXLAN_total by blast
    show ?thesis
    proof (cases v)
      case None
      with r Some v show ?thesis by (simp add: parseMarked_def stripL2_eq)
    next
      case (Some t)
      obtain vni l3 et where t: "t = (vni, l3, et)" by (cases t)
      have u: "\<exists>x. Unmarshal p = Some x" for p by (simp add: Unmarshal_eq)
      have "parseMarked frame = do {
          h \<leftarrow> Some (header_of et l3);
          case h of None \<Rightarrow> Some None
          | Some (src, proto, l4) \<Rightarrow> do {
              f \<leftarrow> l4Fields (capture0\<lparr>c_vni := vni, c_srcIP := src, c_proto := proto\<rparr>) proto l4;
              case f of None \<Rightarrow> Some None
              | Some (c, p) \<Rightarrow> do {
                  u \<leftarrow> Unmarshal p;
                  case u of Inl _ \<Rightarrow> Some None
                  | Inr meta \<Rightarrow> Some (Some (c\<lparr>c_meta := meta, c_payload := p\<rparr>)) } } }"
        using r \<open>r = Some l2\<close> v Some t unfolding parseMarked_def header_eq
        by (simp add: stripL2_eq)
      also have "\<dots> = Some (capture_of vni l3 et)"
      proof (cases "header_of et l3")
        case None
        then show ?thesis
          by (auto simp: header_of_def capture_of_def split: option.splits if_splits)
      next
        case (Some h)
        then obtain tos src dst proto l4 v6 where n: "net_view et l3 = Some (tos, src, dst, proto, l4, v6)"
            "tos AND 0xFC = 0xF8" "h = (ip_string src, proto, l4)"
          by (auto simp: header_of_def split: option.splits if_splits)
        show ?thesis
        proof (cases "payload_of proto l4")
          case None
          with n Some show ?thesis by (simp add: l4Fields_eq capture_of_def)
        next
          case P: (Some p)
          obtain x where x: "Unmarshal p = Some x" using u by blast
          with n Some P show ?thesis
            by (cases x) (simp_all add: l4Fields_eq capture_of_def Let_def)
        qed
      qed
      finally show ?thesis using r \<open>r = Some l2\<close> v Some t by simp
    qed
  qed
qed

lemma parseMarked_total: "\<exists>c. parseMarked frame = Some c"
  by (simp add: parseMarked_eq)

lemma next_capture_total: "\<exists>c. next_capture e = Some c"
  by (cases e) (simp_all add: next_capture_def parseMarked_total)

text \<open>A frame the client is waiting for: it decodes as marked, carries the run's id and satisfies the
  sub-command's condition.\<close>

definition hit :: "bytes \<Rightarrow> (capture \<Rightarrow> bool) \<Rightarrow> sniff \<Rightarrow> capture option" where
  "hit i match e = (case e of SniffErr \<Rightarrow> None | SniffFrame f \<Rightarrow>
     (case parseMarked f of Some (Some c) \<Rightarrow> if ID (c_meta c) = i \<and> match c then Some c else None | _ \<Rightarrow> None))"

lemma recvMatch_eq:
  "recvMatch i match evs = Some (case List.map_filter (hit i match) evs of [] \<Rightarrow> None | c # cs \<Rightarrow> Some c)"
proof (induction evs)
  case (Cons e evs)
  show ?case
  proof (cases e)
    case SniffErr
    with Cons show ?thesis by (simp add: next_capture_def hit_def)
  next
    case (SniffFrame f)
    obtain r where "parseMarked f = Some r" using parseMarked_total by blast
    with SniffFrame Cons show ?thesis
      by (cases r) (simp_all add: next_capture_def hit_def)
  qed
qed simp

text \<open>
  Waiting for a reply. Whatever frames arrive, the receive loop does not panic, and it returns the
  first of them that decodes as marked, carries this run's id and satisfies the sub-command's
  condition; it gives up exactly when no frame before the deadline does.
\<close>

theorem recvMatch_first:
  "recvMatch i match evs = Some (case List.map_filter (hit i match) evs of [] \<Rightarrow> None | c # cs \<Rightarrow> Some c)"
  by (rule recvMatch_eq)

section \<open>Addresses on the wire\<close>

definition net_addr :: "bool \<Rightarrow> bytes \<Rightarrow> bytes" where
  "net_addr v6 ip = (if v6 then addr16 ip else addr4 ip)"

lemma length_net_addr [simp]: "length (net_addr v6 ip) = (if v6 then 16 else 4)"
  by (simp add: net_addr_def)

lemma wrapIP_addr:
  "IPv4 0xF8 255 q s d p = wrapIP False q (net_addr False s) (net_addr False d) p"
  "IPv6 0xF8 255 q s d p = wrapIP True q (net_addr True s) (net_addr True d) p"
  by (simp_all add: wrapIP_def net_addr_def IPv4_layout IPv6_layout)

lemma net_addr_dst:
  assumes "length dst = 4 \<or> length dst = 16"
  shows "To16 (net_addr (isV6 dst) dst) = To16 dst" "ip_string (net_addr (isV6 dst) dst) = ip_string dst"
proof -
  have "To16 (net_addr (isV6 dst) dst) = To16 dst \<and> ip_string (net_addr (isV6 dst) dst) = ip_string dst"
  proof (cases "To4 dst = []")
    case True
    then have "length dst = 16" using assms by (auto simp: To4_def)
    with True show ?thesis by (simp add: net_addr_def isV6_def)
  next
    case False
    then have len: "length (To4 dst) = 4" using assms by (auto simp: To4_def split: if_splits)
    then have net: "net_addr (isV6 dst) dst = To4 dst" using False by (simp add: net_addr_def isV6_def addr4_def)
    have idem: "To4 (To4 dst) = To4 dst" using len by (simp add: To4_def)
    have "ip_string dst = dotted (To4 dst)" using assms len by (auto simp: ip_string_def)
    moreover have "ip_string (To4 dst) = dotted (To4 dst)"
      unfolding ip_string_def idem using len False by simp
    ultimately show ?thesis using To16_To4 [OF assms False] net by simp
  qed
  then show "To16 (net_addr (isV6 dst) dst) = To16 dst" "ip_string (net_addr (isV6 dst) dst) = ip_string dst" by simp_all
qed

lemma isLocal_net_addr: "length dst = 4 \<or> length dst = 16 \<Longrightarrow> isLocal r (net_addr (isV6 dst) dst) = isLocal r dst"
  by (simp add: isLocal_def key16_def net_addr_dst)

section \<open>Probe and reply\<close>

text \<open>The transport segment that answers an ICMP or UDP probe segment.\<close>

definition reply_seg :: "bool \<Rightarrow> byte \<Rightarrow> bytes \<Rightarrow> bytes \<Rightarrow> bytes \<Rightarrow> bytes \<Rightarrow> bytes" where
  "reply_seg v6 q d s l4 echo =
     (if q = 17 then if v6 then UDP6 d s (be16_at l4 2) (be16_at l4 0) echo else UDP d s (be16_at l4 2) (be16_at l4 0) echo
      else if v6 then ICMPv6 129 (be16_at l4 4) (be16_at l4 6) d s echo
      else ICMP 0 (be16_at l4 4) (be16_at l4 6) echo)"

definition ether :: "bool \<Rightarrow> u16" where
  "ether v6 = (if v6 then 0x86DD else 0x0800)"

lemma vlan_type_ether [simp]: "\<not> vlan_type (ether v6)"
  by (simp add: ether_def)

lemma buildReply_probe:
  assumes "length s = (if v6 then 16 else 4)" "length d = (if v6 then 16 else 4)"
    and "payload_of q l4 = Some p" "asks p" "authentic (r_hmacKey r) p" "isLocal r d" "q \<noteq> 6"
  shows "buildReply r (ether v6) (wrapIP v6 q s d l4) =
    Some (Some (wrapIP v6 (reply_proto v6 q) d s (reply_seg v6 q d s l4 (san (r_hmacKey r) p))), r)"
proof -
  have "q = 1 \<or> q = 58 \<or> q = 17" using assms(3,7) by (auto simp: payload_of_def split: if_splits)
  moreover have "net_view (ether v6) (wrapIP v6 q s d l4) = Some (0xF8, s, d, q, l4, v6)"
    using net_view_wrapIP [OF assms(1,2), of q l4] by (simp add: ether_def)
  ultimately show ?thesis
    using assms by (auto simp: buildReply_view buildReplyL4_eq Let_def reply_proto_def reply_seg_def)
qed

text \<open>What the sniffer makes of a bare marked packet in a frame.\<close>

lemma peekVXLAN_plain:
  assumes "length s = (if v6 then 16 else 4)" "length d = (if v6 then 16 else 4)" "q = 17 \<Longrightarrow> be16_at l4 2 \<noteq> 4789"
  shows "peekVXLAN (wrapIP v6 q s d l4) (ether v6) = Some (Some (0, wrapIP v6 q s d l4, ether v6))"
proof -
  have "outerUDP (ether v6) (wrapIP v6 q s d l4) = Some (if q = 17 then Some (s, d, l4) else None)"
    using assms(1,2) by (simp add: ether_def outerUDP_def wrapIP_def parseIPv4_IPv4 parseIPv6_IPv6)
  then show ?thesis using assms(3) by (simp add: peekVXLAN_def sniffOuterUDP_eq)
qed

lemma capture_of_wrapIP:
  assumes "length s = (if v6 then 16 else 4)" "length d = (if v6 then 16 else 4)"
    and "payload_of q l4 = Some p" "Unmarshal p = Some (Inr m)"
  shows "capture_of vni (wrapIP v6 q s d l4) (ether v6) =
    Some (let c = capture0\<lparr>c_vni := vni, c_srcIP := ip_string s, c_proto := q, c_meta := m, c_payload := p\<rparr> in
      if q = 6 then c\<lparr>c_srcPort := be16_at l4 0, c_dstPort := be16_at l4 2, c_tcpSeq := be32_at l4 4, c_tcpFlags := l4 ! 13\<rparr>
      else if q = 17 then c\<lparr>c_srcPort := be16_at l4 0, c_dstPort := be16_at l4 2\<rparr>
      else c\<lparr>c_icmpType := l4 ! 0\<rparr>)"
proof -
  have "net_view (ether v6) (wrapIP v6 q s d l4) = Some (0xF8, s, d, q, l4, v6)"
    using net_view_wrapIP [OF assms(1,2), of q l4] by (simp add: ether_def)
  then show ?thesis using assms(3,4) by (simp add: capture_of_def)
qed

lemma parseMarked_plain:
  assumes "parseL2 frame = Some (Some l2)" "l2_l3 l2 = wrapIP v6 q s d l4" "l2_etherType l2 = ether v6"
    and "length s = (if v6 then 16 else 4)" "length d = (if v6 then 16 else 4)" "q = 17 \<Longrightarrow> be16_at l4 2 \<noteq> 4789"
  shows "parseMarked frame = Some (capture_of 0 (wrapIP v6 q s d l4) (ether v6))"
  using assms(1-3) peekVXLAN_plain [OF assms(4-6)] by (simp add: parseMarked_eq)

section \<open>Probes of the client\<close>

lemma icmpL3_eq:
  "icmpL3 src dst i q pl = (let v6 = isV6 dst; s = net_addr v6 src; d = net_addr v6 dst in
     (wrapIP v6 (if v6 then 58 else 1) s d (if v6 then ICMPv6 128 i q src dst pl else ICMP 8 i q pl), v6))"
  by (simp add: icmpL3_def wrapIP_addr Let_def)

lemma udpL3_eq:
  "udpL3 src dst sp dp pl = (let v6 = isV6 dst; s = net_addr v6 src; d = net_addr v6 dst in
     (wrapIP v6 17 s d (if v6 then UDP6 src dst sp dp pl else UDP src dst sp dp pl), v6))"
  by (simp add: udpL3_def wrapIP_addr Let_def)

lemma icmp_type [simp]: "ICMP t i q p ! 0 = t" "ICMPv6 t i q s d p ! 0 = t"
  by (simp_all add: ICMP_layout ICMPv6_layout icmp_front_def Let_def)

text \<open>What the program relies on of the environment: a UUID has 16 bytes.\<close>

definition wf_env :: "env \<Rightarrow> bool" where
  "wf_env e \<longleftrightarrow> length (newUUID e) = 16"

text \<open>Hardware addresses of other lengths are cut or padded to six bytes by the frame builders.\<close>

lemma Ethernet_pad: "Ethernet d s et p = Ethernet (pad 6 d) (pad 6 s) et p"
    "EthernetVLAN d s vid et p = EthernetVLAN (pad 6 d) (pad 6 s) vid et p"
  by (simp_all add: Ethernet_layout EthernetVLAN_layout)

lemma sendL2_frame:
  assumes "sendL2 e f l3 v6 = Inr (Frame idx frame)"
  obtains l2 where "parseL2 frame = Some (Some l2)" "l2_l3 l2 = l3" "l2_etherType l2 = ether v6"
proof -
  have ne: "f_iface f \<noteq> []" "f_dstMAC f \<noteq> []" using assms by (auto simp: sendL2_def)
  obtain i hw where if1: "ifByName e (f_iface f) = Some (i, hw)"
    using assms ne by (cases "ifByName e (f_iface f)") (auto simp: sendL2_def)
  obtain d where dm: "ParseMAC (f_dstMAC f) = Some d"
    using assms ne if1 by (cases "ParseMAC (f_dstMAC f)") (auto simp: sendL2_def)
  define sm where "sm = (if f_srcMAC f \<noteq> [] then ParseMAC (f_srcMAC f) else Some hw)"
  note send = assms [unfolded sendL2_def, folded sm_def]
  obtain s where s: "sm = Some s"
    using send ne if1 dm unfolding sm_def [symmetric] by (cases sm) (auto simp flip: sm_def)
  have "frame = (if 0 < f_vlan f then EthernetVLAN (pad 6 d) (pad 6 s) (of_int (f_vlan f)) (ether v6) l3
      else Ethernet (pad 6 d) (pad 6 s) (ether v6) l3)"
    using assms ne if1 dm s [unfolded sm_def] unfolding Ethernet_pad [symmetric]
    by (auto simp: sendL2_def ether_def Let_def split: if_splits)
  then show ?thesis using that by (auto simp: parseL2_Ethernet parseL2_EthernetVLAN split: if_splits)
qed

lemma emit_frame:
  assumes "emit e f dst l3 v6 = Inr (Frame idx frame)"
  obtains l2 where "parseL2 frame = Some (Some l2)" "l2_l3 l2 = l3" "l2_etherType l2 = ether v6"
  using assms sendL2_frame [of e f l3 v6 idx frame]
  by (auto simp: emit_def sendIP_def split: if_splits)

lemma bindE_Inr [simp]: "bindE (Inr a) k = k a"
  by (simp add: bindE_def)

lemma bindE_InrE:
  assumes "bindE x k = Some (Inr y)"
  obtains a where "x = Inr a" "k a = Some (Inr y)"
  using assms by (auto simp: bindE_def split: sum.splits)

lemma await_response:
  assumes "f_response f" "List.map_filter (hit i match) evs = c # cs"
  shows "await f i match evs s = Some (Inr ([s], Some c))"
  using assms by (simp add: await_def recvMatch_eq)

lemma await_sent: "await f i match evs s = Some (Inr (ss, r)) \<Longrightarrow> ss = [s]"
  by (auto simp: await_def split: if_splits bind_splits)

lemma newMeta_fields:
  "snd (newMeta e f) = newUUID e" "ID (fst (newMeta e f)) = newUUID e" "NeedResponse (fst (newMeta e f)) = f_response f"
  "Deliver (fst (newMeta e f)) = f_deliver f"
  by (simp_all add: newMeta_def)

text \<open>The payload of a probe that wants an answer passes the agent's gate when the keys agree.\<close>

lemma probe_payload:
  assumes "wf_env e" "f_response f" "\<not> f_deliver f" "key = f_hmacKey f"
  shows "asks (payload f (fst (newMeta e f)) @ rest)" "authentic key (payload f (fst (newMeta e f)) @ rest)"
    "Unmarshal (payload f (fst (newMeta e f)) @ rest) = Some (Inr (fst (newMeta e f)))"
proof -
  have wf: "wf_meta (fst (newMeta e f))" using assms(1) by (simp add: wf_meta_def wf_env_def newMeta_fields)
  show "Unmarshal (payload f (fst (newMeta e f)) @ rest) = Some (Inr (fst (newMeta e f)))"
    using Unmarshal_Signed [OF wf] by (simp add: payload_def)
  then show "asks (payload f (fst (newMeta e f)) @ rest)" using assms by (simp add: asks_def newMeta_fields)
  show "authentic key (payload f (fst (newMeta e f)) @ rest)"
    using Verify_Signed [OF wf] assms(4) by (simp add: authentic_def payload_def)
qed

text \<open>The frame that answers an ICMP or UDP probe, and what the client makes of it.\<close>

lemma answer_recognised:
  assumes l2: "parseL2 frame = Some (Some l2)" "l2_l3 l2 = wrapIP v6 q s d l4" "l2_etherType l2 = ether v6"
    and len: "length s = (if v6 then 16 else 4)" "length d = (if v6 then 16 else 4)"
    and pl: "payload_of q l4 = Some p" "asks p" "authentic (r_hmacKey r) p" "Unmarshal p = Some (Inr m)"
    and "isLocal r d" "q \<noteq> 6" "q \<noteq> 17 \<or> be16_at l4 0 \<noteq> 4789"
  shows "\<exists>out r' c. handleRegular True r frame aux = Some (Some out, r') \<and>
    parseMarked out = Some (Some c) \<and> ID (c_meta c) = ID m \<and> c_srcIP c = ip_string d \<and>
    (if q = 17 then c_proto c = 17 \<and> c_dstPort c = be16_at l4 0 else isEchoReply c)"
proof -
  let ?echo = "san (r_hmacKey r) p" and ?q = "reply_proto v6 q"
  let ?l4 = "reply_seg v6 q d s l4 ?echo"
  let ?out = "frameL2 (l2_src l2) (l2_dst l2) (orVlan (l2_vlan l2) aux) (ether v6) (wrapIP v6 ?q d s ?l4)"
  have q: "q = 1 \<or> q = 58 \<or> q = 17" using pl(1) \<open>q \<noteq> 6\<close> by (auto simp: payload_of_def split: if_splits)
  have "buildReply r (ether v6) (wrapIP v6 q s d l4) = Some (Some (wrapIP v6 ?q d s ?l4), r)"
    using buildReply_probe [OF len pl(1-3) \<open>isLocal r d\<close> \<open>q \<noteq> 6\<close>] .
  then obtain r' where h: "handleRegular True r frame aux = Some (Some ?out, r')"
    using l2 by (simp add: handleRegular_def send_frameL2)
  have out: "parseL2 ?out = Some (Some \<lparr>l2_dst = l2_src l2, l2_src = l2_dst l2, l2_etherType = ether v6,
      l2_vlan = orVlan (l2_vlan l2) aux AND 0x0FFF, l2_l3 = wrapIP v6 ?q d s ?l4\<rparr>)"
    by (rule parseL2_reframe) (use parseL2_macs [OF l2(1)] in simp_all)
  have pq: "payload_of ?q ?l4 = Some ?echo" using q by (auto simp: reply_proto_def reply_seg_def)
  have port: "be16_at ?l4 2 \<noteq> 4789" if "?q = 17"
    using that q assms(12) by (auto simp: reply_proto_def reply_seg_def udp_fields split: if_splits)
  have "parseMarked ?out = Some (capture_of 0 (wrapIP v6 ?q d s ?l4) (ether v6))"
    by (rule parseMarked_plain [OF out]) (use len port in simp_all)
  note cap = this [unfolded capture_of_wrapIP [OF len(2,1) pq Unmarshal_san [OF pl(4)]]]
  show ?thesis
    by (rule exI, rule exI, rule exI, rule conjI [OF h], rule conjI [OF cap])
      (use q in \<open>auto simp: Let_def reply_proto_def reply_seg_def isEchoReply_def udp_fields\<close>)
qed

section \<open>A concrete client\<close>

definition demo_env :: env where
  "demo_env = \<lparr>dialLocal = (\<lambda>_. None), ifByName = (\<lambda>_. Some (3, [2, 0, 0, 0, 0, 1])),
     newUUID = ID demo_meta, nowNano = 5, sniffOK = True, sendOK = True\<rparr>"

definition demo_flags :: "bool \<Rightarrow> int \<Rightarrow> flags" where
  "demo_flags resp sport = \<lparr>f_src = ''10.0.0.1'', f_dst = ''10.0.0.2'', f_innerSrc = ''10.0.0.1'', f_innerDst = ''10.0.0.2'', f_sport = sport, f_dport = 0,
     f_vni = 100, f_vlan = 42, f_iface = ''eth0'', f_dstMAC = ''02:00:00:00:00:02'', f_srcMAC = [], f_asVM = False, f_hmacKey = [], f_response = resp,
     f_deliver = False\<rparr>"

lemma demo_wf: "wf_env demo_env"
  by (simp add: wf_env_def demo_env_def v4InV6Prefix_def demo_meta_def)

lemma demo_local: "isLocal (demo_agent t) (v4InV6Prefix @ [10, 0, 0, 2])" "ParseIP ''10.0.0.2'' = Some (v4InV6Prefix @ [10, 0, 0, 2])"
proof -
  have "key16 (v4InV6Prefix @ [10, 0, 0, 2]) = key16 [10, 0, 0, 2]" by code_simp
  then show "isLocal (demo_agent t) (v4InV6Prefix @ [10, 0, 0, 2])" by (simp add: isLocal_def demo_agent_def gomap_simps)
qed code_simp

lemma demo_agent_sel [simp]: "r_hmacKey (demo_agent t) = []" "r_tcpRespond (demo_agent t)"
  by (simp_all add: demo_agent_def)

lemma demo_flags_sel [simp]:
  "f_response (demo_flags resp sport) = resp" "\<not> f_deliver (demo_flags resp sport)" "f_hmacKey (demo_flags resp sport) = []"
  "f_dst (demo_flags resp sport) = ''10.0.0.2''" "f_innerDst (demo_flags resp sport) = ''10.0.0.2''" "f_vni (demo_flags resp sport) = 100"
  "f_dport (demo_flags resp sport) = 0" "f_sport (demo_flags resp sport) = sport"
  by (simp_all add: demo_flags_def)

lemma demo_parses: "ParseIP ''10.0.0.1'' = Some (v4InV6Prefix @ [10, 0, 0, 1])"
    "ParseIP ''10.0.0.2'' = Some (v4InV6Prefix @ [10, 0, 0, 2])" "ParseMAC ''02:00:00:00:00:02'' = Some [2, 0, 0, 0, 0, 2]"
  by code_simp+

lemmas demo_run_defs = demo_parses startSniffer_def mustIP_def srcIP_def split_beta Let_def demo_env_def demo_flags_def emit_def sendL2_def await_def

lemma demo_runs:
  "\<exists>fr. runICMP demo_env (demo_flags True sport) [] = Some (Inr ([Frame 3 fr], None))"
  "\<exists>fr. runUDP demo_env (demo_flags True sport) [] = Some (Inr ([Frame 3 fr], None))"
  "\<exists>fr. runVXLAN demo_env (demo_flags True sport) [] = Some (Inr ([Frame 3 fr], None))"
  "\<exists>fr. runTCP demo_env (demo_flags resp sport) w [] [] [] = Some (Inr ([Frame 3 fr], []))"
  by (simp_all add: runICMP_def runUDP_def runVXLAN_def runTCP_def demo_run_defs)

section \<open>Round trips\<close>

lemma mustIP_Inr: "mustIP x = Inr ip \<longleftrightarrow> ParseIP x = Some ip"
  by (simp add: mustIP_def split: option.split)

lemma startSniffer_Inr: "startSniffer e = Inr u \<longleftrightarrow> sniffOK e"
  by (simp add: startSniffer_def)

lemma runICMP_sent:
  assumes "runICMP e f evs = Some (Inr ([Frame idx frame], r))"
  obtains dst src where "ParseIP (f_dst f) = Some dst" "srcIP e f dst = Inr src"
    "emit e f dst (fst (icmpL3 src dst 0x1234 1 (payload f (fst (newMeta e f))))) (isV6 dst) = Inr (Frame idx frame)"
    "\<And>evs. runICMP e f evs = await f (newUUID e) isEchoReply evs (Frame idx frame)"
proof -
  obtain dst src s where sn: "startSniffer e = Inr ()" and *: "mustIP (f_dst f) = Inr dst" "srcIP e f dst = Inr src"
    "emit e f dst (fst (icmpL3 src dst 0x1234 1 (payload f (fst (newMeta e f))))) (isV6 dst) = Inr s"
    "await f (newUUID e) isEchoReply evs s = Some (Inr ([Frame idx frame], r))"
    using assms unfolding runICMP_def
    by (auto elim!: bindE_InrE simp: split_beta newMeta_fields icmpL3_eq Let_def)
  have s: "s = Frame idx frame" using await_sent [OF *(4)] by simp
  have "runICMP e f evs = await f (newUUID e) isEchoReply evs (Frame idx frame)" for evs
    using *(1-3) s sn by (simp add: runICMP_def split_beta newMeta_fields icmpL3_eq Let_def)
  with * s show ?thesis by (intro that) (auto simp: mustIP_Inr)
qed

text \<open>
  C21: A ping completes. When the client's ICMP sub-command has sent its probe frame (IPv4 or IPv6,
  with or without VLAN tag, signed or not) asking for a response, an agent with the same key for
  which the destination is a local VM answers it, and the client, seeing on the wire first its own
  probe and then that answer, accepts the answer and only the answer as its reply: same run id,
  from the destination's address.
\<close>

theorem ping_roundtrip:
  assumes "wf_env e" "runICMP e f [] = Some (Inr ([Frame idx frame], None))" "f_response f" "\<not> f_deliver f"
    and "ParseIP (f_dst f) = Some dst" "isLocal r dst" "r_hmacKey r = f_hmacKey f"
  shows "\<exists>out r' c. handleRegular True r frame aux = Some (Some out, r') \<and>
     runICMP e f [SniffFrame frame, SniffFrame out] = Some (Inr ([Frame idx frame], Some c)) \<and>
     parseMarked out = Some (Some c) \<and> ID (c_meta c) = newUUID e \<and> c_srcIP c = ip_string dst"
  using assms(2)
proof (rule runICMP_sent)
  fix dst' src
  assume "ParseIP (f_dst f) = Some dst'"
    and em: "emit e f dst' (fst (icmpL3 src dst' 0x1234 1 (payload f (fst (newMeta e f))))) (isV6 dst') = Inr (Frame idx frame)"
    and run: "\<And>evs. runICMP e f evs = await f (newUUID e) isEchoReply evs (Frame idx frame)"
  then have dst: "dst' = dst" using assms(5) by simp
  let ?v6 = "isV6 dst" and ?p = "payload f (fst (newMeta e f))"
  let ?s = "net_addr ?v6 src" and ?d = "net_addr ?v6 dst" and ?q = "if ?v6 then 58 else 1 :: byte"
  let ?l4 = "if ?v6 then ICMPv6 128 0x1234 1 src dst ?p else ICMP 8 0x1234 1 ?p"
  note pp = probe_payload [OF assms(1,3,4,7), of "[]", unfolded append_Nil2]
  have pl: "payload_of ?q ?l4 = Some ?p" by simp
  have len: "length dst = 4 \<or> length dst = 16" using ParseIP_length [OF assms(5)] by simp
  obtain l2 where l2: "parseL2 frame = Some (Some l2)" "l2_l3 l2 = wrapIP ?v6 ?q ?s ?d ?l4" "l2_etherType l2 = ether ?v6"
    using emit_frame [OF em] by (auto simp: dst icmpL3_eq Let_def)
  have own: "parseMarked frame = Some (capture_of 0 (wrapIP ?v6 ?q ?s ?d ?l4) (ether ?v6))"
    by (rule parseMarked_plain [OF l2]) auto
  have q: "?q \<noteq> 6" "?q \<noteq> 17" by simp_all
  have loc: "isLocal r ?d" using isLocal_net_addr [OF len] assms(6) by simp
  obtain out r' c where c: "handleRegular True r frame aux = Some (Some out, r')" "parseMarked out = Some (Some c)"
      "ID (c_meta c) = newUUID e" "c_srcIP c = ip_string ?d" "isEchoReply c"
    using answer_recognised [OF l2 _ _ pl pp loc q(1) disjI1 [OF q(2)], of aux, unfolded if_not_P [OF q(2)]]
    by (auto simp: newMeta_fields)
  have "hit (newUUID e) isEchoReply (SniffFrame frame) = None"
    by (simp add: hit_def own capture_of_wrapIP [OF _ _ pl pp(3)] Let_def isEchoReply_def)
  moreover have "hit (newUUID e) isEchoReply (SniffFrame out) = Some c" using c by (simp add: hit_def)
  ultimately have "runICMP e f [SniffFrame frame, SniffFrame out] = Some (Inr ([Frame idx frame], Some c))"
    unfolding run by (intro await_response) (simp_all add: assms(3))
  with c net_addr_dst(2) [OF len] show ?thesis by auto
qed

theorem ping_roundtrip_witness:
  "\<exists>fr out r' c. runICMP demo_env (demo_flags True 40000) [SniffFrame fr, SniffFrame out] = Some (Inr ([Frame 3 fr], Some c)) \<and>
     handleRegular True (demo_agent 0) fr 0 = Some (Some out, r') \<and> ID (c_meta c) = ID demo_meta"
proof -
  obtain fr where fr: "runICMP demo_env (demo_flags True 40000) [] = Some (Inr ([Frame 3 fr], None))" using demo_runs(1) by blast
  have "newUUID demo_env = ID demo_meta" by (simp add: demo_env_def)
  with ping_roundtrip [OF demo_wf fr, of "v4InV6Prefix @ [10, 0, 0, 2]" "demo_agent 0" 0] demo_local show ?thesis by auto
qed

lemma runUDP_sent:
  assumes "runUDP e f evs = Some (Inr ([Frame idx frame], r))" "dport = (if f_dport f = 0 then 7 else f_dport f)"
  obtains dst src where "ParseIP (f_dst f) = Some dst" "srcIP e f dst = Inr src"
    "emit e (f\<lparr>f_dport := dport\<rparr>) dst (fst (udpL3 src dst (of_int (f_sport f)) (of_int dport) (payload f (fst (newMeta e f))))) (isV6 dst)
       = Inr (Frame idx frame)"
    "\<And>evs. runUDP e f evs = await (f\<lparr>f_dport := dport\<rparr>) (newUUID e)
       (\<lambda>c. c_proto c = 17 \<and> c_dstPort c = of_int (f_sport f)) evs (Frame idx frame)"
proof -
  let ?f = "f\<lparr>f_dport := dport\<rparr>"
  have f: "(if f_dport f = 0 then f\<lparr>f_dport := 7\<rparr> else f) = ?f" using assms(2) by simp
  obtain dst src s where sn: "startSniffer e = Inr ()" and *: "mustIP (f_dst f) = Inr dst" "srcIP e f dst = Inr src"
    "emit e ?f dst (fst (udpL3 src dst (of_int (f_sport f)) (of_int dport) (payload f (fst (newMeta e f))))) (isV6 dst) = Inr s"
    "await ?f (newUUID e) (\<lambda>c. c_proto c = 17 \<and> c_dstPort c = of_int (f_sport f)) evs s = Some (Inr ([Frame idx frame], r))"
    using assms(1) unfolding runUDP_def f Let_def
    by (auto elim!: bindE_InrE simp: split_beta udpL3_eq Let_def payload_def newMeta_def srcIP_def cong: if_cong)
  have s: "s = Frame idx frame" using await_sent [OF *(4)] by simp
  have "runUDP e f evs = await ?f (newUUID e) (\<lambda>c. c_proto c = 17 \<and> c_dstPort c = of_int (f_sport f)) evs (Frame idx frame)" for evs
    using *(1-3) s sn unfolding runUDP_def f Let_def
    by (simp add: split_beta udpL3_eq Let_def payload_def newMeta_def srcIP_def cong: if_cong)
  with * s show ?thesis by (intro that) (auto simp: mustIP_Inr)
qed

text \<open>The client's own UDP probe, as its sniffer sees it leave.\<close>

lemma udp_probe_frame:
  assumes "wf_env e" "emit e f' dst (fst (udpL3 src dst sp dp p)) (isV6 dst) = Inr (Frame idx frame)"
    and "Unmarshal p = Some (Inr m)"
  obtains l2 where "parseL2 frame = Some (Some l2)" "l2_etherType l2 = ether (isV6 dst)"
    "l2_l3 l2 = wrapIP (isV6 dst) 17 (net_addr (isV6 dst) src) (net_addr (isV6 dst) dst)
       (if isV6 dst then UDP6 src dst sp dp p else UDP src dst sp dp p)"
    "dp \<noteq> 4789 \<Longrightarrow> \<exists>c. parseMarked frame = Some (Some c) \<and> c_meta c = m \<and> c_proto c = 17 \<and> c_dstPort c = dp"
proof -
  let ?v6 = "isV6 dst"
  let ?l4 = "if ?v6 then UDP6 src dst sp dp p else UDP src dst sp dp p"
  obtain l2 where l2: "parseL2 frame = Some (Some l2)"
      "l2_l3 l2 = wrapIP ?v6 17 (net_addr ?v6 src) (net_addr ?v6 dst) ?l4" "l2_etherType l2 = ether ?v6"
    using emit_frame [OF assms(2)] by (auto simp: udpL3_eq Let_def)
  have pl: "payload_of 17 ?l4 = Some p" by simp
  have "\<exists>c. parseMarked frame = Some (Some c) \<and> c_meta c = m \<and> c_proto c = 17 \<and> c_dstPort c = dp" if "dp \<noteq> 4789"
  proof -
    have "parseMarked frame = Some (capture_of 0 (wrapIP ?v6 17 (net_addr ?v6 src) (net_addr ?v6 dst) ?l4) (ether ?v6))"
      by (rule parseMarked_plain [OF l2]) (use that in \<open>auto simp: udp_fields\<close>)
    then show ?thesis using capture_of_wrapIP [OF _ _ pl assms(3)] by (auto simp: Let_def udp_fields)
  qed
  then show ?thesis by (rule that [OF l2(1,3,2)])
qed

text \<open>
  A UDP probe completes. As for ICMP, when the client's UDP sub-command has sent a probe that
  asks for a response to a local VM, the agent with the same key answers it and the client accepts
  that answer (and not its own probe) as its reply, provided source and destination port differ
  and neither is the VXLAN port.
\<close>

theorem udp_roundtrip:
  assumes "wf_env e" "runUDP e f [] = Some (Inr ([Frame idx frame], None))" "f_response f" "\<not> f_deliver f"
    and "ParseIP (f_dst f) = Some dst" "isLocal r dst" "r_hmacKey r = f_hmacKey f"
    and "dport = (if f_dport f = 0 then 7 else f_dport f)" "(of_int dport :: u16) \<noteq> of_int (f_sport f)"
    and "(of_int dport :: u16) \<noteq> 4789" "(of_int (f_sport f) :: u16) \<noteq> 4789"
  shows "\<exists>out r' c. handleRegular True r frame aux = Some (Some out, r') \<and>
     runUDP e f [SniffFrame frame, SniffFrame out] = Some (Inr ([Frame idx frame], Some c)) \<and>
     parseMarked out = Some (Some c) \<and> ID (c_meta c) = newUUID e \<and> c_srcIP c = ip_string dst"
  using assms(2,8)
proof (rule runUDP_sent)
  fix dst' src
  let ?sp = "of_int (f_sport f) :: u16" and ?dp = "of_int dport :: u16" and ?p = "payload f (fst (newMeta e f))"
  let ?match = "\<lambda>c. c_proto c = 17 \<and> c_dstPort c = ?sp"
  assume "ParseIP (f_dst f) = Some dst'"
    and em: "emit e (f\<lparr>f_dport := dport\<rparr>) dst' (fst (udpL3 src dst' ?sp ?dp ?p)) (isV6 dst') = Inr (Frame idx frame)"
    and run: "\<And>evs. runUDP e f evs = await (f\<lparr>f_dport := dport\<rparr>) (newUUID e) ?match evs (Frame idx frame)"
  then have dst: "dst' = dst" using assms(5) by simp
  note pp = probe_payload [OF assms(1,3,4,7), of "[]", unfolded append_Nil2]
  from assms(1) em [unfolded dst] pp(3) show ?thesis
  proof (rule udp_probe_frame)
    fix l2
    let ?v6 = "isV6 dst"
    let ?l4 = "if ?v6 then UDP6 src dst ?sp ?dp ?p else UDP src dst ?sp ?dp ?p"
    assume l2: "parseL2 frame = Some (Some l2)" "l2_etherType l2 = ether ?v6"
        "l2_l3 l2 = wrapIP ?v6 17 (net_addr ?v6 src) (net_addr ?v6 dst) ?l4"
      and own: "?dp \<noteq> 4789 \<Longrightarrow> \<exists>c. parseMarked frame = Some (Some c) \<and> c_meta c = fst (newMeta e f) \<and> c_proto c = 17 \<and> c_dstPort c = ?dp"
    have len: "length dst = 4 \<or> length dst = 16" using ParseIP_length [OF assms(5)] by simp
    have loc: "isLocal r (net_addr ?v6 dst)" using isLocal_net_addr [OF len] assms(6) by simp
    have pl: "payload_of 17 ?l4 = Some ?p" by simp
    have sp: "be16_at ?l4 0 = ?sp" by (simp add: udp_fields)
    obtain out r' c where c: "handleRegular True r frame aux = Some (Some out, r')" "parseMarked out = Some (Some c)"
        "ID (c_meta c) = newUUID e" "c_srcIP c = ip_string (net_addr ?v6 dst)" "?match c"
      using answer_recognised [OF l2(1,3,2) _ _ pl pp loc, of aux] assms(11) sp by (auto simp: newMeta_fields)
    have "hit (newUUID e) ?match (SniffFrame frame) = None"
      using own assms(9,10) by (auto simp: hit_def)
    moreover have "hit (newUUID e) ?match (SniffFrame out) = Some c" using c by (simp add: hit_def)
    ultimately have "runUDP e f [SniffFrame frame, SniffFrame out] = Some (Inr ([Frame idx frame], Some c))"
      unfolding run by (intro await_response) (simp_all add: assms(3))
    with c net_addr_dst(2) [OF len] show ?thesis by auto
  qed
qed

theorem udp_roundtrip_witness:
  "\<exists>fr out r' c. runUDP demo_env (demo_flags True 40000) [SniffFrame fr, SniffFrame out] = Some (Inr ([Frame 3 fr], Some c)) \<and>
     handleRegular True (demo_agent 0) fr 0 = Some (Some out, r') \<and> ID (c_meta c) = ID demo_meta"
proof -
  obtain fr where fr: "runUDP demo_env (demo_flags True 40000) [] = Some (Inr ([Frame 3 fr], None))" using demo_runs(2) by blast
  have "newUUID demo_env = ID demo_meta" by (simp add: demo_env_def)
  with udp_roundtrip [OF demo_wf fr, of "v4InV6Prefix @ [10, 0, 0, 2]" "demo_agent 0" 7 0] demo_local show ?thesis by auto
qed

text \<open>
  With equal ports the UDP sub-command mistakes its own probe for the reply. If source and
  destination port are equal (and not the VXLAN port), the first frame the sniffer sees, the
  client's own probe leaving the host, already satisfies the condition for a reply: the client
  reports an answer although nobody answered.
\<close>

theorem udp_equal_ports_self_reply:
  assumes "wf_env e" "runUDP e f [] = Some (Inr ([Frame idx frame], None))" "f_response f"
    and "dport = (if f_dport f = 0 then 7 else f_dport f)" "(of_int dport :: u16) = of_int (f_sport f)"
    and "(of_int dport :: u16) \<noteq> 4789"
  shows "\<exists>c. runUDP e f (SniffFrame frame # evs) = Some (Inr ([Frame idx frame], Some c))"
  using assms(2,4)
proof (rule runUDP_sent)
  fix dst src
  let ?sp = "of_int (f_sport f) :: u16" and ?dp = "of_int dport :: u16" and ?p = "payload f (fst (newMeta e f))"
  assume em: "emit e (f\<lparr>f_dport := dport\<rparr>) dst (fst (udpL3 src dst ?sp ?dp ?p)) (isV6 dst) = Inr (Frame idx frame)"
    and run: "\<And>evs. runUDP e f evs = await (f\<lparr>f_dport := dport\<rparr>) (newUUID e)
       (\<lambda>c. c_proto c = 17 \<and> c_dstPort c = ?sp) evs (Frame idx frame)"
  have "wf_meta (fst (newMeta e f))" using assms(1) by (simp add: wf_meta_def wf_env_def newMeta_fields)
  then have u: "Unmarshal ?p = Some (Inr (fst (newMeta e f)))"
    using Unmarshal_Signed [of "fst (newMeta e f)" _ "[]"] by (simp add: payload_def)
  have "\<exists>c. parseMarked frame = Some (Some c) \<and> c_meta c = fst (newMeta e f) \<and> c_proto c = 17 \<and> c_dstPort c = ?dp"
    by (rule udp_probe_frame [OF assms(1) em u], erule meta_mp, rule assms(6))
  then obtain c where "parseMarked frame = Some (Some c)" "c_meta c = fst (newMeta e f)" "c_proto c = 17" "c_dstPort c = ?dp"
    by blast
  then have "hit (newUUID e) (\<lambda>c. c_proto c = 17 \<and> c_dstPort c = ?sp) (SniffFrame frame) = Some c"
    using assms(5) by (simp add: hit_def newMeta_fields)
  then have "runUDP e f (SniffFrame frame # evs) = Some (Inr ([Frame idx frame], Some c))"
    unfolding run by (intro await_response) (simp_all add: assms(3))
  then show ?thesis by blast
qed

theorem udp_equal_ports_self_reply_witness:
  "\<exists>fr c. runUDP demo_env (demo_flags True 7) [SniffFrame fr] = Some (Inr ([Frame 3 fr], Some c))"
proof -
  obtain fr where fr: "runUDP demo_env (demo_flags True 7) [] = Some (Inr ([Frame 3 fr], None))" using demo_runs(2) by blast
  with udp_equal_ports_self_reply [OF demo_wf fr, of 7 "[]"] show ?thesis by auto
qed

section \<open>VXLAN round trip\<close>

text \<open>An encapsulated frame, decoded by the agent and by the client.\<close>

lemma encapsulated:
  assumes o2: "parseL2 frame = Some (Some oL2)" "outerUDP (l2_etherType oL2) (l2_l3 oL2) = Some (Some (osrc, odst, u))"
    and u: "u = (if v6 then UDP6 a b sp 4789 (VXLAN vni f) else UDP a b sp 4789 (VXLAN vni f))"
    and i2: "parseL2 f = Some (Some iL2)" and vni: "drop_bit 8 (push_bit 8 vni) = vni"
  shows "vxlan_view frame = Some (oL2, osrc, odst, vni, iL2)"
    "parseMarked frame = Some (capture_of vni (l2_l3 iL2) (l2_etherType iL2))"
proof -
  note seg = vxlan_segment [OF u]
  have len: "\<not> length u < 16" "\<not> length u < 8" "\<not> length u - 8 < 8" using seg(5) by simp_all
  show "vxlan_view frame = Some (oL2, osrc, odst, vni, iL2)"
    using o2 i2 seg len vni by (simp add: vxlan_view_def)
  have "drop 8 u \<noteq> []" "drop 8 u ! 0 = u ! 8" "be32_at (drop 8 u) 4 = be32_at u 12"
    using len by (simp_all add: be32_at_drop)
  then have "peekVXLAN (l2_l3 oL2) (l2_etherType oL2) = Some (Some (vni, l2_l3 iL2, l2_etherType iL2))"
    using o2(2) i2 seg len vni by (simp add: peekVXLAN_def sniffOuterUDP_eq stripL2_eq)
  then show "parseMarked frame = Some (capture_of vni (l2_l3 iL2) (l2_etherType iL2))"
    using o2(1) by (simp add: parseMarked_eq)
qed

lemma outerUDP_client:
  "outerUDP (ether v6) (if v6 then IPv6 0 255 17 s d p else IPv4 0 255 17 s d p) =
     Some (Some (net_addr v6 s, net_addr v6 d, p))"
proof -
  have "IPv4 0 255 17 s d p = IPv4 0 255 17 (addr4 s) (addr4 d) p" "IPv6 0 255 17 s d p = IPv6 0 255 17 (addr16 s) (addr16 d) p"
    by (simp_all add: IPv4_layout IPv6_layout)
  then show ?thesis by (auto simp: outerUDP_def ether_def net_addr_def parseIPv4_IPv4 parseIPv6_IPv6)
qed

lemma answer_encapsulated:
  assumes v: "vxlan_view frame = Some (oL2, osrc, odst, vni, iL2)"
    and i2: "l2_l3 iL2 = wrapIP v6 q s d l4" "l2_etherType iL2 = ether v6"
    and len: "length s = (if v6 then 16 else 4)" "length d = (if v6 then 16 else 4)"
    and pl: "payload_of q l4 = Some p" "asks p" "authentic (r_hmacKey r) p" "Unmarshal p = Some (Inr m)"
    and "isLocal r d" "q = 1 \<or> q = 58"
  shows "\<exists>out r' c. handleVXLAN True r frame aux = Some (Some out, r') \<and> parseMarked out = Some (Some c) \<and>
    ID (c_meta c) = ID m \<and> c_srcIP c = ip_string d \<and> c_vni c = vni \<and> isEchoReply c"
proof -
  let ?q = "reply_proto v6 q" and ?echo = "san (r_hmacKey r) p"
  let ?l4 = "reply_seg v6 q d s l4 ?echo"
  let ?rep = "wrapIP v6 ?q d s ?l4"
  let ?in = "frameL2 (l2_src iL2) (l2_dst iL2) (l2_vlan iL2) (l2_etherType iL2) ?rep"
  let ?out = "frameL2 (l2_src oL2) (l2_dst oL2) (orVlan (l2_vlan oL2) aux) (l2_etherType oL2)
     (outerWrap (l2_etherType oL2 = 0x86DD) odst osrc (VXLAN vni ?in))"
  note vd = vxlan_viewD [OF v]
  have outer: "l2_etherType oL2 = 0x0800 \<and> length odst = 4 \<and> length osrc = 4 \<or>
      l2_etherType oL2 = 0x86DD \<and> length odst = 16 \<and> length osrc = 16" using vd(5) by blast
  then have nv: "\<not> vlan_type (l2_etherType oL2)" by auto
  have "buildReply r (l2_etherType iL2) (l2_l3 iL2) = Some (Some ?rep, r)"
    unfolding i2 by (rule buildReply_probe [OF len pl(1-3) \<open>isLocal r d\<close>]) (use assms(11) in auto)
  then obtain r' where h: "handleVXLAN True r frame aux = Some (Some ?out, r')"
    by (simp add: handleVXLAN_eq v send_frameL2)
  have o2: "parseL2 ?out = Some (Some \<lparr>l2_dst = l2_src oL2, l2_src = l2_dst oL2, l2_etherType = l2_etherType oL2,
      l2_vlan = orVlan (l2_vlan oL2) aux AND 0x0FFF, l2_l3 = outerWrap (l2_etherType oL2 = 0x86DD) odst osrc (VXLAN vni ?in)\<rparr>)"
    by (rule parseL2_reframe [OF vd(2,1) nv])
  have in2: "parseL2 ?in = Some (Some \<lparr>l2_dst = l2_src iL2, l2_src = l2_dst iL2, l2_etherType = ether v6,
      l2_vlan = l2_vlan iL2 AND 0x0FFF, l2_l3 = ?rep\<rparr>)"
    unfolding i2(2) by (rule parseL2_reframe [OF vd(4,3)]) simp
  have pq: "payload_of ?q ?l4 = Some ?echo" using assms(11) by (auto simp: reply_proto_def reply_seg_def)
  have "parseMarked ?out = Some (capture_of vni ?rep (ether v6))"
    using encapsulated(2) [OF o2 _ refl in2 vd(6), of odst osrc "l2_etherType oL2 = 0x86DD"]
      outerUDP_outerWrap [OF outer] by simp
  note cap = this [unfolded capture_of_wrapIP [OF len(2,1) pq Unmarshal_san [OF pl(4)]]]
  show ?thesis
    by (rule exI, rule exI, rule exI, rule conjI [OF h], rule conjI [OF cap])
      (use assms(11) in \<open>auto simp: Let_def reply_proto_def reply_seg_def isEchoReply_def\<close>)
qed

text \<open>The packet the VXLAN sub-command sends.\<close>

definition vxlanL3 :: "flags \<Rightarrow> bytes \<Rightarrow> bytes \<Rightarrow> bytes \<Rightarrow> bytes \<Rightarrow> bytes \<Rightarrow> bytes" where
  "vxlanL3 f osrc odst isrc idst pl =
     (let v = VXLAN (of_int (f_vni f)) (Ethernet dummyMAC dummyMAC (ether (isV6 idst)) (fst (icmpL3 isrc idst 0x1234 1 pl))) in
      if isV6 odst then IPv6 0 255 17 osrc odst (UDP6 osrc odst (of_int (f_sport f)) 4789 v)
      else IPv4 0 255 17 osrc odst (UDP osrc odst (of_int (f_sport f)) 4789 v))"

lemma runVXLAN_sent:
  assumes "runVXLAN e f evs = Some (Inr ([Frame idx frame], r))"
  obtains osrc odst isrc idst where "ParseIP (f_innerDst f) = Some idst"
    "emit e f odst (vxlanL3 f osrc odst isrc idst (payload f (fst (newMeta e f)))) (isV6 odst) = Inr (Frame idx frame)"
    "\<And>evs. runVXLAN e f evs = await f (newUUID e) (\<lambda>c. c_vni c = of_int (f_vni f) \<and> isEchoReply c) evs (Frame idx frame)"
proof -
  have go: "\<not> (f_innerSrc f = [] \<or> f_innerDst f = [] \<or> f_vni f = 0)" using assms by (auto simp: runVXLAN_def)
  obtain odst osrc isrc idst s where sn: "startSniffer e = Inr ()" and *: "mustIP (f_dst f) = Inr odst" "srcIP e f odst = Inr osrc"
    "mustIP (f_innerSrc f) = Inr isrc" "mustIP (f_innerDst f) = Inr idst"
    "emit e f odst (vxlanL3 f osrc odst isrc idst (payload f (fst (newMeta e f)))) (isV6 odst) = Inr s"
    "await f (newUUID e) (\<lambda>c. c_vni c = of_int (f_vni f) \<and> isEchoReply c) evs s = Some (Inr ([Frame idx frame], r))"
    using assms go unfolding runVXLAN_def
    by (auto elim!: bindE_InrE simp: split_beta newMeta_fields icmpL3_eq vxlanL3_def ether_def Let_def cong: if_cong)
  have s: "s = Frame idx frame" using await_sent [OF *(6)] by simp
  have "runVXLAN e f evs = await f (newUUID e) (\<lambda>c. c_vni c = of_int (f_vni f) \<and> isEchoReply c) evs (Frame idx frame)" for evs
    using *(1-5) s go sn unfolding runVXLAN_def
    by (simp add: split_beta newMeta_fields icmpL3_eq vxlanL3_def ether_def Let_def cong: if_cong)
  with * s show ?thesis by (intro that) (auto simp: mustIP_Inr)
qed

lemma vni24:
  assumes "0 \<le> n" "n < 2 ^ 24"
  shows "drop_bit 8 (push_bit 8 (of_int n :: u32)) = of_int n"
proof (rule bit_word_eqI)
  fix i assume "i < LENGTH(32)"
  have "bit n i \<longrightarrow> i < 24"
  proof
    assume "bit n i"
    moreover have "take_bit 24 n = n" using assms by (simp add: take_bit_int_eq_self)
    ultimately show "i < 24" by (metis bit_take_bit_iff)
  qed
  then show "bit (drop_bit 8 (push_bit 8 (of_int n :: u32))) i = bit (of_int n :: u32) i"
    using \<open>i < LENGTH(32)\<close> by (auto simp: bit_simps)
qed

text \<open>
  C22: An encapsulated ping completes. When the client's VXLAN sub-command has sent its probe, with a
  VNI of 24 bits and over an IPv4 or IPv6 underlay, an agent in VXLAN mode with the same key for which the inner
  destination is a local VM answers inside the same VNI, and the client, seeing first its own probe
  and then that answer, accepts the answer and only the answer.
\<close>

theorem vxlan_roundtrip:
  assumes "wf_env e" "runVXLAN e f [] = Some (Inr ([Frame idx frame], None))" "f_response f" "\<not> f_deliver f"
    and "ParseIP (f_innerDst f) = Some dst" "isLocal r dst" "r_hmacKey r = f_hmacKey f"
    and "0 \<le> f_vni f" "f_vni f < 2 ^ 24"
  shows "\<exists>out r' c. handleVXLAN True r frame aux = Some (Some out, r') \<and>
     runVXLAN e f [SniffFrame frame, SniffFrame out] = Some (Inr ([Frame idx frame], Some c)) \<and>
     parseMarked out = Some (Some c) \<and> ID (c_meta c) = newUUID e \<and> c_srcIP c = ip_string dst"
  using assms(2)
proof (rule runVXLAN_sent)
  fix osrc odst isrc idst
  let ?match = "\<lambda>c. c_vni c = of_int (f_vni f) \<and> isEchoReply c"
  assume "ParseIP (f_innerDst f) = Some idst"
    and em: "emit e f odst (vxlanL3 f osrc odst isrc idst (payload f (fst (newMeta e f)))) (isV6 odst) = Inr (Frame idx frame)"
    and run: "\<And>evs. runVXLAN e f evs = await f (newUUID e) ?match evs (Frame idx frame)"
  then have dst: "idst = dst" using assms(5) by simp
  let ?v6 = "isV6 dst" and ?p = "payload f (fst (newMeta e f))"
  let ?s = "net_addr ?v6 isrc" and ?d = "net_addr ?v6 dst" and ?q = "if ?v6 then 58 else 1 :: byte"
  let ?l4 = "if ?v6 then ICMPv6 128 0x1234 1 isrc dst ?p else ICMP 8 0x1234 1 ?p"
  let ?inner = "Ethernet dummyMAC dummyMAC (ether ?v6) (wrapIP ?v6 ?q ?s ?d ?l4)"
  let ?u = "if isV6 odst then UDP6 osrc odst (of_int (f_sport f)) 4789 (VXLAN (of_int (f_vni f)) ?inner)
            else UDP osrc odst (of_int (f_sport f)) 4789 (VXLAN (of_int (f_vni f)) ?inner)"
  obtain oL2 where o2: "parseL2 frame = Some (Some oL2)" "l2_etherType oL2 = ether (isV6 odst)"
      "l2_l3 oL2 = (if isV6 odst then IPv6 0 255 17 osrc odst ?u else IPv4 0 255 17 osrc odst ?u)"
  proof (rule emit_frame [OF em])
    fix l2 assume l2: "parseL2 frame = Some (Some l2)" "l2_etherType l2 = ether (isV6 odst)"
      "l2_l3 l2 = vxlanL3 f osrc odst isrc idst ?p"
    have "vxlanL3 f osrc odst isrc idst ?p = (if isV6 odst then IPv6 0 255 17 osrc odst ?u else IPv4 0 255 17 osrc odst ?u)"
      by (simp only: vxlanL3_def icmpL3_eq Let_def dst fst_conv split: if_split) simp
    then show thesis by (intro that [OF l2(1,2)]) (simp only: l2(3))
  qed
  have in2: "parseL2 ?inner = Some (Some \<lparr>l2_dst = dummyMAC, l2_src = dummyMAC, l2_etherType = ether ?v6,
      l2_vlan = 0, l2_l3 = wrapIP ?v6 ?q ?s ?d ?l4\<rparr>)"
    by (rule parseL2_Ethernet) (simp_all add: dummyMAC_def)
  have ou: "outerUDP (l2_etherType oL2) (l2_l3 oL2) = Some (Some (net_addr (isV6 odst) osrc, net_addr (isV6 odst) odst, ?u))"
    unfolding o2(2,3) by (rule outerUDP_client)
  note enc = encapsulated [OF o2(1) ou refl in2 vni24 [OF assms(8,9)]]
  note pp = probe_payload [OF assms(1,3,4,7), of "[]", unfolded append_Nil2]
  have pl: "payload_of ?q ?l4 = Some ?p" by simp
  have len: "length dst = 4 \<or> length dst = 16" using ParseIP_length [OF assms(5)] by simp
  have loc: "isLocal r ?d" using isLocal_net_addr [OF len] assms(6) by simp
  have q: "?q = 1 \<or> ?q = 58" by simp
  obtain out r' c where c: "handleVXLAN True r frame aux = Some (Some out, r')" "parseMarked out = Some (Some c)"
      "ID (c_meta c) = newUUID e" "c_srcIP c = ip_string ?d" "?match c"
    using answer_encapsulated [where ?v6.0 = ?v6 and s = ?s and aux = aux, OF enc(1) _ _ _ _ pl pp loc q]
    by (auto simp: newMeta_fields)
  have "hit (newUUID e) ?match (SniffFrame frame) = None"
    by (simp add: hit_def enc(2) capture_of_wrapIP [OF _ _ pl pp(3)] Let_def isEchoReply_def)
  moreover have "hit (newUUID e) ?match (SniffFrame out) = Some c" using c by (simp add: hit_def)
  ultimately have "runVXLAN e f [SniffFrame frame, SniffFrame out] = Some (Inr ([Frame idx frame], Some c))"
    unfolding run by (intro await_response) (simp_all add: assms(3))
  with c net_addr_dst(2) [OF len] show ?thesis by auto
qed

theorem vxlan_roundtrip_witness:
  "\<exists>fr out r' c. runVXLAN demo_env (demo_flags True 40000) [SniffFrame fr, SniffFrame out] = Some (Inr ([Frame 3 fr], Some c)) \<and>
     handleVXLAN True (demo_agent 1) fr 0 = Some (Some out, r') \<and> ID (c_meta c) = ID demo_meta"
proof -
  obtain fr where fr: "runVXLAN demo_env (demo_flags True 40000) [] = Some (Inr ([Frame 3 fr], None))" using demo_runs(3) by blast
  have "newUUID demo_env = ID demo_meta" by (simp add: demo_env_def)
  with vxlan_roundtrip [OF demo_wf fr, of "v4InV6Prefix @ [10, 0, 0, 2]" "demo_agent 1" 0] demo_local show ?thesis by auto
qed

section \<open>A TCP session\<close>

lemma tcp_fields:
  "be16_at (TCP a b sp dp sq ak fl p) 0 = sp" "be16_at (TCP a b sp dp sq ak fl p) 2 = dp"
  "be16_at (TCP6 a b sp dp sq ak fl p) 0 = sp" "be16_at (TCP6 a b sp dp sq ak fl p) 2 = dp"
  "be32_at (TCP a b sp dp sq ak fl p) 4 = sq" "be32_at (TCP6 a b sp dp sq ak fl p) 4 = sq"
  by ((rule be16_atI | rule be32_atI), simp add: TCP_layout TCP6_layout tcp_front_def Let_def)+

definition tcp_seg :: "bool \<Rightarrow> bytes \<Rightarrow> bytes \<Rightarrow> u16 \<Rightarrow> u16 \<Rightarrow> u32 \<Rightarrow> u32 \<Rightarrow> byte \<Rightarrow> bytes \<Rightarrow> bytes" where
  "tcp_seg v6 a b sp dp sq ak fl p = (if v6 then TCP6 a b sp dp sq ak fl p else TCP a b sp dp sq ak fl p)"

lemma tcp_seg_fields [simp]:
  "be16_at (tcp_seg v6 a b sp dp sq ak fl p) 0 = sp" "be16_at (tcp_seg v6 a b sp dp sq ak fl p) 2 = dp"
  "be32_at (tcp_seg v6 a b sp dp sq ak fl p) 4 = sq" "tcp_seg v6 a b sp dp sq ak fl p ! 13 = fl"
  "payload_of 6 (tcp_seg v6 a b sp dp sq ak fl p) = Some p"
  by (simp_all add: tcp_seg_def tcp_fields)

lemma tcpL3_eq: "tcpL3 src dst sp dp sq ak fl p =
    wrapIP (isV6 dst) 6 (net_addr (isV6 dst) src) (net_addr (isV6 dst) dst) (tcp_seg (isV6 dst) src dst sp dp sq ak fl p)"
  by (simp add: tcpL3_def wrapIP_addr tcp_seg_def)

lemma mkTCP_seg: "mkTCP s d sp dp v6 sq ak fl p = wrapIP v6 6 d s (tcp_seg v6 d s dp sp sq ak fl p)"
  by (simp add: mkTCP_eq tcp_seg_def)

text \<open>A frame that carries a given TCP segment of the client.\<close>

definition carries :: "bytes \<Rightarrow> bool \<Rightarrow> bytes \<Rightarrow> bytes \<Rightarrow> bytes \<Rightarrow> bool" where
  "carries frame v6 s d t \<longleftrightarrow> length s = (if v6 then 16 else 4) \<and> length d = (if v6 then 16 else 4) \<and>
     (\<exists>l2. parseL2 frame = Some (Some l2) \<and> l2_l3 l2 = wrapIP v6 6 s d t \<and> l2_etherType l2 = ether v6)"

definition tcp_capture :: "bytes \<Rightarrow> Meta \<Rightarrow> bytes \<Rightarrow> u16 \<Rightarrow> u16 \<Rightarrow> u32 \<Rightarrow> byte \<Rightarrow> capture" where
  "tcp_capture s m p sp dp sq fl = capture0\<lparr>c_vni := 0, c_srcIP := ip_string s, c_proto := 6, c_meta := m,
     c_payload := p, c_srcPort := sp, c_dstPort := dp, c_tcpSeq := sq, c_tcpFlags := fl\<rparr>"

lemma tcp_capture_sel [simp]:
  "c_tcpSeq (tcp_capture s m p sp dp sq fl) = sq" "c_payload (tcp_capture s m p sp dp sq fl) = p"
  "c_proto (tcp_capture s m p sp dp sq fl) = 6" "c_dstPort (tcp_capture s m p sp dp sq fl) = dp"
  "c_tcpFlags (tcp_capture s m p sp dp sq fl) = fl" "c_meta (tcp_capture s m p sp dp sq fl) = m"
  by (simp_all add: tcp_capture_def)

lemma carries_capture:
  assumes "carries frame v6 s d (tcp_seg v6 a b sp dp sq ak fl p)" "Unmarshal p = Some (Inr m)"
  shows "parseMarked frame = Some (Some (tcp_capture s m p sp dp sq fl))"
proof -
  obtain l2 where l2: "parseL2 frame = Some (Some l2)" "l2_l3 l2 = wrapIP v6 6 s d (tcp_seg v6 a b sp dp sq ak fl p)"
      "l2_etherType l2 = ether v6" and len: "length s = (if v6 then 16 else 4)" "length d = (if v6 then 16 else 4)"
    using assms(1) by (auto simp: carries_def)
  have "parseMarked frame = Some (capture_of 0 (wrapIP v6 6 s d (tcp_seg v6 a b sp dp sq ak fl p)) (ether v6))"
    by (rule parseMarked_plain [OF l2 len]) simp
  then show ?thesis using capture_of_wrapIP [OF len _ assms(2), of 6 "tcp_seg v6 a b sp dp sq ak fl p"]
    by (simp add: Let_def tcp_capture_def)
qed

lemma carries_buildReply:
  assumes "parseL2 frame = Some (Some l2)" "l2_l3 l2 = wrapIP v6 6 s d t" "l2_etherType l2 = ether v6"
    and "length s = (if v6 then 16 else 4)" "length d = (if v6 then 16 else 4)" "isLocal r d"
  shows "buildReply r (l2_etherType l2) (l2_l3 l2) = buildTCPReply r s d t v6"
proof -
  have "net_view (ether v6) (wrapIP v6 6 s d t) = Some (0xF8, s, d, 6, t, v6)"
    using net_view_wrapIP [OF assms(4,5), of 6 t] by (simp add: ether_def)
  then show ?thesis using assms(2,3,6) by (simp add: buildReply_view buildReplyL4_eq)
qed

lemma tcp_frame_answer:
  assumes c: "carries frame v6 s d t" and loc: "isLocal r d"
    and b: "buildTCPReply r s d t v6 = Some (Some (mkTCP s d sp dp v6 sq ak fl echo), r1)"
  shows "\<exists>out r'. handleRegular True r frame aux = Some (Some out, r') \<and> r_flows r' = r_flows r1 \<and>
    r_config r' = r_config r1 \<and> carries out v6 d s (tcp_seg v6 d s dp sp sq ak fl echo)"
proof -
  obtain l2 where l2: "parseL2 frame = Some (Some l2)" "l2_l3 l2 = wrapIP v6 6 s d t" "l2_etherType l2 = ether v6"
    and len: "length s = (if v6 then 16 else 4)" "length d = (if v6 then 16 else 4)"
    using c by (auto simp: carries_def)
  let ?out = "frameL2 (l2_src l2) (l2_dst l2) (orVlan (l2_vlan l2) aux) (ether v6) (mkTCP s d sp dp v6 sq ak fl echo)"
  have "handleRegular True r frame aux = Some (Some ?out, r1\<lparr>mtr := (mtr r1)\<lparr>repliesSent := repliesSent (mtr r1) + 1\<rparr>\<rparr>)"
    using l2 b carries_buildReply [OF l2 len loc] by (simp add: handleRegular_def send_frameL2)
  moreover have "carries ?out v6 d s (tcp_seg v6 d s dp sp sq ak fl echo)"
    using parseL2_macs [OF l2(1)] len by (simp add: carries_def parseL2_reframe mkTCP_seg)
  ultimately show ?thesis by simp
qed

lemma tcp_frame_silent:
  assumes c: "carries frame v6 s d t" and loc: "isLocal r d" and b: "buildTCPReply r s d t v6 = Some (None, r1)"
  shows "handleRegular True r frame aux = Some (None, r1)"
proof -
  obtain l2 where l2: "parseL2 frame = Some (Some l2)" "l2_l3 l2 = wrapIP v6 6 s d t" "l2_etherType l2 = ether v6"
    and len: "length s = (if v6 then 16 else 4)" "length d = (if v6 then 16 else 4)"
    using c by (auto simp: carries_def)
  then show ?thesis using b carries_buildReply [OF l2 len loc] by (simp add: handleRegular_def)
qed

text \<open>A pure ACK is not answered and changes nothing.\<close>

lemma tcp_ack_silent:
  assumes "r_tcpRespond r" "probe_seg (r_hmacKey r) sp dp 0x10 t p"
  shows "buildTCPReply r s d t v6 = Some (None, r)"
  using assms by (simp add: probe_seg_def buildTCPReply_on Let_def)

lemma emit_any:
  assumes "emit e f dst l3 v6 = Inr (Frame idx frame)"
  shows "\<exists>frame'. emit e f dst l3' v6 = Inr (Frame idx frame')"
  using assms
  by (auto simp: emit_def sendIP_def sendL2_def Let_def split: option.splits if_splits prod.splits)

lemma emit_tcp:
  assumes "wf_env e" "emit e f dst l3 (isV6 dst) = Inr (Frame idx frame)"
  obtains fr where "emit e f dst (tcpL3 src dst sp dp sq ak fl p) (isV6 dst) = Inr (Frame idx fr)"
    "carries fr (isV6 dst) (net_addr (isV6 dst) src) (net_addr (isV6 dst) dst) (tcp_seg (isV6 dst) src dst sp dp sq ak fl p)"
proof -
  obtain fr where fr: "emit e f dst (tcpL3 src dst sp dp sq ak fl p) (isV6 dst) = Inr (Frame idx fr)"
    using emit_any [OF assms(2)] by blast
  show ?thesis
    by (rule emit_frame [OF fr], rule that [OF fr]) (simp add: carries_def tcpL3_eq)
qed

text \<open>The client's side of the dialogue, once addresses are resolved and the waits are answered.\<close>

lemma runTCP_eq:
  assumes "mustIP (f_dst f) = Inr dst" "srcIP e f dst = Inr src" "dport = (if f_dport f = 0 then 80 else f_dport f)"
    and f': "f' = f\<lparr>f_dport := dport\<rparr>" and p: "p = payload f (fst (newMeta e f))"
    and tx: "tx = (\<lambda>sq ak fl pl. emit e f' dst (tcpL3 src dst (of_int (f_sport f)) (of_int dport) sq ak fl pl) (isV6 dst))"
    and "tx clientISN 0 0x02 p = Inr s1" "startSniffer e = Inr ()"
  shows "runTCP e f True [] evs2 evs3 = Some (Inr ([s1], []))"
    and "recvMatch (newUUID e) (\<lambda>c. c_proto c = 6 \<and> c_dstPort c = of_int (f_sport f) \<and>
           c_tcpFlags c AND 0x02 \<noteq> 0 \<and> c_tcpFlags c AND 0x10 \<noteq> 0) evs1 = Some (Some c1) \<Longrightarrow>
         tx (clientISN + 1) (c_tcpSeq c1 + 1) 0x10 p = Inr s2 \<Longrightarrow>
         tx (clientISN + 1) (c_tcpSeq c1 + 1) 0x18 (p @ PING) = Inr s3 \<Longrightarrow>
         recvMatch (newUUID e) (\<lambda>c. c_proto c = 6 \<and> c_dstPort c = of_int (f_sport f) \<and> c_tcpFlags c AND 0x08 \<noteq> 0) evs2 = Some (Some c2) \<Longrightarrow>
         tx (clientISN + 1 + of_nat (length (p @ PING))) (c_tcpSeq c1 + 1) 0x11 p = Inr s4 \<Longrightarrow>
         recvMatch (newUUID e) (\<lambda>c. c_proto c = 6 \<and> c_dstPort c = of_int (f_sport f) \<and> c_tcpFlags c AND 0x01 \<noteq> 0) evs3 = Some (Some c3) \<Longrightarrow>
         runTCP e f True evs1 evs2 evs3 = Some (Inr ([s1, s2, s3, s4], [c1, c2, c3]))"
proof -
  have f: "(if f_dport f = 0 then f\<lparr>f_dport := 80\<rparr> else f) = f'" using assms(3) f' by simp
  have same: "payload f' (fst (newMeta e f')) = p" "srcIP e f' dst = Inr src" "snd (newMeta e f') = newUUID e"
    "f_dst f' = f_dst f" "f_sport f' = f_sport f" "f_dport f' = dport"
    using assms(2) by (auto simp: f' p payload_def newMeta_def srcIP_def split: if_splits)
  note eqs = runTCP_def f Let_def split_beta same assms(1,8) bindE_Inr
  show "runTCP e f True [] evs2 evs3 = Some (Inr ([s1], []))"
    using assms(7) unfolding eqs tx by simp
  show "runTCP e f True evs1 evs2 evs3 = Some (Inr ([s1, s2, s3, s4], [c1, c2, c3]))"
    if "recvMatch (newUUID e) (\<lambda>c. c_proto c = 6 \<and> c_dstPort c = of_int (f_sport f) \<and>
           c_tcpFlags c AND 0x02 \<noteq> 0 \<and> c_tcpFlags c AND 0x10 \<noteq> 0) evs1 = Some (Some c1)"
      "tx (clientISN + 1) (c_tcpSeq c1 + 1) 0x10 p = Inr s2"
      "tx (clientISN + 1) (c_tcpSeq c1 + 1) 0x18 (p @ PING) = Inr s3"
      "recvMatch (newUUID e) (\<lambda>c. c_proto c = 6 \<and> c_dstPort c = of_int (f_sport f) \<and> c_tcpFlags c AND 0x08 \<noteq> 0) evs2 = Some (Some c2)"
      "tx (clientISN + 1 + of_nat (length (p @ PING))) (c_tcpSeq c1 + 1) 0x11 p = Inr s4"
      "recvMatch (newUUID e) (\<lambda>c. c_proto c = 6 \<and> c_dstPort c = of_int (f_sport f) \<and> c_tcpFlags c AND 0x01 \<noteq> 0) evs3 = Some (Some c3)"
    using assms(7) that unfolding eqs tx by simp
qed

lemma runTCP_sent:
  assumes "runTCP e f withData [] [] [] = Some (Inr ([s1], []))" "dport = (if f_dport f = 0 then 80 else f_dport f)"
  obtains dst src where "mustIP (f_dst f) = Inr dst" "srcIP e f dst = Inr src" "startSniffer e = Inr ()"
    "emit e (f\<lparr>f_dport := dport\<rparr>) dst (tcpL3 src dst (of_int (f_sport f)) (of_int dport) clientISN 0 0x02
       (payload f (fst (newMeta e f)))) (isV6 dst) = Inr s1"
proof -
  let ?f = "f\<lparr>f_dport := dport\<rparr>"
  have f: "(if f_dport f = 0 then f\<lparr>f_dport := 80\<rparr> else f) = ?f" using assms(2) by simp
  show ?thesis
    using assms(1) that unfolding runTCP_def f Let_def
    by (auto elim!: bindE_InrE simp: split_beta payload_def newMeta_def srcIP_def cong: if_cong)
qed

lemma hit_tcp:
  assumes "carries frame v6 s d (tcp_seg v6 a b sp dp sq ak fl p)" "Unmarshal p = Some (Inr m)"
  shows "hit i (\<lambda>c. c_proto c = 6 \<and> c_dstPort c = port \<and> P (c_tcpFlags c)) (SniffFrame frame) =
    (if ID m = i \<and> dp = port \<and> P fl then Some (tcp_capture s m p sp dp sq fl) else None)"
  by (simp add: hit_def carries_capture [OF assms])

lemma r_configD:
  assumes "r_config r' = r_config r"
  shows "isLocal r' = isLocal r" "r_hmacKey r' = r_hmacKey r" "r_tcpRespond r' = r_tcpRespond r"
  using assms by (auto simp: r_config_def isLocal_def fun_eq_iff)

text \<open>The agent's side of the dialogue, frame by frame.\<close>

lemma agent_session:
  fixes r sp dp s d
  defines "isn \<equiv> serverISN s d sp dp" and "key \<equiv> r_hmacKey r"
  assumes R: "r_tcpRespond r" "isLocal r d"
    and c: "carries f1 v6 s d t1" "carries f2 v6 s d t2" "carries f3 v6 s d t3" "carries f4 v6 s d t4"
    and t: "probe_seg key sp dp 0x02 t1 p1" "probe_seg key sp dp 0x10 t2 p2"
      "probe_seg key sp dp 0x18 t3 p3" "probe_seg key sp dp 0x11 t4 p4"
  shows "\<exists>out1 r1 out3 r3 out4 r4 ak1 ak3 ak4. handleRegular True r f1 aux = Some (Some out1, r1) \<and>
    handleRegular True r1 f2 aux = Some (None, r1) \<and> handleRegular True r1 f3 aux = Some (Some out3, r3) \<and>
    handleRegular True r3 f4 aux = Some (Some out4, r4) \<and>
    carries out1 v6 d s (tcp_seg v6 d s dp sp isn ak1 0x12 (san key p1)) \<and>
    carries out3 v6 d s (tcp_seg v6 d s dp sp (isn + 1 + of_nat (length p1)) ak3 0x18 (san key p3)) \<and>
    carries out4 v6 d s (tcp_seg v6 d s dp sp (isn + 1 + of_nat (length p1) + of_nat (length p3)) ak4 0x11 (san key p4))"
proof -
  let ?n = "isn + 1 + of_nat (length p1)" and ?k = "flowKey s d sp dp"
  obtain out1 r1 where 1: "handleRegular True r f1 aux = Some (Some out1, r1)" "r_config r1 = r_config r"
      "r_flows r1 = mput (if 4096 < mlen (r_flows r) then [] else r_flows r) ?k \<lparr>serverNext = ?n\<rparr>"
      "carries out1 v6 d s (tcp_seg v6 d s dp sp isn (be32_at t1 4 + 1) 0x12 (san key p1))"
    using tcp_frame_answer [OF c(1) R(2) tcp_syn [OF R(1) t(1) [unfolded key_def]], of aux]
    unfolding isn_def key_def by auto
  note R1 = r_configD [OF 1(2)]
  have tr: "r_tcpRespond r1" "isLocal r1 d" "r_hmacKey r1 = key" using R R1 by (simp_all add: key_def)
  note t1 = t [folded tr(3)]
  have 2: "handleRegular True r1 f2 aux = Some (None, r1)"
    by (rule tcp_frame_silent [OF c(2) tr(2) tcp_ack_silent [OF tr(1) t1(2)]])
  have "mget (r_flows r1) ?k = Some \<lparr>serverNext = ?n\<rparr>" by (simp add: 1(3) gomap_simps)
  note td = tcp_data [OF tr(1) t1(3) this, of v6]
  obtain out3 r3 where 3: "handleRegular True r1 f3 aux = Some (Some out3, r3)" "r_config r3 = r_config r1"
      "r_flows r3 = mput (r_flows r1) ?k \<lparr>serverNext = ?n + of_nat (length p3)\<rparr>"
      "carries out3 v6 d s (tcp_seg v6 d s dp sp ?n (be32_at t3 4 + of_nat (length p3)) 0x18 (san key p3))"
    using tcp_frame_answer [OF c(3) tr(2) td, of aux] tr(3) by auto
  note R3 = r_configD [OF 3(2)]
  have tr3: "r_tcpRespond r3" "isLocal r3 d" "r_hmacKey r3 = key" using tr R3 by simp_all
  have "mget (r_flows r3) ?k = Some \<lparr>serverNext = ?n + of_nat (length p3)\<rparr>" by (simp add: 3(3) gomap_simps)
  note tf = tcp_fin [OF tr3(1) t(4) [folded tr3(3)] this, of v6]
  obtain out4 r4 where 4: "handleRegular True r3 f4 aux = Some (Some out4, r4)"
      "carries out4 v6 d s (tcp_seg v6 d s dp sp (?n + of_nat (length p3)) (be32_at t4 4 + of_nat (length p4) + 1) 0x11 (san key p4))"
    using tcp_frame_answer [OF c(4) tr3(2) tf, of aux] tr3(3) by auto
  from 1(1,4) 2 3(1,4) 4 show ?thesis by blast
qed

text \<open>Waiting while the client's own segments (to port \<open>dp\<close>) pass by, then the answer (to port \<open>sp\<close>).\<close>

definition own_seg :: "bool \<Rightarrow> bytes \<Rightarrow> bytes \<Rightarrow> u16 \<Rightarrow> u16 \<Rightarrow> bytes \<Rightarrow> bool" where
  "own_seg v6 s d sp dp fr \<longleftrightarrow>
     (\<exists>a b q ak fl x m. carries fr v6 s d (tcp_seg v6 a b sp dp q ak fl x) \<and> Unmarshal x = Some (Inr m))"

lemma own_segI:
  "carries fr v6 s d (tcp_seg v6 a b sp dp q ak fl x) \<Longrightarrow> Unmarshal x = Some (Inr m) \<Longrightarrow> own_seg v6 s d sp dp fr"
  unfolding own_seg_def by blast

lemma recv_answer:
  assumes own: "\<forall>fr \<in> set frs. own_seg v6 s d sp dp fr"
    and out: "carries out v6 d s (tcp_seg v6 a b dp sp sq ak fl p)" "Unmarshal p = Some (Inr m)"
    and "dp \<noteq> sp" "ID m = i" "P fl"
  shows "recvMatch i (\<lambda>c. c_proto c = 6 \<and> c_dstPort c = sp \<and> P (c_tcpFlags c)) (map SniffFrame frs @ [SniffFrame out]) =
    Some (Some (tcp_capture d m p dp sp sq fl))"
  using own
proof (induction frs)
  case Nil
  then show ?case using assms by (simp add: recvMatch_eq hit_tcp [OF out])
next
  case (Cons fr frs)
  then obtain a b q ak fl x m' where fr: "carries fr v6 s d (tcp_seg v6 a b sp dp q ak fl x)" "Unmarshal x = Some (Inr m')"
    by (auto simp: own_seg_def)
  have "hit i (\<lambda>c. c_proto c = 6 \<and> c_dstPort c = sp \<and> P (c_tcpFlags c)) (SniffFrame fr) = None"
    using \<open>dp \<noteq> sp\<close> by (simp add: hit_tcp [OF fr])
  with Cons show ?case by (simp add: recvMatch_eq)
qed

text \<open>
  C10: A TCP session completes. When the client's TCP sub-command has sent its SYN asking for a
  response, an agent with the same key that answers TCP for the destination answers the SYN, lets the ACK
  pass without reply, echoes the data and answers the FIN; the client, seeing its own segments and
  these answers on the wire, sends exactly these four segments and accepts exactly the three
  answers, whose sequence numbers are contiguous: the data reply starts one (the SYN) plus the
  echoed payload after the SYN/ACK, the FIN/ACK right after the data reply.
\<close>

theorem tcp_session:
  assumes "wf_env e" "runTCP e f True [] [] [] = Some (Inr ([Frame idx fr1], []))" "f_response f" "\<not> f_deliver f"
    and "ParseIP (f_dst f) = Some dst" "isLocal r dst" "r_hmacKey r = f_hmacKey f" "r_tcpRespond r"
    and "dport = (if f_dport f = 0 then 80 else f_dport f)" "(of_int dport :: u16) \<noteq> of_int (f_sport f)"
  shows "\<exists>out1 r1 fr2 r2 fr3 out3 r3 fr4 out4 r4 c1 c2 c3.
     handleRegular True r fr1 aux = Some (Some out1, r1) \<and> handleRegular True r1 fr2 aux = Some (None, r2) \<and>
     handleRegular True r2 fr3 aux = Some (Some out3, r3) \<and> handleRegular True r3 fr4 aux = Some (Some out4, r4) \<and>
     runTCP e f True [SniffFrame fr1, SniffFrame out1] [SniffFrame fr2, SniffFrame fr3, SniffFrame out3]
         [SniffFrame fr4, SniffFrame out4] =
       Some (Inr ([Frame idx fr1, Frame idx fr2, Frame idx fr3, Frame idx fr4], [c1, c2, c3])) \<and>
     c_tcpSeq c2 = c_tcpSeq c1 + 1 + of_nat (length (c_payload c1)) \<and>
     c_tcpSeq c3 = c_tcpSeq c2 + of_nat (length (c_payload c2))"
  using assms(2,9)
proof (rule runTCP_sent)
  fix dst' src
  let ?f = "f\<lparr>f_dport := dport\<rparr>" and ?p = "payload f (fst (newMeta e f))" and ?m = "fst (newMeta e f)"
  let ?sp = "of_int (f_sport f) :: u16" and ?dp = "of_int dport :: u16"
  assume ip: "mustIP (f_dst f) = Inr dst'" "srcIP e f dst' = Inr src" and sn: "startSniffer e = Inr ()"
    and em: "emit e ?f dst' (tcpL3 src dst' ?sp ?dp clientISN 0 0x02 ?p) (isV6 dst') = Inr (Frame idx fr1)"
  then have dst: "dst' = dst" using assms(5) by (simp add: mustIP_Inr)
  let ?v6 = "isV6 dst"
  let ?s = "net_addr ?v6 src" and ?d = "net_addr ?v6 dst" and ?key = "r_hmacKey r"
  have len: "length dst = 4 \<or> length dst = 16" using ParseIP_length [OF assms(5)] by simp
  have loc: "isLocal r ?d" using isLocal_net_addr [OF len] assms(6) by simp
  note pp = probe_payload [OF assms(1,3,4,7)]
  note pp0 = pp [of "[]", unfolded append_Nil2]
  have seg: "probe_seg ?key ?sp ?dp fl (tcp_seg ?v6 src dst ?sp ?dp sq ak fl q) q" if "q = ?p \<or> q = ?p @ PING" for sq ak fl q
    using that pp0 pp [of PING] by (auto simp: probe_seg_def)
  note em = em [unfolded dst]
  let ?isn = "serverISN ?s ?d ?sp ?dp"
  obtain fr1' where "emit e ?f dst (tcpL3 src dst ?sp ?dp clientISN 0 0x02 ?p) ?v6 = Inr (Frame idx fr1')"
      "carries fr1' ?v6 ?s ?d (tcp_seg ?v6 src dst ?sp ?dp clientISN 0 0x02 ?p)"
    using emit_tcp [OF assms(1) em] by blast
  then have c1: "carries fr1 ?v6 ?s ?d (tcp_seg ?v6 src dst ?sp ?dp clientISN 0 0x02 ?p)" using em by simp
  obtain fr2 where e2: "emit e ?f dst (tcpL3 src dst ?sp ?dp (clientISN + 1) (?isn + 1) 0x10 ?p) ?v6 = Inr (Frame idx fr2)"
      and c2: "carries fr2 ?v6 ?s ?d (tcp_seg ?v6 src dst ?sp ?dp (clientISN + 1) (?isn + 1) 0x10 ?p)"
    using emit_tcp [OF assms(1) em] by blast
  obtain fr3 where e3: "emit e ?f dst (tcpL3 src dst ?sp ?dp (clientISN + 1) (?isn + 1) 0x18 (?p @ PING)) ?v6 = Inr (Frame idx fr3)"
      and c3: "carries fr3 ?v6 ?s ?d (tcp_seg ?v6 src dst ?sp ?dp (clientISN + 1) (?isn + 1) 0x18 (?p @ PING))"
    using emit_tcp [OF assms(1) em] by blast
  obtain fr4 where e4: "emit e ?f dst (tcpL3 src dst ?sp ?dp (clientISN + 1 + of_nat (length (?p @ PING))) (?isn + 1) 0x11 ?p) ?v6 = Inr (Frame idx fr4)"
      and c4: "carries fr4 ?v6 ?s ?d (tcp_seg ?v6 src dst ?sp ?dp (clientISN + 1 + of_nat (length (?p @ PING))) (?isn + 1) 0x11 ?p)"
    using emit_tcp [OF assms(1) em] by blast
  obtain out1 r1 out3 r3 out4 r4 ak1 ak3 ak4 where
      h: "handleRegular True r fr1 aux = Some (Some out1, r1)" "handleRegular True r1 fr2 aux = Some (None, r1)"
        "handleRegular True r1 fr3 aux = Some (Some out3, r3)" "handleRegular True r3 fr4 aux = Some (Some out4, r4)"
      and o1: "carries out1 ?v6 ?d ?s (tcp_seg ?v6 ?d ?s ?dp ?sp ?isn ak1 0x12 (san ?key ?p))"
      and o3: "carries out3 ?v6 ?d ?s (tcp_seg ?v6 ?d ?s ?dp ?sp (?isn + 1 + of_nat (length ?p)) ak3 0x18 (san ?key (?p @ PING)))"
      and o4: "carries out4 ?v6 ?d ?s (tcp_seg ?v6 ?d ?s ?dp ?sp (?isn + 1 + of_nat (length ?p) + of_nat (length (?p @ PING))) ak4 0x11 (san ?key ?p))"
    using agent_session [OF assms(8) loc c1 c2 c3 c4 seg seg seg seg, of aux] by auto
  note u = Unmarshal_san [OF pp0(3), of ?key] Unmarshal_san [OF pp(3) [of PING], of ?key]
  note own = own_segI [OF c1 pp0(3)] own_segI [OF c2 pp0(3)] own_segI [OF c3 pp(3)] own_segI [OF c4 pp0(3)]
  note w1 = recv_answer [where frs = "[fr1]" and P = "\<lambda>fl. fl AND 0x02 \<noteq> 0 \<and> fl AND 0x10 \<noteq> 0" and i = "newUUID e", OF _ o1 u(1) assms(10)]
  note w2 = recv_answer [where frs = "[fr2, fr3]" and P = "\<lambda>fl. fl AND 0x08 \<noteq> 0" and i = "newUUID e", OF _ o3 u(2) assms(10)]
  note w3 = recv_answer [where frs = "[fr4]" and P = "\<lambda>fl. fl AND 0x01 \<noteq> 0" and i = "newUUID e", OF _ o4 u(1) assms(10)]
  let ?c = "\<lambda>p sq fl. tcp_capture ?d (?m\<lparr>Deliver := False, NeedResponse := False\<rparr>) (san ?key p) ?dp ?sp sq fl"
  let ?n = "?isn + 1 + of_nat (length ?p)"
  have "runTCP e f True [SniffFrame fr1, SniffFrame out1] [SniffFrame fr2, SniffFrame fr3, SniffFrame out3]
      [SniffFrame fr4, SniffFrame out4] = Some (Inr ([Frame idx fr1, Frame idx fr2, Frame idx fr3, Frame idx fr4],
      [?c ?p ?isn 0x12, ?c (?p @ PING) ?n 0x18, ?c ?p (?n + of_nat (length (?p @ PING))) 0x11]))"
    by (rule runTCP_eq(2) [OF ip [unfolded dst] assms(9) refl refl refl em sn])
      (use w1 w2 w3 own e2 e3 e4 in \<open>simp_all add: newMeta_fields\<close>)
  with h show ?thesis
    by (intro exI conjI) (assumption+, simp_all)
qed

theorem tcp_session_witness:
  "\<exists>fr1 out1 r1 fr2 r2. handleRegular True (demo_agent 0) fr1 0 = Some (Some out1, r1) \<and>
     handleRegular True r1 fr2 0 = Some (None, r2)"
proof -
  obtain fr where fr: "runTCP demo_env (demo_flags True 40000) True [] [] [] = Some (Inr ([Frame 3 fr], []))" using demo_runs(4) by blast
  from tcp_session [OF demo_wf fr, of "v4InV6Prefix @ [10, 0, 0, 2]" "demo_agent 0" 80 0] demo_local
  obtain out1 r1 fr2 r2 where "handleRegular True (demo_agent 0) fr 0 = Some (Some out1, r1)"
      "handleRegular True r1 fr2 0 = Some (None, r2)" by auto
  then show ?thesis by blast
qed

text \<open>
  Without \<^verbatim>\<open>--response\<close> the TCP sub-commands cannot complete a handshake with an agent. The SYN they
  send then does not ask for a response, and no agent answers it, whatever its configuration; the
  sub-commands nevertheless wait for a SYN/ACK.
\<close>

theorem htcp_needs_response:
  assumes "wf_env e" "runTCP e f withData [] [] [] = Some (Inr ([Frame idx fr1], []))" "\<not> f_response f"
  shows "\<exists>r'. handleRegular ok r fr1 aux = Some (None, r')"
  using assms(2) refl
proof (rule runTCP_sent)
  fix dst src
  let ?p = "payload f (fst (newMeta e f))" and ?dp = "if f_dport f = 0 then 80 else f_dport f"
  assume em: "emit e (f\<lparr>f_dport := ?dp\<rparr>) dst (tcpL3 src dst (of_int (f_sport f)) (of_int ?dp) clientISN 0 0x02 ?p) (isV6 dst) =
    Inr (Frame idx fr1)"
  let ?v6 = "isV6 dst"
  let ?t = "tcp_seg ?v6 src dst (of_int (f_sport f)) (of_int ?dp) clientISN 0 0x02 ?p"
  obtain l2 where l2: "parseL2 fr1 = Some (Some l2)" "l2_etherType l2 = ether ?v6"
      "l2_l3 l2 = wrapIP ?v6 6 (net_addr ?v6 src) (net_addr ?v6 dst) ?t"
    by (rule emit_frame [OF em]) (simp add: tcpL3_eq)
  have wf: "wf_meta (fst (newMeta e f))" using assms(1) by (simp add: wf_meta_def wf_env_def newMeta_fields)
  have "\<not> asks ?p"
    using Unmarshal_Signed [OF wf, of "f_hmacKey f" "[]"] assms(3) by (simp add: payload_def asks_def newMeta_fields)
  then have "\<not> warrants r (l2_etherType l2) (l2_l3 l2)"
    using net_view_wrapIP [of "net_addr ?v6 src" ?v6 "net_addr ?v6 dst" 6 ?t]
    by (auto simp: warrants_def warrantsL4_def l2 ether_def)
  moreover obtain rep r' where b: "buildReply r (l2_etherType l2) (l2_l3 l2) = Some (rep, r')"
    using buildReply_total by fastforce
  ultimately have "rep = None" using buildReply_iff [OF b] by simp
  with b l2(1) show ?thesis by (simp add: handleRegular_def)
qed

theorem htcp_needs_response_witness:
  "\<exists>fr r'. handleRegular True (demo_agent 0) fr 0 = Some (None, r') \<and>
     runTCP demo_env (demo_flags False 40000) False [] [] [] = Some (Inr ([Frame 3 fr], []))"
proof -
  obtain fr where fr: "runTCP demo_env (demo_flags False 40000) False [] [] [] = Some (Inr ([Frame 3 fr], []))" using demo_runs(4) by blast
  from htcp_needs_response [OF demo_wf fr, of True "demo_agent 0" 0] fr show ?thesis by auto
qed

end
