(* ===== verification/Attach.thy ===== *)
theory Attach
  imports Go_Prelude "HOL-Library.Multiset"
begin

text \<open>
  Attaching the eBPF programs to an interface (\<^verbatim>\<open>agent/attach.go\<close>): XDP native or generic, TCX, and the
  classic clsact filters as fallback. The kernel's answers are the record \<open>attach_env\<close>; its
  networking state, as far as the agent changes it, is \<open>knet\<close>. The detach closures the Go functions
  return are lists of \<open>release\<close> actions. The interface \<open>attacher\<close> states what the watchers rely on:
  attaching is all or nothing, and detaching gives back exactly what was attached.
\<close>

section \<open>Errors\<close>

datatype kerr = KNotSupported | KENOSYS | KEINVAL | KOther nat

datatype goerror = Errno kerr | Wrapf string goerror

fun errorsIs :: "goerror \<Rightarrow> kerr \<Rightarrow> bool" where
  "errorsIs (Errno e) t = (e = t)"
| "errorsIs (Wrapf msg e) t = errorsIs e t"

definition tcxUnsupported :: "goerror \<Rightarrow> bool" where
  "tcxUnsupported e \<longleftrightarrow> errorsIs e KNotSupported \<or> errorsIs e KENOSYS \<or> errorsIs e KEINVAL"

section \<open>Kernel state and answers\<close>

datatype prog = TraceflowXdp | TraceflowIngress | TraceflowEgress

datatype direction = Ingress | Egress

text \<open>What may be attached to an interface: an XDP link (native or generic mode), a TCX link, a filter
  below the clsact qdisc. Links are objects of their own; a filter is identified by interface and
  parent (handle and priority are fixed), and replacing it is idempotent.\<close>

datatype hook = XDPLink int bool prog | TCXLink int direction prog | Filter int direction prog

fun hook_if :: "hook \<Rightarrow> int" where
  "hook_if (XDPLink i g p) = i"
| "hook_if (TCXLink i d p) = i"
| "hook_if (Filter i d p) = i"

record knet =
  links :: "hook list"
  filters :: "(int \<times> direction, prog) gomap"
  qdiscs :: "int list"

record attach_env =
  forceClsact :: bool
  kAttachXDP :: "int \<Rightarrow> bool \<Rightarrow> kerr option"
  kAttachTCX :: "int \<Rightarrow> direction \<Rightarrow> kerr option"
  kQdiscReplace :: "int \<Rightarrow> kerr option"
  kFilterReplace :: "int \<Rightarrow> direction \<Rightarrow> kerr option"
  kFilterDel :: "int \<Rightarrow> direction \<Rightarrow> kerr option"

datatype release = CloseLink hook | DelFilter int direction

definition closeLink :: "hook \<Rightarrow> knet \<Rightarrow> knet" where
  "closeLink h k = k\<lparr>links := remove1 h (links k)\<rparr>"

definition openLink :: "hook \<Rightarrow> knet \<Rightarrow> knet" where
  "openLink h k = k\<lparr>links := h # links k\<rparr>"

section \<open>Filters\<close>

definition ensureClsact :: "attach_env \<Rightarrow> knet \<Rightarrow> int \<Rightarrow> goerror option \<times> knet" where
  "ensureClsact e k i =
     (case kQdiscReplace e i of
        Some x \<Rightarrow> (Some (Errno x), k)
      | None \<Rightarrow> (None, k\<lparr>qdiscs := (if i \<in> set (qdiscs k) then qdiscs k else i # qdiscs k)\<rparr>))"

definition addBPFFilter :: "attach_env \<Rightarrow> knet \<Rightarrow> int \<Rightarrow> direction \<Rightarrow> prog \<Rightarrow> goerror option \<times> knet" where
  "addBPFFilter e k i parent p =
     (case kFilterReplace e i parent of
        Some x \<Rightarrow> (Some (Errno x), k)
      | None \<Rightarrow> (None, k\<lparr>filters := mput (filters k) (i, parent) p\<rparr>))"

definition delBPFFilter :: "attach_env \<Rightarrow> knet \<Rightarrow> int \<Rightarrow> direction \<Rightarrow> knet" where
  "delBPFFilter e k i parent =
     (case kFilterDel e i parent of
        Some x \<Rightarrow> k
      | None \<Rightarrow> k\<lparr>filters := mdel (filters k) (i, parent)\<rparr>)"

fun run_detach :: "attach_env \<Rightarrow> knet \<Rightarrow> release list \<Rightarrow> knet" where
  "run_detach e k [] = k"
| "run_detach e k (CloseLink h # rs) = run_detach e (closeLink h k) rs"
| "run_detach e k (DelFilter i d # rs) = run_detach e (delBPFFilter e k i d) rs"

section \<open>Attaching\<close>

definition attachClsactEgress :: "attach_env \<Rightarrow> knet \<Rightarrow> int \<Rightarrow> (goerror + release list) \<times> knet" where
  "attachClsactEgress e k i =
     (case ensureClsact e k i of
        (Some x, k) \<Rightarrow> (Inl (Wrapf ''ensure clsact'' x), k)
      | (None, k) \<Rightarrow>
          (case addBPFFilter e k i Egress TraceflowEgress of
             (Some x, k) \<Rightarrow> (Inl (Wrapf ''add egress filter'' x), k)
           | (None, k) \<Rightarrow> (Inr [DelFilter i Egress], k)))"

definition attachEgressProg :: "attach_env \<Rightarrow> knet \<Rightarrow> int \<Rightarrow> (goerror + release list) \<times> knet" where
  "attachEgressProg e k i =
     (if forceClsact e then attachClsactEgress e k i
      else case kAttachTCX e i Egress of
        None \<Rightarrow> (let h = TCXLink i Egress TraceflowEgress in (Inr [CloseLink h], openLink h k))
      | Some x \<Rightarrow>
          if \<not> tcxUnsupported (Errno x) then (Inl (Wrapf ''attach tcx egress'' (Errno x)), k)
          else attachClsactEgress e k i)"

definition attachXDP :: "attach_env \<Rightarrow> knet \<Rightarrow> int \<Rightarrow> bool \<Rightarrow> (goerror + release list) \<times> knet" where
  "attachXDP e k i tcEgress =
     (case (case kAttachXDP e i False of
              None \<Rightarrow> Inr False
            | Some x \<Rightarrow> (case kAttachXDP e i True of None \<Rightarrow> Inr True | Some y \<Rightarrow> Inl y)) of
        Inl y \<Rightarrow> (Inl (Wrapf ''attach xdp'' (Errno y)), k)
      | Inr generic \<Rightarrow>
          let l = XDPLink i generic TraceflowXdp; k = openLink l k in
          if \<not> tcEgress then (Inr [CloseLink l], k)
          else (case attachEgressProg e k i of
                  (Inl x, k) \<Rightarrow> (Inl (Wrapf ''attach tc egress alongside xdp'' x), closeLink l k)
                | (Inr d, k) \<Rightarrow> (Inr (d @ [CloseLink l]), k)))"

definition attachTCX :: "attach_env \<Rightarrow> knet \<Rightarrow> int \<Rightarrow> (goerror + release list) \<times> knet" where
  "attachTCX e k i =
     (case kAttachTCX e i Ingress of
        Some x \<Rightarrow> (Inl (Wrapf ''attach tcx ingress'' (Errno x)), k)
      | None \<Rightarrow>
          let ingress = TCXLink i Ingress TraceflowIngress; k = openLink ingress k in
          (case kAttachTCX e i Egress of
             Some x \<Rightarrow> (Inl (Wrapf ''attach tcx egress'' (Errno x)), closeLink ingress k)
           | None \<Rightarrow>
               let egress = TCXLink i Egress TraceflowEgress in
               (Inr [CloseLink egress, CloseLink ingress], openLink egress k)))"

definition attachClsact :: "attach_env \<Rightarrow> knet \<Rightarrow> int \<Rightarrow> (goerror + release list) \<times> knet" where
  "attachClsact e k i =
     (case ensureClsact e k i of
        (Some x, k) \<Rightarrow> (Inl (Wrapf ''ensure clsact'' x), k)
      | (None, k) \<Rightarrow>
          (case addBPFFilter e k i Ingress TraceflowIngress of
             (Some x, k) \<Rightarrow> (Inl (Wrapf ''add ingress filter'' x), k)
           | (None, k) \<Rightarrow>
               (case addBPFFilter e k i Egress TraceflowEgress of
                  (Some x, k) \<Rightarrow> (Inl (Wrapf ''add egress filter'' x), delBPFFilter e k i Ingress)
                | (None, k) \<Rightarrow> (Inr [DelFilter i Egress, DelFilter i Ingress], k))))"

definition attachProg :: "attach_env \<Rightarrow> knet \<Rightarrow> int \<Rightarrow> (goerror + release list) \<times> knet" where
  "attachProg e k i =
     (if forceClsact e then attachClsact e k i
      else case attachTCX e k i of
        (Inr detach, k) \<Rightarrow> (Inr detach, k)
      | (Inl x, k) \<Rightarrow> if \<not> tcxUnsupported x then (Inl x, k) else attachClsact e k i)"

definition attachIface :: "attach_env \<Rightarrow> knet \<Rightarrow> int \<Rightarrow> bool \<Rightarrow> bool \<Rightarrow> (goerror + release list) \<times> knet" where
  "attachIface e k i xdp tcEgress = (if xdp then attachXDP e k i tcEgress else attachProg e k i)"

section \<open>What is held\<close>

definition filter_hooks :: "(int \<times> direction, prog) gomap \<Rightarrow> hook list" where
  "filter_hooks m = map (\<lambda>((i, d), p). Filter i d p) m"

definition hooks :: "knet \<Rightarrow> hook multiset" where
  "hooks k = mset (links k) + mset (filter_hooks (filters k))"

definition dir_prog :: "direction \<Rightarrow> prog" where
  "dir_prog d = (case d of Ingress \<Rightarrow> TraceflowIngress | Egress \<Rightarrow> TraceflowEgress)"

fun held :: "release \<Rightarrow> hook" where
  "held (CloseLink h) = h"
| "held (DelFilter i d) = Filter i d (dir_prog d)"

definition owned :: "release list \<Rightarrow> hook multiset" where
  "owned rs = mset (map held rs)"

text \<open>Only links are closed as links, and filters are unique per interface and direction.\<close>

fun is_tc_filter :: "hook \<Rightarrow> bool" where
  "is_tc_filter (Filter i d p) = True"
| "is_tc_filter h = False"

definition wf_knet :: "knet \<Rightarrow> bool" where
  "wf_knet k \<longleftrightarrow> mwf (filters k) \<and> (\<forall>h \<in> set (links k). \<not> is_tc_filter h)"

fun wf_release :: "release \<Rightarrow> bool" where
  "wf_release (CloseLink h) = (\<not> is_tc_filter h)"
| "wf_release (DelFilter i d) = True"

definition free_on :: "knet \<Rightarrow> int \<Rightarrow> bool" where
  "free_on k i \<longleftrightarrow> (\<forall>h \<in># hooks k. hook_if h \<noteq> i)"

text \<open>Sums over the values of a map.\<close>

lemma sum_vals_put:
  "mget m n = None \<Longrightarrow> sum_list (map (f \<circ> snd) (mput m n d)) = sum_list (map (f \<circ> snd) m) + (f d :: 'a::comm_monoid_add)"
  by (induction m) (auto simp: mput_def mget_def add.assoc split: if_splits)

lemma mset_mdel: "mwf m \<Longrightarrow> mget m n = Some d \<Longrightarrow> mset (mdel m n) = mset m - {#(n, d)#}"
proof (induction m)
  case (Cons x m)
  obtain a b where x: "x = (a, b)" by (cases x)
  show ?case
  proof (cases "a = n")
    case True
    then have "mdel m n = m" using Cons.prems x by (auto simp: mwf_def mdel_def delete_id)
    then show ?thesis using Cons.prems x True by (simp add: mget_def mdel_def)
  next
    case False
    then show ?thesis using Cons x by (auto simp: mget_def mdel_def mwf_def)
  qed
qed (simp add: mget_def)

lemma sum_vals_del:
  assumes "mwf m" "mget m n = Some d"
  shows "sum_list (map (f \<circ> snd) m) = sum_list (map (f \<circ> snd) (mdel m n)) + (f d :: 'a::comm_monoid_add)"
proof -
  have "(n, d) \<in># mset m" using assms(2) by (auto simp: mget_def dest: map_of_SomeD)
  then have "mset m = add_mset (n, d) (mset (mdel m n))" by (simp add: mset_mdel [OF assms])
  then have "image_mset (f \<circ> snd) (mset m) = add_mset (f d) (image_mset (f \<circ> snd) (mset (mdel m n)))" by simp
  then show ?thesis by (simp add: sum_mset_sum_list [symmetric] add.commute)
qed

lemma set_mset_sum_list_map: "h \<in># sum_list (map f xs) \<longleftrightarrow> (\<exists>x \<in> set xs. h \<in># f x)"
  by (induction xs) auto

text \<open>An interface as the clients of this file see it: a resource of type \<open>'k\<close>, a multiset of hooks held
  in it, attaching to a free interface and releasing what an attachment owns.\<close>

locale attacher =
  fixes attach :: "'e \<Rightarrow> 'k \<Rightarrow> int \<Rightarrow> ('x + 'd) \<times> 'k"
    and detach :: "'e \<Rightarrow> 'k \<Rightarrow> 'd \<Rightarrow> 'k"
    and res :: "'k \<Rightarrow> 'h multiset"
    and own :: "'d \<Rightarrow> 'h multiset"
    and on :: "'h \<Rightarrow> int"
    and wf :: "'k \<Rightarrow> bool"
    and good :: "'e \<Rightarrow> bool"
    and ok :: "'d \<Rightarrow> bool"
  assumes attach_wf: "attach e k i = (r, k') \<Longrightarrow> wf k \<Longrightarrow> \<forall>h \<in># res k. on h \<noteq> i \<Longrightarrow> wf k'"
    and attach_fail: "attach e k i = (Inl x, k') \<Longrightarrow> wf k \<Longrightarrow> good e \<Longrightarrow> \<forall>h \<in># res k. on h \<noteq> i \<Longrightarrow> res k' = res k"
    and attach_ok: "attach e k i = (Inr d, k') \<Longrightarrow> wf k \<Longrightarrow> \<forall>h \<in># res k. on h \<noteq> i \<Longrightarrow>
      res k' = res k + own d \<and> ok d \<and> (\<forall>h \<in># own d. on h = i)"
    and detach_wf: "wf k \<Longrightarrow> wf (detach e k d)"
    and detach_res: "wf k \<Longrightarrow> good e \<Longrightarrow> ok d \<Longrightarrow> own d \<subseteq># res k \<Longrightarrow> res (detach e k d) = res k - own d"
begin

text \<open>A table of attachments, keyed by anything, whose entries carry a detach closure \<open>g\<close>: the ledger of
  what is held.\<close>

definition ledger :: "('a \<Rightarrow> 'd) \<Rightarrow> 'h multiset \<Rightarrow> ('key, 'a) gomap \<Rightarrow> 'k \<Rightarrow> bool" where
  "ledger g base m k \<longleftrightarrow> mwf m \<and> wf k \<and> res k = base + sum_list (map ((own \<circ> g) \<circ> snd) m) \<and> (\<forall>a \<in> snd ` set m. ok (g a))"

lemma ledger_empty: "wf k \<Longrightarrow> ledger g (res k) [] k"
  by (simp add: ledger_def gomap_simps)

lemma ledger_attach:
  assumes "ledger g base m k" "attach e k i = (Inr d, k')" "\<forall>h \<in># res k. on h \<noteq> i" "mget m n = None" "g a = d"
  shows "ledger g base (mput m n a) k'" "\<forall>h \<in># own d. on h = i"
proof -
  note a = attach_ok [OF assms(2) _ assms(3)]
  have "snd ` set (mput m n a) \<subseteq> insert a (snd ` set m)"
    by (induction m) (auto simp: mput_def)
  moreover have "\<forall>x \<in> snd ` set m. ok (g x)" "ok (g a)" using assms(1,5) a by (simp_all add: ledger_def)
  ultimately have "\<forall>x \<in> snd ` set (mput m n a). ok (g x)" by blast
  then show "ledger g base (mput m n a) k'"
    using assms a attach_wf [OF assms(2) _ assms(3)] by (auto simp: ledger_def gomap_simps sum_vals_put add.assoc)
  show "\<forall>h \<in># own d. on h = i" using assms(1) a by (simp add: ledger_def)
qed

lemma ledger_failed:
  assumes "ledger g base m k" "attach e k i = (Inl x, k')" "\<forall>h \<in># res k. on h \<noteq> i" "good e"
  shows "ledger g base m k'"
  using assms attach_fail [OF assms(2)] attach_wf [OF assms(2) _ assms(3)] by (simp add: ledger_def)

lemma ledger_detach:
  assumes "ledger g base m k" "mget m n = Some a" "good e"
  shows "ledger g base (mdel m n) (detach e k (g a))"
proof -
  have m: "mwf m" "wf k" "res k = base + sum_list (map ((own \<circ> g) \<circ> snd) m)" "\<forall>a \<in> snd ` set m. ok (g a)"
    using assms(1) by (simp_all add: ledger_def)
  note s = sum_vals_del [OF m(1) assms(2), of "own \<circ> g"]
  have "a \<in> snd ` set m" using assms(2) by (force simp: mget_def dest: map_of_SomeD)
  moreover have "own (g a) \<subseteq># res k" using s m(3) by simp
  ultimately have "res (detach e k (g a)) = res k - own (g a)" using m(2,4) assms(3) by (blast intro: detach_res)
  moreover have "snd ` set (mdel m n) \<subseteq> snd ` set m" by (auto simp: mdel_def AList.delete_eq)
  then have "\<forall>a \<in> snd ` set (mdel m n). ok (g a)" using m(4) by blast
  moreover have "res k - own (g a) = base + sum_list (map ((own \<circ> g) \<circ> snd) (mdel m n))" using m(3) s by simp
  ultimately show ?thesis using m(1,2) detach_wf by (simp add: ledger_def gomap_simps)
qed

text \<open>An interface is free when neither the rest of the world nor an entry of the table is on it.\<close>

lemma ledger_free:
  assumes "ledger g base m k" "\<forall>h \<in># base. on h \<noteq> i" "\<And>n a h. mget m n = Some a \<Longrightarrow> h \<in># own (g a) \<Longrightarrow> on h \<noteq> i"
  shows "\<forall>h \<in># res k. on h \<noteq> i"
proof -
  have "\<exists>n. mget m n = Some a" if "a \<in> snd ` set m" for a
    using that assms(1) by (force simp: ledger_def mwf_def mget_def)
  then have "on h \<noteq> i" if "a \<in> snd ` set m" "h \<in># own (g a)" for a h using that assms(3) by blast
  then show ?thesis using assms(1,2) by (auto simp: ledger_def set_mset_sum_list_map)
qed

end

section \<open>The kernel is such an interface\<close>

definition good_env :: "attach_env \<Rightarrow> bool" where
  "good_env e \<longleftrightarrow> (\<forall>i d. kFilterDel e i d = None)"

lemma filter_hooks_iff: "mwf m \<Longrightarrow> Filter i d p \<in> set (filter_hooks m) \<longleftrightarrow> mget m (i, d) = Some p"
  by (auto simp: filter_hooks_def mget_def mwf_def image_iff intro!: bexI)

lemma filter_hooks_put: "mget m (i, d) = None \<Longrightarrow> filter_hooks (mput m (i, d) p) = filter_hooks m @ [Filter i d p]"
  by (induction m) (auto simp: filter_hooks_def mget_def mput_def split: if_splits)

lemma filter_hooks_del:
  "mwf m \<Longrightarrow> mget m (i, d) = Some p \<Longrightarrow> mset (filter_hooks (mdel m (i, d))) = mset (filter_hooks m) - {#Filter i d p#}"
proof -
  assume m: "mwf m" "mget m (i, d) = Some p"
  then have "((i, d), p) \<in># mset m" by (auto simp: mget_def dest: map_of_SomeD)
  with mset_mdel [OF m] show ?thesis by (simp add: filter_hooks_def image_mset_Diff)
qed

lemma filter_hooks_filter: "h \<in> set (filter_hooks m) \<Longrightarrow> is_tc_filter h"
  by (auto simp: filter_hooks_def)

lemma hooks_open: "hooks (openLink h k) = add_mset h (hooks k)"
  by (simp add: hooks_def openLink_def)

lemma hooks_close: "\<not> is_tc_filter h \<Longrightarrow> hooks (closeLink h k) = hooks k - {#h#}"
proof -
  assume "\<not> is_tc_filter h"
  then have "h \<notin> set (filter_hooks (filters k))" using filter_hooks_filter by blast
  then have "h \<notin># mset (links k) + mset (filter_hooks (filters k))" if "h \<notin> set (links k)" using that by simp
  then show ?thesis
    by (cases "h \<in> set (links k)") (simp_all add: hooks_def closeLink_def diff_single_trivial remove1_idem)
qed

lemma hooks_del:
  assumes "wf_knet k" "Filter i d p \<in># hooks k" "kFilterDel e i d = None"
  shows "hooks (delBPFFilter e k i d) = hooks k - {#Filter i d p#}"
proof -
  have "Filter i d p \<in> set (filter_hooks (filters k))"
    using assms(1,2) by (auto simp: wf_knet_def hooks_def)
  moreover from this have "mget (filters k) (i, d) = Some p"
    using assms(1) by (simp add: wf_knet_def filter_hooks_iff)
  ultimately show ?thesis
    using assms by (simp add: delBPFFilter_def hooks_def wf_knet_def filter_hooks_del)
qed

lemma wf_knet_steps:
  "wf_knet k \<Longrightarrow> wf_knet (delBPFFilter e k i d)"
  "wf_knet k \<Longrightarrow> wf_knet (closeLink h k)"
  "wf_knet k \<Longrightarrow> \<not> is_tc_filter h \<Longrightarrow> wf_knet (openLink h k)"
  by (auto simp: wf_knet_def delBPFFilter_def closeLink_def openLink_def gomap_simps
      dest: notin_set_remove1 set_remove1_subset [THEN subsetD] split: option.split)

lemma run_detach_wf: "wf_knet k \<Longrightarrow> wf_knet (run_detach e k rs)"
  by (induction e k rs rule: run_detach.induct) (auto intro: wf_knet_steps)

lemma run_detach_hooks:
  "wf_knet k \<Longrightarrow> good_env e \<Longrightarrow> \<forall>r \<in> set rs. wf_release r \<Longrightarrow> owned rs \<subseteq># hooks k \<Longrightarrow>
     hooks (run_detach e k rs) = hooks k - owned rs"
proof (induction e k rs rule: run_detach.induct)
  case (2 e k h rs)
  have "hooks (closeLink h k) = hooks k - {#h#}" using "2.prems" by (simp add: hooks_close)
  then show ?case using 2 wf_knet_steps(2) by (simp add: owned_def insert_subset_eq_iff)
next
  case (3 e k i d rs)
  have "Filter i d (dir_prog d) \<in># hooks k" using "3.prems" by (simp add: owned_def insert_subset_eq_iff)
  then have "hooks (delBPFFilter e k i d) = hooks k - {#Filter i d (dir_prog d)#}"
    using "3.prems" by (simp add: hooks_del good_env_def)
  then show ?case using 3 wf_knet_steps(1) by (simp add: owned_def insert_subset_eq_iff)
qed (simp add: owned_def)

text \<open>The result of attaching to an interface, for every function of the file.\<close>

definition attach_spec :: "attach_env \<Rightarrow> knet \<Rightarrow> int \<Rightarrow> (goerror + release list) \<times> knet \<Rightarrow> bool" where
  "attach_spec e k i out = (case out of (r, k') \<Rightarrow> wf_knet k' \<and>
     (case r of Inl x \<Rightarrow> good_env e \<longrightarrow> hooks k' = hooks k
      | Inr d \<Rightarrow> hooks k' = hooks k + owned d \<and> (\<forall>r \<in> set d. wf_release r) \<and> (\<forall>h \<in># owned d. hook_if h = i)))"

lemma ensureClsact_cases:
  assumes "wf_knet k"
  obtains x where "ensureClsact e k i = (Some x, k)"
  | k' where "ensureClsact e k i = (None, k')" "wf_knet k'" "hooks k' = hooks k" "filters k' = filters k"
  using assms that by (cases "kQdiscReplace e i") (auto simp: ensureClsact_def wf_knet_def hooks_def)

lemma addBPFFilter_cases:
  assumes "wf_knet k" "mget (filters k) (i, d) = None"
  obtains x where "addBPFFilter e k i d p = (Some x, k)"
  | k' where "addBPFFilter e k i d p = (None, k')" "wf_knet k'" "hooks k' = add_mset (Filter i d p) (hooks k)"
      "\<And>d'. d' \<noteq> d \<Longrightarrow> mget (filters k') (i, d') = mget (filters k) (i, d')"
  using assms that
  by (cases "kFilterReplace e i d") (auto simp: addBPFFilter_def wf_knet_def hooks_def filter_hooks_put gomap_simps)

lemma attachClsactEgress_spec:
  assumes "wf_knet k" "mget (filters k) (i, Egress) = None"
  shows "attach_spec e k i (attachClsactEgress e k i)"
  using assms(1)
proof (cases rule: ensureClsact_cases [where e = e and i = i])
  case (2 k1)
  then have "mget (filters k1) (i, Egress) = None" using assms(2) by simp
  from \<open>wf_knet k1\<close> this 2 assms(1) show ?thesis
    by (cases rule: addBPFFilter_cases [where e = e and p = TraceflowEgress])
      (auto simp: attach_spec_def attachClsactEgress_def owned_def dir_prog_def)
qed (use assms in \<open>simp add: attach_spec_def attachClsactEgress_def\<close>)

lemma attachEgressProg_spec:
  assumes "wf_knet k" "mget (filters k) (i, Egress) = None"
  shows "attach_spec e k i (attachEgressProg e k i)"
  using assms attachClsactEgress_spec [OF assms]
  by (auto simp: attachEgressProg_def Let_def attach_spec_def hooks_open wf_knet_steps owned_def split: option.split)

lemma attachXDP_spec:
  assumes "wf_knet k" "mget (filters k) (i, Egress) = None"
  shows "attach_spec e k i (attachXDP e k i tcEgress)"
proof -
  have step: "attach_spec e k i (let l = XDPLink i g TraceflowXdp; k = openLink l k in
          if \<not> tcEgress then (Inr [CloseLink l], k)
          else (case attachEgressProg e k i of
                  (Inl x, k) \<Rightarrow> (Inl (Wrapf ''attach tc egress alongside xdp'' x), closeLink l k)
                | (Inr d, k) \<Rightarrow> (Inr (d @ [CloseLink l]), k)))" for g
  proof -
    let ?k = "openLink (XDPLink i g TraceflowXdp) k"
    obtain r k' where r: "attachEgressProg e ?k i = (r, k')" by fastforce
    have "wf_knet ?k" "mget (filters ?k) (i, Egress) = None"
      using assms by (simp_all add: wf_knet_steps) (simp add: openLink_def)
    from attachEgressProg_spec [OF this, of e] have "attach_spec e ?k i (r, k')" using r by simp
    then show ?thesis using assms r
      by (cases r) (auto simp: attach_spec_def Let_def wf_knet_steps hooks_open hooks_close owned_def)
  qed
  then show ?thesis using assms by (auto simp: attachXDP_def attach_spec_def split: option.split sum.split)
qed

lemma attachTCX_spec: "wf_knet k \<Longrightarrow> attach_spec e k i (attachTCX e k i)"
  by (auto simp: attach_spec_def attachTCX_def Let_def wf_knet_steps hooks_open hooks_close owned_def split: option.split)

lemma attachTCX_failed: "attachTCX e k i = (Inl x, k') \<Longrightarrow> k' = k"
  by (auto simp: attachTCX_def Let_def openLink_def closeLink_def split: option.splits)

lemma attachClsact_spec:
  assumes "wf_knet k" "\<And>d. mget (filters k) (i, d) = None"
  shows "attach_spec e k i (attachClsact e k i)"
  using assms(1)
proof (cases rule: ensureClsact_cases [where e = e and i = i])
  case (2 k1)
  then have f1: "mget (filters k1) (i, d) = None" for d using assms(2) by simp
  from \<open>wf_knet k1\<close> f1 show ?thesis
  proof (cases rule: addBPFFilter_cases [where e = e and p = TraceflowIngress and d = Ingress])
    case (1 x)
    then show ?thesis using 2 by (simp add: attach_spec_def attachClsact_def)
  next
    case in2: (2 k2)
    then have "mget (filters k2) (i, Egress) = None" using f1 by simp
    from \<open>wf_knet k2\<close> this show ?thesis
    proof (cases rule: addBPFFilter_cases [where e = e and p = TraceflowEgress])
      case (1 x)
      have "hooks (delBPFFilter e k2 i Ingress) = hooks k" if "good_env e"
        using hooks_del [of k2 i Ingress TraceflowIngress e] in2 2 that by (simp add: good_env_def)
      then show ?thesis using 1 2 in2 wf_knet_steps(1) by (simp add: attach_spec_def attachClsact_def)
    next
      case (2 k3)
      then show ?thesis using \<open>hooks k1 = hooks k\<close> \<open>ensureClsact e k i = (None, k1)\<close> in2
        by (auto simp: attach_spec_def attachClsact_def owned_def dir_prog_def)
    qed
  qed
qed (use assms in \<open>simp add: attach_spec_def attachClsact_def\<close>)

lemma attachIface_spec:
  assumes "wf_knet k" "\<And>d. mget (filters k) (i, d) = None"
  shows "attach_spec e k i (attachIface e k i xdp tcEgress)"
proof -
  have "attach_spec e k i (attachProg e k i)"
    using attachTCX_spec [OF assms(1), of e i] attachClsact_spec [OF assms, of e] attachTCX_failed [of e k i]
    by (auto simp: attachProg_def split: prod.split sum.split)
  then show ?thesis using attachXDP_spec [OF assms, of e tcEgress] by (simp add: attachIface_def)
qed

lemma free_on_filters: "wf_knet k \<Longrightarrow> free_on k i \<Longrightarrow> mget (filters k) (i, d) = None"
proof (rule ccontr)
  assume k: "wf_knet k" "free_on k i" and "mget (filters k) (i, d) \<noteq> None"
  then obtain p where "Filter i d p \<in> set (filter_hooks (filters k))"
    by (auto simp: wf_knet_def filter_hooks_iff)
  then have "Filter i d p \<in># hooks k" by (simp add: hooks_def)
  with k(2) show False by (auto simp: free_on_def)
qed

interpretation kern: attacher "\<lambda>(e, xdp, eg) k i. attachIface e k i xdp eg" "\<lambda>(e, xdp, eg). run_detach e"
  hooks owned hook_if wf_knet "\<lambda>(e, xdp, eg). good_env e" "\<lambda>rs. \<forall>r \<in> set rs. wf_release r"
proof -
  have spec: "attach_spec e k i (attachIface e k i xdp eg)" if "wf_knet k" "\<forall>h \<in># hooks k. hook_if h \<noteq> i" for e k i xdp eg
    using attachIface_spec [OF that(1) free_on_filters] that by (simp add: free_on_def)
  show "attacher (\<lambda>(e, xdp, eg) k i. attachIface e k i xdp eg) (\<lambda>(e, xdp, eg). run_detach e)
    hooks owned hook_if wf_knet (\<lambda>(e, xdp, eg). good_env e) (\<lambda>rs. \<forall>r \<in> set rs. wf_release r)"
  proof (unfold_locales, goal_cases)
    case (1 e k i r k')
    obtain a b c where e: "e = (a, b, c)" by (cases e)
    show ?case using spec [OF 1(2,3), of a b c] 1(1) e by (simp add: attach_spec_def)
  next
    case (2 e k i x k')
    obtain a b c where e: "e = (a, b, c)" by (cases e)
    show ?case using spec [OF 2(2,4), of a b c] 2(1,3) e by (simp add: attach_spec_def)
  next
    case (3 e k i d k')
    obtain a b c where e: "e = (a, b, c)" by (cases e)
    show ?case using spec [OF 3(2,3), of a b c] 3(1) e by (simp add: attach_spec_def)
  next
    case (4 k e d)
    then show ?case by (cases e) (simp add: run_detach_wf)
  next
    case (5 k e d)
    then show ?case by (cases e) (simp add: run_detach_hooks)
  qed
qed

text \<open>The laws of the ledger, for the kernel.\<close>

lemma kern_attached:
  assumes "kern.ledger g base m k" "attachIface e k i xdp eg = (Inr d, k')" "\<forall>h \<in># hooks k. hook_if h \<noteq> i"
    and "mget m n = None" "g a = d"
  shows "kern.ledger g base (mput m n a) k'" "\<forall>h \<in># owned d. hook_if h = i"
  by (rule kern.ledger_attach [where e = "(e, xdp, eg)", OF assms(1) _ assms(3-5)], use assms(2) in simp)+

lemma kern_failed:
  assumes "kern.ledger g base m k" "attachIface e k i xdp eg = (Inl x, k')" "\<forall>h \<in># hooks k. hook_if h \<noteq> i" "good_env e"
  shows "kern.ledger g base m k'"
  by (rule kern.ledger_failed [where e = "(e, xdp, eg)", OF assms(1) _ assms(3)]) (use assms(2,4) in simp_all)

lemma kern_detached:
  assumes "kern.ledger g base m k" "mget m n = Some a" "good_env e"
  shows "kern.ledger g base (mdel m n) (run_detach e k (g a))"
  using kern.ledger_detach [where e = "(e, False, False)", OF assms(1,2)] assms(3) by simp

section \<open>Properties\<close>

lemma attachClsactEgress_owned:
  "attachClsactEgress e k i = (Inr d, k') \<Longrightarrow> owned d = {#Filter i Egress TraceflowEgress#}"
  by (auto simp: attachClsactEgress_def owned_def dir_prog_def split: prod.splits option.splits)

lemma attachEgressProg_owned:
  "attachEgressProg e k i = (Inr d, k') \<Longrightarrow>
     owned d = {#(if \<not> forceClsact e \<and> kAttachTCX e i Egress = None then TCXLink else Filter) i Egress TraceflowEgress#}"
  by (auto simp: attachEgressProg_def Let_def owned_def split: if_splits option.splits dest: attachClsactEgress_owned)

lemma attachClsact_owned:
  "attachClsact e k i = (Inr d, k') \<Longrightarrow> owned d = {#Filter i Ingress TraceflowIngress, Filter i Egress TraceflowEgress#}"
  by (auto simp: attachClsact_def owned_def dir_prog_def split: prod.splits option.splits)

lemma attachTCX_result:
  "attachTCX e k i = (Inr d, k') \<Longrightarrow> kAttachTCX e i Ingress = None \<and> kAttachTCX e i Egress = None \<and>
     owned d = {#TCXLink i Ingress TraceflowIngress, TCXLink i Egress TraceflowEgress#}"
  "attachTCX e k i = (Inl x, k') \<Longrightarrow> \<not> (kAttachTCX e i Ingress = None \<and> kAttachTCX e i Egress = None)"
  by (auto simp: attachTCX_def Let_def owned_def split: option.splits)

text \<open>When the kernel takes everything, attaching succeeds.\<close>

definition accepts :: "attach_env \<Rightarrow> int \<Rightarrow> bool" where
  "accepts e i \<longleftrightarrow> kAttachXDP e i True = None \<and> (\<forall>d. kAttachTCX e i d = None) \<and> kQdiscReplace e i = None \<and>
     (\<forall>d. kFilterReplace e i d = None)"

lemma attachIface_accepts: "accepts e i \<Longrightarrow> \<exists>d k'. attachIface e k i xdp eg = (Inr d, k')"
  by (auto simp: accepts_def attachIface_def attachXDP_def attachEgressProg_def attachClsactEgress_def attachProg_def
      attachTCX_def attachClsact_def ensureClsact_def addBPFFilter_def Let_def split: option.split)

text \<open>What an attachment owns, by mode and by the kernel's answers.\<close>

definition expected_hooks :: "attach_env \<Rightarrow> int \<Rightarrow> bool \<Rightarrow> bool \<Rightarrow> hook multiset" where
  "expected_hooks e i xdp tcEgress =
     (if xdp then
        {#XDPLink i (kAttachXDP e i False \<noteq> None) TraceflowXdp#} +
        (if tcEgress then
           {#(if \<not> forceClsact e \<and> kAttachTCX e i Egress = None then TCXLink else Filter) i Egress TraceflowEgress#}
         else {#})
      else
        let mk = (if \<not> forceClsact e \<and> kAttachTCX e i Ingress = None \<and> kAttachTCX e i Egress = None then TCXLink else Filter)
        in {#mk i Ingress TraceflowIngress, mk i Egress TraceflowEgress#})"

lemma attachIface_owned:
  assumes "attachIface e k i xdp tcEgress = (Inr d, k')"
  shows "owned d = expected_hooks e i xdp tcEgress"
proof (cases xdp)
  case True
  then show ?thesis
    using assms attachEgressProg_owned [of e _ i]
    by (fastforce simp: attachIface_def attachXDP_def expected_hooks_def owned_def Let_def
        split: option.splits sum.splits prod.splits if_splits)
next
  case False
  then show ?thesis
    using assms attachTCX_result [of e k i] attachClsact_owned [of e _ i]
    by (fastforce simp: attachIface_def attachProg_def expected_hooks_def Let_def
        split: sum.splits prod.splits if_splits)
qed

text \<open>
  C19: Attaching is all or nothing. On an interface that carries none of the agent's hooks, attaching
  either fails and leaves every link and filter of the kernel as it was, or succeeds and adds exactly
  the hooks of the chosen mode: with XDP the XDP program (in native mode when the driver takes it,
  else generic) and, if asked for, the egress program; otherwise the ingress and the egress program,
  both as TCX links when the kernel has TCX, else both as clsact filters. Running the returned
  closure removes exactly these again.
\<close>

theorem attach_atomic:
  assumes "wf_knet k" "free_on k i" "good_env e" "attachIface e k i xdp tcEgress = (r, k')"
  shows "case r of Inl x \<Rightarrow> hooks k' = hooks k
     | Inr d \<Rightarrow> hooks k' = hooks k + expected_hooks e i xdp tcEgress \<and> hooks (run_detach e k' d) = hooks k"
proof (cases r)
  case (Inl x)
  then show ?thesis
    using kern.attach_fail [of "(e, xdp, tcEgress)" k i x k'] assms by (simp add: free_on_def)
next
  case (Inr d)
  note a = kern.attach_ok [of "(e, xdp, tcEgress)" k i d k'] kern.attach_wf [of "(e, xdp, tcEgress)" k i r k']
    kern.detach_res [of k' "(e, xdp, tcEgress)" d]
  show ?thesis
    using a Inr assms attachIface_owned [of e k i xdp tcEgress d k'] by (simp add: free_on_def)
qed

definition demo_kernel :: attach_env where
  "demo_kernel = \<lparr>forceClsact = False, kAttachXDP = (\<lambda>i g. None), kAttachTCX = (\<lambda>i d. if i = 7 then Some KEINVAL else None),
     kQdiscReplace = (\<lambda>i. None), kFilterReplace = (\<lambda>i d. None), kFilterDel = (\<lambda>i d. None)\<rparr>"

definition knet0 :: knet where
  "knet0 = \<lparr>links = [], filters = [], qdiscs = []\<rparr>"

theorem attach_atomic_witness:
  "hooks (snd (attachIface demo_kernel knet0 7 False False)) =
     {#Filter 7 Ingress TraceflowIngress, Filter 7 Egress TraceflowEgress#}"
proof -
  have r: "attachIface demo_kernel knet0 7 False False =
    (Inr [DelFilter 7 Egress, DelFilter 7 Ingress], snd (attachIface demo_kernel knet0 7 False False))"
    by code_simp
  have k: "wf_knet knet0" "free_on knet0 7" "good_env demo_kernel" "hooks knet0 = {#}"
    by (simp_all add: wf_knet_def knet0_def mwf_def free_on_def hooks_def filter_hooks_def good_env_def demo_kernel_def)
  from attach_atomic [OF k(1-3) r] show ?thesis by (simp add: k(4) expected_hooks_def demo_kernel_def)
qed

end
