(* ===== verification/Observation.thy ===== *)
theory Observation
  imports Tfmeta Net_IP "HOL-Library.Char_ord" "HOL-Library.List_Lexorder" "HOL-Library.Product_Lexorder"
begin

text \<open>
  Package \<^verbatim>\<open>internal/observation\<close>: the 88-byte ring-buffer record of the eBPF program, its decoder, and
  the enriched record the agent prints and ships. The text form of a run id comes from a third-party
  package and is the parameter \<open>uuidString\<close>; the interface table of the host is the parameter
  \<open>byIndex\<close>. The global cache of interface names is passed explicitly.
\<close>

section \<open>Time\<close>

text \<open>What the source uses of \<^verbatim>\<open>time.Time\<close>: an instant (seconds and nanoseconds of Unix time), the
  offset of its location from UTC in seconds, \<^verbatim>\<open>UnixNano\<close> and \<^verbatim>\<open>Format(time.RFC3339Nano)\<close>.\<close>

record gotime =
  unixSec :: int
  nsec :: nat
  zoneOffset :: int

definition UnixNano :: "gotime \<Rightarrow> u64" where
  "UnixNano t = of_int (unixSec t) * 1000000000 + of_nat (nsec t)"

text \<open>Days since 1970-01-01 to year, month and day of the proleptic Gregorian calendar.\<close>

definition civil :: "int \<Rightarrow> int \<times> nat \<times> nat" where
  "civil days =
     (let z = days + 719468;
          era = z div 146097;
          doe = z mod 146097;
          yoe = (doe - doe div 1460 + doe div 36524 - doe div 146096) div 365;
          doy = doe - (365 * yoe + yoe div 4 - yoe div 100);
          mp = (5 * doy + 2) div 153;
          d = doy - (153 * mp + 2) div 5 + 1;
          mon = (if mp < 10 then mp + 3 else mp - 9)
      in (yoe + era * 400 + (if mon \<le> 2 then 1 else 0), nat mon, nat d))"

definition zpad :: "nat \<Rightarrow> nat \<Rightarrow> string" where
  "zpad w n = (let s = dec_string n in replicate (w - length s) (CHR ''0'') @ s)"

definition year_string :: "int \<Rightarrow> string" where
  "year_string y = (if y < 0 then ''-'' else []) @ zpad 4 (nat \<bar>y\<bar>)"

text \<open>The fraction of a second: nine digits with trailing zeros removed, nothing when zero.\<close>

definition frac_string :: "nat \<Rightarrow> string" where
  "frac_string ns = (let ds = rev (dropWhile (\<lambda>c. c = CHR ''0'') (rev (zpad 9 ns)))
     in if ds = [] then [] else CHR ''.'' # ds)"

definition zone_string :: "int \<Rightarrow> string" where
  "zone_string off =
     (if off = 0 then ''Z''
      else let z = nat (\<bar>off\<bar> div 60)
           in (if off \<le> - 60 then ''-'' else ''+'') @ zpad 2 (z div 60) @ '':'' @ zpad 2 (z mod 60))"

definition RFC3339Nano :: "gotime \<Rightarrow> string" where
  "RFC3339Nano t =
     (let loc = unixSec t + zoneOffset t;
          s = nat (loc mod 86400)
      in case civil (loc div 86400) of (y, mon, d) \<Rightarrow>
           year_string y @ ''-'' @ zpad 2 mon @ ''-'' @ zpad 2 d @ ''T'' @
           zpad 2 (s div 3600) @ '':'' @ zpad 2 (s div 60 mod 60) @ '':'' @ zpad 2 (s mod 60) @
           frac_string (nsec t) @ zone_string (zoneOffset t))"

section \<open>Records\<close>

record Raw =
  raw_MetaTimestamp :: u64
  raw_CaptureNS :: u64
  raw_ID :: bytes
  raw_SrcIP :: bytes
  raw_DstIP :: bytes
  raw_VNI :: u32
  raw_IfIndex :: u32
  raw_SrcPort :: u16
  raw_DstPort :: u16
  raw_VLANID :: u16
  raw_IPVersion :: byte
  raw_Hop :: byte
  raw_Direction :: byte
  raw_Action :: byte
  raw_Protocol :: byte
  raw_TCPFlags :: byte
  raw_IfaceType :: byte

record Observation =
  o_ID :: string
  o_NodeID :: string
  o_Hop :: byte
  o_Direction :: string
  o_VNI :: u32
  o_VLAN :: u16
  o_Action :: string
  o_Protocol :: string
  o_IPVersion :: byte
  o_IfIndex :: u32
  o_Iface :: string
  o_LogicalSwitch :: string
  o_AZ :: string
  o_SrcIP :: string
  o_DstIP :: string
  o_SrcPort :: u16
  o_DstPort :: u16
  o_TCPFlags :: string
  o_IfaceType :: string
  o_Timestamp :: string
  o_CaptureNS :: u64
  o_LatencyNS :: u64
  o_ClockSkew :: bool

section \<open>Decoding\<close>

text \<open>\<^verbatim>\<open>binary.Read\<close> wants all 88 bytes: an empty record is end of file, a short one an unexpected end;
  bytes after the 88 are left unread.\<close>

datatype parse_error = EOF | UnexpectedEOF

definition Parse :: "bytes \<Rightarrow> parse_error + Raw" where
  "Parse record =
     (if record = [] then Inl EOF
      else if length record < 88 then Inl UnexpectedEOF
      else Inr \<lparr>raw_MetaTimestamp = le_val (take 8 record),
                raw_CaptureNS = le_val (take 8 (drop 8 record)),
                raw_ID = take 16 (drop 16 record),
                raw_SrcIP = take 16 (drop 32 record),
                raw_DstIP = take 16 (drop 48 record),
                raw_VNI = le_val (take 4 (drop 64 record)),
                raw_IfIndex = le_val (take 4 (drop 68 record)),
                raw_SrcPort = le_val (take 2 (drop 72 record)),
                raw_DstPort = le_val (take 2 (drop 74 record)),
                raw_VLANID = le_val (take 2 (drop 76 record)),
                raw_IPVersion = record ! 78,
                raw_Hop = record ! 79,
                raw_Direction = record ! 80,
                raw_Action = record ! 81,
                raw_Protocol = record ! 82,
                raw_TCPFlags = record ! 83,
                raw_IfaceType = record ! 84\<rparr>)"

text \<open>The bytes of \<^verbatim>\<open>struct observation\<close> (\<^verbatim>\<open>bpf/traceflow.h\<close>) that the eBPF program submits, on a
  little-endian host.\<close>

definition observation_bytes :: "Raw \<Rightarrow> bytes" where
  "observation_bytes r =
     le_bytes 8 (raw_MetaTimestamp r) @ le_bytes 8 (raw_CaptureNS r) @ raw_ID r @ raw_SrcIP r @ raw_DstIP r @
     le_bytes 4 (raw_VNI r) @ le_bytes 4 (raw_IfIndex r) @
     le_bytes 2 (raw_SrcPort r) @ le_bytes 2 (raw_DstPort r) @ le_bytes 2 (raw_VLANID r) @
     [raw_IPVersion r, raw_Hop r, raw_Direction r, raw_Action r, raw_Protocol r, raw_TCPFlags r,
      raw_IfaceType r, 0, 0, 0]"

definition wf_raw :: "Raw \<Rightarrow> bool" where
  "wf_raw r \<longleftrightarrow> length (raw_ID r) = 16 \<and> length (raw_SrcIP r) = 16 \<and> length (raw_DstIP r) = 16"

section \<open>Text of the fields\<close>

definition protoICMP :: byte where [simp]: "protoICMP = 1"
definition protoTCP :: byte where [simp]: "protoTCP = 6"
definition protoUDP :: byte where [simp]: "protoUDP = 17"
definition protoICMPv6 :: byte where [simp]: "protoICMPv6 = 58"

definition isICMP :: "byte \<Rightarrow> bool" where
  "isICMP p \<longleftrightarrow> p = protoICMP \<or> p = protoICMPv6"

definition directionString :: "byte \<Rightarrow> string" where
  "directionString d = (if d = 1 then ''EGRESS'' else ''INGRESS'')"

definition actionString :: "byte \<Rightarrow> string" where
  "actionString a = (if a = 1 then ''INTERCEPTED'' else ''FORWARDED'')"

definition protocolString :: "byte \<Rightarrow> string" where
  "protocolString p =
     (if p = protoICMP then ''ICMP''
      else if p = protoICMPv6 then ''ICMPv6''
      else if p = protoTCP then ''TCP''
      else if p = protoUDP then ''UDP''
      else ''PROTO('' @ dec_string (unat p) @ '')'')"

definition ifaceString :: "byte \<Rightarrow> string" where
  "ifaceString t = (if t = 1 then ''VXLAN'' else ''REGULAR'')"

definition ipString :: "byte \<Rightarrow> bytes \<Rightarrow> string" where
  "ipString version b = (if version = 6 then ip_string b else ip_string (take 4 b))"

definition tcpFlagNames :: "(byte \<times> string) list" where
  "tcpFlagNames = [(0x01, ''FIN''), (0x02, ''SYN''), (0x04, ''RST''), (0x08, ''PSH''), (0x10, ''ACK''), (0x20, ''URG'')]"

definition tcpFlagsString :: "byte \<Rightarrow> string" where
  "tcpFlagsString f =
     (let set_names = foldl (\<lambda>acc (bit, name). if f AND bit \<noteq> 0 then acc @ [name] else acc) [] tcpFlagNames
      in if length set_names = 0 then [] else join ''|'' set_names)"

section \<open>Enrichment\<close>

definition ifName :: "(u32 \<Rightarrow> string option) \<Rightarrow> (u32, string) gomap \<Rightarrow> u32 \<Rightarrow> string \<times> (u32, string) gomap" where
  "ifName byIndex cache idx =
     (if idx = 0 then ([], cache)
      else case mget cache idx of
        Some n \<Rightarrow> (n, cache)
      | None \<Rightarrow>
          let name = (case byIndex idx of Some n \<Rightarrow> n | None \<Rightarrow> [])
          in (name, mput cache idx name))"

definition Enrich ::
  "(bytes \<Rightarrow> string) \<Rightarrow> (u32 \<Rightarrow> string option) \<Rightarrow> (u32, string) gomap \<Rightarrow> Raw \<Rightarrow> string \<Rightarrow> gotime \<Rightarrow>
     Observation \<times> (u32, string) gomap" where
  "Enrich uuidString byIndex cache r nodeID now =
     (let (name, cache) = ifName byIndex cache (raw_IfIndex r);
          ob = \<lparr>o_ID = uuidString (raw_ID r), o_NodeID = nodeID, o_Hop = raw_Hop r,
               o_Direction = directionString (raw_Direction r), o_VNI = raw_VNI r, o_VLAN = raw_VLANID r,
               o_Action = actionString (raw_Action r), o_Protocol = protocolString (raw_Protocol r),
               o_IPVersion = raw_IPVersion r, o_IfIndex = raw_IfIndex r, o_Iface = name,
               o_LogicalSwitch = [], o_AZ = [],
               o_SrcIP = ipString (raw_IPVersion r) (raw_SrcIP r),
               o_DstIP = ipString (raw_IPVersion r) (raw_DstIP r),
               o_SrcPort = 0, o_DstPort = 0, o_TCPFlags = [],
               o_IfaceType = ifaceString (raw_IfaceType r), o_Timestamp = RFC3339Nano now,
               o_CaptureNS = raw_CaptureNS r, o_LatencyNS = 0, o_ClockSkew = False\<rparr>;
          ob = (if \<not> isICMP (raw_Protocol r)
               then ob\<lparr>o_SrcPort := raw_SrcPort r, o_DstPort := raw_DstPort r\<rparr> else ob);
          ob = (if raw_Protocol r = protoTCP then ob\<lparr>o_TCPFlags := tcpFlagsString (raw_TCPFlags r)\<rparr> else ob);
          ob = (if raw_MetaTimestamp r \<noteq> 0 then
                 let lat = UnixNano now - raw_MetaTimestamp r;
                     ob = (if lat <s 0 then ob\<lparr>o_ClockSkew := True\<rparr> else ob);
                     lat = (if lat <s 0 then 0 else lat)
                 in ob\<lparr>o_LatencyNS := lat\<rparr>
               else ob)
      in (ob, cache))"

section \<open>Lemmas\<close>

lemma length_observation_bytes: "wf_raw r \<Longrightarrow> length (observation_bytes r) = 88"
  by (simp add: observation_bytes_def wf_raw_def)

lemma Parse_observation_bytes: "wf_raw r \<Longrightarrow> Parse (observation_bytes r @ rest) = Inr r"
  unfolding Parse_def observation_bytes_def
  by (simp add: wf_raw_def nth_append le_val_le_bytes)

definition decode_raw :: "bytes \<Rightarrow> Raw option" where
  "decode_raw b = (case Parse b of Inr r \<Rightarrow> Some r | Inl _ \<Rightarrow> None)"

interpretation rawc: codec observation_bytes decode_raw 88 wf_raw
  by unfold_locales (simp_all add: decode_raw_def Parse_observation_bytes length_observation_bytes)

lemma Parse_wf: "Parse b = Inr r \<Longrightarrow> wf_raw r"
  by (auto simp: Parse_def wf_raw_def split: if_splits)

lemma tcpFlagsString_low6: "tcpFlagsString f = tcpFlagsString (f AND 0x3F)"
  by (simp add: tcpFlagsString_def tcpFlagNames_def and.assoc)

lemma word_low6_cases: "\<exists>n < 64. (f :: byte) AND 0x3F = of_nat n"
proof -
  have "f AND 0x3F = take_bit 6 f" by (simp add: take_bit_eq_mask mask_eq_exp_minus_1)
  then have "unat (f AND 0x3F) < 64" by (simp add: unsigned_take_bit_eq take_bit_nat_def)
  then show ?thesis by (intro exI [of _ "unat (f AND 0x3F)"]) simp
qed

lemma tcpFlagsString_distinct: "distinct (map (tcpFlagsString \<circ> of_nat) [0..<64])"
  by code_simp

lemma protocolString_inj: "protocolString p = protocolString q \<longleftrightarrow> p = q"
  by (auto simp: protocolString_def dec_string_inj word_unat_eq_iff split: if_splits)

lemma ipString_inj:
  assumes "length a = 16" "length b = 16" "ipString v a = ipString v b"
  shows "if v = 6 then a = b else take 4 a = take 4 b"
  using assms ip_string_inj [of a b] ip_string_inj [of "take 4 a" "take 4 b"]
  by (auto simp: ipString_def To16_def)

section \<open>Properties\<close>

text \<open>
  Decoding of ring-buffer records. A record with fewer than 88 bytes is an error (end of file when
  empty), every record with at least 88 bytes decodes, and decoding the bytes of the eBPF program's
  structure gives back every field, whatever follows.
\<close>

theorem parse_roundtrip:
  "(record = [] \<longrightarrow> Parse record = Inl EOF) \<and>
   (0 < length record \<and> length record < 88 \<longrightarrow> Parse record = Inl UnexpectedEOF) \<and>
   (88 \<le> length record \<longrightarrow> (\<exists>r. Parse record = Inr r \<and> wf_raw r)) \<and>
   (wf_raw raw \<longrightarrow> Parse (observation_bytes raw @ record) = Inr raw)"
proof -
  have "\<exists>r. Parse record = Inr r \<and> wf_raw r" if "88 \<le> length record"
  proof -
    have "record \<noteq> []" "\<not> length record < 88" using that by auto
    then obtain r where "Parse record = Inr r" by (simp add: Parse_def)
    then show ?thesis using Parse_wf by blast
  qed
  moreover have "0 < length record \<Longrightarrow> length record < 88 \<Longrightarrow> Parse record = Inl UnexpectedEOF"
    and "record = [] \<Longrightarrow> Parse record = Inl EOF" by (auto simp: Parse_def)
  ultimately show ?thesis using Parse_observation_bytes by blast
qed

theorem parse_roundtrip_witness: "Parse [1, 2, 3] = Inl UnexpectedEOF"
  using parse_roundtrip [of "[1, 2, 3]"] by simp

text \<open>
  C37: Latency. The latency of an enriched record is never negative; the clock-skew flag is set exactly
  when the record carries a send time later than the capture clock; otherwise, for clocks between
  1970 and 2262 (where 63 bits of nanoseconds suffice), the latency is exactly the difference in
  nanoseconds. Without a send time it is zero and unflagged.
\<close>

theorem enrich_latency:
  assumes "sent = uint (raw_MetaTimestamp r)" "clock = unixSec now * 1000000000 + int (nsec now)"
    and "0 \<le> clock" "clock < 2 ^ 63" "sent < 2 ^ 63"
  shows "let ob = fst (Enrich uuidString byIndex cache r nodeID now) in
     0 \<le> sint (o_LatencyNS ob) \<and>
     (o_ClockSkew ob \<longleftrightarrow> sent \<noteq> 0 \<and> clock < sent) \<and>
     sint (o_LatencyNS ob) = (if sent = 0 then 0 else max 0 (clock - sent))"
proof -
  let ?lat = "UnixNano now - raw_MetaTimestamp r"
  have eq: "?lat = word_of_int (clock - sent)"
    unfolding UnixNano_def assms(1,2) by simp
  have "sint ?lat = signed_take_bit (LENGTH(64) - 1) (clock - sent)"
    unfolding eq by (rule sint_sbintrunc')
  also have "\<dots> = clock - sent"
  proof (rule signed_take_bit_int_eq_self)
    have "0 \<le> sent" by (simp add: assms(1))
    then show "- (2 ^ (LENGTH(64) - 1)) \<le> clock - sent" and "clock - sent < 2 ^ (LENGTH(64) - 1)"
      using assms(3-5) by simp_all
  qed
  finally have lat: "sint ?lat = clock - sent" .
  have z: "raw_MetaTimestamp r = 0 \<longleftrightarrow> sent = 0" by (simp add: assms(1) uint_0_iff)
  show ?thesis
    using lat by (simp add: Enrich_def Let_def split_beta z word_sless_alt)
qed

theorem enrich_latency_witness:
  "sint (o_LatencyNS (fst (Enrich (\<lambda>_. ''id'') (\<lambda>_. None) []
     \<lparr>raw_MetaTimestamp = 1700000000000000000, raw_CaptureNS = 5, raw_ID = replicate 16 1,
      raw_SrcIP = replicate 16 2, raw_DstIP = replicate 16 3, raw_VNI = 0, raw_IfIndex = 4, raw_SrcPort = 0,
      raw_DstPort = 0, raw_VLANID = 0, raw_IPVersion = 4, raw_Hop = 1, raw_Direction = 0, raw_Action = 0,
      raw_Protocol = 1, raw_TCPFlags = 0, raw_IfaceType = 0\<rparr>
     ''node'' \<lparr>unixSec = 1700000000, nsec = 250, zoneOffset = 0\<rparr>))) = 250"
  using enrich_latency [OF refl refl, unfolded Let_def] by simp

text \<open>
  The printed fields determine the packet. The protocol text determines the protocol number, the
  flag text the six named TCP flags, and the address text the 4 or 16 address bytes.
\<close>

theorem field_text_injective:
  "(protocolString p = protocolString q \<longleftrightarrow> p = q) \<and>
   (tcpFlagsString f = tcpFlagsString g \<longleftrightarrow> f AND 0x3F = g AND 0x3F) \<and>
   (length a = 16 \<and> length b = 16 \<and> ipString v a = ipString v b \<longrightarrow>
      (if v = 6 then a = b else take 4 a = take 4 b))"
proof -
  have "f AND 0x3F = g AND 0x3F" if eq: "tcpFlagsString f = tcpFlagsString g"
  proof -
    obtain m n where mn: "m < 64" "f AND 0x3F = of_nat m" "n < 64" "g AND 0x3F = of_nat n"
      using word_low6_cases [of f] word_low6_cases [of g] by blast
    have "tcpFlagsString (of_nat m) = tcpFlagsString (of_nat n)"
      using eq mn tcpFlagsString_low6 [of f] tcpFlagsString_low6 [of g] by simp
    then have "m = n"
      using tcpFlagsString_distinct mn(1,3) by (simp add: distinct_map inj_on_def)
    with mn show ?thesis by simp
  qed
  moreover have "tcpFlagsString f = tcpFlagsString g" if "f AND 0x3F = g AND 0x3F"
    using that tcpFlagsString_low6 [of f] tcpFlagsString_low6 [of g] by simp
  ultimately show ?thesis using protocolString_inj [of p q] ipString_inj [of a b v] by blast
qed

theorem field_text_injective_witness: "tcpFlagsString 0x12 \<noteq> tcpFlagsString 0x10 \<and> protocolString 6 \<noteq> protocolString 7"
  using field_text_injective [of 6 7 "0x12" "0x10" "[]" "[]" 4] by simp

text \<open>
  Ports and flags. An enriched record shows ports exactly for protocols that have them, TCP flags
  only for TCP, and carries hop, VNI, VLAN, interface index and capture time of the raw record
  unchanged; OVN and availability-zone fields are left for the emitter.
\<close>

theorem enrich_fields:
  "let ob = fst (Enrich uuidString byIndex cache r nodeID now) in
     (o_SrcPort ob, o_DstPort ob) = (if raw_Protocol r \<in> {1, 58} then (0, 0) else (raw_SrcPort r, raw_DstPort r)) \<and>
     o_TCPFlags ob = (if raw_Protocol r = 6 then tcpFlagsString (raw_TCPFlags r) else []) \<and>
     o_ID ob = uuidString (raw_ID r) \<and> o_NodeID ob = nodeID \<and>
     (o_Hop ob, o_VNI ob, o_VLAN ob, o_IfIndex ob, o_CaptureNS ob, o_IPVersion ob) =
       (raw_Hop r, raw_VNI r, raw_VLANID r, raw_IfIndex r, raw_CaptureNS r, raw_IPVersion r) \<and>
     o_LogicalSwitch ob = [] \<and> o_AZ ob = []"
  by (simp add: Enrich_def Let_def split_beta isICMP_def)

text \<open>
  The interface-name cache. Looking a name up never changes an entry already cached, caches the
  name it returns, and asks the host only on a miss, so every later lookup of the index returns the
  same name whatever the host then says. Index 0 has no name and is never cached.
\<close>

theorem ifName_cache:
  "case ifName byIndex cache idx of (name, cache') \<Rightarrow>
     (\<forall>i n. mget cache i = Some n \<longrightarrow> mget cache' i = Some n) \<and>
     fst (ifName byIndex2 cache' idx) = name \<and> snd (ifName byIndex2 cache' idx) = cache' \<and>
     (idx = 0 \<longrightarrow> name = [] \<and> cache' = cache) \<and>
     (idx \<noteq> 0 \<longrightarrow> name = (case mget cache idx of Some n \<Rightarrow> n | None \<Rightarrow> case byIndex idx of Some n \<Rightarrow> n | None \<Rightarrow> []))"
  by (auto simp: ifName_def Let_def gomap_simps split: option.splits)

theorem ifName_cache_witness:
  "fst (ifName (\<lambda>_. None) (snd (ifName (\<lambda>_. Some ''eth0'') [] 3)) 3) = ''eth0''"
  using ifName_cache [where byIndex = "\<lambda>_. Some ''eth0''" and cache = "[]" and idx = 3 and ?byIndex2.0 = "\<lambda>_. None"]
  by (simp add: split_beta gomap_simps)

end
