(* ===== verification/Strconv.thy ===== *)
theory Strconv
  imports Net_IP
begin

text \<open>
  What the programs use of the standard library's package \<^verbatim>\<open>strconv\<close>: reading integers, in base 10 (numbers
  in JSON) and in base 0 (flags: prefixes and underscores), reading booleans, and that a number or a
  boolean that was written is read back.
\<close>

section \<open>Reading numbers\<close>

definition is_digit :: "char \<Rightarrow> bool" where
  "is_digit c = (48 \<le> (of_char c :: nat) \<and> (of_char c :: nat) \<le> 57)"

definition lower_case :: "char \<Rightarrow> char" where
  "lower_case c = (if 65 \<le> (of_char c :: nat) \<and> (of_char c :: nat) \<le> 90 then char_of (of_char c + 32 :: nat) else c)"

definition digit_of :: "char \<Rightarrow> nat option" where
  "digit_of c = (let n = of_char c; l = of_char (lower_case c) in
     if 48 \<le> n \<and> n \<le> 57 then Some (n - 48)
     else if 97 \<le> l \<and> l \<le> 122 then Some (l - 87)
     else None)"

text \<open>The digits of a number, underscores skipped.\<close>

fun digits_value :: "nat \<Rightarrow> nat \<Rightarrow> string \<Rightarrow> nat option" where
  "digits_value b acc [] = Some acc"
| "digits_value b acc (c # cs) =
     (if c = CHR ''_'' then digits_value b acc cs
      else case digit_of c of
        None \<Rightarrow> None
      | Some d \<Rightarrow> if d \<ge> b then None else digits_value b (b * acc + d) cs)"

text \<open>The base of a literal and its digits.\<close>

definition base_prefix :: "string \<Rightarrow> nat \<times> string" where
  "base_prefix s =
     (if s \<noteq> [] \<and> hd s = CHR ''0'' then
        if 3 \<le> length s \<and> lower_case (s ! 1) = CHR ''b'' then (2, drop 2 s)
        else if 3 \<le> length s \<and> lower_case (s ! 1) = CHR ''o'' then (8, drop 2 s)
        else if 3 \<le> length s \<and> lower_case (s ! 1) = CHR ''x'' then (16, drop 2 s)
        else (8, tl s)
      else (10, s))"

text \<open>Underscores stand between digits or after a base prefix: \<open>prev\<close> is the class of the character before
  (a digit, an underscore, or something else).\<close>

fun underscores_ok :: "bool \<Rightarrow> char \<Rightarrow> string \<Rightarrow> bool" where
  "underscores_ok hex prev [] = (prev \<noteq> CHR ''_'')"
| "underscores_ok hex prev (c # cs) =
     (let n = of_char c :: nat; l = of_char (lower_case c) :: nat in
      if 48 \<le> n \<and> n \<le> 57 \<or> hex \<and> 97 \<le> l \<and> l \<le> 102 then underscores_ok hex (CHR ''0'') cs
      else if c = CHR ''_'' then prev = CHR ''0'' \<and> underscores_ok hex (CHR ''_'') cs
      else prev \<noteq> CHR ''_'' \<and> underscores_ok hex (CHR ''!'') cs)"

definition underscoreOK :: "string \<Rightarrow> bool" where
  "underscoreOK s =
     (if 2 \<le> length s \<and> hd s = CHR ''0'' \<and> lower_case (s ! 1) \<in> {CHR ''b'', CHR ''o'', CHR ''x''}
      then underscores_ok (lower_case (s ! 1) = CHR ''x'') (CHR ''0'') (drop 2 s)
      else underscores_ok False (CHR ''^'') s)"

definition ParseUint0 :: "string \<Rightarrow> nat option" where
  "ParseUint0 s =
     (if s = [] then None
      else case base_prefix s of (b, ds) \<Rightarrow>
        (case digits_value b 0 ds of
           None \<Rightarrow> None
         | Some n \<Rightarrow> if n \<ge> 2 ^ 64 \<or> CHR ''_'' \<in> set ds \<and> \<not> underscoreOK s then None else Some n))"

definition ParseInt0 :: "string \<Rightarrow> int option" where
  "ParseInt0 s =
     (let neg = (s \<noteq> [] \<and> hd s = CHR ''-'');
          s = (if s \<noteq> [] \<and> (hd s = CHR ''+'' \<or> hd s = CHR ''-'') then tl s else s)
      in case ParseUint0 s of
           None \<Rightarrow> None
         | Some n \<Rightarrow>
             if neg then if n \<le> 2 ^ 63 then Some (- int n) else None
             else if n < 2 ^ 63 then Some (int n) else None)"

definition ParseUint10 :: "string \<Rightarrow> nat option" where
  "ParseUint10 s =
     (if s = [] \<or> \<not> list_all is_digit s then None
      else let n = num_val 10 s in if n < 2 ^ 64 then Some n else None)"

definition ParseInt10 :: "string \<Rightarrow> int option" where
  "ParseInt10 s =
     (let neg = (s \<noteq> [] \<and> hd s = CHR ''-'');
          s = (if s \<noteq> [] \<and> (hd s = CHR ''+'' \<or> hd s = CHR ''-'') then tl s else s)
      in case ParseUint10 s of
           None \<Rightarrow> None
         | Some n \<Rightarrow>
             if neg then if n \<le> 2 ^ 63 then Some (- int n) else None
             else if n < 2 ^ 63 then Some (int n) else None)"

definition ParseBool :: "string \<Rightarrow> bool option" where
  "ParseBool s =
     (if s \<in> {''1'', ''t'', ''T'', ''true'', ''TRUE'', ''True''} then Some True
      else if s \<in> {''0'', ''f'', ''F'', ''false'', ''FALSE'', ''False''} then Some False
      else None)"

section \<open>Numbers read back\<close>

definition int_string :: "int \<Rightarrow> string" where
  "int_string i = (if i < 0 then CHR ''-'' # dec_string (nat (- i)) else dec_string (nat i))"

definition bool_string :: "bool \<Rightarrow> string" where
  "bool_string b = (if b then ''true'' else ''false'')"

lemma ParseBool_bool_string [simp]: "ParseBool (bool_string b) = Some b"
  by (simp add: bool_string_def ParseBool_def)

lemma is_digit_char [simp]: "d < 10 \<Longrightarrow> is_digit (digit_char d)"
  by (simp add: is_digit_def digit_char_def)

lemma dec_string_digits: "c \<in> set (dec_string n) \<Longrightarrow> is_digit c"
  unfolding dec_string_def
proof (induction "10 :: nat" n rule: num_string.induct)
  case (1 n)
  then show ?case
    by (simp add: num_string.simps [of 10 n] split: if_splits) (auto simp: num_string.simps [of 10 n])
qed

lemma dec_string_hd: "0 < n \<Longrightarrow> hd (dec_string n) \<noteq> CHR ''0''"
  unfolding dec_string_def
proof (induction "10 :: nat" n rule: num_string.induct)
  case (1 n)
  have "digit_char n \<noteq> CHR ''0''" if "n < 10"
    using that \<open>0 < n\<close> digit_val_digit_char [of n] by (auto simp: digit_val_def)
  with 1 show ?case
    by (simp add: num_string.simps [of 10 n])
qed

lemma digits_value_digits:
  "(\<And>c. c \<in> set s \<Longrightarrow> is_digit c) \<Longrightarrow>
   digits_value 10 a s = Some (foldl (\<lambda>a c. 10 * a + digit_val c) a s)"
proof (induction s arbitrary: a)
  case (Cons c s)
  have d: "48 \<le> (of_char c :: nat)" "(of_char c :: nat) \<le> 57" using Cons.prems [of c] by (simp_all add: is_digit_def)
  have "c \<noteq> CHR ''_''" using d by auto
  with d Cons show ?case
    by (simp add: digit_of_def digit_val_def Let_def)
qed simp

text \<open>Base 10: digits only, underscores not allowed.\<close>

lemma ParseUint10_dec_string [simp]: "n < 2 ^ 64 \<Longrightarrow> ParseUint10 (dec_string n) = Some n"
  using dec_val [of n] by (auto simp: ParseUint10_def list_all_iff num_val_def dec_string_digits)

lemma ParseUint0_dec_string: "n < 2 ^ 64 \<Longrightarrow> ParseUint0 (dec_string n) = Some n"
proof (cases "n = 0")
  case True
  moreover have "dec_string 0 = ''0''" by code_simp
  ultimately show ?thesis by (simp add: ParseUint0_def base_prefix_def)
next
  case False
  assume n: "n < 2 ^ 64"
  have "base_prefix (dec_string n) = (10, dec_string n)"
    using False dec_string_hd [of n] by (simp add: base_prefix_def)
  moreover have "digits_value 10 0 (dec_string n) = Some n"
    using digits_value_digits [of "dec_string n" 0] dec_string_digits dec_val [of n] by (simp add: num_val_def)
  moreover have "CHR ''_'' \<notin> set (dec_string n)"
    using dec_string_digits [of "CHR ''_''" n] by (auto simp: is_digit_def)
  ultimately show ?thesis using n by (simp add: ParseUint0_def)
qed

lemma dec_string_sign: "hd (dec_string n) \<noteq> CHR ''-''" "hd (dec_string n) \<noteq> CHR ''+''"
  using dec_string_digits [of "hd (dec_string n)" n] by (auto simp: is_digit_def)

lemma ParseInt0_int_string [simp]:
  assumes "- (2 ^ 63) \<le> i" "i < 2 ^ 63"
  shows "ParseInt0 (int_string i) = Some i"
proof -
  have "ParseUint0 (dec_string (nat \<bar>i\<bar>)) = Some (nat \<bar>i\<bar>)"
    using assms by (intro ParseUint0_dec_string) (simp add: abs_le_iff nat_less_iff)
  with assms show ?thesis
    by (auto simp: ParseInt0_def int_string_def dec_string_sign Let_def)
qed

lemma ParseInt10_int_string [simp]:
  assumes "- (2 ^ 63) \<le> i" "i < 2 ^ 63"
  shows "ParseInt10 (int_string i) = Some i"
proof -
  have "ParseUint10 (dec_string (nat \<bar>i\<bar>)) = Some (nat \<bar>i\<bar>)"
    using assms by (intro ParseUint10_dec_string) (simp add: abs_le_iff nat_less_iff)
  with assms show ?thesis
    by (auto simp: ParseInt10_def int_string_def dec_string_sign Let_def)
qed

end
