(* ===== verification/Go_Time.thy ===== *)
theory Go_Time
  imports Observation Strconv Net_Parse
begin

text \<open>
  What the agent uses of the standard library's package \<^verbatim>\<open>time\<close> besides formatting: \<^verbatim>\<open>time.Date\<close> and
  \<^verbatim>\<open>time.Parse\<close> with the layout \<^verbatim>\<open>time.RFC3339Nano\<close>, its fast path and the general parser behind it. The
  calendar of \<open>civil\<close> is the Gregorian one, and parsing undoes formatting.
\<close>

section \<open>The calendar\<close>

definition isLeap :: "int \<Rightarrow> bool" where
  "isLeap y \<longleftrightarrow> 4 dvd y \<and> (\<not> 100 dvd y \<or> 400 dvd y)"

definition daysIn :: "nat \<Rightarrow> int \<Rightarrow> nat" where
  "daysIn m y = (if m = 2 then if isLeap y then 29 else 28 else if m \<in> {4, 6, 9, 11} then 30 else 31)"

definition daysBefore :: "nat list" where
  "daysBefore = [0, 31, 59, 90, 120, 151, 181, 212, 243, 273, 304, 334]"

text \<open>Days from 1970-01-01 to the first day of a year, and to a date.\<close>

definition daysSinceEpoch :: "int \<Rightarrow> int" where
  "daysSinceEpoch y = (let p = y - 1 in 365 * p + p div 4 - p div 100 + p div 400 - 719162)"

definition dayNumber :: "int \<Rightarrow> nat \<Rightarrow> nat \<Rightarrow> int" where
  "dayNumber y m d = daysSinceEpoch y + int (daysBefore ! (m - 1)) + (if isLeap y \<and> 3 \<le> m then 1 else 0) + (int d - 1)"

subsection \<open>Years that start in March\<close>

definition years_days :: "int \<Rightarrow> int" where
  "years_days n = 365 * n + n div 4 - n div 100 + n div 400"

definition year_index :: "int \<Rightarrow> int" where
  "year_index doe = doe - doe div 1460 + doe div 36524 - doe div 146096"

lemma div_succ:
  fixes d k :: int
  assumes "0 < k"
  shows "(d + 1) div k = d div k + (if k dvd d + 1 then 1 else 0)"
proof -
  have d: "d + 1 = k * (d div k) + (d mod k + 1)" by simp
  have r: "0 \<le> d mod k" "d mod k < k" using assms by simp_all
  show ?thesis
  proof (cases "d mod k + 1 = k")
    case True
    then have "d + 1 = k * (d div k + 1)" using d by (simp add: algebra_simps)
    then show ?thesis using assms by simp
  next
    case False
    then have "(d + 1) div k = d div k" "(d + 1) mod k = d mod k + 1"
      using int_div_pos_eq [OF d] int_mod_pos_eq [OF d] r by auto
    then show ?thesis using r by (simp add: dvd_eq_mod_eq_0)
  qed
qed

lemma year_index_mono: "d \<le> d' \<Longrightarrow> year_index d \<le> year_index d'"
proof (induction d' rule: int_ge_induct)
  case (step i)
  have "(146096 :: int) dvd i + 1 \<Longrightarrow> 36524 dvd i + 1" by (rule dvd_trans [of _ 146096]) simp_all
  then have "year_index i \<le> year_index (i + 1)"
    by (simp add: year_index_def div_succ)
  with step show ?case by simp
qed simp

lemma year_table:
  "list_all (\<lambda>n. 365 * n \<le> year_index (years_days n) \<and> year_index (years_days (n + 1) - 1) < 365 * (n + 1)) [0..399]"
  by code_simp

lemma year_index_years:
  assumes "0 \<le> n" "n < 400"
  shows "365 * n \<le> year_index (years_days n)" "year_index (years_days (n + 1) - 1) < 365 * (n + 1)"
  using year_table assms by (auto simp: list_all_iff)

text \<open>The year of a day in an era of 400 years, and the day in that year.\<close>

lemma year_of_day:
  assumes "0 \<le> doe" "doe < 146097"
  defines "n \<equiv> year_index doe div 365"
  shows "0 \<le> n" "n < 400" "years_days n \<le> doe" "doe < years_days (n + 1)"
proof -
  have idx: "365 * n \<le> year_index doe" "year_index doe < 365 * (n + 1)" unfolding n_def by simp_all
  have "year_index 0 \<le> year_index doe" "year_index doe \<le> year_index 146096"
    using assms(1,2) by (simp_all add: year_index_mono)
  then show n: "0 \<le> n" "n < 400" using idx by (simp_all add: year_index_def)
  show "years_days n \<le> doe"
  proof (rule ccontr)
    assume "\<not> years_days n \<le> doe"
    then have "year_index doe \<le> year_index (years_days n - 1)" by (intro year_index_mono) simp
    moreover have "n \<noteq> 0" using \<open>\<not> years_days n \<le> doe\<close> assms(1) by (auto simp: years_days_def)
    ultimately show False using year_index_years(2) [of "n - 1"] n idx by simp
  qed
  show "doe < years_days (n + 1)"
  proof (rule ccontr)
    assume big: "\<not> doe < years_days (n + 1)"
    then have "n + 1 \<noteq> 400" using assms(2) by (auto simp: years_days_def)
    moreover have "year_index (years_days (n + 1)) \<le> year_index doe" using big by (intro year_index_mono) simp
    ultimately show False using year_index_years(1) [of "n + 1"] n idx by simp
  qed
qed

lemma leap_years_days: "years_days (n + 1) = years_days n + (if isLeap (n + 1) then 366 else 365)"
proof -
  define a b c where abc: "a \<longleftrightarrow> 4 dvd n + 1" "b \<longleftrightarrow> 100 dvd n + 1" "c \<longleftrightarrow> 400 dvd n + 1"
  have "c \<Longrightarrow> b" "b \<Longrightarrow> a"
    unfolding abc by (rule dvd_trans [of _ 400], simp_all) (rule dvd_trans [of _ 100], simp_all)
  moreover have "years_days (n + 1) = years_days n + 365 + (if a then 1 else 0) - (if b then 1 else 0) + (if c then 1 else 0)"
    unfolding abc by (simp add: years_days_def div_succ)
  moreover have "isLeap (n + 1) \<longleftrightarrow> a \<and> (\<not> b \<or> c)" by (simp add: isLeap_def abc)
  ultimately show ?thesis by (cases a; cases b; cases c) simp_all
qed

lemma years_days_era: "years_days (n + 400 * era) = years_days n + 146097 * era"
proof -
  have "(n + 400 * era) div 4 = n div 4 + 100 * era" "(n + 400 * era) div 100 = n div 100 + 4 * era"
    "(n + 400 * era) div 400 = n div 400 + era" by simp_all
  then show ?thesis by (simp add: years_days_def)
qed

lemma daysSinceEpoch_years: "daysSinceEpoch y = years_days (y - 1) - 719162"
  by (simp add: daysSinceEpoch_def years_days_def Let_def)

subsection \<open>The conversion is the calendar\<close>

text \<open>Months from March on, each with the days of the year before it.\<close>

lemma march_months:
  fixes doy :: int
  assumes "0 \<le> doy" "doy < 366"
  defines "mp \<equiv> (5 * doy + 2) div 153"
  shows "mp \<in> {0, 1, 2, 3, 4, 5, 6, 7, 8, 9, 10, 11}" "(153 * mp + 2) div 5 \<le> doy" "doy < (153 * (mp + 1) + 2) div 5"
proof -
  have m: "153 * mp \<le> 5 * doy + 2" "5 * doy + 2 < 153 * (mp + 1)" unfolding mp_def by simp_all
  have "0 \<le> mp" using m(2) assms(1) by simp
  moreover have "mp \<le> 11" using m(1) assms(2) by simp
  ultimately show "mp \<in> {0, 1, 2, 3, 4, 5, 6, 7, 8, 9, 10, 11}" by simp presburger
  show "(153 * mp + 2) div 5 \<le> doy" "doy < (153 * (mp + 1) + 2) div 5" using m by linarith+
qed

lemma march_dates:
  fixes doy y0 :: int
  assumes "0 \<le> doy" "doy < (if isLeap (y0 + 1) then 366 else 365)"
  defines "mp \<equiv> (5 * doy + 2) div 153"
  defines "mon \<equiv> (if mp < 10 then mp + 3 else mp - 9)" and "d \<equiv> doy - (153 * mp + 2) div 5 + 1"
  defines "y \<equiv> y0 + (if mon \<le> 2 then 1 else 0)"
  shows "dayNumber y (nat mon) (nat d) = years_days y0 + doy - 719468 \<and> 1 \<le> nat mon \<and> nat mon \<le> 12 \<and>
    1 \<le> nat d \<and> nat d \<le> daysIn (nat mon) y"
proof -
  have doy: "doy < 366" using assms(2) by (simp split: if_splits)
  note mm = march_months [OF assms(1) doy, folded mp_def]
  have before: "years_days y0 = years_days (y0 - 1) + (if isLeap y0 then 366 else 365)" using leap_years_days [of "y0 - 1"] by simp
  have "daysSinceEpoch y0 = years_days (y0 - 1) - 719162" "daysSinceEpoch (y0 + 1) = years_days y0 - 719162"
    by (simp_all add: daysSinceEpoch_years)
  with before assms(2) mm(2,3) mm(1) show ?thesis
    unfolding y_def mon_def d_def
    by (elim insertE emptyE) (simp_all add: dayNumber_def daysBefore_def daysIn_def nat_le_iff le_nat_iff split: if_splits)
qed

theorem civil_calendar:
  assumes "civil n = (y, m, d)"
  shows "dayNumber y m d = n \<and> 1 \<le> m \<and> m \<le> 12 \<and> 1 \<le> d \<and> d \<le> daysIn m y"
proof -
  define z where "z = n + 719468"
  define era where "era = z div 146097"
  define doe where "doe = z mod 146097"
  define yoe where "yoe = year_index doe div 365"
  define doy where "doy = doe - years_days yoe"
  have doe: "0 \<le> doe" "doe < 146097" by (simp_all add: doe_def)
  note yr = year_of_day [OF doe, folded yoe_def]
  have idx: "doe - (365 * yoe + yoe div 4 - yoe div 100) = doy" using yr(1,2) by (simp add: doy_def years_days_def)
  have leap: "isLeap (yoe + 400 * era + 1) \<longleftrightarrow> isLeap (yoe + 1)"
    using leap_years_days [of "yoe + 400 * era"] leap_years_days [of yoe] years_days_era [of yoe era] years_days_era [of "yoe + 1" era]
    by (simp add: algebra_simps split: if_splits)
  have "0 \<le> doy" "doy < (if isLeap (yoe + 400 * era + 1) then 366 else 365)"
    using yr(3,4) leap_years_days [of yoe] leap by (simp_all add: doy_def split: if_splits)
  note dates = march_dates [OF this]
  have "z = 146097 * era + doe" by (simp add: era_def doe_def)
  then have "years_days (yoe + 400 * era) + doy - 719468 = n" using years_days_era [of yoe era] by (simp add: doy_def z_def)
  moreover have "civil n = (let mp = (5 * doy + 2) div 153; mon = (if mp < 10 then mp + 3 else mp - 9) in
      (yoe + 400 * era + (if mon \<le> 2 then 1 else 0), nat mon, nat (doy - (153 * mp + 2) div 5 + 1)))"
    unfolding civil_def Let_def z_def [symmetric] era_def [symmetric] doe_def [symmetric] year_index_def [symmetric] yoe_def [symmetric] idx
    by (simp add: mult.commute)
  ultimately show ?thesis using dates assms by (simp add: Let_def)
qed

section \<open>Parsing\<close>

text \<open>\<^verbatim>\<open>Date\<close>, for values that are in range, and a time given in a zone.\<close>

definition Date :: "nat \<Rightarrow> nat \<Rightarrow> nat \<Rightarrow> nat \<Rightarrow> nat \<Rightarrow> nat \<Rightarrow> nat \<Rightarrow> gotime" where
  "Date year mon day hour mi sec ns =
     \<lparr>unixSec = dayNumber (int year) mon day * 86400 + int (hour * 3600 + mi * 60 + sec), nsec = ns, zoneOffset = 0\<rparr>"

definition in_zone :: "int \<Rightarrow> gotime \<Rightarrow> gotime" where
  "in_zone off t = t\<lparr>unixSec := unixSec t - off, zoneOffset := off\<rparr>"

text \<open>\<^verbatim>\<open>parseNanoseconds\<close> on the digits after the point: at most nine of them count.\<close>

definition nanoseconds :: "string \<Rightarrow> nat" where
  "nanoseconds ds = (let ds = take 9 ds in num_val 10 ds * 10 ^ (9 - length ds))"

subsection \<open>The fast path\<close>

definition parseUint :: "string \<Rightarrow> nat \<Rightarrow> nat \<Rightarrow> nat option" where
  "parseUint s lo hi =
     (if \<not> list_all is_digit s then None
      else let x = num_val 10 s in if x < lo \<or> hi < x then None else Some x)"

definition split_fraction :: "string \<Rightarrow> nat \<times> string" where
  "split_fraction s = (if 2 \<le> length s \<and> s ! 0 = CHR ''.'' \<and> is_digit (s ! 1)
     then (nanoseconds (takeWhile is_digit (tl s)), dropWhile is_digit (tl s)) else (0, s))"

definition rfc_zone :: "string \<Rightarrow> gotime \<Rightarrow> gotime option" where
  "rfc_zone z t =
     (if z = ''Z'' then Some t
      else if length z \<noteq> 6 then None
      else do {
        hr \<leftarrow> parseUint (take 2 (drop 1 z)) 0 23;
        mm \<leftarrow> parseUint (take 2 (drop 4 z)) 0 59;
        if \<not> ((z ! 0 = CHR ''-'' \<or> z ! 0 = CHR ''+'') \<and> z ! 3 = CHR '':'') then None
        else let off = int ((hr * 60 + mm) * 60) in Some (in_zone (if z ! 0 = CHR ''-'' then - off else off) t) })"

definition parseRFC3339 :: "string \<Rightarrow> gotime option" where
  "parseRFC3339 s =
     (if length s < 19 then None
      else do {
        year \<leftarrow> parseUint (take 4 s) 0 9999;
        mon \<leftarrow> parseUint (take 2 (drop 5 s)) 1 12;
        day \<leftarrow> parseUint (take 2 (drop 8 s)) 1 (daysIn mon (int year));
        hour \<leftarrow> parseUint (take 2 (drop 11 s)) 0 23;
        mi \<leftarrow> parseUint (take 2 (drop 14 s)) 0 59;
        sec \<leftarrow> parseUint (take 2 (drop 17 s)) 0 59;
        if \<not> (s ! 4 = CHR ''-'' \<and> s ! 7 = CHR ''-'' \<and> s ! 10 = CHR ''T'' \<and> s ! 13 = CHR '':'' \<and> s ! 16 = CHR '':'') then None
        else let (ns, z) = split_fraction (drop 19 s); t = Date year mon day hour mi sec ns in
          rfc_zone z t })"

subsection \<open>The general parser\<close>

text \<open>\<^verbatim>\<open>parse\<close> over the elements of the layout \<^verbatim>\<open>2006-01-02T15:04:05.999999999Z07:00\<close>: it takes hours of one
  digit, a comma before the fraction, and zones of 24 hours or 60 minutes.\<close>

definition expect :: "char \<Rightarrow> string \<Rightarrow> string option" where
  "expect c s = (case s of x # r \<Rightarrow> if x = c then Some r else None | [] \<Rightarrow> None)"

definition getnum :: "bool \<Rightarrow> string \<Rightarrow> (nat \<times> string) option" where
  "getnum fixed s =
     (if s = [] \<or> \<not> is_digit (hd s) then None
      else if length s < 2 \<or> \<not> is_digit (s ! 1) then if fixed then None else Some (digit_val (hd s), tl s)
      else Some (num_val 10 (take 2 s), drop 2 s))"

definition in_range :: "nat \<Rightarrow> nat \<Rightarrow> nat \<Rightarrow> unit option" where
  "in_range lo hi x = (if x < lo \<or> hi < x then None else Some ())"

definition split_comma :: "string \<Rightarrow> nat \<times> string" where
  "split_comma s = (if 2 \<le> length s \<and> (s ! 0 = CHR ''.'' \<or> s ! 0 = CHR '','') \<and> is_digit (s ! 1)
     then (nanoseconds (takeWhile is_digit (tl s)), dropWhile is_digit (tl s)) else (0, s))"

definition parse_zone :: "string \<Rightarrow> (int \<times> string) option" where
  "parse_zone s =
     (if s \<noteq> [] \<and> hd s = CHR ''Z'' then Some (0, tl s)
      else if length s < 6 \<or> s ! 3 \<noteq> CHR '':'' then None
      else do {
        (hr, _) \<leftarrow> getnum True (take 2 (drop 1 s));
        (mm, _) \<leftarrow> getnum True (take 2 (drop 4 s));
        _ \<leftarrow> in_range 0 24 hr;
        _ \<leftarrow> in_range 0 60 mm;
        let off = int ((hr * 60 + mm) * 60);
        if s ! 0 = CHR ''+'' then Some (off, drop 6 s)
        else if s ! 0 = CHR ''-'' then Some (- off, drop 6 s)
        else None })"

definition parse_layout :: "string \<Rightarrow> gotime option" where
  "parse_layout s =
     (if length s < 4 \<or> \<not> list_all is_digit (take 4 s) then None
      else do {
        let year = num_val 10 (take 4 s);
        s \<leftarrow> expect (CHR ''-'') (drop 4 s);
        (mon, s) \<leftarrow> getnum True s;
        _ \<leftarrow> in_range 1 12 mon;
        s \<leftarrow> expect (CHR ''-'') s;
        (day, s) \<leftarrow> getnum True s;
        s \<leftarrow> expect (CHR ''T'') s;
        (hour, s) \<leftarrow> getnum False s;
        _ \<leftarrow> in_range 0 23 hour;
        s \<leftarrow> expect (CHR '':'') s;
        (mi, s) \<leftarrow> getnum True s;
        _ \<leftarrow> in_range 0 59 mi;
        s \<leftarrow> expect (CHR '':'') s;
        (sec, s) \<leftarrow> getnum True s;
        _ \<leftarrow> in_range 0 59 sec;
        let (ns, s) = split_comma s;
        (off, s) \<leftarrow> parse_zone s;
        if s \<noteq> [] then None
        else do {
          _ \<leftarrow> in_range 1 (daysIn mon (int year)) day;
          Some (in_zone off (Date year mon day hour mi sec ns)) } })"

definition ParseTime :: "string \<Rightarrow> gotime option" where
  "ParseTime s = (case parseRFC3339 s of Some t \<Rightarrow> Some t | None \<Rightarrow> parse_layout s)"

section \<open>Parsing undoes formatting\<close>

lemma num_val_append: "num_val b (s @ t) = num_val b s * b ^ length t + num_val b t"
  by (induction t rule: rev_induct) (simp_all add: num_val_def algebra_simps)

lemma num_val_zeros [simp]: "num_val b (replicate k (CHR ''0'')) = 0"
  by (induction k) (simp_all add: num_val_def digit_val_def flip: replicate_append_same)

lemma zpad_digits: "c \<in> set (zpad w n) \<Longrightarrow> is_digit c"
  using dec_string_digits [of c n] by (auto simp: zpad_def Let_def is_digit_def)

lemma zpad_val [simp]: "num_val 10 (zpad w n) = n"
  by (simp add: zpad_def Let_def num_val_append dec_val)

lemma length_zpad: "n < 10 ^ w \<Longrightarrow> 0 < w \<Longrightarrow> length (zpad w n) = w"
  using length_num_string [of 10 n w] by (simp add: zpad_def Let_def dec_string_def)

lemma parseUint_zpad: "lo \<le> n \<Longrightarrow> n \<le> hi \<Longrightarrow> parseUint (zpad w n) lo hi = Some n"
  using zpad_digits [of _ w n] by (simp add: parseUint_def list_all_iff Let_def)

text \<open>A text of the layout, field by field.\<close>

lemma parseRFC3339_fields:
  assumes "length ys = 4" "length ms = 2" "length ds = 2" "length hs = 2" "length mis = 2" "length ss = 2"
    and "parseUint ys 0 9999 = Some year" "parseUint ms 1 12 = Some mon" "parseUint ds 1 (daysIn mon (int year)) = Some day"
    and "parseUint hs 0 23 = Some hour" "parseUint mis 0 59 = Some mi" "parseUint ss 0 59 = Some sec" "split_fraction z = (ns, z')"
  shows "parseRFC3339 (ys @ ''-'' @ ms @ ''-'' @ ds @ ''T'' @ hs @ '':'' @ mis @ '':'' @ ss @ z) =
    rfc_zone z' (Date year mon day hour mi sec ns)"
proof -
  let ?s = "ys @ ''-'' @ ms @ ''-'' @ ds @ ''T'' @ hs @ '':'' @ mis @ '':'' @ ss @ z"
  have "take 4 ?s = ys" "take 2 (drop 5 ?s) = ms" "take 2 (drop 8 ?s) = ds" "take 2 (drop 11 ?s) = hs" "take 2 (drop 14 ?s) = mis"
    "take 2 (drop 17 ?s) = ss" "drop 19 ?s = z" "?s ! 4 = CHR ''-''" "?s ! 7 = CHR ''-''" "?s ! 10 = CHR ''T''" "?s ! 13 = CHR '':''"
    "?s ! 16 = CHR '':''" "\<not> length ?s < 19"
    using assms(1-6) by (simp_all add: nth_append drop_Cons')
  then show ?thesis unfolding parseRFC3339_def using assms(7-) by simp
qed

lemma fraction_zone:
  assumes "z = [] \<or> hd z \<noteq> CHR ''.'' \<and> \<not> is_digit (hd z)" "ns < 10 ^ 9"
  shows "split_fraction (frac_string ns @ z) = (ns, z)"
proof -
  define ds where "ds = rev (dropWhile (\<lambda>c. c = CHR ''0'') (rev (zpad 9 ns)))"
  obtain k where k: "zpad 9 ns = ds @ replicate k (CHR ''0'')"
  proof -
    have "takeWhile (\<lambda>c. c = CHR ''0'') (rev (zpad 9 ns)) = replicate (length (takeWhile (\<lambda>c. c = CHR ''0'') (rev (zpad 9 ns)))) (CHR ''0'')"
      by (rule replicate_eqI) (auto dest: set_takeWhileD)
    then have "zpad 9 ns = ds @ replicate (length (takeWhile (\<lambda>c. c = CHR ''0'') (rev (zpad 9 ns)))) (CHR ''0'')"
      unfolding ds_def by (metis rev_append rev_replicate rev_rev_ident takeWhile_dropWhile_id)
    then show ?thesis by (rule that)
  qed
  have len: "length ds + k = 9" using arg_cong [OF k, of length] length_zpad [OF assms(2)] by simp
  have digits: "\<forall>c \<in> set ds. is_digit c" using zpad_digits [of _ 9 ns] unfolding k by auto
  have val: "num_val 10 ds * 10 ^ k = ns" using zpad_val [of 9 ns] unfolding k num_val_append by simp
  have z: "takeWhile is_digit (ds @ z) = ds" "dropWhile is_digit (ds @ z) = z"
    using assms(1) digits by (cases z; simp add: takeWhile_append2 dropWhile_append2)+
  show ?thesis
  proof (cases "ds = []")
    case True
    then have "ns = 0" using val by (simp add: num_val_def)
    moreover have "frac_string ns = []" using True by (simp add: frac_string_def ds_def [symmetric])
    ultimately show ?thesis using assms(1) by (cases z) (auto simp: split_fraction_def)
  next
    case False
    then obtain c r where c: "ds = c # r" by (cases ds) auto
    have "9 - length ds = k" using len by simp
    then have "nanoseconds ds = ns" using val len by (simp add: nanoseconds_def Let_def)
    moreover have "frac_string ns = CHR ''.'' # ds" using False by (simp add: frac_string_def ds_def [symmetric])
    ultimately show ?thesis using z digits c by (simp add: split_fraction_def)
  qed
qed

text \<open>Times the layout can show: a year of four digits, and a zone of whole minutes within a day.\<close>

definition rfc_time :: "gotime \<Rightarrow> bool" where
  "rfc_time t \<longleftrightarrow> fst (civil ((unixSec t + zoneOffset t) div 86400)) \<in> {0..9999} \<and> nsec t < 10 ^ 9 \<and>
     60 dvd zoneOffset t \<and> \<bar>zoneOffset t\<bar> < 86400"

lemma zone_parts:
  assumes "60 dvd off" "\<bar>off\<bar> < 86400"
  defines "z \<equiv> nat (\<bar>off\<bar> div 60)"
  shows "z div 60 \<le> 23" "z mod 60 \<le> 59" "int ((z div 60 * 60 + z mod 60) * 60) = \<bar>off\<bar>"
proof -
  have "\<bar>off\<bar> div 60 * 60 = \<bar>off\<bar>" using assms(1) by simp
  moreover have "z div 60 * 60 + z mod 60 = z" by simp
  ultimately show "int ((z div 60 * 60 + z mod 60) * 60) = \<bar>off\<bar>" by (simp add: z_def pos_imp_zdiv_nonneg_iff del: div_mult_mod_eq)
  have "z < 1440" using assms(2) by (simp add: z_def nat_less_iff)
  then show "z div 60 \<le> 23" by simp
qed simp

lemma zone_string_parsed:
  assumes "60 dvd off" "\<bar>off\<bar> < 86400" "zoneOffset t = 0"
  shows "rfc_zone (zone_string off) t = Some (in_zone off t)"
proof (cases "off = 0")
  case True
  then show ?thesis using assms(3) by (simp add: zone_string_def rfc_zone_def in_zone_def)
next
  case False
  define z where "z = nat (\<bar>off\<bar> div 60)"
  note zp = zone_parts [OF assms(1,2), folded z_def]
  have len: "length (zpad 2 (z div 60)) = 2" "length (zpad 2 (z mod 60)) = 2"
    using zp(1,2) by (intro length_zpad; simp)+
  obtain a b c d where ab: "zpad 2 (z div 60) = [a, b]" "zpad 2 (z mod 60) = [c, d]"
    using len by (auto simp: length_Suc_conv numeral_2_eq_2)
  have "parseUint [a, b] 0 23 = Some (z div 60)" "parseUint [c, d] 0 59 = Some (z mod 60)"
    using zp(1,2) parseUint_zpad [of 0 "z div 60" 23 2] parseUint_zpad [of 0 "z mod 60" 59 2] by (simp_all add: ab)
  moreover have "zone_string off = (if off \<le> - 60 then CHR ''-'' else CHR ''+'') # a # b # CHR '':'' # [c, d]"
    using False by (simp add: zone_string_def Let_def ab flip: z_def)
  moreover have "off \<le> - 60 \<longleftrightarrow> off < 0" using assms(1) by (auto elim!: dvdE)
  ultimately show ?thesis using zp(3) by (simp add: rfc_zone_def)
qed

theorem time_roundtrip:
  assumes "rfc_time t"
  shows "ParseTime (RFC3339Nano t) = Some t"
proof -
  define loc where "loc = unixSec t + zoneOffset t"
  define s where "s = nat (loc mod 86400)"
  obtain y m d where c: "civil (loc div 86400) = (y, m, d)" by (cases "civil (loc div 86400)")
  note cal = civil_calendar [OF c]
  have y: "0 \<le> y" "nat y \<le> 9999" "int (nat y) = y" using assms c by (auto simp: rfc_time_def loc_def)
  have s: "int s = loc mod 86400" "s < 86400" by (simp_all add: s_def nat_less_iff)
  let ?z = "zone_string (zoneOffset t)" and ?t = "Date (nat y) m d (s div 3600) (s div 60 mod 60) (s mod 60) (nsec t)"
  have zone: "60 dvd zoneOffset t" "\<bar>zoneOffset t\<bar> < 86400" using assms by (simp_all add: rfc_time_def)
  have t: "?t = \<lparr>unixSec = loc, nsec = nsec t, zoneOffset = 0\<rparr>"
  proof -
    have "s div 3600 = s div 60 div 60" by (simp flip: div_mult2_eq)
    moreover have "s div 60 div 60 * 60 + s div 60 mod 60 = s div 60" "s div 60 * 60 + s mod 60 = s" by simp_all
    ultimately have "s div 3600 * 3600 + s div 60 mod 60 * 60 + s mod 60 = s" by linarith
    then have "int (s div 3600 * 3600 + s div 60 mod 60 * 60 + s mod 60) = loc mod 86400" using s(1) by simp
    then show ?thesis using cal y(3) by (simp add: Date_def)
  qed
  have frac: "split_fraction (frac_string (nsec t) @ ?z) = (nsec t, ?z)"
    by (rule fraction_zone) (use assms in \<open>auto simp: rfc_time_def zone_string_def Let_def is_digit_def\<close>)
  have "d \<le> 31" using cal by (auto simp: daysIn_def split: if_splits)
  then have "length (zpad 4 (nat y)) = 4" "length (zpad 2 m) = 2" "length (zpad 2 d) = 2" "length (zpad 2 (s div 3600)) = 2"
      "length (zpad 2 (s div 60 mod 60)) = 2" "length (zpad 2 (s mod 60)) = 2"
    using y(2) cal s(2) by (intro length_zpad; simp)+
  moreover have "parseUint (zpad 4 (nat y)) 0 9999 = Some (nat y)" "parseUint (zpad 2 m) 1 12 = Some m"
      "parseUint (zpad 2 d) 1 (daysIn m (int (nat y))) = Some d" "parseUint (zpad 2 (s div 3600)) 0 23 = Some (s div 3600)"
      "parseUint (zpad 2 (s div 60 mod 60)) 0 59 = Some (s div 60 mod 60)" "parseUint (zpad 2 (s mod 60)) 0 59 = Some (s mod 60)"
    using y cal s(2) by (intro parseUint_zpad; simp)+
  ultimately have p: "parseRFC3339 (zpad 4 (nat y) @ ''-'' @ zpad 2 m @ ''-'' @ zpad 2 d @ ''T'' @ zpad 2 (s div 3600) @ '':'' @
      zpad 2 (s div 60 mod 60) @ '':'' @ zpad 2 (s mod 60) @ frac_string (nsec t) @ ?z) = Some t"
    using parseRFC3339_fields [OF _ _ _ _ _ _ _ _ _ _ _ _ frac] zone_string_parsed [OF zone] by (simp add: t in_zone_def loc_def)
  have "RFC3339Nano t = zpad 4 (nat y) @ ''-'' @ zpad 2 m @ ''-'' @ zpad 2 d @ ''T'' @ zpad 2 (s div 3600) @ '':'' @
      zpad 2 (s div 60 mod 60) @ '':'' @ zpad 2 (s mod 60) @ frac_string (nsec t) @ ?z"
    using y(1) c by (simp add: RFC3339Nano_def Let_def loc_def s_def year_string_def)
  with p show ?thesis by (simp add: ParseTime_def)
qed

section \<open>The fast path is only fast\<close>

text \<open>Whatever the fast path accepts, the general parser reads as the same time.\<close>

lemma parseUint_Some: "parseUint x lo hi = Some n \<longleftrightarrow> list_all is_digit x \<and> n = num_val 10 x \<and> lo \<le> n \<and> n \<le> hi"
  by (auto simp: parseUint_def Let_def)

lemma expect_drop: "k < length s \<Longrightarrow> expect (s ! k) (drop k s) = Some (drop (Suc k) s)"
  by (simp add: expect_def flip: Cons_nth_drop_Suc)

lemma getnum_digits: "2 \<le> length s \<Longrightarrow> list_all is_digit (take 2 s) \<Longrightarrow> getnum f s = Some (num_val 10 (take 2 s), drop 2 s)"
  by (cases s; cases "tl s") (auto simp: getnum_def)

lemma in_range_ok: "lo \<le> n \<Longrightarrow> n \<le> hi \<Longrightarrow> in_range lo hi n = Some ()"
  by (simp add: in_range_def)

lemma zone_general:
  assumes "rfc_zone z t = Some t'" "zoneOffset t = 0"
  shows "\<exists>off. parse_zone z = Some (off, []) \<and> t' = in_zone off t" "hd z \<noteq> CHR ''.''" "hd z \<noteq> CHR '',''"
proof -
  have "(\<exists>off. parse_zone z = Some (off, []) \<and> t' = in_zone off t) \<and> hd z \<noteq> CHR ''.'' \<and> hd z \<noteq> CHR '',''"
  proof (cases "z = ''Z''")
    case True
    then show ?thesis using assms by (auto simp: rfc_zone_def parse_zone_def in_zone_def)
  next
    case False
    then obtain hr mm where z: "length z = 6" "parseUint (take 2 (drop 1 z)) 0 23 = Some hr" "parseUint (take 2 (drop 4 z)) 0 59 = Some mm"
        "z ! 0 = CHR ''-'' \<or> z ! 0 = CHR ''+''" "z ! 3 = CHR '':''"
        "t' = in_zone (if z ! 0 = CHR ''-'' then - int ((hr * 60 + mm) * 60) else int ((hr * 60 + mm) * 60)) t"
      using assms(1) by (auto simp: rfc_zone_def Let_def split: if_splits bind_splits)
    have "z \<noteq> []" using z(1) by auto
    then have h: "hd z = z ! 0" "z \<noteq> []" by (simp_all add: hd_conv_nth)
    have "getnum True (take 2 (drop 1 z)) = Some (hr, [])" "getnum True (take 2 (drop 4 z)) = Some (mm, [])"
      using z(1-3) by (simp_all add: getnum_digits parseUint_Some)
    moreover have "in_range 0 24 hr = Some ()" "in_range 0 60 mm = Some ()"
      using z(2,3) by (simp_all add: in_range_ok parseUint_Some)
    ultimately show ?thesis using z h by (auto simp: parse_zone_def Let_def)
  qed
  then show "\<exists>off. parse_zone z = Some (off, []) \<and> t' = in_zone off t" "hd z \<noteq> CHR ''.''" "hd z \<noteq> CHR '',''" by blast+
qed

lemma fast_path_agrees:
  assumes "parseRFC3339 s = Some t"
  shows "parse_layout s = Some t"
proof -
  obtain year mon day hour mi sec where f: "\<not> length s < 19" "parseUint (take 4 s) 0 9999 = Some year"
      "parseUint (take 2 (drop 5 s)) 1 12 = Some mon" "parseUint (take 2 (drop 8 s)) 1 (daysIn mon (int year)) = Some day"
      "parseUint (take 2 (drop 11 s)) 0 23 = Some hour" "parseUint (take 2 (drop 14 s)) 0 59 = Some mi"
      "parseUint (take 2 (drop 17 s)) 0 59 = Some sec"
      "s ! 4 = CHR ''-''" "s ! 7 = CHR ''-''" "s ! 10 = CHR ''T''" "s ! 13 = CHR '':''" "s ! 16 = CHR '':''"
    and z: "(let (ns, z) = split_fraction (drop 19 s) in rfc_zone z (Date year mon day hour mi sec ns)) = Some t"
    using assms by (auto simp: parseRFC3339_def split: if_splits bind_splits)
  obtain ns z where sf: "split_fraction (drop 19 s) = (ns, z)" by fastforce
  have zone: "rfc_zone z (Date year mon day hour mi sec ns) = Some t" using z sf by simp
  have t0: "zoneOffset (Date year mon day hour mi sec ns) = 0" by (simp add: Date_def)
  obtain off where off: "parse_zone z = Some (off, [])" "t = in_zone off (Date year mon day hour mi sec ns)"
    using zone_general(1) [OF zone t0] by blast
  have "split_comma (drop 19 s) = (ns, z)"
    using sf zone_general(3) [OF zone t0] by (auto simp: split_fraction_def split_comma_def hd_conv_nth split: if_splits)
  moreover have "expect (CHR ''-'') (drop 4 s) = Some (drop 5 s)" "expect (CHR ''-'') (drop 7 s) = Some (drop 8 s)"
      "expect (CHR ''T'') (drop 10 s) = Some (drop 11 s)" "expect (CHR '':'') (drop 13 s) = Some (drop 14 s)"
      "expect (CHR '':'') (drop 16 s) = Some (drop 17 s)"
    using expect_drop [of 4 s] expect_drop [of 7 s] expect_drop [of 10 s] expect_drop [of 13 s] expect_drop [of 16 s] f by simp_all
  moreover have "getnum True (drop 5 s) = Some (mon, drop 7 s)" "getnum True (drop 8 s) = Some (day, drop 10 s)"
      "getnum False (drop 11 s) = Some (hour, drop 13 s)" "getnum True (drop 14 s) = Some (mi, drop 16 s)"
      "getnum True (drop 17 s) = Some (sec, drop 19 s)"
    using f by (simp_all add: getnum_digits parseUint_Some)
  moreover have "in_range 1 12 mon = Some ()" "in_range 0 23 hour = Some ()" "in_range 0 59 mi = Some ()" "in_range 0 59 sec = Some ()"
      "in_range 1 (daysIn mon (int year)) day = Some ()" "list_all is_digit (take 4 s)" "num_val 10 (take 4 s) = year"
    using f by (simp_all add: in_range_ok parseUint_Some)
  ultimately show ?thesis using f(1) off unfolding parse_layout_def by simp
qed

lemma ParseTime_layout: "ParseTime s = parse_layout s"
  by (simp add: ParseTime_def fast_path_agrees split: option.split)

end
