(* ===== verification/Utf8.thy ===== *)
theory Utf8
  imports Net_IP
begin

text \<open>
  What the program uses of the standard library's treatment of text: decoding a string as UTF-8
  (\<^verbatim>\<open>utf8.DecodeRuneInString\<close>) and Go's quoted form of a string (\<^verbatim>\<open>strconv.Quote\<close>, the verb \<^verbatim>\<open>%q\<close>). A string is
  its bytes. Which characters beyond ASCII are printable is a table of the library and the parameter
  \<open>isPrint\<close>.
\<close>

section \<open>Runes\<close>

definition RuneError :: nat where [simp]: "RuneError = 0xFFFD"

text \<open>How a leading byte continues: number of continuation bytes and the range of the first of them.\<close>

definition sequence_of :: "nat \<Rightarrow> (nat \<times> nat \<times> nat) option" where
  "sequence_of a =
     (if a < 0xC2 then None
      else if a \<le> 0xDF then Some (1, 0x80, 0xBF)
      else if a = 0xE0 then Some (2, 0xA0, 0xBF)
      else if a = 0xED then Some (2, 0x80, 0x9F)
      else if a \<le> 0xEF then Some (2, 0x80, 0xBF)
      else if a = 0xF0 then Some (3, 0x90, 0xBF)
      else if a \<le> 0xF3 then Some (3, 0x80, 0xBF)
      else if a = 0xF4 then Some (3, 0x80, 0x8F)
      else None)"

definition continuation :: "char \<Rightarrow> bool" where
  "continuation c \<longleftrightarrow> 0x80 \<le> (of_char c :: nat) \<and> (of_char c :: nat) \<le> 0xBF"

text \<open>The rune at the start of a string and the number of bytes it takes.\<close>

definition decode_rune :: "string \<Rightarrow> nat \<times> nat" where
  "decode_rune s = (case s of [] \<Rightarrow> (RuneError, 0)
     | c # cs \<Rightarrow>
         let a = of_char c in
         if a < 0x80 then (a, 1)
         else (case sequence_of a of None \<Rightarrow> (RuneError, 1)
               | Some (n, lo, hi) \<Rightarrow>
                   if length cs < n then (RuneError, 1)
                   else if \<not> (lo \<le> of_char (cs ! 0) \<and> of_char (cs ! 0) \<le> hi) then (RuneError, 1)
                   else if \<not> list_all continuation (take n cs) then (RuneError, 1)
                   else (foldl (\<lambda>r d. 64 * r + of_char d mod 64) (a mod 2 ^ (6 - n)) (take n cs), n + 1)))"

lemma decode_rune_size: "s \<noteq> [] \<Longrightarrow> 0 < snd (decode_rune s) \<and> snd (decode_rune s) \<le> length s"
  by (auto simp: decode_rune_def Let_def split: list.split option.split)

section \<open>strconv.Quote\<close>

definition hex_digits :: "nat \<Rightarrow> nat \<Rightarrow> string" where
  "hex_digits w n = map (\<lambda>i. digit_char (n div 16 ^ (w - 1 - i) mod 16)) [0..<w]"

definition short_escape :: "nat \<Rightarrow> char option" where
  "short_escape r = map_of [(7, CHR ''a''), (8, CHR ''b''), (12, CHR ''f''), (10, CHR ''n''), (13, CHR ''r''),
     (9, CHR ''t''), (11, CHR ''v'')] r"

definition escaped_rune :: "(nat \<Rightarrow> bool) \<Rightarrow> nat \<Rightarrow> string \<Rightarrow> string" where
  "escaped_rune isPrint r raw =
     (if r = 34 \<or> r = 92 then CHR 0x5C # raw
      else if (if r < 0x80 then 0x20 \<le> r \<and> r < 0x7F else isPrint r) then raw
      else case short_escape r of
             Some c \<Rightarrow> [CHR 0x5C, c]
           | None \<Rightarrow>
               if r < 0x20 \<or> r = 0x7F then CHR 0x5C # CHR ''x'' # hex_digits 2 r
               else if r < 0x10000 then CHR 0x5C # CHR ''u'' # hex_digits 4 r
               else CHR 0x5C # CHR ''U'' # hex_digits 8 r)"

function quoted :: "(nat \<Rightarrow> bool) \<Rightarrow> string \<Rightarrow> string" where
  "quoted isPrint s =
     (if s = [] then []
      else let (r, width) = decode_rune s in
        (if r = RuneError \<and> width = 1 then CHR 0x5C # CHR ''x'' # hex_digits 2 (of_char (hd s))
         else escaped_rune isPrint r (take width s)) @ quoted isPrint (drop width s))"
  by pat_completeness auto
termination
proof (relation "measure (length \<circ> snd)", goal_cases)
  case (2 isPrint s x xa y)
  then show ?case using decode_rune_size [of s] by (cases "decode_rune s") auto
qed simp

declare quoted.simps [simp del]

definition Quote :: "(nat \<Rightarrow> bool) \<Rightarrow> string \<Rightarrow> string" where
  "Quote isPrint s = CHR 0x22 # quoted isPrint s @ [CHR 0x22]"

section \<open>A quoted string stays on its line\<close>

lemma hex_digits_num: "c \<in> set (hex_digits w n) \<Longrightarrow> num_char c"
  by (auto simp: hex_digits_def intro: num_char_digit)

lemma newline_not_num [simp]: "\<not> num_char (CHR 0x0A)" "\<not> num_char (CHR 0x22)"
  by (simp_all add: num_char_def Let_def)

text \<open>The bytes of a rune: a rune below 128 is its own byte, the bytes of another are all at least 128.\<close>

lemma decode_rune_bytes:
  assumes "decode_rune s = (r, w)" "s \<noteq> []" "c \<in> set (take w s)" "(of_char c :: nat) < 0x80"
  shows "r = of_char c \<and> w = 1 \<or> r = RuneError \<and> w = 1"
proof (cases s)
  case (Cons a cs)
  have "\<not> continuation c" using assms(4) by (simp add: continuation_def)
  then have "\<not> list_all continuation (take n cs)" if "c \<in> set (take n cs)" for n
    using that by (auto simp: list_all_iff)
  then show ?thesis using assms Cons
    by (auto simp: decode_rune_def Let_def split: if_splits option.splits prod.splits)
qed (use assms in simp)

lemma escaped_rune_line:
  assumes "decode_rune s = (r, w)" "s \<noteq> []" "\<not> (r = RuneError \<and> w = 1)"
  shows "CHR 0x0A \<notin> set (escaped_rune isPrint r (take w s))"
proof
  assume nl: "CHR 0x0A \<in> set (escaped_rune isPrint r (take w s))"
  then have "CHR 0x0A \<in> set (take w s)" and "r \<noteq> 10"
    by (auto simp: escaped_rune_def short_escape_def split: if_splits option.splits dest: hex_digits_num)
  with decode_rune_bytes [OF assms(1,2), of "CHR 0x0A"] assms(3) show False by auto
qed

lemma quoted_line: "CHR 0x0A \<notin> set (quoted isPrint s)"
proof (induction isPrint s rule: quoted.induct)
  case (1 isPrint s)
  show ?case
  proof (cases "s = []")
    case False
    obtain r w where d: "decode_rune s = (r, w)" by fastforce
    have "CHR 0x0A \<notin> set (if r = RuneError \<and> w = 1 then CHR 0x5C # CHR ''x'' # hex_digits 2 (of_char (hd s))
         else escaped_rune isPrint r (take w s))"
      using escaped_rune_line [OF d False] hex_digits_num [of "CHR 0x0A"] by (auto split: if_splits)
    with 1 [OF False d [symmetric]] False d show ?thesis
      by (subst quoted.simps) (simp del: RuneError_def)
  qed (simp add: quoted.simps)
qed

lemma Quote_line: "CHR 0x0A \<notin> set (Quote isPrint s)"
  using quoted_line by (simp add: Quote_def)

end
