(* ===== verification/Json.thy ===== *)
theory Json
  imports Utf8 Strconv Net_Parse
begin

text \<open>
  JSON as the programs use it, after the standard library's \<^verbatim>\<open>encoding/json\<close>: the grammar of the scanner
  with its limit on nesting, the unquoting of strings, the writing of values (compact, and indented as
  the collector does), and the rules by which members of an object are stored into the fields of a
  struct. A number keeps its literal, since the target type decides how it is read. The main result is
  that reading what was written gives the value back, every byte that is not valid UTF-8 replaced.
\<close>

section \<open>Values\<close>

datatype json = JNull | JBool bool | JNum string | JStr string | JArr "json list" | JObj "(string \<times> json) list"

section \<open>Strings\<close>

definition encode_rune :: "nat \<Rightarrow> string" where
  "encode_rune r =
     map char_of (if r < 0x80 then [r]
      else if r < 0x800 then [0xC0 + r div 64, 0x80 + r mod 64]
      else if r < 0x10000 then [0xE0 + r div 4096, 0x80 + r div 64 mod 64, 0x80 + r mod 64]
      else [0xF0 + r div 262144, 0x80 + r div 4096 mod 64, 0x80 + r div 64 mod 64, 0x80 + r mod 64])"

definition bad_rune :: string where
  "bad_rune = encode_rune RuneError"

definition hex_value :: "char \<Rightarrow> nat option" where
  "hex_value c = (let n = of_char c in
     if 48 \<le> n \<and> n \<le> 57 then Some (n - 48)
     else if 97 \<le> n \<and> n \<le> 102 then Some (n - 87)
     else if 65 \<le> n \<and> n \<le> 70 then Some (n - 55)
     else None)"

text \<open>\<^verbatim>\<open>getu4\<close>: the code unit of a \<^verbatim>\<open>\u\<close> escape at the start of the text.\<close>

definition getu4 :: "string \<Rightarrow> nat option" where
  "getu4 s =
     (case s of
        b # u # h1 # h2 # h3 # h4 # _ \<Rightarrow>
          if b = CHR 0x5C \<and> u = CHR ''u'' then do {
            a \<leftarrow> hex_value h1; b \<leftarrow> hex_value h2; c \<leftarrow> hex_value h3; d \<leftarrow> hex_value h4;
            Some (((a * 16 + b) * 16 + c) * 16 + d) }
          else None
      | _ \<Rightarrow> None)"

definition simple_escape :: "char \<Rightarrow> char option" where
  "simple_escape c = map_of [(CHR 0x22, CHR 0x22), (CHR 0x5C, CHR 0x5C), (CHR ''/'', CHR ''/''), (CHR ''b'', CHR 0x08),
     (CHR ''f'', CHR 0x0C), (CHR ''n'', CHR 0x0A), (CHR ''r'', CHR 0x0D), (CHR ''t'', CHR 0x09)] c"

text \<open>One step of \<^verbatim>\<open>unquote\<close>: the bytes produced and how many were read. Two escaped surrogates that belong
  together make one rune; any other surrogate, and a byte that is not UTF-8, is replaced.\<close>

definition unquote_step :: "string \<Rightarrow> (string \<times> nat) option" where
  "unquote_step s =
     (if hd s = CHR 0x5C then
        (case s of
           _ # e # _ \<Rightarrow>
             if e = CHR ''u'' then
               (case getu4 s of
                  None \<Rightarrow> None
                | Some r \<Rightarrow>
                    if 0xD800 \<le> r \<and> r < 0xE000 then
                      (case getu4 (drop 6 s) of
                         Some r1 \<Rightarrow>
                           if r < 0xDC00 \<and> 0xDC00 \<le> r1 \<and> r1 < 0xE000
                           then Some (encode_rune ((r - 0xD800) * 1024 + (r1 - 0xDC00) + 0x10000), 12)
                           else Some (bad_rune, 6)
                       | None \<Rightarrow> Some (bad_rune, 6))
                    else Some (encode_rune r, 6))
             else map_option (\<lambda>b. ([b], 2)) (simple_escape e)
         | _ \<Rightarrow> None)
      else if (of_char (hd s) :: nat) < 0x20 then None
      else let (r, w) = decode_rune s in
        Some (if r = RuneError \<and> w = 1 then bad_rune else take w s, w))"

lemma unquote_step_pos: "unquote_step s = Some (out, w) \<Longrightarrow> s \<noteq> [] \<Longrightarrow> 0 < w"
  using decode_rune_size [of s]
  by (auto simp: unquote_step_def split: if_splits list.splits option.splits prod.splits)

text \<open>The rest of a string after its opening quote: its bytes and what follows the closing quote.\<close>

function str_body :: "string \<Rightarrow> (string \<times> string) option" where
  "str_body s =
     (if s = [] then None
      else if hd s = CHR 0x22 then Some ([], tl s)
      else case unquote_step s of
        None \<Rightarrow> None
      | Some (out, w) \<Rightarrow> (case str_body (drop w s) of None \<Rightarrow> None | Some (out', rest) \<Rightarrow> Some (out @ out', rest)))"
  by pat_completeness auto
termination
proof (relation "measure length", goal_cases)
  case (2 s x out w)
  then have "0 < w" by (auto dest: unquote_step_pos)
  with 2 show ?case by simp
qed simp

declare str_body.simps [simp del]

section \<open>The grammar\<close>

definition is_space :: "char \<Rightarrow> bool" where
  "is_space c \<longleftrightarrow> c = CHR '' '' \<or> c = CHR 0x09 \<or> c = CHR 0x0D \<or> c = CHR 0x0A"

definition skip :: "string \<Rightarrow> string" where
  "skip = dropWhile is_space"

text \<open>The optional parts of a number: \<open>None\<close> when a part has begun and no digit follows.\<close>

definition digits_after :: "string \<Rightarrow> string \<Rightarrow> (string \<times> string) option" where
  "digits_after pre s =
     (let ds = takeWhile is_digit s in if ds = [] then None else Some (pre @ ds, drop (length ds) s))"

definition fraction_part :: "string \<Rightarrow> (string \<times> string) option" where
  "fraction_part s = (if s \<noteq> [] \<and> hd s = CHR ''.'' then digits_after ''.'' (tl s) else Some ([], s))"

definition exponent_part :: "string \<Rightarrow> (string \<times> string) option" where
  "exponent_part s =
     (if s \<noteq> [] \<and> (hd s = CHR ''e'' \<or> hd s = CHR ''E'') then
        if tl s \<noteq> [] \<and> (hd (tl s) = CHR ''+'' \<or> hd (tl s) = CHR ''-'')
        then digits_after [hd s, hd (tl s)] (tl (tl s))
        else digits_after [hd s] (tl s)
      else Some ([], s))"

definition integer_part :: "string \<Rightarrow> (string \<times> string) option" where
  "integer_part s =
     (if s \<noteq> [] \<and> hd s = CHR ''0'' then Some (''0'', tl s) else digits_after [] s)"

definition number :: "string \<Rightarrow> (json \<times> string) option" where
  "number s = do {
     let sign = (if hd s = CHR ''-'' then ''-'' else []);
     (i, s1) \<leftarrow> integer_part (if hd s = CHR ''-'' then tl s else s);
     (f, s2) \<leftarrow> fraction_part s1;
     (e, s3) \<leftarrow> exponent_part s2;
     Some (JNum (sign @ i @ f @ e), s3) }"

definition keyword_at :: "string \<Rightarrow> json \<Rightarrow> string \<Rightarrow> (json \<times> string) option" where
  "keyword_at w v s = (if take (length w) s = w then Some (v, drop (length w) s) else None)"

text \<open>The elements of an array and the members of an object after the opening bracket, when it is not
  empty; \<open>p\<close> reads a value. Every element takes a character at least, so the length of the text is fuel
  enough.\<close>

fun elements :: "(string \<Rightarrow> (json \<times> string) option) \<Rightarrow> nat \<Rightarrow> string \<Rightarrow> (json list \<times> string) option" where
  "elements p 0 s = None"
| "elements p (Suc k) s =
     (case p s of
        None \<Rightarrow> None
      | Some (v, s1) \<Rightarrow>
          (case skip s1 of
             [] \<Rightarrow> None
           | c # s2 \<Rightarrow>
               if c = CHR '','' then map_option (\<lambda>(vs, s3). (v # vs, s3)) (elements p k s2)
               else if c = CHR '']'' then Some ([v], s2)
               else None))"

fun members :: "(string \<Rightarrow> (json \<times> string) option) \<Rightarrow> nat \<Rightarrow> string \<Rightarrow> ((string \<times> json) list \<times> string) option" where
  "members p 0 s = None"
| "members p (Suc k) s =
     (case skip s of
        [] \<Rightarrow> None
      | q # s0 \<Rightarrow>
          if q \<noteq> CHR 0x22 then None
          else (case str_body s0 of
             None \<Rightarrow> None
           | Some (key, s1) \<Rightarrow>
               (case skip s1 of
                  [] \<Rightarrow> None
                | c # s2 \<Rightarrow>
                    if c \<noteq> CHR '':'' then None
                    else (case p s2 of
                       None \<Rightarrow> None
                     | Some (v, s3) \<Rightarrow>
                         (case skip s3 of
                            [] \<Rightarrow> None
                          | c # s4 \<Rightarrow>
                              if c = CHR '','' then map_option (\<lambda>(ms, s5). ((key, v) # ms, s5)) (members p k s4)
                              else if c = CHR ''}'' then Some ([(key, v)], s4)
                              else None)))))"

text \<open>An array or an object; \<open>p\<close> reads the values inside.\<close>

definition container :: "(string \<Rightarrow> (json \<times> string) option) \<Rightarrow> string \<Rightarrow> (json \<times> string) option" where
  "container p s =
     (let inner = skip (tl s) in
      if hd s = CHR ''['' then
        if inner \<noteq> [] \<and> hd inner = CHR '']'' then Some (JArr [], tl inner)
        else map_option (\<lambda>(vs, r). (JArr vs, r)) (elements p (length s) inner)
      else
        if inner \<noteq> [] \<and> hd inner = CHR ''}'' then Some (JObj [], tl inner)
        else map_option (\<lambda>(ms, r). (JObj ms, r)) (members p (length s) inner))"

definition scalar :: "string \<Rightarrow> (json \<times> string) option" where
  "scalar s =
     (if hd s = CHR 0x22 then map_option (\<lambda>(t, r). (JStr t, r)) (str_body (tl s))
      else if hd s = CHR ''t'' then keyword_at ''true'' (JBool True) s
      else if hd s = CHR ''f'' then keyword_at ''false'' (JBool False) s
      else if hd s = CHR ''n'' then keyword_at ''null'' JNull s
      else if hd s = CHR ''-'' \<or> is_digit (hd s) then number s
      else None)"

definition opens :: "string \<Rightarrow> bool" where
  "opens s \<longleftrightarrow> s \<noteq> [] \<and> (hd s = CHR ''['' \<or> hd s = CHR ''{'')"

text \<open>A value at the start of a text, after white space; the number counts the levels of nesting left.\<close>

primrec json_value :: "nat \<Rightarrow> string \<Rightarrow> (json \<times> string) option" where
  "json_value 0 s = (if skip s = [] \<or> opens (skip s) then None else scalar (skip s))"
| "json_value (Suc d) s =
     (if skip s = [] then None
      else if opens (skip s) then container (json_value d) (skip s)
      else scalar (skip s))"

definition maxNestingDepth :: nat where
  "maxNestingDepth = 10000"

text \<open>\<^verbatim>\<open>json.Unmarshal\<close> wants the whole text to be one value; \<^verbatim>\<open>Decoder.Decode\<close> reads one value and leaves the rest.\<close>

definition readJSON :: "string \<Rightarrow> json option" where
  "readJSON s = (case json_value maxNestingDepth s of None \<Rightarrow> None | Some (v, r) \<Rightarrow> if skip r = [] then Some v else None)"

definition decodeJSON :: "string \<Rightarrow> json option" where
  "decodeJSON s = map_option fst (json_value maxNestingDepth s)"

section \<open>Writing\<close>

definition escape_ascii :: "nat \<Rightarrow> string" where
  "escape_ascii r =
     (if r = 0x22 \<or> r = 0x5C then [CHR 0x5C, char_of r]
      else case map_of [(8, CHR ''b''), (12, CHR ''f''), (10, CHR ''n''), (13, CHR ''r''), (9, CHR ''t'')] r of
        Some c \<Rightarrow> [CHR 0x5C, c]
      | None \<Rightarrow>
          if r < 0x20 \<or> r = 0x3C \<or> r = 0x3E \<or> r = 0x26 then CHR 0x5C # CHR ''u'' # hex_digits 4 r
          else [char_of r])"

text \<open>One step of \<^verbatim>\<open>appendString\<close>: the rune at the start, written. Characters that HTML gives a meaning to and
  the two line separators of Unicode are escaped, a byte that is not UTF-8 is written as U+FFFD.\<close>

definition escape_step :: "nat \<Rightarrow> nat \<Rightarrow> string \<Rightarrow> string" where
  "escape_step r w s =
     (if r = RuneError \<and> w = 1 then CHR 0x5C # CHR ''u'' # hex_digits 4 RuneError
      else if r < 0x80 then escape_ascii r
      else if r = 0x2028 \<or> r = 0x2029 then CHR 0x5C # CHR ''u'' # hex_digits 4 r
      else take w s)"

text \<open>Both the written string and the string a reader makes of it go rune by rune.\<close>

function runes :: "(nat \<Rightarrow> nat \<Rightarrow> string \<Rightarrow> string) \<Rightarrow> string \<Rightarrow> string" where
  "runes f s = (if s = [] then [] else let (r, w) = decode_rune s in f r w s @ runes f (drop w s))"
  by pat_completeness auto
termination
proof (relation "measure (length \<circ> snd)", goal_cases)
  case (2 f s x xa y)
  then show ?case using decode_rune_size [of s] by (cases "decode_rune s") auto
qed simp

declare runes.simps [simp del]

definition json_string :: "string \<Rightarrow> string" where
  "json_string s = CHR 0x22 # runes escape_step s @ [CHR 0x22]"

definition to_valid :: "string \<Rightarrow> string" where
  "to_valid = runes (\<lambda>r w s. if r = RuneError \<and> w = 1 then bad_rune else take w s)"

text \<open>A line break with its indentation, when the writer indents.\<close>

definition newline :: "bool \<Rightarrow> nat \<Rightarrow> string" where
  "newline ind n = (if ind then CHR 0x0A # replicate (2 * n) (CHR '' '') else [])"

definition colon :: "bool \<Rightarrow> string" where
  "colon ind = (if ind then '': '' else '':'')"

fun print_json :: "bool \<Rightarrow> nat \<Rightarrow> json \<Rightarrow> string" where
  "print_json ind n JNull = ''null''"
| "print_json ind n (JBool b) = (if b then ''true'' else ''false'')"
| "print_json ind n (JNum l) = l"
| "print_json ind n (JStr s) = json_string s"
| "print_json ind n (JArr vs) =
     (if vs = [] then ''[]''
      else ''['' @ join '','' (map (\<lambda>v. newline ind (n + 1) @ print_json ind (n + 1) v) vs) @ newline ind n @ '']'')"
| "print_json ind n (JObj ms) =
     (if ms = [] then ''{}''
      else ''{'' @ join '','' (map (\<lambda>(k, v). newline ind (n + 1) @ json_string k @ colon ind @ print_json ind (n + 1) v) ms) @
        newline ind n @ ''}'')"

text \<open>\<^verbatim>\<open>json.Marshal\<close>, and \<^verbatim>\<open>Encoder.Encode\<close> after \<^verbatim>\<open>SetIndent("", "  ")\<close>.\<close>

definition writeCompact :: "json \<Rightarrow> string" where
  "writeCompact v = print_json False 0 v"

definition writeIndented :: "json \<Rightarrow> string" where
  "writeIndented v = print_json True 0 v @ [CHR 0x0A]"

section \<open>Decoding into Go values\<close>

text \<open>\<^verbatim>\<open>null\<close> leaves the zero value and is no error; a value of another kind is an error.\<close>

definition asString :: "json \<Rightarrow> string option" where
  "asString j = (case j of JStr s \<Rightarrow> Some s | JNull \<Rightarrow> Some [] | _ \<Rightarrow> None)"

definition asArray :: "json \<Rightarrow> json list option" where
  "asArray j = (case j of JArr xs \<Rightarrow> Some xs | JNull \<Rightarrow> Some [] | _ \<Rightarrow> None)"

definition asStrings :: "json \<Rightarrow> string list option" where
  "asStrings j = Option.bind (asArray j) (\<lambda>xs. collect (map asString xs))"

definition asPairs :: "json \<Rightarrow> string list list option" where
  "asPairs j = Option.bind (asArray j) (\<lambda>xs. collect (map asStrings xs))"

definition asRows :: "json \<Rightarrow> json list list option" where
  "asRows j = Option.bind (asArray j) (\<lambda>xs. collect (map asArray xs))"

text \<open>The literal of a number is read at the width of the field; fractions and exponents are refused.\<close>

definition asUint :: "json \<Rightarrow> 'a::len word option" where
  "asUint j = (case j of
       JNum l \<Rightarrow> (case ParseUint10 l of
           Some n \<Rightarrow> if n < 2 ^ LENGTH('a) then Some (of_nat n) else None
         | None \<Rightarrow> None)
     | JNull \<Rightarrow> Some 0 | _ \<Rightarrow> None)"

definition asInt64 :: "json \<Rightarrow> u64 option" where
  "asInt64 j = (case j of JNum l \<Rightarrow> map_option of_int (ParseInt10 l) | JNull \<Rightarrow> Some 0 | _ \<Rightarrow> None)"

definition asBool :: "json \<Rightarrow> bool option" where
  "asBool j = (case j of JBool b \<Rightarrow> Some b | JNull \<Rightarrow> Some False | _ \<Rightarrow> None)"

text \<open>Keys are compared up to case; the long s (U+017F) and the Kelvin sign (U+212A) fold to ASCII letters.\<close>

function fold_key :: "string \<Rightarrow> string" where
  "fold_key s =
     (case s of
        [] \<Rightarrow> []
      | c # cs \<Rightarrow>
          if take 2 s = [CHR 0xC5, CHR 0xBF] then CHR ''s'' # fold_key (drop 2 s)
          else if take 3 s = [CHR 0xE2, CHR 0x84, CHR 0xAA] then CHR ''k'' # fold_key (drop 3 s)
          else lower_case c # fold_key cs)"
  by pat_completeness auto
termination
  by (relation "measure length") auto

declare fold_key.simps [simp del]

text \<open>The values for a field, in the order of the text. Every one of them is decoded, and an error in any
  is an error; the last decides. For a slice \<^verbatim>\<open>null\<close> empties it, for the other types it changes nothing.\<close>

definition values_of :: "string \<Rightarrow> (string \<times> json) list \<Rightarrow> json list" where
  "values_of name ms = map snd (filter (\<lambda>(k, v). fold_key k = name) ms)"

definition slice_field :: "(json \<Rightarrow> 'a list option) \<Rightarrow> string \<Rightarrow> (string \<times> json) list \<Rightarrow> 'a list option" where
  "slice_field dec name ms = map_option (\<lambda>xs. if xs = [] then [] else last xs) (collect (map dec (values_of name ms)))"

definition scalar_field :: "(json \<Rightarrow> 'a option) \<Rightarrow> string \<Rightarrow> (string \<times> json) list \<Rightarrow> 'a option" where
  "scalar_field dec name ms =
     (case filter (\<lambda>v. v \<noteq> JNull) (values_of name ms) of
        [] \<Rightarrow> dec JNull
      | vs \<Rightarrow> map_option last (collect (map dec vs)))"

section \<open>Strings read back\<close>

lemma hex_value_digit [simp]: "d < 16 \<Longrightarrow> hex_value (digit_char d) = Some d"
  by (simp add: hex_value_def digit_char_def Let_def)

lemma hex_digits_4: "hex_digits 4 r = [digit_char (r div 4096 mod 16), digit_char (r div 256 mod 16), digit_char (r div 16 mod 16), digit_char (r mod 16)]"
  by (simp add: hex_digits_def upt_rec)

lemma hex_digits_4_value:
  assumes "(r :: nat) < 65536"
  shows "((r div 4096 mod 16 * 16 + r div 256 mod 16) * 16 + r div 16 mod 16) * 16 + r mod 16 = r"
proof -
  have "r div 16 div 16 = r div 256" "r div 256 div 16 = r div 4096" by (simp_all add: div_mult2_eq [symmetric])
  moreover have "r div 4096 mod 16 = r div 4096" using assms by simp
  ultimately show ?thesis
    using div_mult_mod_eq [of r 16] div_mult_mod_eq [of "r div 16" 16] div_mult_mod_eq [of "r div 256" 16] by simp
qed

lemma getu4_hex:
  assumes "r < 65536"
  shows "getu4 (CHR 0x5C # CHR ''u'' # hex_digits 4 r @ t) = Some r"
proof -
  have "hex_value (digit_char (n mod 16)) = Some (n mod 16)" for n by simp
  then show ?thesis unfolding getu4_def hex_digits_4 using hex_digits_4_value [OF assms] by (simp del: mod_less)
qed

definition prefix_body :: "string \<Rightarrow> (string \<times> string) option \<Rightarrow> (string \<times> string) option" where
  "prefix_body out b = map_option (\<lambda>(t, rest). (out @ t, rest)) b"

lemma str_body_step:
  assumes "s \<noteq> []" "hd s \<noteq> CHR 0x22" "unquote_step s = Some (out, w)"
  shows "str_body s = prefix_body out (str_body (drop w s))"
  using assms by (subst str_body.simps) (auto simp: prefix_body_def split: option.split)

lemma str_body_hex:
  assumes "r < 0xD800 \<or> 0xE000 \<le> r \<and> r < 0x10000"
  shows "str_body (CHR 0x5C # CHR ''u'' # hex_digits 4 r @ t) = prefix_body (encode_rune r) (str_body t)"
proof -
  have "unquote_step (CHR 0x5C # CHR ''u'' # hex_digits 4 r @ t) = Some (encode_rune r, 6)"
    using assms getu4_hex [of r t] by (auto simp: unquote_step_def)
  from str_body_step [OF _ _ this] show ?thesis by (simp add: hex_digits_4)
qed

lemma str_body_simple:
  "simple_escape c = Some b \<Longrightarrow> str_body (CHR 0x5C # c # t) = prefix_body [b] (str_body t)"
  using str_body_step [of "CHR 0x5C # c # t" "[b]" 2] by (cases "c = CHR ''u''") (auto simp: unquote_step_def simple_escape_def)

lemma str_body_raw:
  assumes "s \<noteq> []" "hd s \<noteq> CHR 0x22" "hd s \<noteq> CHR 0x5C" "0x20 \<le> (of_char (hd s) :: nat)"
    and "decode_rune s = (r, w)" "\<not> (r = RuneError \<and> w = 1)"
  shows "str_body s = prefix_body (take w s) (str_body (drop w s))"
  by (rule str_body_step) (use assms in \<open>auto simp: unquote_step_def\<close>)

lemma decode_rune_append:
  assumes "decode_rune s = (r, w)" "\<not> (r = RuneError \<and> w = 1)" "s \<noteq> []"
  shows "decode_rune (take w s @ t) = (r, w)"
proof (cases s)
  case (Cons c cs)
  show ?thesis
  proof (cases "(of_char c :: nat) < 0x80")
    case True
    then have "w = 1" "r = of_char c" using assms Cons by (auto simp: decode_rune_def Let_def)
    then show ?thesis using True Cons by (simp add: decode_rune_def Let_def)
  next
    case False
    with assms Cons obtain n lo hi where n: "sequence_of (of_char c) = Some (n, lo, hi)" "n \<le> length cs" "w = n + 1"
      "lo \<le> (of_char (cs ! 0) :: nat)" "of_char (cs ! 0) \<le> hi" "list_all continuation (take n cs)"
      "r = foldl (\<lambda>r d. 64 * r + of_char d mod 64) (of_char c mod 2 ^ (6 - n)) (take n cs)"
      by (auto simp: decode_rune_def Let_def split: option.splits if_splits prod.splits)
    moreover have "0 < n" using n(1) by (auto simp: sequence_of_def split: if_splits)
    moreover from this n(2) have "take n cs \<noteq> []" by auto
    ultimately show ?thesis using Cons False
      by (simp add: decode_rune_def Let_def nth_append min_absorb2)
  qed
qed (use assms in simp)

text \<open>The bytes of a rune that was decoded are its encoding.\<close>

lemma continuation_byte: "continuation c \<Longrightarrow> \<exists>y :: nat. y < 64 \<and> c = char_of (0x80 + y)"
proof -
  assume "continuation c"
  then have "of_char c = 0x80 + (of_char c - 0x80 :: nat)" "(of_char c - 0x80 :: nat) < 64" by (auto simp: continuation_def)
  then show ?thesis by (metis char_of_char)
qed

lemma mod64: "z < 64 \<Longrightarrow> (64 * k + z) mod 64 = (z :: nat)"
  by simp

lemma low_bits: "y < 64 \<Longrightarrow> (128 + y) mod 64 = (y :: nat)"
  using mod64 [of y 2] by simp

lemma encode_two: "2 \<le> (x :: nat) \<Longrightarrow> x < 32 \<Longrightarrow> y < 64 \<Longrightarrow> encode_rune (64 * x + y) = map char_of [0xC0 + x, 0x80 + y]"
  by (simp add: encode_rune_def)

lemma encode_three:
  assumes "x < 16" "y < 64" "z < 64" "0x800 \<le> 64 * (64 * x + y) + z"
  shows "encode_rune (64 * (64 * x + y) + z) = map char_of [0xE0 + x, 0x80 + y, 0x80 + z]"
proof -
  have d: "(64 * (64 * x + y) + z) div 64 = 64 * x + y" using assms by simp
  have "(64 * (64 * x + y) + z) div 4096 = (64 * (64 * x + y) + z) div 64 div 64" by (simp only: div_mult2_eq [symmetric]) simp
  then have "(64 * (64 * x + y) + z) div 4096 = x" unfolding d using assms by simp
  moreover have "(4096 * x + 64 * y + z) mod 64 = z" using mod64 [OF assms(3), of "64 * x + y"] by simp
  ultimately show ?thesis using assms d by (simp add: encode_rune_def)
qed

lemma encode_four:
  assumes "x < 8" "y < 64" "z < 64" "u < 64" "0x10000 \<le> 64 * (64 * (64 * x + y) + z) + u"
  shows "encode_rune (64 * (64 * (64 * x + y) + z) + u) = map char_of [0xF0 + x, 0x80 + y, 0x80 + z, 0x80 + u]"
proof -
  let ?r = "64 * (64 * (64 * x + y) + z) + u"
  have d: "?r div 64 = 64 * (64 * x + y) + z" using assms by simp
  have "?r div 4096 = ?r div 64 div 64" by (simp only: div_mult2_eq [symmetric]) simp
  then have e: "?r div 4096 = 64 * x + y" unfolding d using assms by simp
  have "?r div 262144 = ?r div 4096 div 64" by (simp only: div_mult2_eq [symmetric]) simp
  then have "?r div 262144 = x" unfolding e using assms by simp
  moreover have "(4096 * x + 64 * y + z) mod 64 = z" "(262144 * x + 4096 * y + 64 * z + u) mod 64 = u"
    using mod64 [OF assms(3), of "64 * x + y"] mod64 [OF assms(4), of "64 * (64 * x + y) + z"] by simp_all
  ultimately show ?thesis using assms d e by (simp add: encode_rune_def)
qed

lemma decode_rune_long:
  assumes "decode_rune s = (r, w)" "\<not> (r = RuneError \<and> w = 1)" "s \<noteq> []" "0x80 \<le> (of_char (hd s) :: nat)"
  shows "encode_rune r = take w s \<and> 0x80 \<le> r"
proof -
  obtain c cs where s: "s = c # cs" using assms(3) by (cases s) auto
  let ?a = "of_char c :: nat"
  from assms s obtain n lo hi where n: "sequence_of ?a = Some (n, lo, hi)" "n \<le> length cs" "w = n + 1"
    "lo \<le> (of_char (cs ! 0) :: nat)" "of_char (cs ! 0) \<le> hi" "list_all continuation (take n cs)"
    and r: "r = foldl (\<lambda>r d. 64 * r + of_char d mod 64) (?a mod 2 ^ (6 - n)) (take n cs)"
    by (auto simp: decode_rune_def Let_def split: option.splits if_splits prod.splits)
  have c: "c = char_of ?a" by simp
  consider "n = 1" | "n = 2" | "n = 3" using n(1) by (auto simp: sequence_of_def split: if_splits)
  then show ?thesis
  proof cases
    case 1
    then obtain d ds where cs: "cs = d # ds" using n(2) by (cases cs) auto
    obtain y :: nat where y: "y < 64" "d = char_of (0x80 + y)" using n(6) 1 cs continuation_byte by auto
    have a: "0xC2 \<le> ?a" "?a \<le> 0xDF" using n(1) 1 by (auto simp: sequence_of_def split: if_splits)
    then have m: "?a mod 32 = ?a - 0xC0" by (simp add: mod_if)
    have "r = 64 * (?a - 0xC0) + y" using r 1 cs y m low_bits by simp
    with a y encode_two [of "?a - 0xC0" y] show ?thesis using n(3) 1 s cs by simp
  next
    case 2
    then obtain d e ds where cs: "cs = d # e # ds" using n(2) by (cases cs; cases "tl cs") auto
    obtain y :: nat where y: "y < 64" "d = char_of (0x80 + y)" using n(6) 2 cs continuation_byte by (auto simp: numeral_2_eq_2)
    obtain z :: nat where z: "z < 64" "e = char_of (0x80 + z)" using n(6) 2 cs continuation_byte by (auto simp: numeral_2_eq_2)
    have a: "0xE0 \<le> ?a" "?a \<le> 0xEF" using n(1) 2 by (auto simp: sequence_of_def split: if_splits)
    then have m: "?a mod 16 = ?a - 0xE0" by (simp add: mod_if)
    have "0x20 \<le> y" if "?a = 0xE0" using n(1,4) 2 cs y that by (simp add: sequence_of_def)
    then have ge: "0x800 \<le> 64 * (64 * (?a - 0xE0) + y) + z" using a by (cases "?a = 0xE0") auto
    have "r = 64 * (64 * (?a - 0xE0) + y) + z" using r 2 cs y z m low_bits by simp
    with a y z ge encode_three [of "?a - 0xE0" y z] show ?thesis using n(3) 2 s cs by simp
  next
    case 3
    then obtain d e f ds where cs: "cs = d # e # f # ds" using n(2) by (cases cs; cases "tl cs"; cases "tl (tl cs)") auto
    have "continuation d" "continuation e" "continuation f" using n(6) 3 cs by (auto simp: numeral_3_eq_3)
    then obtain y z u :: nat where y: "y < 64" "d = char_of (0x80 + y)" and z: "z < 64" "e = char_of (0x80 + z)"
      and u: "u < 64" "f = char_of (0x80 + u)" using continuation_byte by metis
    have a: "0xF0 \<le> ?a" "?a \<le> 0xF4" using n(1) 3 by (auto simp: sequence_of_def split: if_splits)
    then have m: "?a mod 8 = ?a - 0xF0" by (simp add: mod_if)
    have "0x10 \<le> y" if "?a = 0xF0" using n(1,4) 3 cs y that by (simp add: sequence_of_def)
    then have ge: "0x10000 \<le> 64 * (64 * (64 * (?a - 0xF0) + y) + z) + u" using a by (cases "?a = 0xF0") auto
    have "r = 64 * (64 * (64 * (?a - 0xF0) + y) + z) + u" using r 3 cs y z u m low_bits by simp
    with a y z u ge encode_four [of "?a - 0xF0" y z u] show ?thesis using n(3) 3 s cs by simp
  qed
qed

lemma decode_rune_ascii:
  assumes "decode_rune s = (r, w)" "\<not> (r = RuneError \<and> w = 1)" "s \<noteq> []" "r < 0x80"
  shows "r = of_char (hd s) \<and> w = 1 \<and> take w s = [char_of r]"
proof -
  have "(of_char (hd s) :: nat) < 0x80" using decode_rune_long [OF assms(1-3)] assms(4) by force
  with assms show ?thesis by (cases s) (auto simp: decode_rune_def Let_def)
qed

lemma escaped_chars:
  "char_of (34 :: nat) = CHR 0x22" "char_of (92 :: nat) = CHR 0x5C" "char_of (8 :: nat) = CHR 0x08"
  "char_of (12 :: nat) = CHR 0x0C" "char_of (10 :: nat) = CHR 0x0A" "char_of (13 :: nat) = CHR 0x0D" "char_of (9 :: nat) = CHR 0x09"
  by code_simp+

lemma str_body_ascii:
  assumes "r < 0x80"
  shows "str_body (escape_ascii r @ t) = prefix_body [char_of r] (str_body t)"
proof (cases "escape_ascii r = [char_of r]")
  case True
  have r: "r \<noteq> 0x22" "r \<noteq> 0x5C" "0x20 \<le> r"
    using True by (auto simp: escape_ascii_def hex_digits_4 split: if_splits)
  have "decode_rune (char_of r # t) = (r, 1)" using assms by (simp add: decode_rune_def)
  moreover have "char_of r \<noteq> CHR 0x22" "char_of r \<noteq> CHR 0x5C"
    using r assms by (auto dest!: arg_cong [of _ _ "of_char :: char \<Rightarrow> nat"])
  ultimately show ?thesis using str_body_raw [of "char_of r # t" r 1] True r assms by simp
next
  case False
  have e: "encode_rune r = [char_of r]" using assms by (simp add: encode_rune_def)
  show ?thesis
    using False assms str_body_hex [of r t]
    by (auto simp: escape_ascii_def str_body_simple simple_escape_def e escaped_chars split: if_splits)
qed

lemma str_body_escape:
  assumes "s \<noteq> []" "decode_rune s = (r, w)"
  shows "str_body (escape_step r w s @ t) =
    prefix_body (if r = RuneError \<and> w = 1 then bad_rune else take w s) (str_body t)"
proof -
  consider (bad) "r = RuneError \<and> w = 1" | (ascii) "\<not> (r = RuneError \<and> w = 1)" "r < 0x80"
    | (sep) "r = 0x2028 \<or> r = 0x2029" | (raw) "\<not> (r = RuneError \<and> w = 1)" "0x80 \<le> r" "r \<noteq> 0x2028" "r \<noteq> 0x2029"
    by linarith
  then show ?thesis
  proof cases
    case bad
    then show ?thesis using str_body_hex [of RuneError t] by (simp add: escape_step_def bad_rune_def)
  next
    case ascii
    then show ?thesis using decode_rune_ascii [OF assms(2) _ assms(1)] str_body_ascii by (auto simp: escape_step_def)
  next
    case sep
    then have "\<not> (r = RuneError \<and> w = 1)" "0x80 \<le> (of_char (hd s) :: nat)"
      using assms by (auto simp: decode_rune_def Let_def split: list.splits if_splits)
    then have "encode_rune r = take w s" using decode_rune_long [OF assms(2) _ assms(1)] by blast
    with sep str_body_hex [of r t] show ?thesis by (auto simp: escape_step_def)
  next
    case raw
    have w: "0 < w" "w \<le> length s" using decode_rune_size [OF assms(1)] assms(2) by simp_all
    have h: "hd (take w s @ t) = hd s" using assms(1) w by (cases s; cases w) auto
    have c: "0x80 \<le> (of_char (hd s) :: nat)"
      using assms raw(2) by (auto simp: decode_rune_def Let_def split: list.splits if_splits)
    have "str_body (take w s @ t) = prefix_body (take w (take w s @ t)) (str_body (drop w (take w s @ t)))"
      by (rule str_body_raw [OF _ _ _ _ decode_rune_append [OF assms(2) raw(1) assms(1)] raw(1)])
        (use w assms(1) c h in auto)
    then show ?thesis using raw w by (auto simp: escape_step_def)
  qed
qed

lemma str_body_runes: "str_body (runes escape_step s @ CHR 0x22 # t) = Some (to_valid s, t)"
proof (induction s rule: measure_induct_rule [of length])
  case (less s)
  show ?case
  proof (cases "s = []")
    case True
    then show ?thesis by (simp add: runes.simps to_valid_def str_body.simps)
  next
    case False
    obtain r w where d: "decode_rune s = (r, w)" by fastforce
    then have "length (drop w s) < length s" using decode_rune_size [OF False] False by simp
    then have "str_body (runes escape_step (drop w s) @ CHR 0x22 # t) = Some (to_valid (drop w s), t)" by (rule less)
    then show ?thesis
      using False d str_body_escape [OF False d]
      by (simp add: runes.simps [of _ s] to_valid_def prefix_body_def)
  qed
qed

text \<open>Text that is valid UTF-8 is not changed; ASCII is.\<close>

definition valid_utf8 :: "string \<Rightarrow> bool" where
  "valid_utf8 s \<longleftrightarrow> to_valid s = s"

lemma valid_ascii: "list_all (\<lambda>c. (of_char c :: nat) < 0x80) s \<Longrightarrow> valid_utf8 s"
proof (induction s)
  case (Cons c s)
  then have "decode_rune (c # s) = (of_char c, 1)" by (simp add: decode_rune_def)
  with Cons show ?case by (simp add: valid_utf8_def to_valid_def runes.simps [of _ "c # s"])
qed (simp add: valid_utf8_def to_valid_def runes.simps)

lemma fold_ascii: "list_all (\<lambda>c. (of_char c :: nat) < 0x80) s \<Longrightarrow> fold_key s = map lower_case s"
proof (induction s)
  case (Cons c s)
  then have "c \<noteq> CHR 0xC5" "c \<noteq> CHR 0xE2" by auto
  with Cons show ?case by (simp add: fold_key.simps [of "c # s"])
qed (simp add: fold_key.simps)

section \<open>Values read back\<close>

definition ends_value :: "string \<Rightarrow> bool" where
  "ends_value r \<longleftrightarrow> r = [] \<or> \<not> is_digit (hd r) \<and> hd r \<notin> {CHR ''.'', CHR ''e'', CHR ''E''}"

definition number_literal :: "string \<Rightarrow> bool" where
  "number_literal l \<longleftrightarrow> l \<noteq> [] \<and> (hd l = CHR ''-'' \<or> is_digit (hd l)) \<and>
     (\<forall>r. ends_value r \<longrightarrow> number (l @ r) = Some (JNum l, r))"

lemma digits_after_digits:
  assumes "ds \<noteq> []" "\<And>c. c \<in> set ds \<Longrightarrow> is_digit c" "ends_value r"
  shows "digits_after pre (ds @ r) = Some (pre @ ds, r)"
proof -
  have "takeWhile is_digit (ds @ r) = ds" using assms by (cases r) (auto simp: takeWhile_append2 ends_value_def)
  with assms(1) show ?thesis by (simp add: digits_after_def)
qed

lemma integer_part_dec: "ends_value r \<Longrightarrow> integer_part (dec_string n @ r) = Some (dec_string n, r)"
proof (cases "n = 0")
  case True
  moreover have "dec_string 0 = ''0''" by code_simp
  ultimately show ?thesis by (simp add: integer_part_def)
next
  case False
  assume "ends_value r"
  then show ?thesis
    using False dec_string_hd [of n] digits_after_digits [of "dec_string n" r "[]"] dec_string_digits
    by (simp add: integer_part_def)
qed

lemma ends_parts: "ends_value r \<Longrightarrow> fraction_part r = Some ([], r)" "ends_value r \<Longrightarrow> exponent_part r = Some ([], r)"
  by (auto simp: ends_value_def fraction_part_def exponent_part_def)

lemma number_literal_int_string: "number_literal (int_string i)"
proof -
  have "is_digit (hd (dec_string n))" for n by (rule dec_string_digits [of _ n]) simp
  then show ?thesis
    by (auto simp: number_literal_def int_string_def number_def integer_part_dec ends_parts dec_string_sign)
qed

text \<open>What fits the nesting limit, and what becomes of its strings.\<close>

fun fits :: "nat \<Rightarrow> json \<Rightarrow> bool" where
  "fits d (JNum l) \<longleftrightarrow> number_literal l"
| "fits d (JArr vs) \<longleftrightarrow> 0 < d \<and> (\<forall>v \<in> set vs. fits (d - 1) v)"
| "fits d (JObj ms) \<longleftrightarrow> 0 < d \<and> (\<forall>m \<in> set ms. fits (d - 1) (snd m))"
| "fits d _ \<longleftrightarrow> True"

fun clean :: "json \<Rightarrow> json" where
  "clean (JStr s) = JStr (to_valid s)"
| "clean (JArr vs) = JArr (map clean vs)"
| "clean (JObj ms) = JObj (map (\<lambda>(k, v). (to_valid k, clean v)) ms)"
| "clean v = v"

lemma fits_mono: "fits d v \<Longrightarrow> d \<le> e \<Longrightarrow> fits e v"
proof (induction v arbitrary: d e)
  case (JArr vs)
  then show ?case by (auto intro: JArr.IH [of _ "d - 1" "e - 1"])
next
  case (JObj ms)
  have "fits (e - 1) (snd m)" if "m \<in> set ms" for m
    using JObj.IH [of m "snd m" "d - 1" "e - 1"] JObj.prems that by (simp add: snds.simps)
  with JObj.prems show ?case by auto
qed simp_all

lemma skip_append: "list_all is_space ws \<Longrightarrow> skip (ws @ s) = skip s"
  by (simp add: skip_def dropWhile_append2 list_all_iff)

lemma skip_stop: "s = [] \<or> \<not> is_space (hd s) \<Longrightarrow> skip s = s"
  by (cases s) (auto simp: skip_def)

lemma skip_skip [simp]: "skip (skip s) = skip s"
  by (simp add: skip_def dropWhile_idem)

lemma newline_spaces [simp]: "list_all is_space (newline ind n)"
  by (auto simp: newline_def is_space_def list_all_iff)

lemma json_value_skip: "json_value d (skip s) = json_value d s"
  by (cases d) simp_all

lemma elements_skip: "p (skip s) = p s \<Longrightarrow> elements p k (skip s) = elements p k s"
  by (cases k) simp_all

lemma members_skip: "members p k (skip s) = members p k s"
  by (cases k) simp_all

lemma length_join: "(\<And>v. v \<in> set vs \<Longrightarrow> q v \<noteq> []) \<Longrightarrow> length vs \<le> length (join sep (map q vs))"
proof (induction vs rule: induct_list012)
  case (3 x y zs)
  then have "length (y # zs) \<le> length (join sep (map q (y # zs)))" "1 \<le> length (q x)" by (simp_all add: Suc_le_eq)
  then show ?case by simp
qed (simp_all add: Suc_le_eq)

lemma elements_join:
  assumes "vs \<noteq> []" "length vs \<le> k" "list_all is_space ws"
    and "\<And>v r. v \<in> set vs \<Longrightarrow> ends_value r \<Longrightarrow> p (q v @ r) = Some (g v, r)"
  shows "elements p k (join '','' (map q vs) @ ws @ CHR '']'' # r) = Some (map g vs, r)"
proof -
  have sp: "\<not> is_space (CHR '','')" "\<not> is_space (CHR '']'')" by (simp_all add: is_space_def)
  have e: "ends_value (CHR '','' # t)" "ends_value (ws @ CHR '']'' # t)" for t
    using assms(3) by (cases ws; auto simp: ends_value_def is_digit_def is_space_def)+
  show ?thesis using assms(1,2,4)
  proof (induction vs arbitrary: k rule: induct_list012)
    case (2 x)
    then obtain k' where "k = Suc k'" by (cases k) auto
    then show ?case using 2(3) [of x] e(2) [of r] skip_append [OF assms(3)] sp by (simp add: skip_stop)
  next
    case (3 x y zs)
    then obtain k' where k: "k = Suc k'" by (cases k) auto
    have "elements p k' (join '','' (map q (y # zs)) @ ws @ CHR '']'' # r) = Some (map g (y # zs), r)"
      by (rule "3.IH"(2)) (use "3.prems" k in auto)
    then show ?case using "3.prems"(3) [of x] e(1) sp k by (simp add: skip_stop)
  qed simp
qed

lemma str_body_json_string: "str_body (tl (json_string s) @ t) = Some (to_valid s, t)"
  using str_body_runes [of s t] by (simp add: json_string_def)

lemma json_string_Cons: "json_string s = CHR 0x22 # tl (json_string s)"
  by (simp add: json_string_def)

lemma member_step:
  assumes "list_all is_space ws" "p (tl (colon ind) @ t @ r) = Some (v, s')" "skip s' = c # r'"
  shows "members p (Suc k) (ws @ json_string key @ colon ind @ t @ r) =
    (if c = CHR '','' then map_option (\<lambda>(ms, s). ((to_valid key, v) # ms, s)) (members p k r')
     else if c = CHR ''}'' then Some ([(to_valid key, v)], r') else None)"
proof -
  have sk: "skip (CHR 0x22 # x) = CHR 0x22 # x" "skip (CHR '':'' # x) = CHR '':'' # x" for x
    by (simp_all add: skip_stop is_space_def)
  have col: "colon ind = CHR '':'' # tl (colon ind)" by (simp add: colon_def)
  have "skip (ws @ json_string key @ colon ind @ t @ r) = CHR 0x22 # tl (json_string key) @ colon ind @ t @ r"
    using skip_append [OF assms(1)] sk(1) json_string_Cons [of key] by (metis append_Cons)
  moreover have "skip (colon ind @ t @ r) = CHR '':'' # tl (colon ind) @ t @ r"
    using sk(2) col by (metis append_Cons)
  ultimately show ?thesis
    using assms(2,3) by (simp add: str_body_json_string)
qed

lemma members_join:
  assumes "ms \<noteq> []" "length ms \<le> k" "list_all is_space ws" "list_all is_space ws'"
    and "\<And>m r. m \<in> set ms \<Longrightarrow> ends_value r \<Longrightarrow> p (tl (colon ind) @ t (snd m) @ r) = Some (g (snd m), r)"
  shows "members p k (join '','' (map (\<lambda>(key, v). ws @ json_string key @ colon ind @ t v) ms) @ ws' @ CHR ''}'' # r) =
    Some (map (\<lambda>(key, v). (to_valid key, g v)) ms, r)"
proof -
  have sp: "\<not> is_space (CHR '','')" "\<not> is_space (CHR ''}'')" by (simp_all add: is_space_def)
  have e: "ends_value (CHR '','' # x)" "ends_value (ws' @ CHR ''}'' # x)" for x
    using assms(4) by (cases ws'; auto simp: ends_value_def is_digit_def is_space_def)+
  have comma: "skip (CHR '','' # x) = CHR '','' # x" for x using sp by (simp add: skip_stop)
  have close: "skip (ws' @ CHR ''}'' # r) = CHR ''}'' # r" using skip_append [OF assms(4)] sp by (simp add: skip_stop)
  show ?thesis using assms(1,2,5)
  proof (induction ms arbitrary: k rule: induct_list012)
    case (2 m)
    then obtain k' where "k = Suc k'" by (cases k) auto
    then show ?case using member_step [where p = p, OF assms(3) 2(3) [of m, OF _ e(2)] close, of k' "fst m"]
      by (cases m) simp
  next
    case (3 m m' zs)
    then obtain k' where k: "k = Suc k'" by (cases k) auto
    have "members p k' (join '','' (map (\<lambda>(key, v). ws @ json_string key @ colon ind @ t v) (m' # zs)) @ ws' @ CHR ''}'' # r) =
        Some (map (\<lambda>(key, v). (to_valid key, g v)) (m' # zs), r)"
      by (rule "3.IH"(2)) (use "3.prems" k in auto)
    then show ?case
      using member_step [where p = p, OF assms(3) "3.prems"(3) [of m, OF _ e(1)] comma, of k' "fst m"] k
      by (cases m) simp
  qed simp
qed

text \<open>How the text of a value starts.\<close>

definition starts_value :: "string \<Rightarrow> bool" where
  "starts_value s \<longleftrightarrow> s \<noteq> [] \<and> \<not> is_space (hd s) \<and> hd s \<noteq> CHR '']'' \<and> hd s \<noteq> CHR ''}''"

lemma print_starts: "fits d v \<Longrightarrow> starts_value (print_json ind n v @ r)"
  by (cases v) (auto simp: starts_value_def json_string_def number_literal_def is_space_def is_digit_def)

lemma starts_skip: "starts_value s \<Longrightarrow> skip s = s"
  by (simp add: starts_value_def skip_stop)

lemma json_value_spaces: "list_all is_space ws \<Longrightarrow> json_value d (ws @ s) = json_value d s"
  using json_value_skip [of d "ws @ s"] json_value_skip [of d s] by (simp add: skip_append)

lemma json_value_container:
  "opens s \<Longrightarrow> json_value (Suc d) s = container (json_value d) s"
  using starts_skip [of s] by (auto simp: opens_def starts_value_def is_space_def)

lemma json_value_scalar:
  assumes "starts_value s" "\<not> opens s"
  shows "json_value d s = scalar s"
  using assms starts_skip [OF assms(1)] by (cases d) (simp_all add: starts_value_def)

lemma container_array:
  assumes "inner = newline ind n @ t" "starts_value t"
  shows "container (json_value d) (CHR ''['' # inner) =
    map_option (\<lambda>(vs, r). (JArr vs, r)) (elements (json_value d) (length (CHR ''['' # inner)) inner)"
proof -
  have "skip inner = t" using assms by (simp add: skip_append starts_skip)
  then show ?thesis
    using assms(2) elements_skip [of "json_value d" inner] json_value_skip [of d inner] by (auto simp: container_def starts_value_def)
qed

lemma container_object:
  assumes "inner = newline ind n @ t" "starts_value t"
  shows "container (json_value d) (CHR ''{'' # inner) =
    map_option (\<lambda>(ms, r). (JObj ms, r)) (members (json_value d) (length (CHR ''{'' # inner)) inner)"
proof -
  have "skip inner = t" using assms by (simp add: skip_append starts_skip)
  then show ?thesis
    using assms(2) members_skip [of "json_value d" _ inner] by (auto simp: container_def starts_value_def)
qed

lemma join_first: "vs \<noteq> [] \<Longrightarrow> \<exists>rest. join sep (map q vs) = q (hd vs) @ rest"
  by (cases vs rule: list.exhaust; cases "tl vs") auto

lemma keyword_values:
  "json_value d (''null'' @ r) = Some (JNull, r)" "json_value d (''true'' @ r) = Some (JBool True, r)"
  "json_value d (''false'' @ r) = Some (JBool False, r)"
  by (cases d; simp add: skip_stop is_space_def opens_def scalar_def keyword_at_def)+

lemma json_value_print:
  "fits d v \<Longrightarrow> ends_value r \<Longrightarrow> json_value d (print_json ind n v @ r) = Some (clean v, r)"
proof (induction v arbitrary: d n r)
  case (JNum l)
  then have "\<not> opens (l @ r)" "hd (l @ r) \<noteq> CHR 0x22" "hd (l @ r) \<noteq> CHR ''t''" "hd (l @ r) \<noteq> CHR ''f''" "hd (l @ r) \<noteq> CHR ''n''"
    "hd (l @ r) = CHR ''-'' \<or> is_digit (hd (l @ r))"
    by (auto simp: number_literal_def opens_def is_digit_def)
  then show ?case using JNum json_value_scalar [OF print_starts [OF JNum(1)]] by (simp add: scalar_def number_literal_def)
next
  case (JStr s)
  have "\<not> opens (json_string s @ r)" by (simp add: opens_def json_string_def)
  then show ?case
    using json_value_scalar [OF print_starts [OF JStr(1)]] str_body_json_string [of s r]
    by (simp add: scalar_def json_string_def)
next
  case (JArr vs)
  let ?q = "\<lambda>v. newline ind (n + 1) @ print_json ind (n + 1) v"
  obtain d' where d: "d = Suc d'" using JArr.prems(1) by (cases d) auto
  have o: "opens (print_json ind n (JArr vs) @ r)" by (simp add: opens_def)
  show ?case
  proof (cases "vs = []")
    case True
    then show ?thesis using json_value_container [OF o, of d'] d by (simp add: container_def skip_stop is_space_def)
  next
    case False
    let ?inner = "join '','' (map ?q vs) @ newline ind n @ CHR '']'' # r"
    obtain rest where j: "join '','' (map ?q vs) = ?q (hd vs) @ rest" using join_first [OF False] by blast
    have "starts_value (print_json ind (n + 1) (hd vs) @ rest @ newline ind n @ CHR '']'' # r)"
      by (rule print_starts [of d']) (use JArr.prems(1) d False in simp)
    then have c: "container (json_value d') (CHR ''['' # ?inner) =
        map_option (\<lambda>(vs, r). (JArr vs, r)) (elements (json_value d') (length (CHR ''['' # ?inner)) ?inner)"
      by (intro container_array [of _ ind "n + 1" "print_json ind (n + 1) (hd vs) @ rest @ newline ind n @ CHR '']'' # r"])
        (use j in simp_all)
    have q: "json_value d' (?q v @ x) = Some (clean v, x)" if "v \<in> set vs" "ends_value x" for v x
      using JArr.IH [OF that(1) _ that(2), of d' "n + 1"] JArr.prems(1) d that(1) by (simp add: json_value_spaces)
    have "?q v \<noteq> []" if "v \<in> set vs" for v
      using print_starts [of d' v ind "n + 1" "[]"] JArr.prems(1) d that by (simp add: starts_value_def)
    then have "length vs \<le> length (CHR ''['' # ?inner)" using length_join [of vs ?q "'',''"] by simp
    then have "elements (json_value d') (length (CHR ''['' # ?inner)) ?inner = Some (map clean vs, r)"
      by (intro elements_join False newline_spaces q)
    then show ?thesis using json_value_container [OF o, of d'] d False c by simp
  qed
next
  case (JObj ms)
  let ?q = "\<lambda>(k, v). newline ind (n + 1) @ json_string k @ colon ind @ print_json ind (n + 1) v"
  obtain d' where d: "d = Suc d'" using JObj.prems(1) by (cases d) auto
  have o: "opens (print_json ind n (JObj ms) @ r)" by (simp add: opens_def)
  show ?case
  proof (cases "ms = []")
    case True
    then show ?thesis using json_value_container [OF o, of d'] d by (simp add: container_def skip_stop is_space_def)
  next
    case False
    let ?inner = "join '','' (map ?q ms) @ newline ind n @ CHR ''}'' # r"
    obtain rest where j: "join '','' (map ?q ms) = ?q (hd ms) @ rest" using join_first [OF False] by blast
    then have c: "container (json_value d') (CHR ''{'' # ?inner) =
        map_option (\<lambda>(ms, r). (JObj ms, r)) (members (json_value d') (length (CHR ''{'' # ?inner)) ?inner)"
      by (intro container_object [of _ ind "n + 1" "json_string (fst (hd ms)) @ colon ind @ print_json ind (n + 1) (snd (hd ms)) @
          rest @ newline ind n @ CHR ''}'' # r"]) (simp_all add: split_def starts_value_def json_string_def is_space_def)
    have q: "json_value d' (tl (colon ind) @ print_json ind (n + 1) (snd m) @ x) = Some (clean (snd m), x)"
      if "m \<in> set ms" "ends_value x" for m x
    proof -
      have "list_all is_space (tl (colon ind))" by (simp add: colon_def is_space_def)
      then show ?thesis using JObj.IH [of m "snd m" d' x "n + 1"] JObj.prems(1) d that by (simp add: json_value_spaces snds.simps)
    qed
    have "?q m \<noteq> []" for m by (simp add: split_def json_string_def)
    then have "length ms \<le> length (CHR ''{'' # ?inner)" using length_join [of ms ?q "'',''"] by simp
    then have "members (json_value d') (length (CHR ''{'' # ?inner)) ?inner = Some (map (\<lambda>(k, v). (to_valid k, clean v)) ms, r)"
      by (intro members_join False newline_spaces q)
    then show ?thesis using json_value_container [OF o, of d'] d False c by simp
  qed
qed (use keyword_values in auto)

text \<open>Reading what was written, in either form, gives the value with its strings made valid.\<close>

lemma read_compact: "fits maxNestingDepth v \<Longrightarrow> readJSON (writeCompact v) = Some (clean v)"
  using json_value_print [of maxNestingDepth v "[]" False 0] by (simp add: readJSON_def writeCompact_def ends_value_def skip_def)

lemma decode_compact: "fits maxNestingDepth v \<Longrightarrow> decodeJSON (writeCompact v) = Some (clean v)"
  using json_value_print [of maxNestingDepth v "[]" False 0] by (simp add: decodeJSON_def writeCompact_def ends_value_def)

lemma read_indented: "fits maxNestingDepth v \<Longrightarrow> readJSON (writeIndented v) = Some (clean v)"
  using json_value_print [of maxNestingDepth v "[CHR 0x0A]" True 0]
  by (simp add: readJSON_def writeIndented_def ends_value_def skip_def is_digit_def is_space_def)

end
