(* ===== verification/Ovs.thy ===== *)
theory Ovs
  imports Json
begin

text \<open>
  Package \<^verbatim>\<open>internal/ovs\<close>: discovery of OVN ports from the JSON output of \<^verbatim>\<open>ovs-vsctl\<close>, \<^verbatim>\<open>ovn-nbctl\<close> and
  \<^verbatim>\<open>ovn-sbctl\<close>, read by theory \<open>Json\<close>. The command runner is the parameter \<open>runCmd\<close>.
\<close>

section \<open>The table of a command\<close>

text \<open>The anonymous struct with \<^verbatim>\<open>data\<close> and \<^verbatim>\<open>headings\<close> that the three parsers decode into.\<close>

definition asTable :: "json \<Rightarrow> (json list list \<times> string list) option" where
  "asTable j =
     (case j of
        JNull \<Rightarrow> Some ([], [])
      | JObj ms \<Rightarrow> Option.bind (slice_field asRows ''data'' ms) (\<lambda>d.
                   Option.bind (slice_field asStrings ''headings'' ms) (\<lambda>h. Some (d, h)))
      | _ \<Rightarrow> None)"

section \<open>OVSDB values\<close>

definition ovsList :: "json \<Rightarrow> string list" where
  "ovsList raw =
     (case asString raw of
        Some s \<Rightarrow> [s]
      | None \<Rightarrow>
          (case asArray raw of
             Some [a, b] \<Rightarrow> if asString a = Some ''set'' then (case asStrings b of Some items \<Rightarrow> items | None \<Rightarrow> []) else []
           | _ \<Rightarrow> []))"

definition ovsScalar :: "json \<Rightarrow> string" where
  "ovsScalar raw = (case ovsList raw of [] \<Rightarrow> [] | x # _ \<Rightarrow> x)"

definition ovsMap :: "json \<Rightarrow> (string, string) gomap" where
  "ovsMap raw =
     (case asArray raw of
        Some [a, b] \<Rightarrow>
          if asString a \<noteq> Some ''map'' then []
          else (case asPairs b of
                  None \<Rightarrow> []
                | Some pairs \<Rightarrow> foldl (\<lambda>out p. case p of [k, v] \<Rightarrow> mput out k v | _ \<Rightarrow> out) [] pairs)
      | _ \<Rightarrow> [])"

text \<open>A missing key of a Go map reads as the zero value.\<close>

definition mstr :: "(string, string) gomap \<Rightarrow> string \<Rightarrow> string" where
  "mstr m k = (case mget m k of None \<Rightarrow> [] | Some v \<Rightarrow> v)"

section \<open>Tables\<close>

record Port =
  p_Name :: string
  p_MAC :: string
  p_IPs :: "bytes list"

record Iface =
  i_Name :: string
  i_MAC :: string
  i_IfaceID :: string

text \<open>The column index, \<open>None\<close> for the code's -1: the last heading with that name.\<close>

definition column :: "string \<Rightarrow> string list \<Rightarrow> nat option" where
  "column name hs = foldl (\<lambda>idx (i, h). if h = name then Some i else idx) None (enumerate 0 hs)"

definition ifaceRow :: "nat option \<Rightarrow> nat option \<Rightarrow> nat option \<Rightarrow> json list \<Rightarrow> Iface option go" where
  "ifaceRow ni ei mi row =
     (case ni of
        None \<Rightarrow> Some None
      | Some n \<Rightarrow>
          if length row \<le> n then Some None
          else do {
            eids \<leftarrow> (case ei of
                Some e \<Rightarrow> if e < length row then do { r \<leftarrow> at row e; Some (ovsMap r) } else Some []
              | None \<Rightarrow> Some []);
            let ifaceID = mstr eids ''iface-id'';
            if ifaceID = [] then Some None
            else do {
              let mac = mstr eids ''attached-mac'';
              mac \<leftarrow> (case mi of
                  Some m \<Rightarrow> if mac = [] \<and> m < length row then do { r \<leftarrow> at row m; Some (ovsScalar r) } else Some mac
                | None \<Rightarrow> Some mac);
              r \<leftarrow> at row n;
              Some (Some \<lparr>i_Name = ovsScalar r, i_MAC = mac, i_IfaceID = ifaceID\<rparr>) } })"

fun ifaceRows :: "nat option \<Rightarrow> nat option \<Rightarrow> nat option \<Rightarrow> json list list \<Rightarrow> Iface list go" where
  "ifaceRows ni ei mi [] = Some []"
| "ifaceRows ni ei mi (row # rows) = do {
     r \<leftarrow> ifaceRow ni ei mi row;
     out \<leftarrow> ifaceRows ni ei mi rows;
     Some (case r of None \<Rightarrow> out | Some i \<Rightarrow> i # out) }"

definition ParseInterfaces :: "json option \<Rightarrow> Iface list option go" where
  "ParseInterfaces data =
     (case Option.bind data asTable of
        None \<Rightarrow> Some None
      | Some (rows, hs) \<Rightarrow> do {
          out \<leftarrow> ifaceRows (column ''name'' hs) (column ''external_ids'' hs) (column ''mac_in_use'' hs) rows;
          Some (Some out) })"

section \<open>Strings\<close>

text \<open>The encodings of the characters with the Unicode property White Space, which \<^verbatim>\<open>strings.Fields\<close> and
  \<^verbatim>\<open>strings.TrimSpace\<close> use.\<close>

definition spaces :: "string list" where
  "spaces = [
    [CHR 0x09], [CHR 0x0A], [CHR 0x0B], [CHR 0x0C], [CHR 0x0D], [CHR 0x20], [CHR 0xC2, CHR 0x85],
    [CHR 0xC2, CHR 0xA0], [CHR 0xE1, CHR 0x9A, CHR 0x80], [CHR 0xE2, CHR 0x80, CHR 0x80],
    [CHR 0xE2, CHR 0x80, CHR 0x81], [CHR 0xE2, CHR 0x80, CHR 0x82], [CHR 0xE2, CHR 0x80, CHR 0x83],
    [CHR 0xE2, CHR 0x80, CHR 0x84], [CHR 0xE2, CHR 0x80, CHR 0x85], [CHR 0xE2, CHR 0x80, CHR 0x86],
    [CHR 0xE2, CHR 0x80, CHR 0x87], [CHR 0xE2, CHR 0x80, CHR 0x88], [CHR 0xE2, CHR 0x80, CHR 0x89],
    [CHR 0xE2, CHR 0x80, CHR 0x8A], [CHR 0xE2, CHR 0x80, CHR 0xA8], [CHR 0xE2, CHR 0x80, CHR 0xA9],
    [CHR 0xE2, CHR 0x80, CHR 0xAF], [CHR 0xE2, CHR 0x81, CHR 0x9F], [CHR 0xE3, CHR 0x80, CHR 0x80]]"

definition space_prefix :: "string \<Rightarrow> nat" where
  "space_prefix s = (case List.find (\<lambda>w. take (length w) s = w) spaces of None \<Rightarrow> 0 | Some w \<Rightarrow> length w)"

text \<open>\<^verbatim>\<open>strings.Fields\<close>: the maximal runs without white space; \<open>cur\<close> is the field being read.\<close>

function fields_from :: "string \<Rightarrow> string \<Rightarrow> string list" where
  "fields_from cur s =
     (let emit = (if cur = [] then [] else [cur]) in
      case s of
        [] \<Rightarrow> emit
      | c # cs \<Rightarrow> if 0 < space_prefix s then emit @ fields_from [] (drop (space_prefix s) s)
                  else fields_from (cur @ [c]) cs)"
  by pat_completeness auto
termination
  by (relation "measure (\<lambda>(cur, s). length s)") auto

declare fields_from.simps [simp del]

definition Fields :: "string \<Rightarrow> string list" where
  "Fields s = fields_from [] s"

section \<open>Addresses and ports\<close>

definition entryIPs :: "string \<Rightarrow> bytes list" where
  "entryIPs entry = List.map_filter ParseIP (Fields entry)"

definition ParseNBAddresses :: "json option \<Rightarrow> bytes list option go" where
  "ParseNBAddresses data =
     (case Option.bind data asTable of
        None \<Rightarrow> Some None
      | Some (rows, hs) \<Rightarrow>
          let idx = (case column ''addresses'' hs of None \<Rightarrow> 0 | Some i \<Rightarrow> i) in do {
          out \<leftarrow> foldl (\<lambda>acc row. do {
              ips \<leftarrow> acc;
              if length row \<le> idx then Some ips
              else do { r \<leftarrow> at row idx; Some (ips @ concat (map entryIPs (ovsList r))) } }) (Some []) rows;
          Some (Some out) })"

definition resolveIPs :: "(string list \<Rightarrow> string option) \<Rightarrow> string \<Rightarrow> bytes list go" where
  "resolveIPs runCmd ifaceID =
     (if ifaceID = [] then Some []
      else case runCmd [''ovn-nbctl'', ''--format=json'', ''--columns=addresses'', ''list'', ''Logical_Switch_Port'', ifaceID] of
        None \<Rightarrow> Some []
      | Some out \<Rightarrow> do {
          r \<leftarrow> ParseNBAddresses (readJSON out);
          Some (case r of None \<Rightarrow> [] | Some ips \<Rightarrow> ips) })"

definition portOf :: "(string list \<Rightarrow> string option) \<Rightarrow> Iface \<Rightarrow> Port go" where
  "portOf runCmd ifc = do {
     ips \<leftarrow> resolveIPs runCmd (i_IfaceID ifc);
     Some \<lparr>p_Name = i_Name ifc, p_MAC = i_MAC ifc, p_IPs = ips\<rparr> }"

datatype ovs_error = CommandFailed | BadJSON | NoSuchVIF string

fun portsOf :: "(string list \<Rightarrow> string option) \<Rightarrow> Iface list \<Rightarrow> Port list go" where
  "portsOf runCmd [] = Some []"
| "portsOf runCmd (i # is) = do {
     p \<leftarrow> portOf runCmd i;
     ps \<leftarrow> portsOf runCmd is;
     Some (p # ps) }"

definition ifaceColumns :: string where
  "ifaceColumns = ''--columns=name,external_ids,mac_in_use''"

definition DiscoverPorts :: "(string list \<Rightarrow> string option) \<Rightarrow> (ovs_error + Port list) go" where
  "DiscoverPorts runCmd =
     (case runCmd [''ovs-vsctl'', ''--format=json'', ifaceColumns, ''list'', ''Interface''] of
        None \<Rightarrow> Some (Inl CommandFailed)
      | Some out \<Rightarrow> do {
          r \<leftarrow> ParseInterfaces (readJSON out);
          case r of None \<Rightarrow> Some (Inl BadJSON)
          | Some ifaces \<Rightarrow> do { ps \<leftarrow> portsOf runCmd ifaces; Some (Inr ps) } })"

definition LookupPort :: "(string list \<Rightarrow> string option) \<Rightarrow> string \<Rightarrow> (ovs_error + Port) go" where
  "LookupPort runCmd name =
     (case runCmd [''ovs-vsctl'', ''--format=json'', ifaceColumns, ''find'', ''Interface'', ''name='' @ name] of
        None \<Rightarrow> Some (Inl CommandFailed)
      | Some out \<Rightarrow> do {
          r \<leftarrow> ParseInterfaces (readJSON out);
          case r of None \<Rightarrow> Some (Inl BadJSON)
          | Some [] \<Rightarrow> Some (Inl (NoSuchVIF name))
          | Some (ifc # _) \<Rightarrow> do { p \<leftarrow> portOf runCmd ifc; Some (Inr p) } })"

text \<open>The first non-empty name of the first row that has one.\<close>

definition rowName :: "json list \<Rightarrow> string option" where
  "rowName row =
     (case row of [] \<Rightarrow> None
      | r # _ \<Rightarrow> List.find (\<lambda>v. v \<noteq> []) (map (mstr (ovsMap r)) [''name'', ''logical-switch'', ''name2'']))"

definition LookupDatapathName :: "(string list \<Rightarrow> string option) \<Rightarrow> u32 \<Rightarrow> ovs_error + string" where
  "LookupDatapathName runCmd vni =
     (case runCmd [''ovn-sbctl'', ''--format=json'', ''--columns=external_ids'', ''find'', ''Datapath_Binding'',
                   ''tunnel_key='' @ dec_string (unat vni)] of
        None \<Rightarrow> Inl CommandFailed
      | Some out \<Rightarrow>
          (case Option.bind (readJSON out) asTable of
             None \<Rightarrow> Inl BadJSON
           | Some (rows, _) \<Rightarrow>
               Inr (case List.map_filter rowName rows of [] \<Rightarrow> [] | n # _ \<Rightarrow> n)))"

section \<open>No input makes a parser panic\<close>

lemma ifaceRow_total: "\<exists>r. ifaceRow ni ei mi row = Some r"
  by (auto simp: ifaceRow_def Let_def split: option.split)

lemma ifaceRows_total: "\<exists>r. ifaceRows ni ei mi rows = Some r"
proof (induction rows)
  case (Cons row rows)
  then show ?case using ifaceRow_total [of ni ei mi row] by auto
qed simp

lemma ParseInterfaces_total: "\<exists>r. ParseInterfaces data = Some r"
proof (cases "Option.bind data asTable")
  case (Some t)
  obtain rows hs where t: "t = (rows, hs)" by (cases t)
  show ?thesis
    using Some t ifaceRows_total [of "column ''name'' hs" "column ''external_ids'' hs" "column ''mac_in_use'' hs" rows]
    by (auto simp: ParseInterfaces_def)
qed (simp add: ParseInterfaces_def)

text \<open>The loop over the rows of the address table, without the checked reads.\<close>

lemma addresses_loop:
  "foldl (\<lambda>acc row. do {
      ips \<leftarrow> acc;
      if length row \<le> idx then Some ips
      else do { r \<leftarrow> at row idx; Some (ips @ f r) } }) (Some acc) rows =
    Some (acc @ concat (map (\<lambda>row. if length row \<le> idx then [] else f (row ! idx)) rows))"
  by (induction rows arbitrary: acc) auto

lemma ParseNBAddresses_eq:
  "ParseNBAddresses data = Some (map_option (\<lambda>(rows, hs).
     let idx = (case column ''addresses'' hs of None \<Rightarrow> 0 | Some i \<Rightarrow> i) in
     concat (map (\<lambda>row. if length row \<le> idx then [] else concat (map entryIPs (ovsList (row ! idx)))) rows))
     (Option.bind data asTable))"
proof (cases "Option.bind data asTable")
  case None
  then show ?thesis by (simp add: ParseNBAddresses_def)
next
  case (Some t)
  obtain rows hs where t: "t = (rows, hs)" by (cases t)
  then show ?thesis using Some addresses_loop [where f = "\<lambda>r. concat (map entryIPs (ovsList r))" and acc = "[]" and
      idx = "case column ''addresses'' hs of None \<Rightarrow> 0 | Some i \<Rightarrow> i" and rows = rows] by (simp add: ParseNBAddresses_def Let_def)
qed

lemma resolveIPs_total: "\<exists>ips. resolveIPs runCmd i = Some ips"
  by (auto simp: resolveIPs_def ParseNBAddresses_eq split: option.split)

lemma portsOf_total: "\<exists>ps. portsOf runCmd is = Some ps"
proof (induction "is")
  case (Cons i "is")
  then show ?case using resolveIPs_total [of runCmd "i_IfaceID i"] by (auto simp: portOf_def)
qed simp

lemma DiscoverPorts_total: "\<exists>r. DiscoverPorts runCmd = Some r"
proof (cases "runCmd [''ovs-vsctl'', ''--format=json'', ifaceColumns, ''list'', ''Interface'']")
  case (Some out)
  obtain r where "ParseInterfaces (readJSON out) = Some r" using ParseInterfaces_total by blast
  then show ?thesis using Some portsOf_total [of runCmd "the r"]
    by (cases r) (auto simp: DiscoverPorts_def)
qed (simp add: DiscoverPorts_def)

lemma LookupPort_total: "\<exists>r. LookupPort runCmd name = Some r"
proof (cases "runCmd [''ovs-vsctl'', ''--format=json'', ifaceColumns, ''find'', ''Interface'', ''name='' @ name]")
  case (Some out)
  obtain r where "ParseInterfaces (readJSON out) = Some r" using ParseInterfaces_total by blast
  then show ?thesis using Some resolveIPs_total [of runCmd "i_IfaceID (hd (the r))"]
    by (cases r; cases "the r") (auto simp: LookupPort_def portOf_def)
qed (simp add: LookupPort_def)

section \<open>Reading what OVSDB writes\<close>

definition encMap :: "(string \<times> string) list \<Rightarrow> json" where
  "encMap m = JArr [JStr ''map'', JArr (map (\<lambda>(k, v). JArr [JStr k, JStr v]) m)]"

text \<open>A set of one element is written bare, any other as a tagged array.\<close>

definition encSet :: "string list \<Rightarrow> json" where
  "encSet xs = (case xs of [x] \<Rightarrow> JStr x | _ \<Rightarrow> JArr [JStr ''set'', JArr (map JStr xs)])"

definition encTable :: "string list \<Rightarrow> json list list \<Rightarrow> json" where
  "encTable hs rows = JObj [(''data'', JArr (map JArr rows)), (''headings'', JArr (map JStr hs))]"

lemma collect_Some [simp]: "collect (map (\<lambda>x. Some (f x)) xs) = Some (map f xs)"
  by (induction xs) simp_all

lemma as_simps [simp]:
  "asString (JStr x) = Some x" "asString (JArr ys) = None" "asArray (JArr ys) = Some ys"
  by (simp_all add: asString_def asArray_def)

lemma asStrings_map [simp]: "asStrings (JArr (map JStr xs)) = Some xs"
  using collect_Some [of "\<lambda>x. x" xs] by (simp add: asStrings_def comp_def)

lemma ovsList_encSet: "ovsList (encSet xs) = xs"
  by (cases xs rule: join.cases [of "([], xs)" for xs, simplified])
    (auto simp: ovsList_def encSet_def asStrings_def comp_def split: list.split)

lemma ovsMap_encMap: "mget (ovsMap (encMap m)) k = map_of (rev m) k"
proof -
  have "asPairs (JArr (map (\<lambda>(k, v). JArr [JStr k, JStr v]) m)) = Some (map (\<lambda>(k, v). [k, v]) m)"
    using collect_Some [of "\<lambda>(k, v). [k, v]" m] by (simp add: asPairs_def asStrings_def comp_def split_beta)
  then have "ovsMap (encMap m) = foldl (\<lambda>out (k, v). mput out k v) [] m"
    by (simp add: ovsMap_def encMap_def foldl_map case_prod_unfold)
  moreover have "mget (foldl (\<lambda>out (k, v). mput out k v) acc m) k = (map_of (rev m) ++ Map.empty) k
      \<or> map_of (rev m) k = None \<and> mget (foldl (\<lambda>out (k, v). mput out k v) acc m) k = mget acc k" for acc
    by (induction m rule: rev_induct) (auto simp: gomap_simps)
  ultimately show ?thesis using gm.get_empty by (metis map_add_empty)
qed

lemma asTable_encTable: "asTable (encTable hs rows) = Some (rows, hs)"
proof -
  have "asRows (JArr (map JArr rows)) = Some rows"
    using collect_Some [of "\<lambda>x. x" rows] by (simp add: asRows_def comp_def)
  then show ?thesis by (simp add: asTable_def encTable_def slice_field_def values_of_def fold_ascii list_all_iff lower_case_def)
qed

lemma column_snoc: "column x (hs @ [h]) = (if h = x then Some (length hs) else column x hs)"
  by (simp add: column_def enumerate_append_eq)

lemma column_found:
  assumes "x \<in> set hs"
  obtains i where "column x hs = Some i" "i < length hs" "hs ! i = x"
proof -
  have "\<exists>i < length hs. column x hs = Some i \<and> hs ! i = x"
    using assms by (induction hs rule: rev_induct) (auto simp: column_snoc nth_append less_Suc_eq)
  with that show ?thesis by blast
qed

text \<open>The text of a table is read back; strings that are not UTF-8 are made valid.\<close>

lemma clean_encSet: "clean (encSet xs) = encSet (map to_valid xs)"
  using valid_ascii [of "''set''"] by (auto simp: encSet_def valid_utf8_def comp_def split: list.split)

lemma clean_encMap: "clean (encMap m) = encMap (map (\<lambda>(k, v). (to_valid k, to_valid v)) m)"
  using valid_ascii [of "''map''"] by (auto simp: encMap_def valid_utf8_def comp_def)

lemma fits_enc: "2 \<le> d \<Longrightarrow> fits d (encSet xs)" "3 \<le> d \<Longrightarrow> fits d (encMap m)"
  by (auto simp: encSet_def encMap_def split: list.split)

lemma read_table:
  assumes "\<forall>row \<in> set rows. \<forall>c \<in> set row. fits 3 c"
  shows "readJSON (writeCompact (encTable hs rows)) = Some (encTable (map to_valid hs) (map (map clean) rows))"
proof -
  have "fits maxNestingDepth (encTable hs rows)"
    by (rule fits_mono [of 6]) (use assms in \<open>auto simp: encTable_def maxNestingDepth_def\<close>)
  moreover have "clean (encTable hs rows) = encTable (map to_valid hs) (map (map clean) rows)"
    using valid_ascii [of "''data''"] valid_ascii [of "''headings''"] by (simp add: encTable_def valid_utf8_def comp_def)
  ultimately show ?thesis by (simp add: read_compact)
qed

text \<open>An interface as OVSDB stores it, and its row under any choice and order of columns.\<close>

record vif =
  v_name :: string
  v_eids :: "(string \<times> string) list"
  v_mac :: "string list"

definition cell :: "vif \<Rightarrow> string \<Rightarrow> json" where
  "cell v h = (if h = ''name'' then JStr (v_name v) else if h = ''external_ids'' then encMap (v_eids v)
               else if h = ''mac_in_use'' then encSet (v_mac v) else JNull)"

definition valid_vif :: "vif \<Rightarrow> bool" where
  "valid_vif v \<longleftrightarrow> valid_utf8 (v_name v) \<and> (\<forall>(k, x) \<in> set (v_eids v). valid_utf8 k \<and> valid_utf8 x) \<and> (\<forall>m \<in> set (v_mac v). valid_utf8 m)"

lemma fits_cell: "fits 3 (cell v h)"
  by (simp add: cell_def fits_enc)

lemma clean_cell:
  assumes "valid_vif v"
  shows "clean (cell v h) = cell v h"
proof -
  have "map to_valid (v_mac v) = v_mac v" "to_valid (v_name v) = v_name v"
    using assms by (simp_all add: valid_vif_def valid_utf8_def map_idI)
  moreover have "map (\<lambda>(k, x). (to_valid k, to_valid x)) (v_eids v) = v_eids v"
    by (rule map_idI) (use assms in \<open>auto simp: valid_vif_def valid_utf8_def\<close>)
  ultimately show ?thesis by (simp add: cell_def clean_encSet clean_encMap)
qed

text \<open>The command's answer for a list of interfaces, as text.\<close>

definition table_text :: "string list \<Rightarrow> vif list \<Rightarrow> string" where
  "table_text hs vs = writeCompact (encTable hs (map (\<lambda>v. map (cell v) hs) vs))"

lemma read_table_text:
  assumes "\<forall>h \<in> set hs. valid_utf8 h" "\<forall>v \<in> set vs. valid_vif v"
  shows "readJSON (table_text hs vs) = Some (encTable hs (map (\<lambda>v. map (cell v) hs) vs))"
proof -
  have "map to_valid hs = hs" using assms(1) by (simp add: valid_utf8_def map_idI)
  moreover have "map (map clean) (map (\<lambda>v. map (cell v) hs) vs) = map (\<lambda>v. map (cell v) hs) vs"
    using assms(2) by (simp add: clean_cell)
  moreover have "readJSON (table_text hs vs) = Some (encTable (map to_valid hs) (map (map clean) (map (\<lambda>v. map (cell v) hs) vs)))"
    unfolding table_text_def by (rule read_table) (auto simp: fits_cell)
  ultimately show ?thesis by metis
qed

definition eid :: "vif \<Rightarrow> string \<Rightarrow> string" where
  "eid v k = (case map_of (rev (v_eids v)) k of None \<Rightarrow> [] | Some x \<Rightarrow> x)"

definition iface_of :: "vif \<Rightarrow> Iface" where
  "iface_of v = \<lparr>i_Name = v_name v,
     i_MAC = (if eid v ''attached-mac'' \<noteq> [] then eid v ''attached-mac''
              else case v_mac v of [] \<Rightarrow> [] | m # _ \<Rightarrow> m),
     i_IfaceID = eid v ''iface-id''\<rparr>"

lemma ifaceRow_cell:
  assumes "{''name'', ''external_ids'', ''mac_in_use''} \<subseteq> set hs"
  shows "ifaceRow (column ''name'' hs) (column ''external_ids'' hs) (column ''mac_in_use'' hs) (map (cell v) hs) =
    Some (if eid v ''iface-id'' = [] then None else Some (iface_of v))"
proof -
  have "''name'' \<in> set hs" "''external_ids'' \<in> set hs" "''mac_in_use'' \<in> set hs" using assms by auto
  then obtain n e m where n: "column ''name'' hs = Some n" "n < length hs" "hs ! n = ''name''"
      and e: "column ''external_ids'' hs = Some e" "e < length hs" "hs ! e = ''external_ids''"
      and m: "column ''mac_in_use'' hs = Some m" "m < length hs" "hs ! m = ''mac_in_use''"
    by (meson column_found)
  have ids: "mstr (ovsMap (encMap (v_eids v))) k = eid v k" for k
    by (simp add: mstr_def eid_def ovsMap_encMap)
  have scal: "ovsScalar (JStr x) = x" "ovsScalar (encSet xs) = (case xs of [] \<Rightarrow> [] | y # _ \<Rightarrow> y)" for x xs
    by (simp_all add: ovsScalar_def ovsList_encSet) (simp add: ovsList_def)
  show ?thesis using n e m by (auto simp: ifaceRow_def Let_def cell_def ids scal iface_of_def)
qed

lemma ifaceRows_cells:
  assumes "{''name'', ''external_ids'', ''mac_in_use''} \<subseteq> set hs"
  shows "ifaceRows (column ''name'' hs) (column ''external_ids'' hs) (column ''mac_in_use'' hs) (map (\<lambda>v. map (cell v) hs) vs) =
    Some (map iface_of (filter (\<lambda>v. eid v ''iface-id'' \<noteq> []) vs))"
  by (induction vs) (simp_all add: ifaceRow_cell [OF assms])

section \<open>Reading addresses\<close>

definition plain :: "char \<Rightarrow> bool" where
  "plain c \<longleftrightarrow> (let n = of_char c :: nat in 33 \<le> n \<and> n < 127)"

lemma spaces_start: "\<forall>w \<in> set spaces. w \<noteq> [] \<and> \<not> plain (hd w)"
    "\<forall>w \<in> set spaces. hd w = CHR '' '' \<longrightarrow> w = '' ''" "'' '' \<in> set spaces"
  by (simp_all add: spaces_def plain_def)

lemma space_match:
  assumes "w \<in> set spaces" "take (length w) (c # s) = w"
  shows "hd w = c"
proof -
  have "w \<noteq> []" using spaces_start(1) assms(1) by blast
  then show ?thesis using assms(2) by (cases w) auto
qed

lemma space_prefix_plain:
  assumes "plain c"
  shows "space_prefix (c # s) = 0"
proof (cases "List.find (\<lambda>w. take (length w) (c # s) = w) spaces")
  case (Some w)
  then have w: "w \<in> set spaces" "take (length w) (c # s) = w" by (auto simp: find_Some_iff)
  from space_match [OF this] w(1) show ?thesis using spaces_start(1) assms by blast
qed (simp add: space_prefix_def)

lemma space_prefix_blank: "space_prefix (CHR '' '' # s) = 1"
proof (cases "List.find (\<lambda>w. take (length w) (CHR '' '' # s) = w) spaces")
  case None
  then have "take (length '' '') (CHR '' '' # s) \<noteq> '' ''" using spaces_start(3) unfolding find_None_iff by blast
  then show ?thesis by simp
next
  case (Some w)
  then have "w \<in> set spaces" "take (length w) (CHR '' '' # s) = w" by (auto simp: find_Some_iff)
  then have "w = '' ''" using space_match spaces_start(2) by blast
  then show ?thesis using Some by (simp add: space_prefix_def)
qed

lemma fields_plain:
  "\<forall>c \<in> set w. plain c \<Longrightarrow> fields_from cur (w @ s) = fields_from (cur @ w) s"
proof (induction w arbitrary: cur)
  case (Cons c w)
  then show ?case by (subst fields_from.simps) (simp add: space_prefix_plain)
qed simp

lemma Fields_join:
  assumes "\<forall>w \<in> set ws. w \<noteq> [] \<and> (\<forall>c \<in> set w. plain c)"
  shows "Fields (join '' '' ws) = ws"
  using assms
proof (induction ws)
  case Nil
  then show ?case by (simp add: Fields_def fields_from.simps)
next
  case (Cons w ws)
  show ?case
  proof (cases ws)
    case Nil
    then show ?thesis using Cons.prems fields_plain [of w "[]" "[]"] by (simp add: Fields_def fields_from.simps [of w "[]"])
  next
    case (Cons x xs)
    let ?r = "join '' '' ws"
    have "fields_from w (CHR '' '' # ?r) = w # fields_from [] ?r"
      using Cons.prems by (subst fields_from.simps) (simp add: space_prefix_blank)
    then show ?thesis
      using Cons Cons.prems Cons.IH fields_plain [of w "[]" "CHR '' '' # ?r"] by (simp add: Fields_def)
  qed
qed

lemma plain_digit: "d < 16 \<Longrightarrow> plain (digit_char d)"
  by (auto simp: plain_def digit_char_def Let_def)

lemma num_string_plain: "2 \<le> b \<Longrightarrow> b \<le> 16 \<Longrightarrow> c \<in> set (num_string b n) \<Longrightarrow> plain c"
proof (induction n rule: less_induct)
  case (less n)
  show ?case
  proof (cases "n < b")
    case True
    then show ?thesis using less.prems by (simp add: num_string_digit plain_digit)
  next
    case False
    have "n mod b < 16" using less.prems by (simp add: less_le_trans [OF mod_less_divisor])
    moreover have small: "n div b < n" using False less.prems by simp
    moreover have "c \<in> set (num_string b (n div b)) \<or> c = digit_char (n mod b)"
      using less.prems False by (auto simp: num_string_step)
    ultimately show ?thesis using less.IH [OF small less.prems(1,2)] plain_digit by blast
  qed
qed

lemma join_plain:
  assumes "\<forall>c \<in> set sep. plain c" "\<forall>x \<in> set xs. \<forall>c \<in> set x. plain c" "c \<in> set (join sep xs)"
  shows "plain c"
  using join_set [of sep xs] assms by blast

lemma ip_string_plain:
  assumes "length ip = 4 \<or> length ip = 16"
  shows "ip_string ip \<noteq> [] \<and> (\<forall>c \<in> set (ip_string ip). plain c)"
proof -
  have sep: "\<forall>c \<in> set '':''. plain c" "\<forall>c \<in> set ''.''. plain c" by (simp_all add: plain_def)
  have digits: "c \<in> set (hex_string n) \<Longrightarrow> plain c" "c \<in> set (dec_string n) \<Longrightarrow> plain c" for c n
    using num_string_plain [of 16 c n] num_string_plain [of 10 c n] by (simp_all add: hex_string_def dec_string_def)
  have hex: "\<forall>c \<in> set (join '':'' (map hex_string g)). plain c" for g
    by (rule ballI, rule join_plain [OF sep(1)]) (use digits in auto)
  have dec: "\<forall>c \<in> set (dotted ip). plain c" for ip
    unfolding dotted_def by (rule ballI, rule join_plain [OF sep(2)]) (use digits in auto)
  have "\<forall>c \<in> set (ip_string ip). plain c"
  proof (cases "length (To4 ip) = 4")
    case True
    then show ?thesis using assms dec by (auto simp: ip_string_def)
  next
    case False
    then have "ip_string ip = ip6_string ip" using assms by (auto simp: ip_string_def)
    then show ?thesis using hex sep by (auto simp: ip6_string_def Let_def split: option.split)
  qed
  moreover have "ip_string ip \<noteq> []"
    using ParseIP_ip_string [OF assms] by (auto simp: ParseIP_def)
  ultimately show ?thesis by blast
qed

lemma valid_entry:
  assumes "\<forall>c \<in> set mac. plain c" "\<forall>ip \<in> set ips. length ip = 4 \<or> length ip = 16"
  shows "valid_utf8 (join '' '' (mac # map ip_string ips))"
proof (rule valid_ascii, unfold list_all_iff, rule ballI)
  fix c
  assume "c \<in> set (join '' '' (mac # map ip_string ips))"
  then have "c \<in> set '' '' \<union> (\<Union>x \<in> set (mac # map ip_string ips). set x)" using join_set by blast
  then have "c = CHR '' '' \<or> plain c" using assms ip_string_plain by auto
  then show "(of_char c :: nat) < 0x80" by (auto simp: plain_def Let_def)
qed

text \<open>The address column as the command writes it.\<close>

definition addresses_text :: "string list \<Rightarrow> string" where
  "addresses_text es = writeCompact (encTable [''addresses''] [[encSet es]])"

lemma read_addresses_text:
  "\<forall>e \<in> set es. valid_utf8 e \<Longrightarrow> readJSON (addresses_text es) = Some (encTable [''addresses''] [[encSet es]])"
  unfolding addresses_text_def using valid_ascii [of "''addresses''"]
  by (subst read_table) (simp_all add: fits_enc clean_encSet valid_utf8_def map_idI)

lemma entryIPs_entry:
  assumes "ParseIP mac = None" "mac \<noteq> []" "\<forall>c \<in> set mac. plain c" "\<forall>ip \<in> set ips. length ip = 4 \<or> length ip = 16"
  shows "entryIPs (join '' '' (mac # map ip_string ips)) = map To16 ips"
proof -
  have "Fields (join '' '' (mac # map ip_string ips)) = mac # map ip_string ips"
    by (rule Fields_join) (use assms ip_string_plain in auto)
  moreover have "List.map_filter ParseIP (map ip_string ips) = map To16 ips"
    using assms(4) by (induction ips) (auto simp: List.map_filter_simps ParseIP_ip_string)
  ultimately show ?thesis using assms(1) by (simp add: entryIPs_def List.map_filter_simps)
qed

section \<open>Properties\<close>

text \<open>
  C26: Discovery reads what OVSDB writes. From the text of a table of interfaces with the three columns
  the agent asks for, among any others and in any order, exactly the interfaces with a non-empty
  iface-id come back, in the order of the table, each with its name, its iface-id, and as MAC address
  the attached-mac of its external ids or else the first MAC address in use, whatever characters the
  names have.
\<close>

theorem discover_reads_table:
  assumes "{''name'', ''external_ids'', ''mac_in_use''} \<subseteq> set hs" "\<forall>h \<in> set hs. valid_utf8 h" "\<forall>v \<in> set vs. valid_vif v"
  shows "ParseInterfaces (readJSON (table_text hs vs)) =
    Some (Some (map iface_of (filter (\<lambda>v. eid v ''iface-id'' \<noteq> []) vs)))"
  by (simp add: read_table_text [OF assms(2,3)] ParseInterfaces_def asTable_encTable ifaceRows_cells [OF assms(1)])

theorem discover_reads_table_witness:
  "ParseInterfaces (readJSON (table_text [''mac_in_use'', ''external_ids'', ''name'']
     [\<lparr>v_name = ''tap0'', v_eids = [(''iface-id'', ''vm1'')], v_mac = [''02:00:00:00:00:01'']\<rparr>,
      \<lparr>v_name = ''br-int'', v_eids = [], v_mac = []\<rparr>])) =
   Some (Some [\<lparr>i_Name = ''tap0'', i_MAC = ''02:00:00:00:00:01'', i_IfaceID = ''vm1''\<rparr>])"
  using discover_reads_table [of "[''mac_in_use'', ''external_ids'', ''name'']"
    "[\<lparr>v_name = ''tap0'', v_eids = [(''iface-id'', ''vm1'')], v_mac = [''02:00:00:00:00:01'']\<rparr>,
      \<lparr>v_name = ''br-int'', v_eids = [], v_mac = []\<rparr>]"]
  by (simp add: iface_of_def eid_def valid_vif_def valid_ascii)

text \<open>
  The addresses of a logical port. From the address column of a port, whose entries are a MAC
  address followed by IP addresses in their canonical text form, exactly these IP addresses come
  back, in order, in the 16-byte form; the MAC addresses are skipped.
\<close>

theorem nb_addresses_roundtrip:
  assumes "\<forall>(mac, ips) \<in> set es. ParseIP mac = None \<and> mac \<noteq> [] \<and> (\<forall>c \<in> set mac. plain c) \<and>
    (\<forall>ip \<in> set ips. length ip = 4 \<or> length ip = 16)"
  shows "ParseNBAddresses (readJSON (addresses_text (map (\<lambda>(mac, ips). join '' '' (mac # map ip_string ips)) es))) =
    Some (Some (concat (map (\<lambda>(mac, ips). map To16 ips) es)))"
proof -
  let ?es = "map (\<lambda>(mac, ips). join '' '' (mac # map ip_string ips)) es"
  have "concat (map entryIPs ?es) = concat (map (\<lambda>(mac, ips). map To16 ips) es)"
    using assms by (induction es) (auto simp: entryIPs_entry simp del: join.simps)
  moreover have "column ''addresses'' [''addresses''] = Some 0" by (simp add: column_def)
  moreover have "\<forall>e \<in> set ?es. valid_utf8 e" using assms valid_entry by fastforce
  ultimately show ?thesis by (simp only: read_addresses_text) (simp add: ParseNBAddresses_eq asTable_encTable ovsList_encSet)
qed

theorem nb_addresses_roundtrip_witness:
  "ParseNBAddresses (readJSON (addresses_text [join '' '' (''0a:00:00:00:00:01'' # map ip_string [[10, 0, 0, 2]])])) =
    Some (Some [v4InV6Prefix @ [10, 0, 0, 2]])"
proof -
  have "ParseIP ''0a:00:00:00:00:01'' = None" by code_simp
  then show ?thesis
    using nb_addresses_roundtrip [of "[(''0a:00:00:00:00:01'', [[10, 0, 0, 2]])]"]
    by (simp add: plain_def To16_4 del: join.simps)
qed

text \<open>
  Whatever OVN answers, the agent survives: no output of the commands (failed, not JSON, of another
  shape, rows too short) makes discovery, the lookup of one port or the resolution of addresses
  panic.
\<close>

theorem ovs_never_panics:
  "ParseInterfaces data \<noteq> None \<and> ParseNBAddresses data \<noteq> None \<and> DiscoverPorts runCmd \<noteq> None \<and>
   LookupPort runCmd name \<noteq> None"
  using ParseInterfaces_total [of data] DiscoverPorts_total [of runCmd] LookupPort_total [of runCmd name]
  by (auto simp: ParseNBAddresses_eq)

end
