(* ===== verification/Emit.thy ===== *)
theory Emit
  imports Go_Time Ovs "HOL-Library.Sublist"
begin

text \<open>
  The agent's sinks: \<^verbatim>\<open>agent/emit.go\<close> (standard output, the bounded queue to the collector and the
  goroutine that drains it, the cache of logical-switch names) and \<^verbatim>\<open>agent/otlp.go\<close> (a span per
  observation). The reader and the shipping goroutine interleave: they are the steps of a transition
  relation, one step per channel operation. What leaves the agent is recorded in the state: what is
  handed to the encoder of standard output, what is posted (with the outcome), the spans.
\<close>

section \<open>Spans\<close>

text \<open>Attribute values keep Go's kinds. The parser of UUID text (third party) is a parameter, as is the clock.\<close>

datatype attr = AString string | AInt int | ABool bool

record span =
  sp_traceID :: bytes
  sp_parent :: bytes
  sp_name :: string
  sp_start :: gotime
  sp_end :: gotime
  sp_attrs :: "(string \<times> attr) list"

definition opt_attr :: "bool \<Rightarrow> string \<Rightarrow> 'v \<Rightarrow> (string \<times> 'v) list" where
  "opt_attr c k v = (if c then [(k, v)] else [])"

definition otlpAttrs :: "Observation \<Rightarrow> (string \<times> attr) list" where
  "otlpAttrs ob =
     [(''traceflow.node_id'', AString (o_NodeID ob)), (''traceflow.hop'', AInt (uint (o_Hop ob))),
      (''traceflow.direction'', AString (o_Direction ob)), (''traceflow.protocol'', AString (o_Protocol ob)),
      (''traceflow.iface_type'', AString (o_IfaceType ob)), (''traceflow.action'', AString (o_Action ob)),
      (''source.address'', AString (o_SrcIP ob)), (''destination.address'', AString (o_DstIP ob)),
      (''traceflow.latency_ns'', AInt (sint (o_LatencyNS ob)))] @
     opt_attr (o_VNI ob \<noteq> 0) ''traceflow.vni'' (AInt (uint (o_VNI ob))) @
     opt_attr (o_VLAN ob \<noteq> 0) ''traceflow.vlan'' (AInt (uint (o_VLAN ob))) @
     opt_attr (o_AZ ob \<noteq> []) ''cloud.availability_zone'' (AString (o_AZ ob)) @
     opt_attr (o_Iface ob \<noteq> []) ''traceflow.iface'' (AString (o_Iface ob)) @
     opt_attr (o_LogicalSwitch ob \<noteq> []) ''traceflow.logical_switch'' (AString (o_LogicalSwitch ob)) @
     opt_attr (o_SrcPort ob \<noteq> 0) ''source.port'' (AInt (uint (o_SrcPort ob))) @
     opt_attr (o_DstPort ob \<noteq> 0) ''destination.port'' (AInt (uint (o_DstPort ob))) @
     opt_attr (o_TCPFlags ob \<noteq> []) ''traceflow.tcp_flags'' (AString (o_TCPFlags ob)) @
     opt_attr (o_ClockSkew ob) ''traceflow.clock_skew'' (ABool True)"

text \<open>The arrow between the addresses is U+2192 in UTF-8.\<close>

definition arrow :: string where
  "arrow = [CHR 0xE2, CHR 0x86, CHR 0x92]"

definition export :: "(string \<Rightarrow> bytes option) \<Rightarrow> gotime \<Rightarrow> Observation \<Rightarrow> span list \<Rightarrow> span list" where
  "export uuidParse now ob spans =
     (case uuidParse (o_ID ob) of
        None \<Rightarrow> spans
      | Some u \<Rightarrow>
          let start = (case ParseTime (o_Timestamp ob) of Some t \<Rightarrow> t | None \<Rightarrow> now) in
          spans @ [\<lparr>sp_traceID = u, sp_parent = copy_from (make_bytes 8) 0 (take 8 u),
            sp_name = o_NodeID ob @ '' '' @ o_Direction ob @ '' '' @ o_SrcIP ob @ arrow @ o_DstIP ob,
            sp_start = start, sp_end = start, sp_attrs = otlpAttrs ob\<rparr>])"

text \<open>\<^verbatim>\<open>newOTLPSink\<close>: where spans go, the attributes of the resource they all carry and whether the library's
  provider has been told to shut down; \<open>libOK\<close> says whether the library could make the exporter and the
  resource. An error of the provider's shutdown is only logged.\<close>

record otlpSink =
  sk_endpoint :: string
  sk_resource :: "(string \<times> attr) list"
  sk_down :: bool

definition newOTLPSink :: "bool \<Rightarrow> string \<Rightarrow> string \<Rightarrow> string \<Rightarrow> otlpSink option" where
  "newOTLPSink libOK endpoint nodeID az =
     (if \<not> libOK then None
      else Some \<lparr>sk_endpoint = endpoint,
        sk_resource = [(''service.name'', AString ''traceflow''), (''host.name'', AString nodeID)] @
          opt_attr (az \<noteq> []) ''cloud.availability_zone'' (AString az), sk_down = False\<rparr>)"

definition shutdown :: "otlpSink \<Rightarrow> otlpSink" where
  "shutdown s = s\<lparr>sk_down := True\<rparr>"

section \<open>The emitter\<close>

definition queueCap :: nat where "queueCap = 1024"

record emitter =
  em_nodeID :: string
  em_az :: string
  em_lsCache :: "(u32, string) gomap"
  em_queue :: "Observation list option"
  em_closed :: bool
  em_otlp :: "otlpSink option"
  em_stdout :: "Observation list"
  em_posted :: "(Observation \<times> bool) list"
  em_spans :: "span list"

definition newEmitter :: "string \<Rightarrow> string \<Rightarrow> string \<Rightarrow> string \<Rightarrow> bool \<Rightarrow> emitter" where
  "newEmitter nodeID az collectorURL otlpEndpoint otlpOK =
     \<lparr>em_nodeID = nodeID, em_az = az, em_lsCache = [],
      em_queue = (if collectorURL \<noteq> [] then Some [] else None), em_closed = False,
      em_otlp = (if otlpEndpoint \<noteq> [] then newOTLPSink otlpOK otlpEndpoint nodeID az else None), em_stdout = [], em_posted = [], em_spans = []\<rparr>"

text \<open>The answer of the southbound database to a lookup; an error leaves the empty name.\<close>

type_synonym sb_answer = "u32 \<Rightarrow> ovs_error + string"

definition logicalSwitch :: "sb_answer \<Rightarrow> emitter \<Rightarrow> u32 \<Rightarrow> string \<times> emitter" where
  "logicalSwitch sb e vni =
     (case mget (em_lsCache e) vni of
        Some n \<Rightarrow> (n, e)
      | None \<Rightarrow>
          let name = (case sb vni of Inr n \<Rightarrow> n | Inl _ \<Rightarrow> [])
          in (name, e\<lparr>em_lsCache := mput (em_lsCache e) vni name\<rparr>))"

record sinks =
  s_sb :: sb_answer
  s_uuidParse :: "string \<Rightarrow> bytes option"
  s_now :: gotime

definition enqueue :: "Observation \<Rightarrow> emitter \<Rightarrow> emitter" where
  "enqueue ob e =
     (case em_queue e of
        None \<Rightarrow> e
      | Some q \<Rightarrow> if length q < queueCap then e\<lparr>em_queue := Some (q @ [ob])\<rparr> else e)"

definition emit_obs :: "sinks \<Rightarrow> emitter \<Rightarrow> Observation \<Rightarrow> emitter" where
  "emit_obs k e ob =
     (let ob = ob\<lparr>o_AZ := em_az e\<rparr>;
          (ob, e) = (if o_VNI ob \<noteq> 0
            then let (name, e) = logicalSwitch (s_sb k) e (o_VNI ob) in (ob\<lparr>o_LogicalSwitch := name\<rparr>, e)
            else (ob, e));
          e = e\<lparr>em_stdout := em_stdout e @ [ob]\<rparr>;
          e = enqueue ob e
      in if em_otlp e \<noteq> None then e\<lparr>em_spans := export (s_uuidParse k) (s_now k) ob (em_spans e)\<rparr> else e)"

section \<open>Interleaving\<close>

text \<open>\<^verbatim>\<open>Emit\<close>: the reader hands an observation over; \<^verbatim>\<open>Ship\<close>: the shipping goroutine takes one from the
  channel and posts it (an error is logged, the observation dropped); \<^verbatim>\<open>Close\<close>: the reader has returned
  and the channel is closed; \<^verbatim>\<open>Stop\<close>: the wait for the shipping goroutine is over and the OTLP sink, if there
  is one, is shut down.\<close>

datatype em_event = EmitEv sinks Observation | ShipEv bool | CloseEv | StopEv

inductive em_step :: "emitter \<Rightarrow> em_event \<Rightarrow> emitter \<Rightarrow> bool" where
  emit: "\<not> em_closed e \<Longrightarrow> em_step e (EmitEv k ob) (emit_obs k e ob)"
| ship: "em_queue e = Some (ob # q) \<Longrightarrow>
    em_step e (ShipEv ok) (e\<lparr>em_queue := Some q, em_posted := em_posted e @ [(ob, ok)]\<rparr>)"
| close: "\<not> em_closed e \<Longrightarrow> em_step e CloseEv (e\<lparr>em_closed := True\<rparr>)"
| stop: "em_closed e \<Longrightarrow> em_queue e \<in> {None, Some []} \<Longrightarrow> em_otlp e = Some s \<Longrightarrow> \<not> sk_down s \<Longrightarrow>
    em_step e StopEv (e\<lparr>em_otlp := Some (shutdown s)\<rparr>)"

inductive_cases em_emitE: "em_step e (EmitEv k ob) e'"
inductive_cases em_shipE: "em_step e (ShipEv ok) e'"
inductive_cases em_closeE: "em_step e CloseEv e'"
inductive_cases em_stopE: "em_step e StopEv e'"

lemmas em_stepE = em_emitE em_shipE em_closeE em_stopE

inductive em_run :: "emitter \<Rightarrow> em_event list \<Rightarrow> emitter \<Rightarrow> bool" where
  nil: "em_run e [] e"
| cons: "em_step e ev e' \<Longrightarrow> em_run e' evs e'' \<Longrightarrow> em_run e (ev # evs) e''"

inductive_simps em_run_nil: "em_run e [] e'"
inductive_simps em_run_cons: "em_run e (ev # evs) e'"

text \<open>The shipping loop has ended: the channel is closed and drained.\<close>

definition drained :: "emitter \<Rightarrow> bool" where
  "drained e \<longleftrightarrow> em_closed e \<and> em_queue e = Some []"

section \<open>Lemmas\<close>

lemma logicalSwitch_frame:
  "logicalSwitch sb e vni = (n, e') \<Longrightarrow> \<exists>c. e' = e\<lparr>em_lsCache := c\<rparr>"
  by (cases "mget (em_lsCache e) vni") (auto simp: logicalSwitch_def Let_def intro: exI [of _ "em_lsCache e"])

lemma enqueue_frame [simp]:
  "em_stdout (enqueue ob e) = em_stdout e" "em_posted (enqueue ob e) = em_posted e"
  "em_closed (enqueue ob e) = em_closed e" "em_otlp (enqueue ob e) = em_otlp e"
  "em_lsCache (enqueue ob e) = em_lsCache e" "em_spans (enqueue ob e) = em_spans e"
  by (simp_all add: enqueue_def split: option.split)

text \<open>The observation as it leaves: zone and logical switch filled in.\<close>

definition outgoing :: "sinks \<Rightarrow> emitter \<Rightarrow> Observation \<Rightarrow> Observation" where
  "outgoing k e ob = (let ob = ob\<lparr>o_AZ := em_az e\<rparr> in
     if o_VNI ob \<noteq> 0 then ob\<lparr>o_LogicalSwitch := fst (logicalSwitch (s_sb k) e (o_VNI ob))\<rparr> else ob)"

lemma emit_obs_fields:
  "em_stdout (emit_obs k e ob) = em_stdout e @ [outgoing k e ob]"
  "em_posted (emit_obs k e ob) = em_posted e"
  "em_queue (emit_obs k e ob) = map_option (\<lambda>q. if length q < queueCap then q @ [outgoing k e ob] else q) (em_queue e)"
  "em_closed (emit_obs k e ob) = em_closed e"
proof -
  obtain n e1 where ls: "logicalSwitch (s_sb k) e (o_VNI ob) = (n, e1)" by fastforce
  have f: "em_stdout e1 = em_stdout e" "em_posted e1 = em_posted e" "em_queue e1 = em_queue e" "em_closed e1 = em_closed e"
    using logicalSwitch_frame [OF ls] by auto
  show "em_stdout (emit_obs k e ob) = em_stdout e @ [outgoing k e ob]"
    "em_posted (emit_obs k e ob) = em_posted e"
    "em_queue (emit_obs k e ob) = map_option (\<lambda>q. if length q < queueCap then q @ [outgoing k e ob] else q) (em_queue e)"
    "em_closed (emit_obs k e ob) = em_closed e"
    using f by (auto simp: emit_obs_def outgoing_def Let_def ls enqueue_def split: option.split)
qed

text \<open>What is posted and waiting, in order, is a part of what was emitted, in order.\<close>

definition em_inv :: "emitter \<Rightarrow> bool" where
  "em_inv e \<longleftrightarrow> (\<exists>q. em_queue e = Some q \<and> length q \<le> queueCap \<and> subseq (map fst (em_posted e) @ q) (em_stdout e))"

lemma em_step_inv:
  assumes "em_step e ev e'" "em_inv e"
  shows "em_inv e'"
  using assms(1)
proof cases
  case (emit k ob)
  obtain q where q: "em_queue e = Some q" "length q \<le> queueCap" "subseq (map fst (em_posted e) @ q) (em_stdout e)"
    using assms(2) by (auto simp: em_inv_def)
  have "subseq ((map fst (em_posted e) @ q) @ x) (em_stdout e @ [outgoing k e ob])" if "x = [] \<or> x = [outgoing k e ob]" for x
    by (rule list_emb_append_mono [OF q(3)]) (use that in auto)
  from this [of "[]"] this [of "[outgoing k e ob]"] show ?thesis
    using q emit by (auto simp: em_inv_def emit_obs_fields)
qed (use assms(2) in \<open>auto simp: em_inv_def\<close>)

lemma em_run_inv: "em_run e evs e' \<Longrightarrow> em_inv e \<Longrightarrow> em_inv e'"
  by (induction rule: em_run.induct) (auto intro: em_step_inv)

fun emits :: "em_event list \<Rightarrow> nat" where
  "emits [] = 0"
| "emits (EmitEv k ob # evs) = Suc (emits evs)"
| "emits (_ # evs) = emits evs"

fun ships :: "em_event list \<Rightarrow> nat" where
  "ships [] = 0"
| "ships (ShipEv ok # evs) = Suc (ships evs)"
| "ships (_ # evs) = ships evs"

lemma em_run_lossless:
  assumes "em_run e evs e'" "em_queue e = Some q" "em_stdout e = map fst (em_posted e) @ q"
    and "\<forall>n. length q + emits (take n evs) \<le> ships (take n evs) + queueCap"
  shows "\<exists>q'. em_queue e' = Some q' \<and> em_stdout e' = map fst (em_posted e') @ q'"
  using assms
proof (induction arbitrary: q rule: em_run.induct)
  case (cons e ev e' evs e'')
  have later: "length q + emits (ev # take n evs) \<le> ships (ev # take n evs) + queueCap" for n
    using cons.prems(3) [rule_format, of "Suc n"] by simp
  show ?case using cons.hyps(1)
  proof cases
    case (emit k ob)
    have room: "length q < queueCap" using later [of 0] emit by simp
    show ?thesis
      by (rule cons.IH [of "q @ [outgoing k e ob]"])
        (use cons.prems room emit later in \<open>auto simp: emit_obs_fields\<close>)
  next
    case (ship ob q1 ok)
    show ?thesis
    proof (rule cons.IH [of q1])
      have "length q1 + emits (take n evs) \<le> ships (take n evs) + queueCap" for n
        using later [of n] ship cons.prems(1) by simp
      then show "\<forall>n. length q1 + emits (take n evs) \<le> ships (take n evs) + queueCap" by blast
    qed (use cons.prems ship in simp_all)
  next
    case close
    show ?thesis by (rule cons.IH [of q]) (use cons.prems close later in auto)
  next
    case (stop s)
    show ?thesis by (rule cons.IH [of q]) (use cons.prems stop later in auto)
  qed
qed simp

lemma em_closed_step:
  assumes "em_step e ev e'" "em_closed e" "em_queue e = Some q"
  shows "(\<exists>ob q' ok. ev = ShipEv ok \<and> q = ob # q' \<and> em_queue e' = Some q' \<and> em_closed e' \<and>
      em_posted e' = em_posted e @ [(ob, ok)] \<and> em_otlp e' = em_otlp e) \<or>
    (\<exists>s. ev = StopEv \<and> q = [] \<and> em_otlp e = Some s \<and> \<not> sk_down s \<and> e' = e\<lparr>em_otlp := Some (shutdown s)\<rparr>)"
  using assms by cases auto

text \<open>After the sink is shut down nothing is left to do.\<close>

definition stopped :: "emitter \<Rightarrow> bool" where
  "stopped e \<longleftrightarrow> drained e \<and> (case em_otlp e of None \<Rightarrow> True | Some s \<Rightarrow> sk_down s)"

lemma stopped_final: "stopped e \<Longrightarrow> \<not> em_step e ev e'"
  by (auto simp: stopped_def drained_def elim: em_step.cases)

lemma em_closed_run:
  assumes "em_run e evs e'" "em_closed e" "em_queue e = Some q"
  shows "\<exists>q' oks stop. evs = map ShipEv oks @ stop \<and> (stop = [] \<or> stop = [StopEv] \<and> stopped e') \<and>
    em_queue e' = Some q' \<and> em_closed e' \<and> length oks + length q' = length q \<and>
    map fst (em_posted e') @ q' = map fst (em_posted e) @ q"
  using assms
proof (induction arbitrary: q rule: em_run.induct)
  case (nil e)
  then show ?case by (intro exI [of _ q] exI [of _ "[]"]) simp
next
  case (cons e ev e' evs e'')
  from em_closed_step [OF cons.hyps(1) cons.prems] show ?case
  proof (elim disjE exE conjE)
    fix ob q1 ok
    assume ship: "ev = ShipEv ok" "q = ob # q1" "em_queue e' = Some q1" "em_closed e'" "em_posted e' = em_posted e @ [(ob, ok)]"
    from cons.IH [OF ship(4,3)] obtain q' oks stop where ih: "evs = map ShipEv oks @ stop" "stop = [] \<or> stop = [StopEv] \<and> stopped e''"
        "em_queue e'' = Some q'" "em_closed e''" "length oks + length q' = length q1"
        "map fst (em_posted e'') @ q' = map fst (em_posted e') @ q1" by blast
    show ?thesis by (rule exI [of _ q'], rule exI [of _ "ok # oks"], rule exI [of _ stop]) (use ih ship in auto)
  next
    fix s
    assume stop: "ev = StopEv" "q = []" "e' = e\<lparr>em_otlp := Some (shutdown s)\<rparr>"
    then have fin: "stopped e'" using cons.prems by (simp add: stopped_def drained_def shutdown_def)
    with cons.hyps(2) have "evs = [] \<and> e'' = e'" by cases (auto dest: stopped_final)
    then show ?thesis using stop cons.prems fin by (intro exI [of _ "[]"] exI [of _ "[StopEv]"]) auto
  qed
qed

lemma em_progress: "em_queue e = Some q \<Longrightarrow> q \<noteq> [] \<Longrightarrow> \<exists>e'. em_step e (ShipEv ok) e'"
  by (cases q) (auto intro: em_step.ship)

section \<open>Properties\<close>

text \<open>
  C16: The queue to the collector. In every interleaving of the reader and the shipping goroutine,
  whatever the collector answers, the observations posted so far followed by those waiting are a
  subsequence of those emitted: none is duplicated, none overtakes another, and at most 1024 wait.
  As long as the reader is never more than 1024 observations ahead, none is lost.
\<close>

theorem emitter_queue:
  assumes "url \<noteq> []" "em_run (newEmitter nodeID az url ep ok) evs e"
  shows "\<exists>q. em_queue e = Some q \<and> length q \<le> 1024 \<and> subseq (map fst (em_posted e) @ q) (em_stdout e) \<and>
    ((\<forall>n. emits (take n evs) \<le> ships (take n evs) + 1024) \<longrightarrow> map fst (em_posted e) @ q = em_stdout e)"
proof -
  let ?e0 = "newEmitter nodeID az url ep ok"
  have q0: "em_queue ?e0 = Some []" "em_stdout ?e0 = map fst (em_posted ?e0) @ []" "em_inv ?e0"
    using assms(1) by (simp_all add: newEmitter_def em_inv_def)
  obtain q where q: "em_queue e = Some q" "length q \<le> 1024" "subseq (map fst (em_posted e) @ q) (em_stdout e)"
    using em_run_inv [OF assms(2) q0(3)] by (auto simp: em_inv_def queueCap_def)
  have "map fst (em_posted e) @ q = em_stdout e" if "\<forall>n. emits (take n evs) \<le> ships (take n evs) + 1024"
    using em_run_lossless [OF assms(2) q0(1,2)] that q(1) by (auto simp: queueCap_def)
  with q show ?thesis by blast
qed

definition demo_sinks :: sinks where
  "demo_sinks = \<lparr>s_sb = (\<lambda>_. Inl CommandFailed), s_uuidParse = (\<lambda>_. None), s_now = \<lparr>unixSec = 0, nsec = 0, zoneOffset = 0\<rparr>\<rparr>"

definition demo_raw :: "bytes \<Rightarrow> u32 \<Rightarrow> Raw" where
  "demo_raw i vni = \<lparr>raw_MetaTimestamp = 0, raw_CaptureNS = 7, raw_ID = i, raw_SrcIP = replicate 16 0, raw_DstIP = replicate 16 0,
     raw_VNI = vni, raw_IfIndex = 0, raw_SrcPort = 0, raw_DstPort = 0, raw_VLANID = 0, raw_IPVersion = 4, raw_Hop = 1,
     raw_Direction = 0, raw_Action = 0, raw_Protocol = 1, raw_TCPFlags = 0, raw_IfaceType = 0\<rparr>"

definition demo_emitted :: "u32 \<Rightarrow> Observation" where
  "demo_emitted vni = fst (Enrich (\<lambda>_. ''run'') (\<lambda>_. None) [] (demo_raw (replicate 16 1) vni) ''n1''
     \<lparr>unixSec = 0, nsec = 0, zoneOffset = 0\<rparr>)"

lemma demo_queue_run:
  "\<exists>e. em_run (newEmitter ''n1'' ''az1'' ''http://c'' [] False) [EmitEv demo_sinks (demo_emitted vni), ShipEv True] e \<and> em_queue e = Some []"
proof -
  let ?e0 = "newEmitter ''n1'' ''az1'' ''http://c'' [] False"
  let ?e1 = "emit_obs demo_sinks ?e0 (demo_emitted vni)"
  have q1: "em_queue ?e1 = Some [outgoing demo_sinks ?e0 (demo_emitted vni)]"
    by (simp add: emit_obs_fields newEmitter_def queueCap_def)
  have "em_step ?e0 (EmitEv demo_sinks (demo_emitted vni)) ?e1"
    by (rule em_step.emit) (simp add: newEmitter_def)
  from em_run.cons [OF this em_run.cons [OF em_step.ship [OF q1, of True] em_run.nil]]
  show ?thesis by fastforce
qed

theorem emitter_queue_witness:
  "\<exists>e. em_run (newEmitter ''n1'' ''az1'' ''http://c'' [] False) [EmitEv demo_sinks (demo_emitted 0), ShipEv True] e \<and>
     map fst (em_posted e) = em_stdout e"
proof -
  obtain e where e: "em_run (newEmitter ''n1'' ''az1'' ''http://c'' [] False) [EmitEv demo_sinks (demo_emitted 0), ShipEv True] e"
    "em_queue e = Some []" using demo_queue_run by blast
  have "\<forall>n. emits (take n [EmitEv demo_sinks (demo_emitted 0), ShipEv True]) \<le>
      ships (take n [EmitEv demo_sinks (demo_emitted 0), ShipEv True]) + 1024"
    by (auto simp: take_Cons' split: if_splits)
  with emitter_queue [OF _ e(1)] e show ?thesis by auto
qed

text \<open>
  C34: Shutdown terminates and loses nothing. Once the reader has returned and the channel is closed, the
  only steps left are posts, exactly as many as observations are waiting, and then the shutdown of the
  OTLP sink, once and only when all has been posted. In every execution each prefix posts a prefix of
  what was waiting, in order; a step is always possible until nothing is left to post and the sink, if
  there is one, is shut down, and then none is.
\<close>

theorem emitter_shutdown:
  assumes "em_closed e" "em_queue e = Some q" "em_run e evs e'"
  shows "\<exists>oks stop. evs = map ShipEv oks @ stop \<and> length oks \<le> length q \<and>
    (stop = [] \<or> stop = [StopEv] \<and> length oks = length q \<and> stopped e') \<and>
    map fst (em_posted e') = map fst (em_posted e) @ take (length oks) q \<and>
    (if stopped e' then length oks = length q \<and> (\<forall>ev e''. \<not> em_step e' ev e'') else (\<exists>ev e''. em_step e' ev e''))"
proof -
  obtain q' oks stop where evs: "evs = map ShipEv oks @ stop" "stop = [] \<or> stop = [StopEv] \<and> stopped e'"
    and q': "em_queue e' = Some q'" "em_closed e'" "length oks + length q' = length q"
      "map fst (em_posted e') @ q' = map fst (em_posted e) @ q"
    using em_closed_run [OF assms(3,1,2)] by blast
  have "map fst (em_posted e') @ q' = (map fst (em_posted e) @ take (length oks) q) @ drop (length oks) q"
    "length q' = length (drop (length oks) q)" using q'(3,4) by simp_all
  then have "map fst (em_posted e') = map fst (em_posted e) @ take (length oks) q" by (metis append_eq_append_conv)
  moreover have fin: "stopped e' \<Longrightarrow> length oks = length q" using q'(1,3) by (simp add: stopped_def drained_def)
  moreover have "\<exists>ev e''. em_step e' ev e''" if "\<not> stopped e'"
  proof (cases "q' = []")
    case True
    with that q' obtain s where "em_otlp e' = Some s" "\<not> sk_down s" by (auto simp: stopped_def drained_def split: option.splits)
    then show ?thesis using em_step.stop [of e' s] q' True by blast
  qed (use em_progress [OF q'(1)] in blast)
  ultimately show ?thesis using evs q'(3) stopped_final [of e'] by (intro exI [of _ oks] exI [of _ stop]) auto
qed

theorem emitter_shutdown_witness:
  "\<exists>e'. em_run ((newEmitter ''n1'' ''az1'' ''http://c'' [] False)\<lparr>em_queue := Some [demo_emitted 0], em_closed := True\<rparr>) [ShipEv False] e' \<and>
     map fst (em_posted e') = [demo_emitted 0]"
proof -
  let ?e = "(newEmitter ''n1'' ''az1'' ''http://c'' [] False)\<lparr>em_queue := Some [demo_emitted 0], em_closed := True\<rparr>"
  have "em_queue ?e = Some [demo_emitted 0]" by simp
  from em_step.ship [OF this, of False] obtain e' where e': "em_run ?e [ShipEv False] e'" by (blast intro: em_run.intros)
  have "em_closed ?e" "map fst (em_posted ?e) = []" by (simp_all add: newEmitter_def)
  with emitter_shutdown [OF this(1) _ e', of "[demo_emitted 0]"]
  obtain oks stop where "[ShipEv False] = map ShipEv oks @ stop" "stop = [] \<or> stop = [StopEv]"
      "map fst (em_posted e') = take (length oks) [demo_emitted 0]" by auto
  then have "map fst (em_posted e') = [demo_emitted 0]" by (cases oks) auto
  with e' show ?thesis by (intro exI conjI)
qed

text \<open>
  Logical-switch names are looked up once. The name of a VNI is asked from OVN only when it is not
  cached, and whatever the answer was (a name, or nothing because the lookup failed) is the answer
  for the rest of the agent's life: a failed lookup is never repeated.
\<close>

theorem logical_switch_sticky:
  assumes "logicalSwitch sb e vni = (n, e')"
  shows "n = (case mget (em_lsCache e) vni of Some m \<Rightarrow> m | None \<Rightarrow> (case sb vni of Inr m \<Rightarrow> m | Inl _ \<Rightarrow> [])) \<and>
    (\<forall>sb'. logicalSwitch sb' e' vni = (n, e')) \<and>
    (\<forall>v. v \<noteq> vni \<longrightarrow> mget (em_lsCache e') v = mget (em_lsCache e) v)"
  using assms by (auto simp: logicalSwitch_def Let_def gomap_simps split: option.splits)

theorem logical_switch_sticky_witness:
  "fst (logicalSwitch (\<lambda>_. Inr ''ls1'') (snd (logicalSwitch (\<lambda>_. Inl CommandFailed) (newEmitter ''n1'' [] [] [] False) 100)) 100) = []"
  using logical_switch_sticky [of "\<lambda>_. Inl CommandFailed" "newEmitter ''n1'' [] [] [] False" 100
      "fst (logicalSwitch (\<lambda>_. Inl CommandFailed) (newEmitter ''n1'' [] [] [] False) 100)"
      "snd (logicalSwitch (\<lambda>_. Inl CommandFailed) (newEmitter ''n1'' [] [] [] False) 100)"]
  by (simp add: newEmitter_def gomap_simps)

lemma opt_attr_simps [simp]:
  "map_of (opt_attr c k v) x = (if c \<and> x = k then Some v else None)"
  "fst ` set (opt_attr c k v) = (if c then {k} else {})"
  "distinct (map fst (opt_attr c k v))"
  by (simp_all add: opt_attr_def)

lemma opt_attr_subseq: "subseq r ks \<Longrightarrow> subseq (map fst (opt_attr c k v) @ r) (k # ks)"
  by (cases c) (auto simp: opt_attr_def)

definition optKeys :: "string list" where
  "optKeys = [''traceflow.vni'', ''traceflow.vlan'', ''cloud.availability_zone'', ''traceflow.iface'',
     ''traceflow.logical_switch'', ''source.port'', ''destination.port'', ''traceflow.tcp_flags'', ''traceflow.clock_skew'']"

definition fixedKeys :: "string list" where
  "fixedKeys = [''traceflow.node_id'', ''traceflow.hop'', ''traceflow.direction'', ''traceflow.protocol'',
     ''traceflow.iface_type'', ''traceflow.action'', ''source.address'', ''destination.address'', ''traceflow.latency_ns'']"

lemma otlpAttrs_subseq: "subseq (map fst (otlpAttrs ob)) (fixedKeys @ optKeys)"
proof -
  have "subseq (map fst (opt_attr c k v)) [k]" for c k and v :: attr
    using opt_attr_subseq [of "[]" "[]" c k v] by simp
  then show ?thesis unfolding otlpAttrs_def fixedKeys_def optKeys_def map_append list.map fst_conv append_Cons append_Nil
    by (intro subseq_Cons2 opt_attr_subseq)
qed

lemma distinct_keys: "distinct (fixedKeys @ optKeys)"
  by (simp add: fixedKeys_def optKeys_def)

lemma subseq_distinct: "subseq xs ys \<Longrightarrow> distinct ys \<Longrightarrow> distinct xs"
  by (induction rule: list_emb.induct) (auto dest: list_emb_set)

lemma otlpAttrs_distinct: "distinct (map fst (otlpAttrs ob))"
  by (rule subseq_distinct [OF otlpAttrs_subseq distinct_keys])

lemma otlp_lookups:
  "map_of (otlpAttrs ob) ''traceflow.vni'' = (if o_VNI ob = 0 then None else Some (AInt (uint (o_VNI ob))))"
  "map_of (otlpAttrs ob) ''traceflow.vlan'' = (if o_VLAN ob = 0 then None else Some (AInt (uint (o_VLAN ob))))"
  "map_of (otlpAttrs ob) ''cloud.availability_zone'' = (if o_AZ ob = [] then None else Some (AString (o_AZ ob)))"
  "map_of (otlpAttrs ob) ''traceflow.iface'' = (if o_Iface ob = [] then None else Some (AString (o_Iface ob)))"
  "map_of (otlpAttrs ob) ''traceflow.logical_switch'' = (if o_LogicalSwitch ob = [] then None else Some (AString (o_LogicalSwitch ob)))"
  "map_of (otlpAttrs ob) ''source.port'' = (if o_SrcPort ob = 0 then None else Some (AInt (uint (o_SrcPort ob))))"
  "map_of (otlpAttrs ob) ''destination.port'' = (if o_DstPort ob = 0 then None else Some (AInt (uint (o_DstPort ob))))"
  "map_of (otlpAttrs ob) ''traceflow.tcp_flags'' = (if o_TCPFlags ob = [] then None else Some (AString (o_TCPFlags ob)))"
  "map_of (otlpAttrs ob) ''traceflow.clock_skew'' = (if \<not> o_ClockSkew ob then None else Some (ABool True))"
  "map_of (otlpAttrs ob) ''traceflow.hop'' = Some (AInt (uint (o_Hop ob)))"
  "map_of (otlpAttrs ob) ''traceflow.latency_ns'' = Some (AInt (sint (o_LatencyNS ob)))"
  by (simp_all add: otlpAttrs_def map_add_def)

text \<open>Over a run of the emitter, the sink never changes, and with one the spans are those of the observations
  written to standard output, in order.\<close>

lemma export_append: "export uuidParse now ob spans = spans @ export uuidParse now ob []"
  by (simp add: export_def Let_def split: option.split)

lemma emit_obs_otlp:
  "em_otlp (emit_obs k e ob) = em_otlp e"
  "em_spans (emit_obs k e ob) = (if em_otlp e = None then em_spans e
     else em_spans e @ export (s_uuidParse k) (s_now k) (outgoing k e ob) [])"
proof -
  obtain n e1 where ls: "logicalSwitch (s_sb k) e (o_VNI ob) = (n, e1)" by fastforce
  moreover obtain c where "e1 = e\<lparr>em_lsCache := c\<rparr>" using logicalSwitch_frame [OF ls] by blast
  ultimately show "em_otlp (emit_obs k e ob) = em_otlp e"
    "em_spans (emit_obs k e ob) = (if em_otlp e = None then em_spans e
     else em_spans e @ export (s_uuidParse k) (s_now k) (outgoing k e ob) [])"
    using export_append [where spans = "em_spans e"] by (auto simp: emit_obs_def outgoing_def Let_def split_beta)
qed

lemma otlp_run:
  assumes "em_run e evs e'" "\<And>k ob. EmitEv k ob \<in> set evs \<Longrightarrow> s_uuidParse k = uuidParse" "em_otlp e \<noteq> None"
    and "\<And>now ob. list_all2 R (filter (\<lambda>ob. uuidParse (o_ID ob) \<noteq> None) [ob]) (export uuidParse now ob [])"
  shows "\<exists>obs spans. em_stdout e' = em_stdout e @ obs \<and> em_spans e' = em_spans e @ spans \<and>
    list_all2 R (filter (\<lambda>ob. uuidParse (o_ID ob) \<noteq> None) obs) spans"
  using assms(1-3)
proof (induction rule: em_run.induct)
  case (cons e ev e' evs e'')
  have "em_otlp e' \<noteq> None" using cons.hyps(1) cons.prems(2) by cases (auto simp: emit_obs_otlp)
  with cons.IH cons.prems(1) obtain obs spans where obs: "em_stdout e'' = em_stdout e' @ obs" "em_spans e'' = em_spans e' @ spans"
      "list_all2 R (filter (\<lambda>ob. uuidParse (o_ID ob) \<noteq> None) obs) spans" by (meson list.set_intros(2))
  from cons.hyps(1) show ?case
  proof cases
    case (emit k ob)
    have k: "s_uuidParse k = uuidParse" by (rule cons.prems(1) [of k ob]) (simp add: emit)
    let ?o = "outgoing k e ob" and ?sp = "export uuidParse (s_now k) (outgoing k e ob) []"
    have "list_all2 R (filter (\<lambda>ob. uuidParse (o_ID ob) \<noteq> None) ([?o] @ obs)) (?sp @ spans)"
      unfolding filter_append by (rule list_all2_appendI [OF assms(4) obs(3)])
    then show ?thesis
      using obs(1,2) emit cons.prems(2) k by (intro exI [of _ "[?o] @ obs"] exI [of _ "?sp @ spans"]) (auto simp: emit_obs_fields emit_obs_otlp)
  qed (use obs in \<open>auto intro!: exI [of _ obs] exI [of _ spans]\<close>)
qed simp

text \<open>What the attributes of a span tell of an observation.\<close>

definition attrs_tell :: "Observation \<Rightarrow> (string \<times> attr) list \<Rightarrow> bool" where
  "attrs_tell ob as \<longleftrightarrow> distinct (map fst as) \<and>
     map_of as ''traceflow.vni'' = (if o_VNI ob = 0 then None else Some (AInt (uint (o_VNI ob)))) \<and>
     map_of as ''traceflow.vlan'' = (if o_VLAN ob = 0 then None else Some (AInt (uint (o_VLAN ob)))) \<and>
     map_of as ''cloud.availability_zone'' = (if o_AZ ob = [] then None else Some (AString (o_AZ ob))) \<and>
     map_of as ''traceflow.iface'' = (if o_Iface ob = [] then None else Some (AString (o_Iface ob))) \<and>
     map_of as ''traceflow.logical_switch'' = (if o_LogicalSwitch ob = [] then None else Some (AString (o_LogicalSwitch ob))) \<and>
     map_of as ''source.port'' = (if o_SrcPort ob = 0 then None else Some (AInt (uint (o_SrcPort ob)))) \<and>
     map_of as ''destination.port'' = (if o_DstPort ob = 0 then None else Some (AInt (uint (o_DstPort ob)))) \<and>
     map_of as ''traceflow.tcp_flags'' = (if o_TCPFlags ob = [] then None else Some (AString (o_TCPFlags ob))) \<and>
     map_of as ''traceflow.clock_skew'' = (if \<not> o_ClockSkew ob then None else Some (ABool True)) \<and>
     map_of as ''traceflow.hop'' = Some (AInt (uint (o_Hop ob))) \<and>
     map_of as ''traceflow.latency_ns'' = Some (AInt (sint (o_LatencyNS ob)))"

definition span_of :: "(string \<Rightarrow> bytes option) \<Rightarrow> Observation \<Rightarrow> span \<Rightarrow> bool" where
  "span_of uuidParse ob s \<longleftrightarrow> (\<exists>u. uuidParse (o_ID ob) = Some u \<and> sp_traceID s = u \<and> sp_parent s = take 8 u) \<and>
     sp_start s = sp_end s \<and> (\<forall>t. rfc_time t \<and> o_Timestamp ob = RFC3339Nano t \<longrightarrow> sp_start s = t) \<and> attrs_tell ob (sp_attrs s)"

lemma otlp_span:
  assumes "uuidParse (o_ID ob) = Some u" "length u = 16"
  shows "\<exists>s. export uuidParse now ob spans = spans @ [s] \<and> span_of uuidParse ob s"
proof -
  have "copy_from (make_bytes 8) 0 (take 8 u) = take 8 u" using assms(2) by (simp add: copy_from_def)
  then show ?thesis using assms(1) by (auto simp: export_def Let_def span_of_def attrs_tell_def otlpAttrs_distinct otlp_lookups time_roundtrip)
qed

text \<open>
  C40: One trace per run. With an OTLP sink, over any run of the emitter, there is exactly one span for
  each observation written to standard output whose id is the text of a UUID, in order and also when
  the queue to the collector overflows: its trace id is that UUID, its parent the first eight bytes, it
  starts and ends at one instant, the time whose text the observation carries (of a year of four digits,
  in a zone of whole minutes), every attribute key occurs once, and each of the nine optional attributes
  is present, with the field's value, exactly when its field is set. A UUID has 16 bytes.
\<close>

theorem otlp_trace:
  assumes "ep \<noteq> []" "em_run (newEmitter nodeID az url ep True) evs e"
    and "\<forall>k ob. EmitEv k ob \<in> set evs \<longrightarrow> s_uuidParse k = uuidParse" "\<forall>t u. uuidParse t = Some u \<longrightarrow> length u = 16"
  shows "list_all2 (span_of uuidParse) (filter (\<lambda>ob. uuidParse (o_ID ob) \<noteq> None) (em_stdout e)) (em_spans e)"
proof -
  let ?e0 = "newEmitter nodeID az url ep True"
  have e0: "em_otlp ?e0 \<noteq> None" "em_stdout ?e0 = []" "em_spans ?e0 = []"
    using assms(1) by (simp_all add: newEmitter_def newOTLPSink_def)
  have "list_all2 (span_of uuidParse) (filter (\<lambda>ob. uuidParse (o_ID ob) \<noteq> None) [ob]) (export uuidParse now ob [])" for now ob
    using otlp_span [of uuidParse ob _ now "[]"] assms(4)
    by (cases "uuidParse (o_ID ob)") (auto simp: export_def Let_def)
  from otlp_run [OF assms(2) _ e0(1) this] show ?thesis using assms(3) e0(2,3) by auto
qed

theorem otlp_trace_witness:
  "\<exists>e. em_run (newEmitter ''n1'' ''az1'' [] ''o'' True) [EmitEv (demo_sinks\<lparr>s_uuidParse := \<lambda>_. Some (replicate 16 1)\<rparr>) (demo_emitted 0)] e \<and>
     length (em_stdout e) = 1 \<and> list_all2 (span_of (\<lambda>_. Some (replicate 16 1))) (em_stdout e) (em_spans e)"
proof -
  let ?k = "demo_sinks\<lparr>s_uuidParse := \<lambda>_. Some (replicate 16 1)\<rparr>" and ?e0 = "newEmitter ''n1'' ''az1'' [] ''o'' True"
  have r: "em_run ?e0 [EmitEv ?k (demo_emitted 0)] (emit_obs ?k ?e0 (demo_emitted 0))"
    by (rule em_run.cons [OF em_step.emit em_run.nil]) (simp add: newEmitter_def)
  have "length (em_stdout (emit_obs ?k ?e0 (demo_emitted 0))) = 1" by (simp add: emit_obs_fields newEmitter_def)
  moreover have "list_all2 (span_of (\<lambda>_. Some (replicate 16 1))) (em_stdout (emit_obs ?k ?e0 (demo_emitted 0))) (em_spans (emit_obs ?k ?e0 (demo_emitted 0)))"
    using otlp_trace [OF _ r, of "\<lambda>_. Some (replicate 16 1)"] by simp
  ultimately show ?thesis using r by blast
qed

end
