(* ===== verification/Agent.thy ===== *)
theory Agent
  imports Attach Emit Responder
begin

text \<open>
  The agent's entry point (\<^verbatim>\<open>agent/main.go\<close>): the resolution of the command-line options, the table of
  local addresses shared with the eBPF program, the attachment to one named interface, and the loop
  that reads the ring buffer. What the operating system answers is the record \<open>sys\<close>; the state
  the agent's parts share is the record \<open>agent\<close>.
\<close>

section \<open>Trimming\<close>

definition space_suffix :: "string \<Rightarrow> nat" where
  "space_suffix s = (case List.find (\<lambda>w. drop (length s - length w) s = w) spaces of None \<Rightarrow> 0 | Some w \<Rightarrow> length w)"

function trim_left :: "string \<Rightarrow> string" where
  "trim_left s = (if s = [] \<or> space_prefix s = 0 then s else trim_left (drop (space_prefix s) s))"
  by pat_completeness auto
termination
  by (relation "measure length") auto

function trim_right :: "string \<Rightarrow> string" where
  "trim_right s = (if s = [] \<or> space_suffix s = 0 then s else trim_right (take (length s - space_suffix s) s))"
  by pat_completeness auto
termination
  by (relation "measure length") auto

declare trim_left.simps [simp del] trim_right.simps [simp del]

definition TrimSpace :: "string \<Rightarrow> string" where
  "TrimSpace s = trim_right (trim_left s)"

section \<open>Options\<close>

record agent_flags =
  fl_iface :: string
  fl_ifaceType :: string
  fl_nodeID :: string
  fl_respond :: bool
  fl_tcpRespond :: bool
  fl_localIP :: string
  fl_watch :: bool
  fl_watchInterval :: int
  fl_watchVXLAN :: bool
  fl_metricsAddr :: string
  fl_hmacKey :: bytes
  fl_az :: string
  fl_collectorURL :: string
  fl_otlpEndpoint :: string
  fl_xdp :: bool
  fl_xdpTCEgress :: bool

record opts =
  op_ifaceName :: string
  op_ifType :: byte
  op_nodeID :: string
  op_respond :: bool
  op_tcpRespond :: bool
  op_localIPs :: "bytes list"
  op_watch :: bool
  op_watchInterval :: int
  op_watchVXLAN :: bool
  op_metricsAddr :: string
  op_hmacKey :: bytes
  op_az :: string
  op_collectorURL :: string
  op_otlpEndpoint :: string
  op_xdp :: bool
  op_xdpTCEgress :: bool

datatype opt_error = NeedMode | EgressNeedsXDP | BadIfaceType string | BadLocalIP string

fun localEntries :: "bytes list \<Rightarrow> string list \<Rightarrow> opt_error + bytes list" where
  "localEntries out [] = Inr out"
| "localEntries out (s # ss) =
     (let s = TrimSpace s in
      if s = [] then localEntries out ss
      else case ParseIP s of
        None \<Rightarrow> Inl (BadLocalIP s)
      | Some ip \<Rightarrow> localEntries (out @ [ip]) ss)"

definition parseLocalIPs :: "string \<Rightarrow> opt_error + bytes list" where
  "parseLocalIPs csv = (if csv = [] then Inr [] else localEntries [] (split_on (CHR '','') csv))"

definition parseIfaceType :: "string \<Rightarrow> opt_error + byte" where
  "parseIfaceType s =
     (if s = ''auto'' then Inr IfaceAuto
      else if s = ''regular'' then Inr IfaceRegular
      else if s = ''vxlan'' then Inr IfaceVXLAN
      else Inl (BadIfaceType s))"

text \<open>\<^verbatim>\<open>main\<close> up to the call of \<^verbatim>\<open>run\<close>; an error is the message of \<^verbatim>\<open>log.Fatal\<close>. A failing \<^verbatim>\<open>os.Hostname\<close>
  gives the empty name.\<close>

definition main_opts :: "string \<Rightarrow> agent_flags \<Rightarrow> opt_error + opts" where
  "main_opts hostname f =
     (if fl_iface f = [] \<and> \<not> fl_watch f \<and> \<not> fl_watchVXLAN f then Inl NeedMode
      else if fl_xdpTCEgress f \<and> \<not> fl_xdp f then Inl EgressNeedsXDP
      else let nodeID = (if fl_nodeID f = [] then hostname else fl_nodeID f) in
        case parseIfaceType (fl_ifaceType f) of
          Inl e \<Rightarrow> Inl e
        | Inr ifType \<Rightarrow>
            let ifType = (if (fl_watch f \<or> fl_watchVXLAN f) \<and> ifType = IfaceVXLAN then IfaceAuto else ifType) in
            (case parseLocalIPs (fl_localIP f) of
               Inl e \<Rightarrow> Inl e
             | Inr localIPs \<Rightarrow> Inr \<lparr>op_ifaceName = fl_iface f, op_ifType = ifType, op_nodeID = nodeID,
                 op_respond = fl_respond f, op_tcpRespond = fl_tcpRespond f, op_localIPs = localIPs,
                 op_watch = fl_watch f, op_watchInterval = fl_watchInterval f, op_watchVXLAN = fl_watchVXLAN f,
                 op_metricsAddr = fl_metricsAddr f, op_hmacKey = fl_hmacKey f, op_az = fl_az f,
                 op_collectorURL = fl_collectorURL f, op_otlpEndpoint = fl_otlpEndpoint f,
                 op_xdp = fl_xdp f, op_xdpTCEgress = fl_xdpTCEgress f\<rparr>))"

definition ifaceTypeString :: "byte \<Rightarrow> string" where
  "ifaceTypeString t = (if t = IfaceAuto then ''auto'' else if t = IfaceVXLAN then ''vxlan'' else ''regular'')"

section \<open>Shared state\<close>

text \<open>The eBPF maps the agent writes, the kernel's networking state, the counters, and the sockets of
  the responders that are running.\<close>

record tfConfig =
  cfg_IfaceType :: byte
  cfg_Respond :: byte
  cfg_TCPRespond :: byte

record agent =
  ag_net :: knet
  ag_config :: "tfConfig option"
  ag_localIps :: "(bytes, byte) gomap"
  ag_ifaceVni :: "(u32, u32) gomap"
  ag_fds :: "nat list"
  ag_mtr :: metrics

text \<open>The answers of the operating system: interface lookups, sockets, whether the eBPF maps take an
  entry, and whether the steps of the start succeed (memory limit, loading, ring buffer, exporter).\<close>

record sys =
  y_attach :: attach_env
  y_byName :: "string \<Rightarrow> nat option"
  y_socket :: "nat \<Rightarrow> nat option"
  y_bind :: "nat \<Rightarrow> bool"
  y_putIP :: "bytes \<Rightarrow> bool"
  y_putVNI :: "u32 \<Rightarrow> bool"
  y_putConfig :: bool
  y_memlock :: bool
  y_load :: bool
  y_ringbuf :: bool
  y_otlp :: bool

definition ipKey16 :: "bytes \<Rightarrow> bytes" where
  "ipKey16 ip =
     (let k = make_bytes 16 in
      if To4 ip \<noteq> [] then copy_range k 0 4 (To4 ip) else copy_from k 0 (To16 ip))"

fun addLocalIPs :: "(bytes \<Rightarrow> bool) \<Rightarrow> (bytes, byte) gomap \<Rightarrow> bytes list \<Rightarrow> bool \<times> (bytes, byte) gomap" where
  "addLocalIPs put m [] = (True, m)"
| "addLocalIPs put m (ip # ips) =
     (let k = ipKey16 ip in if put k then addLocalIPs put (mput m k 1) ips else (False, m))"

fun delLocalIPs :: "(bytes, byte) gomap \<Rightarrow> bytes list \<Rightarrow> (bytes, byte) gomap" where
  "delLocalIPs m [] = m"
| "delLocalIPs m (ip # ips) = delLocalIPs (mdel m (ipKey16 ip)) ips"

section \<open>The responder's socket\<close>

definition startResponder :: "sys \<Rightarrow> agent \<Rightarrow> nat \<Rightarrow> byte \<Rightarrow> bytes list \<Rightarrow> bool \<Rightarrow> bytes \<Rightarrow> responder option \<times> agent" where
  "startResponder y ag idx ifType ips tcpRespond hmacKey =
     (case newResponder (y_socket y idx) (y_bind y idx) idx ifType ips tcpRespond hmacKey (ag_mtr ag) of
        None \<Rightarrow> (None, ag)
      | Some r \<Rightarrow> (Some (responder.truncate r), ag\<lparr>ag_fds := r_fd r # ag_fds ag\<rparr>))"

definition closeResponder :: "agent \<Rightarrow> responder \<Rightarrow> agent" where
  "closeResponder ag r = ag\<lparr>ag_fds := remove1 (r_fd r) (ag_fds ag)\<rparr>"

section \<open>One named interface\<close>

datatype run_error = NoInterface string | AttachFailed goerror | ResponderFailed | ConfigMapFailed | LocalIPsFailed
  | MemlockFailed | LoadFailed | RingbufFailed

definition attachStatic :: "sys \<Rightarrow> agent \<Rightarrow> opts \<Rightarrow> (run_error + release list \<times> responder option) \<times> agent" where
  "attachStatic y ag o1 =
     (case y_byName y (op_ifaceName o1) of
        None \<Rightarrow> (Inl (NoInterface (op_ifaceName o1)), ag)
      | Some idx \<Rightarrow>
          (case attachIface (y_attach y) (ag_net ag) (int idx) (op_xdp o1) (op_xdpTCEgress o1) of
             (Inl e, net) \<Rightarrow> (Inl (AttachFailed e), ag\<lparr>ag_net := net\<rparr>)
           | (Inr detach, net) \<Rightarrow>
               let ag = ag\<lparr>ag_net := net\<rparr> in
               if op_respond o1 \<and> 0 < length (op_localIPs o1) then
                 (case startResponder y ag idx (op_ifType o1) (op_localIPs o1) (op_tcpRespond o1) (op_hmacKey o1) of
                    (None, ag) \<Rightarrow> (Inl ResponderFailed, ag\<lparr>ag_net := run_detach (y_attach y) (ag_net ag) detach\<rparr>)
                  | (Some r, ag) \<Rightarrow> (Inr (detach, Some r), ag))
               else (Inr (detach, None), ag)))"

text \<open>The cleanup closure it returns.\<close>

definition closeStatic :: "sys \<Rightarrow> agent \<Rightarrow> release list \<times> responder option \<Rightarrow> agent" where
  "closeStatic y ag att =
     (let ag = ag\<lparr>ag_net := run_detach (y_attach y) (ag_net ag) (fst att)\<rparr> in
      case snd att of None \<Rightarrow> ag | Some r \<Rightarrow> closeResponder ag r)"

section \<open>The reader\<close>

text \<open>What a read of the ring buffer gives: a record (with the clock and the answers of the sinks when it
  is handled), an error, or that the reader was closed.\<close>

datatype ring_event = RingRecord bytes gotime sinks | RingError | RingClosed

record reader =
  rd_mtr :: metrics
  rd_em :: emitter
  rd_ifCache :: "(u32, string) gomap"

text \<open>The loop over the reads that have happened; the flag tells whether it has returned.\<close>

fun readLoop :: "(bytes \<Rightarrow> string) \<Rightarrow> (u32 \<Rightarrow> string option) \<Rightarrow> reader \<Rightarrow> ring_event list \<Rightarrow> bool \<times> reader" where
  "readLoop uuidString byIndex s [] = (False, s)"
| "readLoop uuidString byIndex s (RingClosed # es) = (True, s)"
| "readLoop uuidString byIndex s (RingError # es) =
     readLoop uuidString byIndex (s\<lparr>rd_mtr := (rd_mtr s)\<lparr>readErrors := readErrors (rd_mtr s) + 1\<rparr>\<rparr>) es"
| "readLoop uuidString byIndex s (RingRecord rec now k # es) =
     (case Parse rec of
        Inl _ \<Rightarrow> readLoop uuidString byIndex (s\<lparr>rd_mtr := (rd_mtr s)\<lparr>parseErrors := parseErrors (rd_mtr s) + 1\<rparr>\<rparr>) es
      | Inr raw \<Rightarrow>
          (case Enrich uuidString byIndex (rd_ifCache s) raw (em_nodeID (rd_em s)) now of
             (ob, cache) \<Rightarrow> readLoop uuidString byIndex (s\<lparr>rd_ifCache := cache, rd_em := emit_obs k (rd_em s) ob\<rparr>) es))"

section \<open>Trimming and the list of addresses\<close>

lemma space_suffix_plain:
  assumes "plain c"
  shows "space_suffix (s @ [c]) = 0"
proof (cases "List.find (\<lambda>w. drop (length (s @ [c]) - length w) (s @ [c]) = w) spaces")
  case (Some w)
  then have w: "w \<in> set spaces" "drop (length (s @ [c]) - length w) (s @ [c]) = w" by (auto simp: find_Some_iff)
  have "\<forall>w \<in> set spaces. w \<noteq> [] \<and> \<not> plain (last w)" by (simp add: spaces_def plain_def)
  then have "w \<noteq> []" "\<not> plain (last w)" using w(1) by blast+
  moreover have "last w = c" using w(2) \<open>w \<noteq> []\<close> by (metis last_drop last_snoc drop_eq_Nil2 linorder_not_less)
  ultimately show ?thesis using assms by blast
qed (simp add: space_suffix_def)

lemma space_suffix_blank: "space_suffix (s @ '' '') = 1"
proof -
  have "\<forall>w \<in> set spaces. last w = CHR '' '' \<longrightarrow> w = '' ''" "\<forall>w \<in> set spaces. w \<noteq> []" "'' '' \<in> set spaces"
    by (simp_all add: spaces_def)
  note sp = this
  show ?thesis
  proof (cases "List.find (\<lambda>w. drop (length (s @ '' '') - length w) (s @ '' '') = w) spaces")
    case None
    then have "drop (length (s @ '' '') - length '' '') (s @ '' '') \<noteq> '' ''" using sp(3) unfolding find_None_iff by blast
    then show ?thesis by simp
  next
    case (Some w)
    then have w: "w \<in> set spaces" "drop (length (s @ '' '') - length w) (s @ '' '') = w" by (auto simp: find_Some_iff)
    then have "w \<noteq> []" using sp(2) by blast
    then have "last w = CHR '' ''" using w(2) by (metis last_drop last_snoc drop_eq_Nil2 linorder_not_less)
    then have "w = '' ''" using sp(1) w(1) by blast
    then show ?thesis using Some by (simp add: space_suffix_def)
  qed
qed

lemma trim_left_blanks: "trim_left (replicate n (CHR '' '') @ s) = trim_left s"
  by (induction n) (simp, subst trim_left.simps, simp add: space_prefix_blank)

lemma trim_right_blanks: "trim_right (s @ replicate n (CHR '' '')) = trim_right s"
proof (induction n)
  case (Suc n)
  have eq: "s @ replicate (Suc n) (CHR '' '') = (s @ replicate n (CHR '' '')) @ '' ''"
    by (simp add: replicate_append_same)
  show ?case unfolding eq by (subst trim_right.simps) (simp add: space_suffix_blank Suc.IH del: append_assoc)
qed simp

lemma TrimSpace_blanks:
  assumes "w \<noteq> []" "\<forall>c \<in> set w. plain c"
  shows "TrimSpace (replicate m (CHR '' '') @ w @ replicate n (CHR '' '')) = w"
proof -
  have "trim_left (w @ replicate n (CHR '' '')) = w @ replicate n (CHR '' '')"
    using assms by (cases w) (simp_all add: trim_left.simps space_prefix_plain)
  moreover have "trim_right w = w"
    using assms by (cases w rule: rev_cases) (simp_all add: trim_right.simps space_suffix_plain)
  ultimately show ?thesis by (simp add: TrimSpace_def trim_left_blanks trim_right_blanks)
qed

lemma localEntries_texts:
  assumes "\<forall>(m, ip, n) \<in> set es. length ip = 4 \<or> length ip = 16"
  shows "localEntries out (map (\<lambda>(m, ip, n). replicate m (CHR '' '') @ ip_string ip @ replicate n (CHR '' '')) es) =
    Inr (out @ map (\<lambda>(m, ip, n). To16 ip) es)"
  using assms
proof (induction es arbitrary: out)
  case (Cons e es)
  obtain m ip n where e: "e = (m, ip, n)" by (cases e)
  then have ip: "length ip = 4 \<or> length ip = 16" using Cons.prems by simp
  have "TrimSpace (replicate m (CHR '' '') @ ip_string ip @ replicate n (CHR '' '')) = ip_string ip"
    using ip_string_plain [OF ip] by (blast intro: TrimSpace_blanks)
  then show ?case using Cons e ip ip_string_plain [OF ip] by (simp add: ParseIP_ip_string)
qed simp

lemma localEntries_append:
  "localEntries out ss = Inr ips \<Longrightarrow> localEntries out (ss @ ss') = localEntries ips ss'"
  by (induction out ss rule: localEntries.induct) (auto simp: Let_def split: if_splits option.splits)

lemma ip_string_no_comma: "length ip = 4 \<or> length ip = 16 \<Longrightarrow> CHR '','' \<notin> set (ip_string ip)"
proof -
  assume ip: "length ip = 4 \<or> length ip = 16"
  have "c = CHR '':'' \<or> c = CHR ''.'' \<or> num_char c" if "c \<in> set (ip_string ip)" for c
    using that ip ip6_string_chars [of c ip] dotted_chars [of c "To4 ip"]
    by (auto simp: ip_string_def split: if_splits)
  moreover have "\<not> num_char (CHR '','')" by (simp add: num_char_def)
  ultimately show ?thesis by fastforce
qed

section \<open>Keys of the local-address table\<close>

lemma ipKey16_v4: "length (To4 ip) = 4 \<Longrightarrow> ipKey16 ip = To4 ip @ replicate 12 0"
  by (auto simp: ipKey16_def Let_def copy_range_def copy_from_def make_bytes_def)

lemma ipKey16_v6: "length ip = 16 \<Longrightarrow> To4 ip = [] \<Longrightarrow> ipKey16 ip = ip"
  by (simp add: ipKey16_def Let_def copy_from_def)

lemma To4_low:
  assumes "length x = 4"
  shows "To4 (x @ replicate 12 0) = []"
proof -
  have "take 12 (x @ replicate 12 0) ! 10 = (0 :: byte)" using assms by (simp add: nth_append)
  then have "take 12 (x @ replicate 12 0) \<noteq> v4InV6Prefix" by (auto simp: v4InV6Prefix_def)
  then show ?thesis using assms by (simp add: To4_def)
qed

lemma addLocalIPs_ok:
  "addLocalIPs put m ips = (True, m') \<Longrightarrow>
     mget m' k = (if k \<in> ipKey16 ` set ips then Some 1 else mget m k)"
  by (induction put m ips rule: addLocalIPs.induct) (auto simp: Let_def gomap_simps split: if_splits)

lemma addLocalIPs_wf: "mwf m \<Longrightarrow> addLocalIPs put m ips = (r, m') \<Longrightarrow> mwf m'"
  by (induction put m ips rule: addLocalIPs.induct) (auto simp: Let_def gomap_simps split: if_splits)

lemma delLocalIPs_get: "mget (delLocalIPs m ips) k = (if k \<in> ipKey16 ` set ips then None else mget m k)"
  by (induction m ips rule: delLocalIPs.induct) (auto simp: gomap_simps)

lemma delLocalIPs_wf: "mwf m \<Longrightarrow> mwf (delLocalIPs m ips)"
  by (induction m ips rule: delLocalIPs.induct) (auto simp: gomap_simps)

section \<open>The reader, step by step\<close>

text \<open>The records that decode, and the number of the others.\<close>

fun decoded :: "ring_event list \<Rightarrow> Raw list" where
  "decoded [] = []"
| "decoded (RingRecord rec now k # es) = (case Parse rec of Inr raw \<Rightarrow> raw # decoded es | Inl _ \<Rightarrow> decoded es)"
| "decoded (_ # es) = decoded es"

definition is_error :: "ring_event \<Rightarrow> bool" where
  "is_error e \<longleftrightarrow> e = RingError"

definition is_short :: "ring_event \<Rightarrow> bool" where
  "is_short e = (case e of RingRecord rec now k \<Rightarrow> length rec < 88 | _ \<Rightarrow> False)"

text \<open>What an observation keeps of the record it was made from.\<close>

definition traces :: "(bytes \<Rightarrow> string) \<Rightarrow> string \<Rightarrow> Raw \<Rightarrow> Observation \<Rightarrow> bool" where
  "traces uuidString node raw ob \<longleftrightarrow>
     o_ID ob = uuidString (raw_ID raw) \<and> o_NodeID ob = node \<and> o_Hop ob = raw_Hop raw \<and> o_VNI ob = raw_VNI raw \<and>
     o_VLAN ob = raw_VLANID raw \<and> o_IfIndex ob = raw_IfIndex raw \<and> o_CaptureNS ob = raw_CaptureNS raw \<and>
     o_SrcIP ob = ipString (raw_IPVersion raw) (raw_SrcIP raw) \<and> o_DstIP ob = ipString (raw_IPVersion raw) (raw_DstIP raw) \<and>
     o_IPVersion ob = raw_IPVersion raw \<and> o_Direction ob = directionString (raw_Direction raw) \<and>
     o_Action ob = actionString (raw_Action raw) \<and> o_Protocol ob = protocolString (raw_Protocol raw) \<and>
     o_SrcPort ob = (if isICMP (raw_Protocol raw) then 0 else raw_SrcPort raw) \<and>
     o_DstPort ob = (if isICMP (raw_Protocol raw) then 0 else raw_DstPort raw) \<and>
     o_IfaceType ob = ifaceString (raw_IfaceType raw)"

lemma emit_obs_nodeID: "em_nodeID (emit_obs k e ob) = em_nodeID e"
proof -
  obtain n e1 where ls: "logicalSwitch (s_sb k) e (o_VNI ob) = (n, e1)" by fastforce
  from logicalSwitch_frame [OF this] have "em_nodeID e1 = em_nodeID e" by auto
  with ls show ?thesis by (auto simp: emit_obs_def Let_def enqueue_def split: option.split)
qed

lemma Enrich_traces:
  assumes "Enrich uuidString byIndex cache raw node now = (ob, cache')"
  shows "traces uuidString node raw (outgoing k e ob)"
proof -
  have "traces uuidString node raw ob" using assms by (auto simp: Enrich_def traces_def Let_def split: prod.splits if_splits)
  then show ?thesis by (simp add: traces_def outgoing_def Let_def)
qed

lemma Parse_short: "(\<exists>x. Parse rec = Inl x) \<longleftrightarrow> length rec < 88"
  by (auto simp: Parse_def)

lemma readLoop_append:
  "RingClosed \<notin> set es \<Longrightarrow> readLoop u b s (es @ RingClosed # es') = (True, snd (readLoop u b s es))"
  "RingClosed \<notin> set es \<Longrightarrow> fst (readLoop u b s es) = False"
  by (induction u b s es rule: readLoop.induct) (auto split: sum.splits prod.splits)

lemma readLoop_counts:
  assumes "RingClosed \<notin> set es"
  shows "readErrors (rd_mtr (snd (readLoop u b s es))) = readErrors (rd_mtr s) + of_nat (length (filter is_error es))"
    and "parseErrors (rd_mtr (snd (readLoop u b s es))) = parseErrors (rd_mtr s) + of_nat (length (filter is_short es))"
  using assms
proof (induction u b s es rule: readLoop.induct)
  case (4 u b s rec now k es)
  {
    case 1
    with 4 show ?case by (cases "Parse rec") (auto simp: is_error_def split: prod.split)
  next
    case 2
    with 4 show ?case using Parse_short [of rec] by (cases "Parse rec") (auto simp: is_short_def split: prod.split)
  }
qed (auto simp: is_error_def is_short_def)

lemma readLoop_emits:
  assumes "RingClosed \<notin> set es"
  shows "\<exists>obs. em_stdout (rd_em (snd (readLoop u b s es))) = em_stdout (rd_em s) @ obs \<and>
    list_all2 (traces u (em_nodeID (rd_em s))) (decoded es) obs"
  using assms
proof (induction u b s es rule: readLoop.induct)
  case (4 u b s rec now k es)
  show ?case
  proof (cases "Parse rec")
    case (Inl x)
    then show ?thesis using 4 by auto
  next
    case (Inr raw)
    obtain ob cache where en: "Enrich u b (rd_ifCache s) raw (em_nodeID (rd_em s)) now = (ob, cache)" by fastforce
    note tr = Enrich_traces [OF en, of k "rd_em s"]
    from 4(2) [OF Inr en [symmetric]] 4(3) obtain obs where
      "em_stdout (rd_em (snd (readLoop u b s (RingRecord rec now k # es)))) = (em_stdout (rd_em s) @ [outgoing k (rd_em s) ob]) @ obs"
      "list_all2 (traces u (em_nodeID (rd_em s))) (decoded es) obs"
      using Inr en by (auto simp: emit_obs_fields emit_obs_nodeID)
    then show ?thesis using Inr tr by (intro exI [of _ "outgoing k (rd_em s) ob # obs"]) simp
  qed
qed auto

section \<open>Properties\<close>

text \<open>
  C24: The reader loses nothing and invents nothing. After any sequence of reads followed by the close
  of the reader the loop returns; every record of at least 88 bytes has been written to standard
  output exactly once, in the order of the ring buffer, with the run id, node, hop, direction,
  action, VNI, VLAN, interface, capture time, protocol, addresses and ports of the record; the parse-error counter has grown by the
  number of shorter records and the read-error counter by the number of failed reads.
\<close>

theorem readLoop_exact:
  assumes "RingClosed \<notin> set es"
  shows "\<exists>s' obs. readLoop uuidString byIndex s (es @ RingClosed # rest) = (True, s') \<and>
    em_stdout (rd_em s') = em_stdout (rd_em s) @ obs \<and>
    list_all2 (traces uuidString (em_nodeID (rd_em s))) (decoded es) obs \<and>
    parseErrors (rd_mtr s') = parseErrors (rd_mtr s) + of_nat (length (filter is_short es)) \<and>
    readErrors (rd_mtr s') = readErrors (rd_mtr s) + of_nat (length (filter is_error es))"
  using readLoop_append(1) [OF assms] readLoop_emits [OF assms] readLoop_counts [OF assms] by fastforce

definition demo_reader :: reader where
  "demo_reader = \<lparr>rd_mtr = metrics0, rd_em = newEmitter ''n1'' ''az1'' [] [] False, rd_ifCache = []\<rparr>"

theorem readLoop_exact_witness:
  "\<exists>s' obs. readLoop (\<lambda>_. ''run'') (\<lambda>_. None) demo_reader
      [RingRecord (observation_bytes (demo_raw (replicate 16 1) 5)) \<lparr>unixSec = 0, nsec = 0, zoneOffset = 0\<rparr> demo_sinks,
       RingError, RingRecord [1] \<lparr>unixSec = 0, nsec = 0, zoneOffset = 0\<rparr> demo_sinks, RingClosed] = (True, s') \<and>
    em_stdout (rd_em s') = [obs] \<and> o_VNI obs = 5 \<and> parseErrors (rd_mtr s') = 1 \<and> readErrors (rd_mtr s') = 1"
proof -
  let ?t = "\<lparr>unixSec = 0, nsec = 0, zoneOffset = 0\<rparr> :: gotime"
  let ?r = "demo_raw (replicate 16 1) 5"
  let ?es = "[RingRecord (observation_bytes ?r) ?t demo_sinks, RingError, RingRecord [1] ?t demo_sinks]"
  have wf: "wf_raw ?r" by (simp add: wf_raw_def demo_raw_def)
  then have "Parse (observation_bytes ?r) = Inr ?r" using Parse_observation_bytes [of ?r "[]"] by simp
  then have d: "decoded ?es = [?r]" by (simp add: Parse_def)
  have c: "filter is_short ?es = [RingRecord [1] ?t demo_sinks]" "filter is_error ?es = [RingError]"
    using length_observation_bytes [OF wf] by (simp_all add: is_short_def is_error_def)
  have v: "raw_VNI ?r = 5" by (simp add: demo_raw_def)
  have m: "em_stdout (rd_em demo_reader) = []" "parseErrors (rd_mtr demo_reader) = 0" "readErrors (rd_mtr demo_reader) = 0"
    by (simp_all add: demo_reader_def newEmitter_def metrics0_def)
  from readLoop_exact [of ?es "\<lambda>_. ''run''" "\<lambda>_. None" demo_reader "[]"] show ?thesis
    unfolding d c m by (auto simp: list_all2_Cons1 traces_def v)
qed

text \<open>
  The list of local addresses. A comma-separated list of addresses in their canonical text form,
  with any number of blanks around each, is read back as exactly these addresses in 16-byte form; an
  entry that is not an address makes the agent refuse to start, naming it.
\<close>

theorem local_ip_option:
  assumes "\<forall>(m, ip, n) \<in> set es. length ip = 4 \<or> length ip = 16" "es \<noteq> []"
    and "TrimSpace bad \<noteq> []" "ParseIP (TrimSpace bad) = None" "CHR '','' \<notin> set bad"
    and "rest = [] \<or> hd rest = CHR '',''"
  shows "let text = join '','' (map (\<lambda>(m, ip, n). replicate m (CHR '' '') @ ip_string ip @ replicate n (CHR '' '')) es) in
    parseLocalIPs text = Inr (map (\<lambda>(m, ip, n). To16 ip) es) \<and>
    parseLocalIPs (text @ '','' @ bad @ rest) = Inl (BadLocalIP (TrimSpace bad))"
proof -
  let ?texts = "map (\<lambda>(m, ip, n). replicate m (CHR '' '') @ ip_string ip @ replicate n (CHR '' '')) es"
  have sep: "\<forall>t \<in> set ?texts. CHR '','' \<notin> set t" "?texts \<noteq> []"
    using assms(1,2) ip_string_no_comma by auto
  obtain t ts where t: "?texts = t # ts" "t \<noteq> []"
    using assms(1,2) ip_string_plain by (cases es) fastforce+
  then have ne: "join '','' ?texts \<noteq> []" by (cases ts) simp_all
  obtain r where r: "split_on (CHR '','') (bad @ rest) = bad # r"
    using assms(5,6) split_on_append [of "CHR '',''" bad "tl rest"] split_on_free [of "CHR '',''" bad] by (cases rest) auto
  have all: "localEntries [] (?texts @ ss) = localEntries (map (\<lambda>(m, ip, n). To16 ip) es) ss" for ss
    using localEntries_texts [OF assms(1), of "[]"] localEntries_append by simp
  have "parseLocalIPs (join '','' ?texts) = Inr (map (\<lambda>(m, ip, n). To16 ip) es)"
    using all [of "[]"] ne split_on_join [OF sep(2,1)] by (simp add: parseLocalIPs_def)
  moreover have "parseLocalIPs (join '','' ?texts @ '','' @ bad @ rest) = Inl (BadLocalIP (TrimSpace bad))"
    using all [of "bad # r"] ne r split_on_join_append [OF sep(2,1), of "bad @ rest"] assms(3,4) by (simp add: parseLocalIPs_def)
  ultimately show ?thesis by (simp add: Let_def)
qed

theorem local_ip_option_witness:
  "parseLocalIPs (join '','' ['' '' @ ip_string [10, 0, 0, 2], ip_string [10, 0, 0, 3]] @ '',x,'') = Inl (BadLocalIP ''x'')"
proof -
  have p: "TrimSpace ''x'' = ''x''"
    using TrimSpace_blanks [of "''x''" 0 0] by (simp add: plain_def)
  have "ParseIP ''x'' = None" by code_simp
  then show ?thesis
    using local_ip_option [of "[(1, [10, 0, 0, 2], 0), (0, [10, 0, 0, 3], 0)]" "''x''" "'',''"] p by (simp add: Let_def)
qed

text \<open>
  Keys of the local-address table. Two addresses have the same key exactly when they are the same
  address, or one is an IPv4 address and the other the IPv6 address whose first four bytes are it
  and whose other bytes are zero: the table does not tell these two apart, while the responder's own
  set of addresses does.
\<close>

lemma ipKey16_collision:
  assumes "length a = 4 \<or> length a = 16" "length b = 4 \<or> length b = 16"
  shows "(ipKey16 a = ipKey16 b \<longleftrightarrow> To16 a = To16 b \<or>
      (To4 a \<noteq> [] \<and> b = To4 a @ replicate 12 0) \<or> (To4 b \<noteq> [] \<and> a = To4 b @ replicate 12 0)) \<and>
    (key16 a = key16 b \<longleftrightarrow> To16 a = To16 b)"
proof -
  have key: "key16 x = To16 x" if "length x = 4 \<or> length x = 16" for x
    using that by (simp add: key16_def copy_from_def)
  have v4: "To16 x = v4InV6Prefix @ To4 x \<and> length (To4 x) = 4" if "length x = 4 \<or> length x = 16" "To4 x \<noteq> []" for x
    using that To16_To4 [of x] length_To4 [of x] by (auto simp: To16_4)
  have v6: "length x = 16 \<and> To16 x = x" if "length x = 4 \<or> length x = 16" "To4 x = []" for x
    using that by (auto simp: To4_def split: if_splits)
  note low = To4_low
  consider "To4 a \<noteq> []" "To4 b \<noteq> []" | "To4 a \<noteq> []" "To4 b = []" | "To4 a = []" "To4 b \<noteq> []" | "To4 a = []" "To4 b = []" by blast
  then have "ipKey16 a = ipKey16 b \<longleftrightarrow> To16 a = To16 b \<or>
      (To4 a \<noteq> [] \<and> b = To4 a @ replicate 12 0) \<or> (To4 b \<noteq> [] \<and> a = To4 b @ replicate 12 0)"
  proof cases
    case 1
    have "\<not> b = To4 a @ replicate 12 0" "\<not> a = To4 b @ replicate 12 0"
      using 1 low v4 [OF assms(1)] v4 [OF assms(2)] by metis+
    then show ?thesis using 1 v4 [OF assms(1)] v4 [OF assms(2)] by (simp add: ipKey16_v4)
  next
    case 2
    then have "To16 a \<noteq> To16 b" using To4_To16 [OF assms(1)] To4_To16 [OF assms(2)] by metis
    moreover have "ipKey16 a = To4 a @ replicate 12 0" "ipKey16 b = b"
      using 2 v4 [OF assms(1)] v6 [OF assms(2)] by (blast intro: ipKey16_v4 ipKey16_v6)+
    ultimately show ?thesis using 2 by metis
  next
    case 3
    then have "To16 a \<noteq> To16 b" using To4_To16 [OF assms(1)] To4_To16 [OF assms(2)] by metis
    moreover have "ipKey16 b = To4 b @ replicate 12 0" "ipKey16 a = a"
      using 3 v4 [OF assms(2)] v6 [OF assms(1)] by (blast intro: ipKey16_v4 ipKey16_v6)+
    ultimately show ?thesis using 3 by metis
  next
    case 4
    then have "ipKey16 a = a" "ipKey16 b = b" "To16 a = a" "To16 b = b"
      using v6 [OF assms(1)] v6 [OF assms(2)] by (blast intro: ipKey16_v6)+
    then show ?thesis using 4 by metis
  qed
  then show ?thesis using key [OF assms(1)] key [OF assms(2)] by metis
qed

lemma ipKey16_collision_example:
  "ipKey16 [10, 0, 0, 2] = ipKey16 ([10, 0, 0, 2] @ replicate 12 0) \<and> key16 [10, 0, 0, 2] \<noteq> key16 ([10, 0, 0, 2] @ replicate 12 0)"
  using ipKey16_collision [of "[10, 0, 0, 2]" "[10, 0, 0, 2] @ replicate 12 0"]
  by (simp add: To4_def To16_def v4InV6Prefix_def)

end
