(* ===== verification/Watch.thy ===== *)
theory Watch
  imports Agent
begin

text \<open>
  The tap watcher (\<^verbatim>\<open>agent/watch.go\<close>): it keeps the attachments of the agent in step with the ports OVS
  reports. The manager's mutex serialises its operations, so a history is a sequence of scans and
  closes. A \<^verbatim>\<open>range\<close> over a Go map visits every key once in an order of its own: that order is the
  parameter \<open>rangeOrder\<close>. The attachments rest on the interface \<open>attacher\<close> of theory \<open>Attach\<close>.
\<close>

section \<open>The manager\<close>

record tapAttachment =
  ta_detach :: "release list"
  ta_resp :: "responder option"
  ta_ips :: "bytes list"

record tapManager =
  tm_ifType :: byte
  tm_respond :: bool
  tm_tcpRespond :: bool
  tm_hmacKey :: bytes
  tm_xdp :: bool
  tm_xdpTCEgress :: bool
  tm_attached :: "(string, tapAttachment) gomap"

definition newTapManager :: "byte \<Rightarrow> bool \<Rightarrow> bool \<Rightarrow> bytes \<Rightarrow> bool \<Rightarrow> bool \<Rightarrow> tapManager" where
  "newTapManager ifType respond tcpRespond hmacKey xdp xdpTCEgress =
     \<lparr>tm_ifType = ifType, tm_respond = respond, tm_tcpRespond = tcpRespond, tm_hmacKey = hmacKey,
      tm_xdp = xdp, tm_xdpTCEgress = xdpTCEgress, tm_attached = []\<rparr>"

type_synonym watch_state = "tapManager \<times> agent"

text \<open>The part of \<^verbatim>\<open>attachLocked\<close> after the programs are attached: the responder and the addresses.\<close>

definition tapResponder :: "sys \<Rightarrow> tapManager \<Rightarrow> agent \<Rightarrow> nat \<Rightarrow> release list \<Rightarrow> Port \<Rightarrow> tapAttachment \<times> agent" where
  "tapResponder y m ag idx detach p =
     (let att = \<lparr>ta_detach = detach, ta_resp = None, ta_ips = []\<rparr> in
      if tm_respond m \<and> 0 < length (p_IPs p) then
        (case startResponder y ag idx (tm_ifType m) (p_IPs p) (tm_tcpRespond m) (tm_hmacKey m) of
           (None, ag) \<Rightarrow> (att, ag)
         | (Some r, ag) \<Rightarrow>
             let att = att\<lparr>ta_resp := Some r\<rparr> in
             (case addLocalIPs (y_putIP y) (ag_localIps ag) (p_IPs p) of
                (ok, ips) \<Rightarrow> (if ok then att\<lparr>ta_ips := p_IPs p\<rparr> else att, ag\<lparr>ag_localIps := ips\<rparr>)))
      else (att, ag))"

definition attachLocked :: "sys \<Rightarrow> Port \<Rightarrow> watch_state \<Rightarrow> run_error option \<times> watch_state" where
  "attachLocked y p s =
     (case s of (m, ag) \<Rightarrow>
        (case y_byName y (p_Name p) of
           None \<Rightarrow> (Some (NoInterface (p_Name p)), (m, ag))
         | Some idx \<Rightarrow>
             (case attachIface (y_attach y) (ag_net ag) (int idx) (tm_xdp m) (tm_xdpTCEgress m) of
                (Inl e, net) \<Rightarrow> (Some (AttachFailed e), (m, ag\<lparr>ag_net := net\<rparr>))
              | (Inr detach, net) \<Rightarrow>
                  (case tapResponder y m (ag\<lparr>ag_net := net\<rparr>) idx detach p of
                     (att, ag) \<Rightarrow> (None, (m\<lparr>tm_attached := mput (tm_attached m) (p_Name p) att\<rparr>, ag))))))"

definition detachLocked :: "sys \<Rightarrow> string \<Rightarrow> watch_state \<Rightarrow> watch_state" where
  "detachLocked y name s =
     (case s of (m, ag) \<Rightarrow>
        (case mget (tm_attached m) name of
           None \<Rightarrow> (m, ag)
         | Some att \<Rightarrow>
             let ag = ag\<lparr>ag_net := run_detach (y_attach y) (ag_net ag) (ta_detach att)\<rparr>;
                 ag = (case ta_resp att of None \<Rightarrow> ag | Some r \<Rightarrow> closeResponder ag r);
                 ag = (if 0 < length (ta_ips att) then ag\<lparr>ag_localIps := delLocalIPs (ag_localIps ag) (ta_ips att)\<rparr> else ag)
             in (m\<lparr>tm_attached := mdel (tm_attached m) name\<rparr>, ag)))"

text \<open>The two loops of \<^verbatim>\<open>reconcile\<close>.\<close>

fun attachNew :: "sys \<Rightarrow> Port list \<Rightarrow> watch_state \<Rightarrow> watch_state" where
  "attachNew y [] s = s"
| "attachNew y (p # ps) s =
     attachNew y ps (if mget (tm_attached (fst s)) (p_Name p) \<noteq> None then s else snd (attachLocked y p s))"

fun detachUnseen :: "sys \<Rightarrow> string list \<Rightarrow> string list \<Rightarrow> watch_state \<Rightarrow> watch_state" where
  "detachUnseen y seen [] s = s"
| "detachUnseen y seen (n # ns) s = detachUnseen y seen ns (if n \<notin> set seen then detachLocked y n s else s)"

definition reconcile :: "sys \<Rightarrow> (string list \<Rightarrow> string list) \<Rightarrow> Port list \<Rightarrow> watch_state \<Rightarrow> watch_state" where
  "reconcile y rangeOrder ports s =
     (let s = attachNew y ports s;
          s = detachUnseen y (map p_Name ports) (rangeOrder (map fst (tm_attached (fst s)))) s
      in (fst s, (snd s)\<lparr>ag_mtr := (ag_mtr (snd s))\<lparr>tapsWatched := of_nat (mlen (tm_attached (fst s)))\<rparr>\<rparr>))"

definition closeAllTaps :: "sys \<Rightarrow> (string list \<Rightarrow> string list) \<Rightarrow> watch_state \<Rightarrow> watch_state" where
  "closeAllTaps y rangeOrder s = detachUnseen y [] (rangeOrder (map fst (tm_attached (fst s)))) s"

definition reconcileOnce ::
  "sys \<Rightarrow> (string list \<Rightarrow> string list) \<Rightarrow> (string list \<Rightarrow> string option) \<Rightarrow> watch_state \<Rightarrow> watch_state go" where
  "reconcileOnce y rangeOrder runCmd s = do {
     r \<leftarrow> DiscoverPorts runCmd;
     case r of Inl _ \<Rightarrow> Some s
     | Inr ports \<Rightarrow> Some (reconcile y rangeOrder ports s) }"

text \<open>\<^verbatim>\<open>runWatcher\<close>: one scan at once and one at every tick until it is stopped, each with the answers of the
  system and of the commands at that time.\<close>

fun runWatcher ::
  "(sys \<times> (string list \<Rightarrow> string list) \<times> (string list \<Rightarrow> string option)) list \<Rightarrow> watch_state \<Rightarrow> watch_state go" where
  "runWatcher [] s = Some s"
| "runWatcher ((y, rangeOrder, runCmd) # ticks) s = do {
     s \<leftarrow> reconcileOnce y rangeOrder runCmd s;
     runWatcher ticks s }"

section \<open>Histories\<close>

text \<open>Scans and closes hold the mutex, so a history of the manager is a sequence of these.\<close>

datatype watch_op = Scan sys "string list \<Rightarrow> string list" "Port list" | CloseTaps sys "string list \<Rightarrow> string list"

fun watch_step :: "watch_state \<Rightarrow> watch_op \<Rightarrow> watch_state" where
  "watch_step s (Scan y rangeOrder ports) = reconcile y rangeOrder ports s"
| "watch_step s (CloseTaps y rangeOrder) = closeAllTaps y rangeOrder s"

fun op_sys :: "watch_op \<Rightarrow> sys" where
  "op_sys (Scan y rangeOrder ports) = y"
| "op_sys (CloseTaps y rangeOrder) = y"

fun op_range :: "watch_op \<Rightarrow> string list \<Rightarrow> string list" where
  "op_range (Scan y rangeOrder ports) = rangeOrder"
| "op_range (CloseTaps y rangeOrder) = rangeOrder"

fun op_ports :: "watch_op \<Rightarrow> Port list" where
  "op_ports (Scan y rangeOrder ports) = ports"
| "op_ports (CloseTaps y rangeOrder) = []"

text \<open>What the theorems assume of the world: a \<^verbatim>\<open>range\<close> visits every key once, filters can be deleted,
  and an interface keeps its index, different interfaces having different ones.\<close>

definition fair_range :: "(string list \<Rightarrow> string list) \<Rightarrow> bool" where
  "fair_range f \<longleftrightarrow> (\<forall>ks. mset (f ks) = mset ks)"

definition stable :: "(string \<rightharpoonup> nat) \<Rightarrow> watch_op \<Rightarrow> bool" where
  "stable idx w \<longleftrightarrow> fair_range (op_range w) \<and> good_env (y_attach (op_sys w)) \<and>
     (\<forall>p \<in> set (op_ports w). \<forall>i. y_byName (op_sys w) (p_Name p) = Some i \<longrightarrow> idx (p_Name p) = Some i)"

section \<open>The invariant\<close>

definition tap_fds :: "tapAttachment \<Rightarrow> nat multiset" where
  "tap_fds a = (case ta_resp a of None \<Rightarrow> {#} | Some r \<Rightarrow> {#r_fd r#})"

text \<open>Everything held beyond what was there before belongs to a tap of the table, on its own interface.\<close>

definition watch_inv :: "(string \<rightharpoonup> nat) \<Rightarrow> hook multiset \<Rightarrow> nat multiset \<Rightarrow> watch_state \<Rightarrow> bool" where
  "watch_inv idx base fds s = (case s of (m, ag) \<Rightarrow>
     kern.ledger ta_detach base (tm_attached m) (ag_net ag) \<and>
     (\<forall>n a. mget (tm_attached m) n = Some a \<longrightarrow> (\<forall>h \<in># owned (ta_detach a). \<exists>i. idx n = Some i \<and> hook_if h = int i)) \<and>
     mset (ag_fds ag) = fds + sum_list (map (tap_fds \<circ> snd) (tm_attached m)))"

lemma watch_invD:
  "watch_inv idx base fds (m, ag) \<Longrightarrow> mget (tm_attached m) n = Some a \<Longrightarrow> h \<in># owned (ta_detach a) \<Longrightarrow>
     \<exists>i. idx n = Some i \<and> hook_if h = int i"
  by (simp add: watch_inv_def)

lemma startResponder_fds:
  assumes "startResponder y ag idx t ips tcp key = (r, ag')"
  shows "ag_net ag' = ag_net ag \<and> ag_localIps ag' = ag_localIps ag \<and>
    mset (ag_fds ag') = mset (ag_fds ag) + (case r of None \<Rightarrow> {#} | Some q \<Rightarrow> {#r_fd q#})"
  using assms by (auto simp: startResponder_def responder.truncate_def split: option.splits)

lemma tapResponder_frame:
  assumes "tapResponder y m ag idx detach p = (att, ag')"
  shows "ta_detach att = detach \<and> ag_net ag' = ag_net ag \<and> mset (ag_fds ag') = mset (ag_fds ag) + tap_fds att"
proof -
  obtain r ag1 where r: "startResponder y ag idx (tm_ifType m) (p_IPs p) (tm_tcpRespond m) (tm_hmacKey m) = (r, ag1)" by fastforce
  from startResponder_fds [OF this] show ?thesis
    using assms r by (auto simp: tapResponder_def Let_def tap_fds_def split: if_splits option.splits prod.splits)
qed

lemma attachLocked_inv:
  assumes inv: "watch_inv idx base fds (m, ag)" and new: "mget (tm_attached m) (p_Name p) = None"
    and env: "good_env (y_attach y)" "\<forall>i. y_byName y (p_Name p) = Some i \<longrightarrow> idx (p_Name p) = Some i" "inj_on idx (dom idx)"
    and base: "\<forall>h \<in># base. \<forall>i \<in> ran idx. hook_if h \<noteq> int i"
    and at: "attachLocked y p (m, ag) = (r, s')"
  shows "watch_inv idx base fds s'"
proof (cases "y_byName y (p_Name p)")
  case None
  then show ?thesis using inv at by (simp add: attachLocked_def)
next
  case (Some i)
  then have i: "idx (p_Name p) = Some i" using env(2) by blast
  have led: "kern.ledger ta_detach base (tm_attached m) (ag_net ag)" using inv by (simp add: watch_inv_def)
  have free: "\<forall>h \<in># hooks (ag_net ag). hook_if h \<noteq> int i"
  proof (rule kern.ledger_free [OF led])
    show "\<forall>h \<in># base. hook_if h \<noteq> int i" using base i by (auto simp: ran_def)
    show "hook_if h \<noteq> int i" if e: "mget (tm_attached m) n = Some a" "h \<in># owned (ta_detach a)" for n a h
    proof
      assume "hook_if h = int i"
      moreover obtain j where "idx n = Some j" "hook_if h = int j" using watch_invD [OF inv e] by blast
      ultimately have "idx n = idx (p_Name p)" "n \<in> dom idx" "p_Name p \<in> dom idx" using i by auto
      then have "n = p_Name p" by (rule inj_onD [OF env(3)])
      then show False using e(1) new by simp
    qed
  qed
  obtain q net where q: "attachIface (y_attach y) (ag_net ag) (int i) (tm_xdp m) (tm_xdpTCEgress m) = (q, net)" by fastforce
  show ?thesis
  proof (cases q)
    case (Inl e)
    have "kern.ledger ta_detach base (tm_attached m) net"
      by (rule kern_failed [OF led q [unfolded Inl] free env(1)])
    moreover have "s' = (m, ag\<lparr>ag_net := net\<rparr>)" using at Some q Inl by (simp add: attachLocked_def)
    ultimately show ?thesis using inv by (simp add: watch_inv_def)
  next
    case (Inr d)
    obtain att ag' where t: "tapResponder y m (ag\<lparr>ag_net := net\<rparr>) i d p = (att, ag')" by fastforce
    note f = tapResponder_frame [OF t]
    have "kern.ledger ta_detach base (mput (tm_attached m) (p_Name p) att) net" "\<forall>h \<in># owned d. hook_if h = int i"
      by (rule kern_attached [where a = att, OF led q [unfolded Inr] free new], use f in simp)+
    moreover have s': "s' = (m\<lparr>tm_attached := mput (tm_attached m) (p_Name p) att\<rparr>, ag')"
      using at Some q Inr t by (simp add: attachLocked_def)
    moreover have "mset (ag_fds ag') = fds + sum_list (map (tap_fds \<circ> snd) (mput (tm_attached m) (p_Name p) att))"
      using inv f new by (simp add: watch_inv_def sum_vals_put add.assoc)
    ultimately show ?thesis using inv f i by (simp add: watch_inv_def gomap_simps)
  qed
qed

lemma detachLocked_inv:
  assumes "watch_inv idx base fds (m, ag)" "good_env (y_attach y)"
  shows "watch_inv idx base fds (detachLocked y n (m, ag))"
proof (cases "mget (tm_attached m) n")
  case (Some att)
  have led: "kern.ledger ta_detach base (tm_attached m) (ag_net ag)" using assms(1) by (simp add: watch_inv_def)
  have wf: "mwf (tm_attached m)" using led by (simp add: kern.ledger_def)
  note l = kern_detached [OF led Some assms(2)]
  note s = sum_vals_del [OF wf Some, of tap_fds]
  obtain ag' where d: "detachLocked y n (m, ag) = (m\<lparr>tm_attached := mdel (tm_attached m) n\<rparr>, ag')"
      "ag_net ag' = run_detach (y_attach y) (ag_net ag) (ta_detach att)" "mset (ag_fds ag') = mset (ag_fds ag) - tap_fds att"
    using Some by (cases "ta_resp att") (simp_all add: detachLocked_def Let_def closeResponder_def tap_fds_def)
  have "mset (ag_fds ag') = fds + sum_list (map (tap_fds \<circ> snd) (mdel (tm_attached m) n))"
    using assms(1) s d(3) by (simp add: watch_inv_def)
  then show ?thesis using assms l d by (simp add: watch_inv_def gomap_simps)
qed (use assms in \<open>simp add: detachLocked_def\<close>)

lemma attachNew_inv:
  assumes "watch_inv idx base fds s" "good_env (y_attach y)"
    and "\<forall>p \<in> set ps. \<forall>i. y_byName y (p_Name p) = Some i \<longrightarrow> idx (p_Name p) = Some i" "inj_on idx (dom idx)"
    and "\<forall>h \<in># base. \<forall>i \<in> ran idx. hook_if h \<noteq> int i"
  shows "watch_inv idx base fds (attachNew y ps s)"
  using assms(1,3)
proof (induction ps arbitrary: s)
  case (Cons p ps)
  obtain m ag where s: "s = (m, ag)" by (cases s)
  have "watch_inv idx base fds (snd (attachLocked y p (m, ag)))" if "mget (tm_attached m) (p_Name p) = None"
    using attachLocked_inv [OF _ that assms(2) _ assms(4,5)] Cons.prems s by (metis list.set_intros(1) prod.collapse)
  then show ?case using Cons s by simp
qed simp

lemma detachUnseen_inv:
  assumes "watch_inv idx base fds s" "good_env (y_attach y)"
  shows "watch_inv idx base fds (detachUnseen y seen ns s)"
  using assms(1)
proof (induction ns arbitrary: s)
  case (Cons n ns)
  obtain m ag where s: "s = (m, ag)" by (cases s)
  show ?case using Cons detachLocked_inv [OF _ assms(2), of idx base fds m ag n] s by simp
qed simp

lemma watch_inv_mtr: "watch_inv idx base fds (fst s, (snd s)\<lparr>ag_mtr := x\<rparr>) = watch_inv idx base fds s"
  by (cases s) (simp add: watch_inv_def)

lemma watch_step_inv:
  assumes "watch_inv idx base fds s" "stable idx w" "inj_on idx (dom idx)" "\<forall>h \<in># base. \<forall>i \<in> ran idx. hook_if h \<noteq> int i"
  shows "watch_inv idx base fds (watch_step s w)"
proof (cases w)
  case (Scan y f ports)
  have "watch_inv idx base fds (attachNew y ports s)"
    using attachNew_inv [OF assms(1) _ _ assms(3,4), of y ports] assms(2) Scan by (simp add: stable_def)
  from detachUnseen_inv [OF this, of y] show ?thesis
    using assms(2) Scan by (simp add: stable_def reconcile_def Let_def watch_inv_mtr)
next
  case (CloseTaps y f)
  then show ?thesis using detachUnseen_inv [OF assms(1), of y] assms(2) by (simp add: stable_def closeAllTaps_def)
qed

lemma watch_run_inv:
  assumes "watch_inv idx base fds s" "\<forall>w \<in> set ws. stable idx w" "inj_on idx (dom idx)" "\<forall>h \<in># base. \<forall>i \<in> ran idx. hook_if h \<noteq> int i"
  shows "watch_inv idx base fds (foldl watch_step s ws)"
  using assms(1,2)
proof (induction ws arbitrary: s)
  case (Cons w ws)
  then show ?case using watch_step_inv [OF _ _ assms(3,4)] by simp
qed simp

section \<open>The table\<close>

lemma detachLocked_get:
  "mget (tm_attached (fst (detachLocked y n s))) k = (if k = n then None else mget (tm_attached (fst s)) k)"
  by (auto simp: detachLocked_def Let_def gomap_simps split: prod.split option.split)

lemma detachUnseen_get:
  "mget (tm_attached (fst (detachUnseen y seen ns s))) k =
     (if k \<in> set ns \<and> k \<notin> set seen then None else mget (tm_attached (fst s)) k)"
  by (induction y seen ns s rule: detachUnseen.induct) (auto simp: detachLocked_get)

lemma attachLocked_get:
  "mget (tm_attached (fst (snd (attachLocked y p s)))) k =
     (if k = p_Name p \<and> fst (attachLocked y p s) = None
      then mget (tm_attached (fst (snd (attachLocked y p s)))) k else mget (tm_attached (fst s)) k)"
  by (auto simp: attachLocked_def gomap_simps split: prod.split option.split sum.split)

lemma attachLocked_present:
  "fst (attachLocked y p s) = None \<Longrightarrow> mget (tm_attached (fst (snd (attachLocked y p s)))) (p_Name p) \<noteq> None"
  by (auto simp: attachLocked_def gomap_simps split: prod.splits option.splits sum.splits)

text \<open>An entry once made is left alone by further attaching.\<close>

lemma attachNew_keeps:
  "mget (tm_attached (fst s)) k = Some a \<Longrightarrow> mget (tm_attached (fst (attachNew y ps s))) k = Some a"
proof (induction y ps s rule: attachNew.induct)
  case (2 y p ps s)
  have "mget (tm_attached (fst (snd (attachLocked y p s)))) k = Some a" if "mget (tm_attached (fst s)) (p_Name p) = None"
    using attachLocked_get [of y p s k] 2(2) that by (auto split: if_splits)
  with 2 show ?case by simp
qed simp

lemma attachNew_only:
  "mget (tm_attached (fst (attachNew y ps s))) k \<noteq> None \<Longrightarrow> mget (tm_attached (fst s)) k \<noteq> None \<or> k \<in> p_Name ` set ps"
proof (induction y ps s rule: attachNew.induct)
  case (2 y p ps s)
  show ?case
  proof (cases "mget (tm_attached (fst s)) (p_Name p)")
    case None
    then have "mget (tm_attached (fst (snd (attachLocked y p s)))) k \<noteq> None \<or> k \<in> p_Name ` set ps"
      using 2 by simp
    then show ?thesis using attachLocked_get [of y p s k] by (auto split: if_splits)
  next
    case (Some a)
    then show ?thesis using 2 by auto
  qed
qed simp

lemma fair_range_set: "fair_range f \<Longrightarrow> set (f ks) = set ks"
  unfolding fair_range_def by (metis set_mset_mset)

lemma reconcile_get:
  assumes "fair_range f"
  shows "mget (tm_attached (fst (reconcile y f ports s))) k =
    (if k \<in> p_Name ` set ports then mget (tm_attached (fst (attachNew y ports s))) k else None)"
  using fst_set_mget [of k "tm_attached (fst (attachNew y ports s))"]
  by (auto simp: reconcile_def Let_def detachUnseen_get fair_range_set [OF assms])

lemma closeAllTaps_empty:
  assumes "fair_range f"
  shows "tm_attached (fst (closeAllTaps y f s)) = []"
proof -
  have "mget (tm_attached (fst (closeAllTaps y f s))) k = None" for k
    using fst_set_mget [of k "tm_attached (fst s)"] assms
    by (auto simp: closeAllTaps_def detachUnseen_get fair_range_set split: if_splits)
  then show ?thesis
    using fst_set_mget [of _ "tm_attached (fst (closeAllTaps y f s))"] by (cases "tm_attached (fst (closeAllTaps y f s))") force+
qed

lemma attachLocked_accepts:
  assumes "y_byName y (p_Name p) = Some i" "accepts (y_attach y) (int i)"
  shows "fst (attachLocked y p s) = None"
proof -
  obtain m ag where s: "s = (m, ag)" by (cases s)
  obtain d k' where "attachIface (y_attach y) (ag_net ag) (int i) (tm_xdp m) (tm_xdpTCEgress m) = (Inr d, k')"
    using attachIface_accepts [OF assms(2)] by blast
  then show ?thesis using assms(1) s by (simp add: attachLocked_def split: prod.split)
qed

lemma attachNew_all:
  assumes "p \<in> set ps" "y_byName y (p_Name p) = Some i" "accepts (y_attach y) (int i)"
  shows "mget (tm_attached (fst (attachNew y ps s))) (p_Name p) \<noteq> None"
  using assms(1)
proof (induction ps arbitrary: s)
  case (Cons q ps)
  have "mget (tm_attached (fst (if mget (tm_attached (fst s)) (p_Name p) \<noteq> None then s else snd (attachLocked y p s)))) (p_Name p) \<noteq> None"
    using attachLocked_present [OF attachLocked_accepts [OF assms(2,3)]] by simp
  then have "mget (tm_attached (fst (attachNew y (p # ps) s))) (p_Name p) \<noteq> None"
    using attachNew_keeps [of _ "p_Name p" _ y ps] by (metis attachNew.simps(2) option.exhaust option.distinct(1))
  then show ?case using Cons by (cases "p = q") simp_all
qed simp

section \<open>Addresses\<close>

definition tap_keys :: "tapManager \<Rightarrow> string \<Rightarrow> bytes set" where
  "tap_keys m n = (case mget (tm_attached m) n of None \<Rightarrow> {} | Some a \<Rightarrow> ipKey16 ` set (ta_ips a))"

definition registered :: "agent \<Rightarrow> bytes set" where
  "registered ag = {k. mget (ag_localIps ag) k \<noteq> None}"

lemma tap_keys_put: "tap_keys (m\<lparr>tm_attached := mput (tm_attached m) n a\<rparr>) = (tap_keys m)(n := ipKey16 ` set (ta_ips a))"
  by (rule ext) (simp add: tap_keys_def gomap_simps)

lemma tap_keys_del: "tap_keys (m\<lparr>tm_attached := mdel (tm_attached m) n\<rparr>) = (tap_keys m)(n := {})"
  by (rule ext) (simp add: tap_keys_def gomap_simps)

lemma UN_put: "F n = {} \<Longrightarrow> (\<Union>x. (F(n := X)) x) = (\<Union>x. F x) \<union> X"
proof -
  assume "F n = {}"
  then have "y \<in> (\<Union>x. (F(n := X)) x) \<longleftrightarrow> y \<in> (\<Union>x. F x) \<union> X" for y
    unfolding UN_iff Un_iff fun_upd_apply by (metis UNIV_I empty_iff)
  then show ?thesis by blast
qed

lemma UN_clear: "\<forall>x. x \<noteq> n \<longrightarrow> F x \<inter> F n = {} \<Longrightarrow> (\<Union>x. (F(n := {})) x) = (\<Union>x. F x) - F n"
proof -
  assume "\<forall>x. x \<noteq> n \<longrightarrow> F x \<inter> F n = {}"
  then have "y \<in> (\<Union>x. (F(n := {})) x) \<longleftrightarrow> y \<in> (\<Union>x. F x) - F n" for y
    unfolding UN_iff Diff_iff fun_upd_apply by (metis UNIV_I empty_iff IntI)
  then show ?thesis by blast
qed

text \<open>\<open>K n\<close> are the keys of the addresses of the VM behind tap \<open>n\<close>, \<open>S\<close> those registered by other parts.\<close>

definition addressed :: "(string \<Rightarrow> bytes set) \<Rightarrow> watch_op \<Rightarrow> bool" where
  "addressed K w \<longleftrightarrow> fair_range (op_range w) \<and> (\<forall>k. y_putIP (op_sys w) k) \<and>
     (case w of Scan y f ports \<Rightarrow> \<forall>p \<in> set ports. ipKey16 ` set (p_IPs p) \<subseteq> K (p_Name p) | CloseTaps y f \<Rightarrow> True)"

definition ips_inv :: "(string \<Rightarrow> bytes set) \<Rightarrow> bytes set \<Rightarrow> watch_state \<Rightarrow> bool" where
  "ips_inv K S s = (case s of (m, ag) \<Rightarrow>
     registered ag = S \<union> (\<Union>n. tap_keys m n) \<and> (\<forall>n. tap_keys m n \<subseteq> K n) \<and>
     (\<forall>n a. mget (tm_attached m) n = Some a \<longrightarrow> ta_ips a \<noteq> [] \<longrightarrow> ta_resp a \<noteq> None))"

lemma addLocalIPs_total: "\<forall>k. put k \<Longrightarrow> fst (addLocalIPs put m ips)"
  by (induction put m ips rule: addLocalIPs.induct) (auto simp: Let_def)

lemma tapResponder_ips:
  assumes "tapResponder y m ag idx detach p = (att, ag')" "\<forall>k. y_putIP y k"
  shows "(ta_ips att = [] \<or> ta_ips att = p_IPs p) \<and> (ta_ips att \<noteq> [] \<longrightarrow> ta_resp att \<noteq> None) \<and>
    registered ag' = registered ag \<union> ipKey16 ` set (ta_ips att)"
proof -
  obtain r ag1 where r: "startResponder y ag idx (tm_ifType m) (p_IPs p) (tm_tcpRespond m) (tm_hmacKey m) = (r, ag1)" by fastforce
  obtain ips where a: "addLocalIPs (y_putIP y) (ag_localIps ag1) (p_IPs p) = (True, ips)"
    using addLocalIPs_total [OF assms(2)] by (metis (full_types) prod.collapse)
  have l: "ag_localIps ag1 = ag_localIps ag" using startResponder_fds [OF r] by blast
  show ?thesis
    using assms(1) r a l addLocalIPs_ok [OF a]
    by (auto simp: tapResponder_def Let_def registered_def split: if_splits option.splits)
qed

lemma attachLocked_ips:
  assumes inv: "ips_inv K S (m, ag)" and new: "mget (tm_attached m) (p_Name p) = None"
    and p: "ipKey16 ` set (p_IPs p) \<subseteq> K (p_Name p)" "\<forall>k. y_putIP y k"
    and at: "attachLocked y p (m, ag) = (r, s')"
  shows "ips_inv K S s'"
proof (cases r)
  case None
  then obtain i d net att ag' where t: "tapResponder y m (ag\<lparr>ag_net := net\<rparr>) i d p = (att, ag')"
      and s': "s' = (m\<lparr>tm_attached := mput (tm_attached m) (p_Name p) att\<rparr>, ag')"
    using at by (auto simp: attachLocked_def split: option.splits prod.splits sum.splits)
  note f = tapResponder_ips [OF t p(2)]
  have none: "tap_keys m (p_Name p) = {}" using new by (simp add: tap_keys_def)
  note UN_put [of "tap_keys m", OF this]
  moreover have "registered (ag\<lparr>ag_net := net\<rparr>) = registered ag" by (simp add: registered_def)
  ultimately have "registered ag' = S \<union> (\<Union>n. ((tap_keys m)(p_Name p := ipKey16 ` set (ta_ips att))) n)"
    using inv f by (auto simp: ips_inv_def)
  moreover have "ipKey16 ` set (ta_ips att) \<subseteq> K (p_Name p)" using f p(1) by auto
  ultimately show ?thesis using inv f unfolding s' ips_inv_def by (simp add: tap_keys_put gomap_simps)
next
  case (Some e)
  then obtain net where "s' = (m, ag\<lparr>ag_net := net\<rparr>) \<or> s' = (m, ag)"
    using at by (auto simp: attachLocked_def split: option.splits prod.splits sum.splits)
  moreover have "registered (ag\<lparr>ag_net := net\<rparr>) = registered ag" by (simp add: registered_def)
  ultimately show ?thesis using inv by (auto simp: ips_inv_def)
qed

lemma detachLocked_ips:
  assumes inv: "ips_inv K S (m, ag)" and dis: "\<forall>n n'. n \<noteq> n' \<longrightarrow> K n \<inter> K n' = {}" "\<forall>n. K n \<inter> S = {}"
  shows "ips_inv K S (detachLocked y n (m, ag))"
proof (cases "mget (tm_attached m) n")
  case (Some att)
  obtain ag' where d: "detachLocked y n (m, ag) = (m\<lparr>tm_attached := mdel (tm_attached m) n\<rparr>, ag')"
      "ag_localIps ag' = delLocalIPs (ag_localIps ag) (ta_ips att)"
    using Some by (cases "ta_resp att"; cases "ta_ips att") (simp_all add: detachLocked_def Let_def closeResponder_def)
  have old: "tap_keys m n = ipKey16 ` set (ta_ips att)" using Some by (simp add: tap_keys_def)
  have r1: "registered ag' = registered ag - tap_keys m n"
    using d(2) by (auto simp: registered_def delLocalIPs_get old)
  have sub: "tap_keys m x \<subseteq> K x" for x using inv by (simp add: ips_inv_def)
  then have "tap_keys m x \<inter> tap_keys m n = {}" if "x \<noteq> n" for x using dis(1) that by blast
  then have r2: "(\<Union>n'. ((tap_keys m)(n := {})) n') = (\<Union>n'. tap_keys m n') - tap_keys m n" by (intro UN_clear allI impI)
  have r3: "S \<inter> tap_keys m n = {}" using sub dis(2) by blast
  have r4: "registered ag = S \<union> (\<Union>n'. tap_keys m n')" using inv by (simp add: ips_inv_def)
  have "registered ag' = S \<union> (\<Union>n'. ((tap_keys m)(n := {})) n')"
    unfolding r1 r2 r4 by (simp only: Un_Diff Diff_triv [OF r3])
  then show ?thesis using inv sub unfolding d(1) ips_inv_def by (simp add: tap_keys_del gomap_simps)
qed (use inv in \<open>simp add: detachLocked_def\<close>)

lemma attachNew_ips:
  assumes "ips_inv K S s" "\<forall>p \<in> set ps. ipKey16 ` set (p_IPs p) \<subseteq> K (p_Name p)" "\<forall>k. y_putIP y k"
  shows "ips_inv K S (attachNew y ps s)"
  using assms(1,2)
proof (induction ps arbitrary: s)
  case (Cons p ps)
  obtain m ag where s: "s = (m, ag)" by (cases s)
  have "ips_inv K S (snd (attachLocked y p (m, ag)))" if "mget (tm_attached m) (p_Name p) = None"
    using attachLocked_ips [OF _ that _ assms(3)] Cons.prems s by (metis list.set_intros(1) prod.collapse)
  then show ?case using Cons s by simp
qed simp

lemma detachUnseen_ips:
  assumes "ips_inv K S s" "\<forall>n n'. n \<noteq> n' \<longrightarrow> K n \<inter> K n' = {}" "\<forall>n. K n \<inter> S = {}"
  shows "ips_inv K S (detachUnseen y seen ns s)"
  using assms(1)
proof (induction ns arbitrary: s)
  case (Cons n ns)
  obtain m ag where s: "s = (m, ag)" by (cases s)
  show ?case using Cons detachLocked_ips [OF _ assms(2,3), of m ag y n] s by simp
qed simp

lemma watch_step_ips:
  assumes "ips_inv K S s" "addressed K w" "\<forall>n n'. n \<noteq> n' \<longrightarrow> K n \<inter> K n' = {}" "\<forall>n. K n \<inter> S = {}"
  shows "ips_inv K S (watch_step s w)"
proof (cases w)
  case (Scan y f ports)
  have mtr: "ips_inv K S (fst s, (snd s)\<lparr>ag_mtr := x\<rparr>) = ips_inv K S s" for s x
    by (cases s) (simp add: ips_inv_def registered_def)
  have "ips_inv K S (attachNew y ports s)"
    using attachNew_ips [OF assms(1), of ports y] assms(2) Scan by (simp add: addressed_def)
  from detachUnseen_ips [OF this assms(3,4), of y] show ?thesis
    using Scan by (simp add: reconcile_def Let_def mtr)
next
  case (CloseTaps y f)
  then show ?thesis using detachUnseen_ips [OF assms(1,3,4), of y] by (simp add: closeAllTaps_def)
qed

section \<open>Properties\<close>

text \<open>
  The watcher holds what its table says and gives everything back. Over any sequence of scans and
  closes, with any answers of the system to attaching and opening sockets, every link, filter and
  socket held beyond those that were there before belongs to a tap in the manager's table, on that
  tap's own interface: nothing is attached twice and nothing is lost track of. After a close the
  table is empty and the kernel and the open sockets are as before the watcher started.
\<close>

theorem watch_no_leak:
  assumes "wf_knet (ag_net ag)" "\<forall>h \<in># hooks (ag_net ag). \<forall>i \<in> ran idx. hook_if h \<noteq> int i" "inj_on idx (dom idx)"
    and "\<forall>w \<in> set ws. stable idx w" "stable idx (CloseTaps y f)"
    and "s = foldl watch_step (newTapManager t r tr key xdp eg, ag) ws"
  shows "watch_inv idx (hooks (ag_net ag)) (mset (ag_fds ag)) s \<and>
    (case watch_step s (CloseTaps y f) of (m', ag') \<Rightarrow>
      tm_attached m' = [] \<and> hooks (ag_net ag') = hooks (ag_net ag) \<and> mset (ag_fds ag') = mset (ag_fds ag))"
proof -
  have "watch_inv idx (hooks (ag_net ag)) (mset (ag_fds ag)) (newTapManager t r tr key xdp eg, ag)"
    using kern.ledger_empty [OF assms(1), of ta_detach] by (simp add: watch_inv_def newTapManager_def gomap_simps)
  from watch_run_inv [OF this assms(4,3,2)] have inv: "watch_inv idx (hooks (ag_net ag)) (mset (ag_fds ag)) s"
    using assms(6) by simp
  obtain m' ag' where c: "watch_step s (CloseTaps y f) = (m', ag')" by fastforce
  have "tm_attached m' = []" using closeAllTaps_empty [of f y s] c assms(5) by (simp add: stable_def)
  then show ?thesis
    using inv watch_step_inv [OF inv assms(5,3,2)] c by (simp add: watch_inv_def kern.ledger_def)
qed

definition demo_sys :: sys where
  "demo_sys = \<lparr>y_attach = demo_kernel, y_byName = map_of [(''tap0'', 7), (''tap1'', 8)], y_socket = Some, y_bind = (\<lambda>_. True),
     y_putIP = (\<lambda>_. True), y_putVNI = (\<lambda>_. True), y_putConfig = True,
     y_memlock = True, y_load = True, y_ringbuf = True, y_otlp = True\<rparr>"

definition demo_agent :: agent where
  "demo_agent = \<lparr>ag_net = knet0, ag_config = None, ag_localIps = [], ag_ifaceVni = [], ag_fds = [], ag_mtr = metrics0\<rparr>"

definition demo_port :: "string \<Rightarrow> Port" where
  "demo_port n = \<lparr>p_Name = n, p_MAC = [], p_IPs = [[10, 0, 0, 2]]\<rparr>"

definition demo_taps :: "watch_op list \<Rightarrow> watch_state" where
  "demo_taps ws = foldl watch_step (newTapManager 0 True True [] False False, demo_agent) ws"

lemma demo_world:
  "wf_knet (ag_net demo_agent)" "hooks (ag_net demo_agent) = {#}" "good_env (y_attach demo_sys)" "fair_range (\<lambda>ks. ks)"
  "inj_on (map_of [(''tap0'', 7 :: nat), (''tap1'', 8)]) (dom (map_of [(''tap0'', 7 :: nat), (''tap1'', 8)]))"
  by (simp_all add: demo_agent_def knet0_def wf_knet_def mwf_def hooks_def filter_hooks_def good_env_def demo_sys_def
      demo_kernel_def fair_range_def inj_on_def)

theorem watch_no_leak_witness:
  "hooks (ag_net (snd (demo_taps [Scan demo_sys (\<lambda>ks. ks) [demo_port ''tap0'']]))) \<noteq> {#} \<and>
   hooks (ag_net (snd (demo_taps [Scan demo_sys (\<lambda>ks. ks) [demo_port ''tap0''], CloseTaps demo_sys (\<lambda>ks. ks)]))) = {#}"
proof -
  let ?idx = "map_of [(''tap0'', 7 :: nat), (''tap1'', 8)]"
  have st: "stable ?idx (Scan demo_sys (\<lambda>ks. ks) [demo_port ''tap0''])" "stable ?idx (CloseTaps demo_sys (\<lambda>ks. ks))"
    using demo_world by (simp_all add: stable_def demo_sys_def demo_port_def)
  have "(ag_net (snd (demo_taps [Scan demo_sys (\<lambda>ks. ks) [demo_port ''tap0'']]))) =
      \<lparr>links = [], filters = [((7, Ingress), TraceflowIngress), ((7, Egress), TraceflowEgress)], qdiscs = [7]\<rparr>"
    by code_simp
  then have "hooks (ag_net (snd (demo_taps [Scan demo_sys (\<lambda>ks. ks) [demo_port ''tap0'']]))) \<noteq> {#}"
    by (simp add: hooks_def filter_hooks_def)
  moreover from watch_no_leak [OF demo_world(1) _ demo_world(5) _ st(2) refl, of "[Scan demo_sys (\<lambda>ks. ks) [demo_port ''tap0'']]"]
  have "hooks (ag_net (snd (demo_taps [Scan demo_sys (\<lambda>ks. ks) [demo_port ''tap0''], CloseTaps demo_sys (\<lambda>ks. ks)]))) = {#}"
    using st(1) demo_world(2) by (simp add: demo_taps_def split_beta)
  ultimately show ?thesis by blast
qed

text \<open>
  One scan brings the attachments in step with OVS. After a scan only reported ports are attached,
  an attachment of a port that is still reported is left exactly as it was, every reported port whose
  interface exists and whose programs the kernel accepts is attached, and the gauge shows the number
  of attached taps.
\<close>

theorem reconcile_in_step:
  assumes "fair_range f" "s' = reconcile y f ports s"
  shows "(\<forall>n. mget (tm_attached (fst s')) n \<noteq> None \<longrightarrow> n \<in> p_Name ` set ports) \<and>
    (\<forall>n a. n \<in> p_Name ` set ports \<and> mget (tm_attached (fst s)) n = Some a \<longrightarrow> mget (tm_attached (fst s')) n = Some a) \<and>
    (\<forall>p i. p \<in> set ports \<and> y_byName y (p_Name p) = Some i \<and> accepts (y_attach y) (int i) \<longrightarrow>
       mget (tm_attached (fst s')) (p_Name p) \<noteq> None) \<and>
    tapsWatched (ag_mtr (snd s')) = of_nat (mlen (tm_attached (fst s')))"
proof -
  have "tapsWatched (ag_mtr (snd s')) = of_nat (mlen (tm_attached (fst s')))"
    by (simp add: assms(2) reconcile_def Let_def)
  moreover have "mget (tm_attached (fst s')) (p_Name p) \<noteq> None"
    if "p \<in> set ports" "y_byName y (p_Name p) = Some i" "accepts (y_attach y) (int i)" for p i
    using attachNew_all [OF that, of s] that(1) by (simp add: assms(2) reconcile_get [OF assms(1)])
  ultimately show ?thesis
    unfolding assms(2) reconcile_get [OF assms(1)] using attachNew_keeps by (auto split: if_splits)
qed

theorem reconcile_in_step_witness:
  "mget (tm_attached (fst (reconcile demo_sys (\<lambda>ks. ks) [demo_port ''tap1''] (demo_taps [Scan demo_sys (\<lambda>ks. ks) [demo_port ''tap0'']])))) ''tap1'' \<noteq> None \<and>
   mget (tm_attached (fst (reconcile demo_sys (\<lambda>ks. ks) [demo_port ''tap1''] (demo_taps [Scan demo_sys (\<lambda>ks. ks) [demo_port ''tap0'']])))) ''tap0'' = None"
  using reconcile_in_step [OF demo_world(4) refl, of demo_sys "[demo_port ''tap1'']" "demo_taps [Scan demo_sys (\<lambda>ks. ks) [demo_port ''tap0'']]"]
  by (fastforce simp: demo_port_def demo_sys_def accepts_def demo_kernel_def)



lemma portsOf_names: "portsOf runCmd is = Some ps \<Longrightarrow> map p_Name ps = map i_Name is"
  by (induction "is" arbitrary: ps) (auto simp: portOf_def split: bind_splits)

text \<open>The scans that a run of the watcher performs: a discovery that fails performs none.\<close>

fun scans :: "(sys \<times> (string list \<Rightarrow> string list) \<times> (string list \<Rightarrow> string option)) list \<Rightarrow> watch_op list" where
  "scans [] = []"
| "scans ((y, rangeOrder, runCmd) # ticks) =
     (case DiscoverPorts runCmd of Some (Inr ports) \<Rightarrow> [Scan y rangeOrder ports] | _ \<Rightarrow> []) @ scans ticks"

lemma runWatcher_scans: "runWatcher ticks s = Some (foldl watch_step s (scans ticks))"
proof (induction ticks s rule: runWatcher.induct)
  case (2 y f runCmd ticks s)
  obtain r where "DiscoverPorts runCmd = Some r" using DiscoverPorts_total by blast
  with 2 show ?case by (cases r) (simp_all add: reconcileOnce_def)
qed simp

text \<open>When a discovery fails: the command fails, or its output is no JSON text of a table.\<close>

definition discovery_fails :: "(string list \<Rightarrow> string option) \<Rightarrow> bool" where
  "discovery_fails runCmd =
     (case runCmd [''ovs-vsctl'', ''--format=json'', ifaceColumns, ''list'', ''Interface''] of
        None \<Rightarrow> True
      | Some out \<Rightarrow> Option.bind (readJSON out) asTable = None)"

lemma reconcileOnce_fails: "discovery_fails runCmd \<Longrightarrow> reconcileOnce y f runCmd s = Some s"
  by (auto simp: discovery_fails_def reconcileOnce_def DiscoverPorts_def ParseInterfaces_def split: option.splits)

lemma runWatcher_append:
  "runWatcher (xs @ ys) s = Option.bind (runWatcher xs s) (runWatcher ys)"
proof (induction xs arbitrary: s)
  case (Cons x xs)
  obtain y f run where x: "x = (y, f, run)" by (cases x)
  show ?case by (cases "reconcileOnce y f run s") (simp_all add: x Cons)
qed simp

lemma runWatcher_failed: "\<forall>(y, f, run) \<in> set ticks. discovery_fails run \<Longrightarrow> runWatcher ticks s = Some s"
  by (induction ticks s rule: runWatcher.induct) (simp_all add: reconcileOnce_fails)

text \<open>
  C23: The watcher follows OVS. Whatever the commands answered at the ticks before, the watcher does not panic, and
  after a tick at which the interface table could be read, and every port with an iface-id exists as an
  interface the kernel accepts programs on, the attached taps are exactly the interfaces with an iface-id, and
  the gauge shows their number. Ticks after it whose discovery fails (the command fails, or answers no table)
  change nothing at all.
\<close>

theorem watcher_follows_ovs:
  assumes "fair_range f" "{''name'', ''external_ids'', ''mac_in_use''} \<subseteq> set hs"
    and "runCmd [''ovs-vsctl'', ''--format=json'', ifaceColumns, ''list'', ''Interface''] = Some out"
    and "readJSON out = Some (encTable hs (map (\<lambda>v. map (cell v) hs) vs))"
    and "\<forall>v \<in> set vs. eid v ''iface-id'' \<noteq> [] \<longrightarrow> (\<exists>i. y_byName y (v_name v) = Some i \<and> accepts (y_attach y) (int i))"
    and "\<forall>(y', f', run') \<in> set failed. discovery_fails run'"
  shows "\<exists>s'. runWatcher (ticks @ [(y, f, runCmd)]) s = Some s' \<and>
    {n. mget (tm_attached (fst s')) n \<noteq> None} = v_name ` {v \<in> set vs. eid v ''iface-id'' \<noteq> []} \<and>
    tapsWatched (ag_mtr (snd s')) = of_nat (mlen (tm_attached (fst s'))) \<and>
    runWatcher (ticks @ [(y, f, runCmd)] @ failed) s = Some s'"
proof -
  let ?is = "map iface_of (filter (\<lambda>v. eid v ''iface-id'' \<noteq> []) vs)"
  obtain ps where ps: "portsOf runCmd ?is = Some ps" using portsOf_total by blast
  have d: "DiscoverPorts runCmd = Some (Inr ps)"
    using assms(3,4) ps by (simp add: DiscoverPorts_def ParseInterfaces_def asTable_encTable ifaceRows_cells [OF assms(2)])
  have names: "p_Name ` set ps = v_name ` {v \<in> set vs. eid v ''iface-id'' \<noteq> []}"
    using arg_cong [OF portsOf_names [OF ps], of set] by (auto simp: iface_of_def image_iff)
  obtain s1 where s1: "s1 = foldl watch_step s (scans ticks)" by blast
  have "scans (ticks @ [(y, f, runCmd)]) = scans ticks @ [Scan y f ps]"
    by (induction ticks) (auto simp: d)
  then have r: "runWatcher (ticks @ [(y, f, runCmd)]) s = Some (reconcile y f ps s1)"
    by (simp add: runWatcher_scans s1)
  have "mget (tm_attached (fst (reconcile y f ps s1))) n \<noteq> None \<longleftrightarrow> n \<in> p_Name ` set ps" for n
  proof
    show "mget (tm_attached (fst (reconcile y f ps s1))) n \<noteq> None \<Longrightarrow> n \<in> p_Name ` set ps"
      by (simp add: reconcile_get [OF assms(1)] split: if_splits)
    assume n: "n \<in> p_Name ` set ps"
    then have "n \<in> v_name ` {v \<in> set vs. eid v ''iface-id'' \<noteq> []}" unfolding names .
    then obtain i where "y_byName y n = Some i" "accepts (y_attach y) (int i)" using assms(5) by blast
    moreover obtain p where "p \<in> set ps" "p_Name p = n" using n by blast
    moreover note n
    ultimately show "mget (tm_attached (fst (reconcile y f ps s1))) n \<noteq> None"
      using attachNew_all [of p ps y i s1] by (simp add: reconcile_get [OF assms(1)])
  qed
  then have "{n. mget (tm_attached (fst (reconcile y f ps s1))) n \<noteq> None} = v_name ` {v \<in> set vs. eid v ''iface-id'' \<noteq> []}"
    using names by auto
  moreover have "tapsWatched (ag_mtr (snd (reconcile y f ps s1))) = of_nat (mlen (tm_attached (fst (reconcile y f ps s1))))"
    by (simp add: reconcile_def Let_def)
  moreover have "runWatcher (ticks @ [(y, f, runCmd)] @ failed) s = Some (reconcile y f ps s1)"
    using runWatcher_append [of "ticks @ [(y, f, runCmd)]" failed s] r runWatcher_failed [OF assms(6)] by simp
  ultimately show ?thesis using r by blast
qed

definition demo_vifs :: string where
  "demo_vifs = table_text [''name'', ''external_ids'', ''mac_in_use'']
     [\<lparr>v_name = ''tap1'', v_eids = [(''iface-id'', ''vm1'')], v_mac = []\<rparr>, \<lparr>v_name = ''br-int'', v_eids = [], v_mac = []\<rparr>]"

theorem watcher_follows_ovs_witness:
  "\<exists>s'. runWatcher [(demo_sys, (\<lambda>ks. ks), (\<lambda>_. None)), (demo_sys, (\<lambda>ks. ks), (\<lambda>_. Some demo_vifs)),
      (demo_sys, (\<lambda>ks. ks), (\<lambda>_. None))] (demo_taps []) = Some s' \<and>
     {n. mget (tm_attached (fst s')) n \<noteq> None} = {''tap1''}"
proof -
  let ?vs = "[\<lparr>v_name = ''tap1'', v_eids = [(''iface-id'', ''vm1'')], v_mac = []\<rparr>, \<lparr>v_name = ''br-int'', v_eids = [], v_mac = []\<rparr>]"
  have "v_name ` {v \<in> set ?vs. eid v ''iface-id'' \<noteq> []} = set (map v_name (filter (\<lambda>v. eid v ''iface-id'' \<noteq> []) ?vs))"
    by (simp only: set_map set_filter)
  also have "\<dots> = {''tap1''}" by (simp add: eid_def)
  finally have vifs: "v_name ` {v \<in> set ?vs. eid v ''iface-id'' \<noteq> []} = {''tap1''}" .
  have ok: "\<forall>v \<in> set ?vs. eid v ''iface-id'' \<noteq> [] \<longrightarrow> (\<exists>i. y_byName demo_sys (v_name v) = Some i \<and> accepts (y_attach demo_sys) (int i))"
    by (simp add: eid_def demo_sys_def accepts_def demo_kernel_def)
  have vifs_text: "readJSON demo_vifs = Some (encTable [''name'', ''external_ids'', ''mac_in_use''] (map (\<lambda>v. map (cell v) [''name'', ''external_ids'', ''mac_in_use'']) ?vs))"
    unfolding demo_vifs_def by (rule read_table_text) (simp_all add: valid_vif_def valid_ascii)
  show ?thesis
    using watcher_follows_ovs [OF demo_world(4) _ _ vifs_text ok, of "\<lambda>_. Some demo_vifs" "[(demo_sys, (\<lambda>ks. ks), (\<lambda>_. None))]"
        "[(demo_sys, (\<lambda>ks. ks), (\<lambda>_. None))]" "demo_taps []"]
    unfolding vifs by (auto simp: discovery_fails_def)
qed

section \<open>Limits of the watcher\<close>

text \<open>
  A reused address is lost. When in one scan a tap vanishes and another appears with the same
  address (a VM rebuilt on a new port), the new tap is attached and its responder runs, yet its
  address is not registered: reconcile attaches first and then deregisters the addresses of the
  vanished tap. The eBPF program does not intercept probes to it, in this and in every later scan.
\<close>

theorem reused_address_lost:
  "let s = demo_taps [Scan demo_sys (\<lambda>ks. ks) [demo_port ''tap0''], Scan demo_sys (\<lambda>ks. ks) [demo_port ''tap1''],
                      Scan demo_sys (\<lambda>ks. ks) [demo_port ''tap1'']]
   in map_option ta_ips (mget (tm_attached (fst s)) ''tap1'') = Some [[10, 0, 0, 2]] \<and>
      map_option (\<lambda>a. ta_resp a \<noteq> None) (mget (tm_attached (fst s)) ''tap1'') = Some True \<and>
      mget (ag_localIps (snd s)) (ipKey16 [10, 0, 0, 2]) = None"
  by code_simp

text \<open>
  A scan that is under way when the agent stops leaves filters behind. The main goroutine signals
  the watcher and closes the manager without waiting for the watcher to return; a scan whose
  discovery was still running then attaches again, and the clsact filters outlive the process.
\<close>

theorem late_scan_leaves_filters:
  "filters (ag_net (snd (demo_taps [Scan demo_sys (\<lambda>ks. ks) [demo_port ''tap0''], CloseTaps demo_sys (\<lambda>ks. ks),
      Scan demo_sys (\<lambda>ks. ks) [demo_port ''tap0'']]))) = [((7, Ingress), TraceflowIngress), ((7, Egress), TraceflowEgress)]"
  by code_simp

end
