(* ===== verification/Vxlan_Watch.thy ===== *)
theory Vxlan_Watch
  imports Agent
begin

text \<open>
  The VXLAN watcher (\<^verbatim>\<open>agent/vxlanwatch.go\<close>): it follows netlink's link events, attaches the programs to
  VXLAN devices and registers each device's VNI for the eBPF program. A device is what the netlink
  library reports of it (\<open>link\<close>); the events the goroutine receives are a list. \<open>spec_step\<close> is the
  abstract watcher, a partial map from interface index to VNI; the code refines it.
\<close>

section \<open>The manager\<close>

record vxlanAttach =
  va_name :: string
  va_detach :: "release list"

record vxlanManager =
  vm_xdp :: bool
  vm_xdpTCEgress :: bool
  vm_attached :: "(int, vxlanAttach) gomap"

definition newVXLANManager :: "bool \<Rightarrow> bool \<Rightarrow> vxlanManager" where
  "newVXLANManager xdp xdpTCEgress = \<lparr>vm_xdp = xdp, vm_xdpTCEgress = xdpTCEgress, vm_attached = []\<rparr>"

type_synonym vx_state = "vxlanManager \<times> agent"

definition storeGauge :: "vxlanManager \<Rightarrow> agent \<Rightarrow> agent" where
  "storeGauge m ag = ag\<lparr>ag_mtr := (ag_mtr ag)\<lparr>vxlanWatched := of_nat (mlen (vm_attached m))\<rparr>\<rparr>"

definition vxAttach :: "sys \<Rightarrow> int \<Rightarrow> string \<Rightarrow> u32 \<Rightarrow> vx_state \<Rightarrow> vx_state" where
  "vxAttach y ifindex name vni s =
     (case s of (m, ag) \<Rightarrow>
        if mget (vm_attached m) ifindex \<noteq> None then (m, ag)
        else (case attachIface (y_attach y) (ag_net ag) ifindex (vm_xdp m) (vm_xdpTCEgress m) of
                (Inl e, net) \<Rightarrow> (m, ag\<lparr>ag_net := net\<rparr>)
              | (Inr detach, net) \<Rightarrow>
                  let ag = ag\<lparr>ag_net := net\<rparr>;
                      ag = (if y_putVNI y (word_of_int ifindex)
                            then ag\<lparr>ag_ifaceVni := mput (ag_ifaceVni ag) (word_of_int ifindex) vni\<rparr> else ag);
                      m = m\<lparr>vm_attached := mput (vm_attached m) ifindex \<lparr>va_name = name, va_detach = detach\<rparr>\<rparr>
                  in (m, storeGauge m ag)))"

definition detachIdx :: "sys \<Rightarrow> int \<Rightarrow> vx_state \<Rightarrow> vx_state" where
  "detachIdx y ifindex s =
     (case s of (m, ag) \<Rightarrow>
        (case mget (vm_attached m) ifindex of
           None \<Rightarrow> (m, ag)
         | Some att \<Rightarrow>
             let ag = ag\<lparr>ag_net := run_detach (y_attach y) (ag_net ag) (va_detach att)\<rparr>;
                 ag = ag\<lparr>ag_ifaceVni := mdel (ag_ifaceVni ag) (word_of_int ifindex)\<rparr>;
                 m = m\<lparr>vm_attached := mdel (vm_attached m) ifindex\<rparr>
             in (m, storeGauge m ag)))"

text \<open>\<^verbatim>\<open>closeAll\<close> ranges over the map without changing it and then replaces it.\<close>

fun releaseAll :: "sys \<Rightarrow> (int \<times> vxlanAttach) list \<Rightarrow> agent \<Rightarrow> agent" where
  "releaseAll y [] ag = ag"
| "releaseAll y ((idx, att) # xs) ag =
     releaseAll y xs (ag\<lparr>ag_net := run_detach (y_attach y) (ag_net ag) (va_detach att),
                         ag_ifaceVni := mdel (ag_ifaceVni ag) (word_of_int idx)\<rparr>)"

definition closeAllVX :: "sys \<Rightarrow> ((int \<times> vxlanAttach) list \<Rightarrow> (int \<times> vxlanAttach) list) \<Rightarrow> vx_state \<Rightarrow> vx_state" where
  "closeAllVX y rangeOrder s =
     (case s of (m, ag) \<Rightarrow>
        let ag = releaseAll y (rangeOrder (vm_attached m)) ag;
            m = m\<lparr>vm_attached := []\<rparr>
        in (m, ag\<lparr>ag_mtr := (ag_mtr ag)\<lparr>vxlanWatched := 0\<rparr>\<rparr>))"

section \<open>Link events\<close>

text \<open>\<open>lk_vxlanId\<close> is present when the library returned its VXLAN type.\<close>

record link =
  lk_type :: string
  lk_index :: int
  lk_name :: string
  lk_vxlanId :: "int option"

definition isVXLAN :: "link \<Rightarrow> bool" where
  "isVXLAN l \<longleftrightarrow> lk_type l = ''vxlan''"

definition vxlanVNI :: "link \<Rightarrow> u32" where
  "vxlanVNI l = (case lk_vxlanId l of Some v \<Rightarrow> word_of_int v | None \<Rightarrow> 0)"

definition RTM_DELLINK :: u16 where "RTM_DELLINK = 17"

datatype link_event = Stopped | ChannelClosed | Update "link option" u16

definition vxUpdate :: "sys \<Rightarrow> link option \<Rightarrow> u16 \<Rightarrow> vx_state \<Rightarrow> vx_state" where
  "vxUpdate y lo hdr s =
     (case lo of
        None \<Rightarrow> s
      | Some l \<Rightarrow>
          if \<not> isVXLAN l then s
          else if hdr = RTM_DELLINK then detachIdx y (lk_index l) s
          else vxAttach y (lk_index l) (lk_name l) (vxlanVNI l) s)"

text \<open>The loop over the events received so far; the flag tells whether the goroutine has returned.\<close>

fun vxLoop :: "sys \<Rightarrow> ((int \<times> vxlanAttach) list \<Rightarrow> (int \<times> vxlanAttach) list) \<Rightarrow> link_event list \<Rightarrow> vx_state \<Rightarrow> bool \<times> vx_state" where
  "vxLoop y rangeOrder [] s = (False, s)"
| "vxLoop y rangeOrder (Stopped # es) s = (True, closeAllVX y rangeOrder s)"
| "vxLoop y rangeOrder (ChannelClosed # es) s = (True, closeAllVX y rangeOrder s)"
| "vxLoop y rangeOrder (Update l hdr # es) s = vxLoop y rangeOrder es (vxUpdate y l hdr s)"

definition runVXLANWatcher ::
  "sys \<Rightarrow> ((int \<times> vxlanAttach) list \<Rightarrow> (int \<times> vxlanAttach) list) \<Rightarrow> bool \<Rightarrow> link list option \<Rightarrow> link_event list \<Rightarrow> vx_state \<Rightarrow> bool \<times> vx_state" where
  "runVXLANWatcher y rangeOrder subscribed existing es s =
     (if \<not> subscribed then (True, s)
      else let s = (case existing of
                      Some ls \<Rightarrow> foldl (\<lambda>s l. if isVXLAN l then vxAttach y (lk_index l) (lk_name l) (vxlanVNI l) s else s) s ls
                    | None \<Rightarrow> s)
           in vxLoop y rangeOrder es s)"

section \<open>The abstract watcher\<close>

definition spec_update :: "link option \<Rightarrow> u16 \<Rightarrow> (int \<rightharpoonup> u32) \<Rightarrow> (int \<rightharpoonup> u32)" where
  "spec_update lo hdr v =
     (case lo of
        None \<Rightarrow> v
      | Some l \<Rightarrow>
          if \<not> isVXLAN l then v
          else if hdr = RTM_DELLINK then v(lk_index l := None)
          else if v (lk_index l) = None then v(lk_index l \<mapsto> vxlanVNI l) else v)"

fun spec_events :: "(int \<rightharpoonup> u32) \<Rightarrow> (link option \<times> u16) list \<Rightarrow> (int \<rightharpoonup> u32)" where
  "spec_events v [] = v"
| "spec_events v ((l, hdr) # es) = spec_events (spec_update l hdr v) es"

text \<open>What the concrete state means: the VNI with which observations off an attached device are tagged.\<close>

definition abs_vx :: "vx_state \<Rightarrow> int \<rightharpoonup> u32" where
  "abs_vx s i = (if mget (vm_attached (fst s)) i = None then None else mget (ag_ifaceVni (snd s)) (word_of_int i))"

text \<open>The invariant: the ledger of hooks, each entry on its own device, VNIs registered only for attached
  devices, the gauge.\<close>

definition index_ok :: "int \<Rightarrow> bool" where
  "index_ok i \<longleftrightarrow> 0 \<le> i \<and> i < 2 ^ 31"

definition vx_inv :: "hook multiset \<Rightarrow> vx_state \<Rightarrow> bool" where
  "vx_inv base s = (case s of (m, ag) \<Rightarrow>
     kern.ledger va_detach base (vm_attached m) (ag_net ag) \<and>
     (\<forall>i a. mget (vm_attached m) i = Some a \<longrightarrow> index_ok i \<and> (\<forall>h \<in># owned (va_detach a). hook_if h = i)) \<and>
     (\<forall>k. mget (ag_ifaceVni ag) k \<noteq> None \<longrightarrow> (\<exists>i. mget (vm_attached m) i \<noteq> None \<and> k = word_of_int i)) \<and>
     vxlanWatched (ag_mtr ag) = of_nat (mlen (vm_attached m)))"

lemma index_inj: "index_ok i \<Longrightarrow> index_ok j \<Longrightarrow> (word_of_int i :: u32) = word_of_int j \<longleftrightarrow> i = j"
  by (simp add: index_ok_def word_of_int_eq_iff take_bit_int_eq_self)

definition all_tagged :: "vx_state \<Rightarrow> bool" where
  "all_tagged s \<longleftrightarrow> (\<forall>i. mget (vm_attached (fst s)) i \<noteq> None \<longrightarrow> mget (ag_ifaceVni (snd s)) (word_of_int i) \<noteq> None)"

lemma vx_invD:
  assumes "vx_inv base (m, ag)"
  shows "kern.ledger va_detach base (vm_attached m) (ag_net ag)" "mwf (vm_attached m)"
    "mget (vm_attached m) i = Some a \<Longrightarrow> index_ok i"
    "mget (vm_attached m) i = Some a \<Longrightarrow> h \<in># owned (va_detach a) \<Longrightarrow> hook_if h = i"
    "mget (ag_ifaceVni ag) k \<noteq> None \<Longrightarrow> \<exists>i. mget (vm_attached m) i \<noteq> None \<and> k = word_of_int i"
  using assms by (simp_all add: vx_inv_def kern.ledger_def)

text \<open>The result of attaching to a device that is not attached.\<close>

lemma vxAttach_cases:
  assumes "mget (vm_attached m) i = None"
  obtains (failed) e net where "attachIface (y_attach y) (ag_net ag) i (vm_xdp m) (vm_xdpTCEgress m) = (Inl e, net)"
      "vxAttach y i name vni (m, ag) = (m, ag\<lparr>ag_net := net\<rparr>)"
  | (added) d net m' ag' where "attachIface (y_attach y) (ag_net ag) i (vm_xdp m) (vm_xdpTCEgress m) = (Inr d, net)"
      "vxAttach y i name vni (m, ag) = (m', ag')" "ag_net ag' = net"
      "vm_attached m' = mput (vm_attached m) i \<lparr>va_name = name, va_detach = d\<rparr>"
      "ag_ifaceVni ag' = (if y_putVNI y (word_of_int i) then mput (ag_ifaceVni ag) (word_of_int i) vni else ag_ifaceVni ag)"
      "vxlanWatched (ag_mtr ag') = of_nat (mlen (vm_attached m'))"
proof -
  obtain r net where r: "attachIface (y_attach y) (ag_net ag) i (vm_xdp m) (vm_xdpTCEgress m) = (r, net)" by fastforce
  show ?thesis
  proof (cases r)
    case (Inl e)
    then show ?thesis using failed r assms by (simp add: vxAttach_def)
  next
    case (Inr d)
    then show ?thesis using added r assms by (simp add: vxAttach_def storeGauge_def Let_def)
  qed
qed

lemma vxAttach_inv:
  assumes inv: "vx_inv base s" and ok: "good_env (y_attach y)" "index_ok i" "\<forall>h \<in># base. hook_if h \<noteq> i"
  shows "vx_inv base (vxAttach y i name vni s)"
proof -
  obtain m ag where s: "s = (m, ag)" by (cases s)
  note D = vx_invD [OF inv [unfolded s]]
  show ?thesis
  proof (cases "mget (vm_attached m) i")
    case None
    have free: "\<forall>h \<in># hooks (ag_net ag). hook_if h \<noteq> i"
      by (rule kern.ledger_free [OF D(1) ok(3)]) (use D(4) None in force)
    from None show ?thesis
    proof (cases rule: vxAttach_cases [where y = y and ag = ag and name = name and vni = vni])
      case (failed e net)
      then show ?thesis using kern_failed [OF D(1) failed(1) free ok(1)] inv s by (simp add: vx_inv_def)
    next
      case (added d net m' ag')
      have l: "kern.ledger va_detach base (vm_attached m') (ag_net ag')" "\<forall>h \<in># owned d. hook_if h = i"
        using kern_attached [where a = "\<lparr>va_name = name, va_detach = d\<rparr>", OF D(1) added(1) free None] added(3,4) by simp_all
      have "\<exists>j. mget (vm_attached m') j \<noteq> None \<and> k = word_of_int j" if "mget (ag_ifaceVni ag') k \<noteq> None" for k
        using that D(5) [of k] by (auto simp: added(4,5) gomap_simps split: if_splits)
      then show ?thesis using l added(2,4,6) inv s ok(2) by (simp add: vx_inv_def gomap_simps)
    qed
  qed (use inv s in \<open>simp add: vxAttach_def\<close>)
qed

lemma detachIdx_inv:
  assumes inv: "vx_inv base s" and ok: "good_env (y_attach y)"
  shows "vx_inv base (detachIdx y i s)"
proof -
  obtain m ag where s: "s = (m, ag)" by (cases s)
  note D = vx_invD [OF inv [unfolded s]]
  show ?thesis
  proof (cases "mget (vm_attached m) i")
    case (Some att)
    note l = kern_detached [OF D(1) Some ok]
    have "\<exists>j. mget (mdel (vm_attached m) i) j \<noteq> None \<and> k = word_of_int j"
      if "mget (mdel (ag_ifaceVni ag) (word_of_int i)) k \<noteq> None" for k
      using that D(5) [of k] by (force simp: gomap_simps split: if_splits)
    then show ?thesis using inv Some l s by (simp add: vx_inv_def detachIdx_def storeGauge_def Let_def gomap_simps)
  qed (use inv s in \<open>simp add: detachIdx_def\<close>)
qed

text \<open>Closing: every entry is released once, in any order.\<close>

lemma releaseAll_ledger:
  assumes "kern.ledger va_detach base m (ag_net ag)" "good_env (y_attach y)" "mset xs = mset m"
  shows "hooks (ag_net (releaseAll y xs ag)) = base"
  using assms
proof (induction xs arbitrary: m ag)
  case (Cons x xs)
  obtain i a where x: "x = (i, a)" by (cases x)
  have wf: "mwf m" using Cons.prems(1) by (simp add: kern.ledger_def)
  have "(i, a) \<in> set m" using Cons.prems(3) x by (metis list.set_intros(1) set_mset_mset)
  then have get: "mget m i = Some a" using wf by (simp add: mget_def mwf_def)
  have "mset (mdel m i) = mset m - {#(i, a)#}" by (rule mset_mdel [OF wf get])
  then have "mset xs = mset (mdel m i)" using Cons.prems(3) x by (metis add_mset_remove_trivial mset.simps(2))
  then show ?case using Cons.IH [of "mdel m i"] kern_detached [OF Cons.prems(1) get Cons.prems(2)] Cons.prems(2) x by simp
qed (simp add: kern.ledger_def)

lemma releaseAll_vni:
  "mget (ag_ifaceVni (releaseAll y xs ag)) k = (if k \<in> (word_of_int \<circ> fst) ` set xs then None else mget (ag_ifaceVni ag) k)"
  by (induction y xs ag rule: releaseAll.induct) (auto simp: gomap_simps)

lemma closeAllVX_spec:
  assumes "vx_inv base s" "good_env (y_attach y)" "\<forall>xs. mset (f xs) = mset xs"
  shows "case closeAllVX y f s of (m', ag') \<Rightarrow> vm_attached m' = [] \<and> hooks (ag_net ag') = base \<and>
    (\<forall>k. mget (ag_ifaceVni ag') k = None) \<and> vxlanWatched (ag_mtr ag') = 0"
proof -
  obtain m ag where s: "s = (m, ag)" by (cases s)
  note D = vx_invD [OF assms(1) [unfolded s]]
  have "set (f (vm_attached m)) = set (vm_attached m)" using assms(3) by (metis set_mset_mset)
  moreover have "k \<in> (word_of_int \<circ> fst) ` set (vm_attached m)" if k: "mget (ag_ifaceVni ag) k \<noteq> None" for k
  proof -
    obtain i where "mget (vm_attached m) i \<noteq> None" "k = word_of_int i" using D(5) [OF k] by blast
    then show ?thesis using fst_set_mget [of i "vm_attached m"] by force
  qed
  ultimately have "mget (ag_ifaceVni (releaseAll y (f (vm_attached m)) ag)) k = None" for k
    unfolding releaseAll_vni by metis
  then show ?thesis using releaseAll_ledger [OF D(1) assms(2), of "f (vm_attached m)"] assms(3)
    by (simp add: closeAllVX_def s Let_def)
qed

section \<open>Refinement\<close>

text \<open>A device the watcher hears of: its index is in range and nothing else is attached to it.\<close>

definition known_index :: "hook multiset \<Rightarrow> link option \<Rightarrow> bool" where
  "known_index base lo = (case lo of None \<Rightarrow> True | Some l \<Rightarrow> index_ok (lk_index l) \<and> (\<forall>h \<in># base. hook_if h \<noteq> lk_index l))"

lemma vxUpdate_inv:
  assumes "vx_inv base s" "good_env (y_attach y)" "known_index base lo"
  shows "vx_inv base (vxUpdate y lo hdr s)"
  using assms vxAttach_inv detachIdx_inv by (auto simp: vxUpdate_def known_index_def split: option.splits)

definition willing :: "sys \<Rightarrow> bool" where
  "willing y \<longleftrightarrow> good_env (y_attach y) \<and> (\<forall>i. accepts (y_attach y) i) \<and> (\<forall>k. y_putVNI y k)"

lemma vxAttach_refines:
  assumes "vx_inv base s" "all_tagged s" "willing y" "index_ok i"
  shows "all_tagged (vxAttach y i name vni s) \<and>
    abs_vx (vxAttach y i name vni s) = (if abs_vx s i = None then (abs_vx s)(i \<mapsto> vni) else abs_vx s)"
proof -
  obtain m ag where s: "s = (m, ag)" by (cases s)
  note D = vx_invD [OF assms(1) [unfolded s]]
  have w: "accepts (y_attach y) i" "\<forall>k. y_putVNI y k" using assms(3) by (simp_all add: willing_def)
  show ?thesis
  proof (cases "mget (vm_attached m) i")
    case None
    then show ?thesis
    proof (cases rule: vxAttach_cases [where y = y and ag = ag and name = name and vni = vni])
      case (failed e net)
      then show ?thesis using attachIface_accepts [OF w(1)] by (metis Inl_Inr_False prod.inject)
    next
      case (added d net m' ag')
      have other: "(word_of_int j :: u32) \<noteq> word_of_int i" if "mget (vm_attached m) j \<noteq> None" for j
        using that D(3) [of j] index_inj [OF _ assms(4)] None by auto
      have old: "mget (ag_ifaceVni ag') (word_of_int j) = mget (ag_ifaceVni ag) (word_of_int j)" if "mget (vm_attached m) j \<noteq> None" for j
        using other [OF that] w(2) by (simp add: added(5) gomap_simps)
      have new: "mget (ag_ifaceVni ag') (word_of_int i) = Some vni" using w(2) by (simp add: added(5) gomap_simps)
      have att: "mget (vm_attached m') j = None \<longleftrightarrow> j \<noteq> i \<and> mget (vm_attached m) j = None" for j
        by (simp add: added(4) gomap_simps)
      have tag: "mget (vm_attached m) j \<noteq> None \<Longrightarrow> mget (ag_ifaceVni ag) (word_of_int j) \<noteq> None" for j
        using assms(2) s by (simp add: all_tagged_def)
      have "abs_vx (m', ag') j = ((abs_vx s)(i \<mapsto> vni)) j" for j
        using old [of j] new att [of j] None by (auto simp: abs_vx_def s)
      moreover have "mget (ag_ifaceVni ag') (word_of_int j) \<noteq> None" if "mget (vm_attached m') j \<noteq> None" for j
        using that old [of j] tag [of j] new att [of j] by (cases "j = i") simp_all
      moreover have "abs_vx s i = None" using None by (simp add: abs_vx_def s)
      ultimately show ?thesis using s added(2) by (auto simp: all_tagged_def)
    qed
  next
    case (Some a)
    then show ?thesis using assms(2) s by (auto simp: vxAttach_def all_tagged_def abs_vx_def)
  qed
qed

lemma detachIdx_refines:
  assumes "vx_inv base s" "all_tagged s" "index_ok i"
  shows "all_tagged (detachIdx y i s) \<and> abs_vx (detachIdx y i s) = (abs_vx s)(i := None)"
proof -
  obtain m ag where s: "s = (m, ag)" by (cases s)
  note D = vx_invD [OF assms(1) [unfolded s]]
  have other: "(word_of_int j :: u32) \<noteq> word_of_int i" if "mget (vm_attached m) j \<noteq> None" "j \<noteq> i" for j
    using that D(3) [of j] index_inj [OF _ assms(3)] by auto
  have tag: "mget (vm_attached m) j \<noteq> None \<Longrightarrow> mget (ag_ifaceVni ag) (word_of_int j) \<noteq> None" for j
    using assms(2) s by (simp add: all_tagged_def)
  show ?thesis
  proof (cases "mget (vm_attached m) i")
    case (Some a)
    obtain m' ag' where d: "detachIdx y i s = (m', ag')" "vm_attached m' = mdel (vm_attached m) i"
        "ag_ifaceVni ag' = mdel (ag_ifaceVni ag) (word_of_int i)"
      using Some by (simp add: detachIdx_def s storeGauge_def Let_def)
    have "abs_vx (m', ag') j = ((abs_vx s)(i := None)) j" for j
      using other [of j] d(2,3) by (auto simp: abs_vx_def s gomap_simps)
    moreover have "mget (ag_ifaceVni ag') (word_of_int j) \<noteq> None" if "mget (vm_attached m') j \<noteq> None" for j
      using that other [of j] tag [of j] d(2,3) by (cases "j = i") (simp_all add: gomap_simps)
    ultimately show ?thesis using d(1) by (auto simp: all_tagged_def)
  qed (use assms(2) s in \<open>auto simp: detachIdx_def abs_vx_def\<close>)
qed

lemma vxUpdate_refines:
  assumes "vx_inv base s" "all_tagged s" "willing y" "known_index base lo"
  shows "all_tagged (vxUpdate y lo hdr s) \<and> abs_vx (vxUpdate y lo hdr s) = spec_update lo hdr (abs_vx s)"
proof (cases lo)
  case (Some l)
  then have "index_ok (lk_index l)" using assms(4) by (simp add: known_index_def)
  then show ?thesis
    using Some vxAttach_refines [OF assms(1-3), of "lk_index l" "lk_name l" "vxlanVNI l"] detachIdx_refines [OF assms(1,2), of "lk_index l" y] assms(2)
    by (auto simp: vxUpdate_def spec_update_def)
qed (use assms in \<open>simp_all add: vxUpdate_def spec_update_def\<close>)

section \<open>Runs of the watcher\<close>

text \<open>The devices that exist at the start are handled like NEWLINK events.\<close>

definition RTM_NEWLINK :: u16 where "RTM_NEWLINK = 16"

definition initial :: "link list option \<Rightarrow> (link option \<times> u16) list" where
  "initial existing = (case existing of None \<Rightarrow> [] | Some ls \<Rightarrow> map (\<lambda>l. (Some l, RTM_NEWLINK)) ls)"

definition updates :: "sys \<Rightarrow> (link option \<times> u16) list \<Rightarrow> vx_state \<Rightarrow> vx_state" where
  "updates y us s = foldl (\<lambda>s (l, hdr). vxUpdate y l hdr s) s us"

lemma initial_updates:
  "foldl (\<lambda>s l. if isVXLAN l then vxAttach y (lk_index l) (lk_name l) (vxlanVNI l) s else s) s ls =
     updates y (initial (Some ls)) s"
  by (induction ls arbitrary: s) (simp_all add: updates_def initial_def vxUpdate_def RTM_NEWLINK_def RTM_DELLINK_def)

lemma vxLoop_updates:
  "vxLoop y f (map (\<lambda>(l, hdr). Update l hdr) us) s = (False, updates y us s)"
  "vxLoop y f (map (\<lambda>(l, hdr). Update l hdr) us @ Stopped # es) s = (True, closeAllVX y f (updates y us s))"
  by (induction us arbitrary: s) (simp_all add: updates_def split_beta)

lemma runVXLAN_updates:
  "runVXLANWatcher y f True existing (map (\<lambda>(l, hdr). Update l hdr) us) s = (False, updates y (initial existing @ us) s)"
  "runVXLANWatcher y f True existing (map (\<lambda>(l, hdr). Update l hdr) us @ Stopped # es) s =
     (True, closeAllVX y f (updates y (initial existing @ us) s))"
  by (simp_all add: runVXLANWatcher_def Let_def vxLoop_updates initial_updates updates_def initial_def split: option.split)

lemma updates_inv:
  assumes "vx_inv base s" "good_env (y_attach y)" "\<forall>(l, hdr) \<in> set us. known_index base l"
  shows "vx_inv base (updates y us s)"
  using assms(1,3)
proof (induction us arbitrary: s)
  case (Cons u us)
  then show ?case using vxUpdate_inv [OF Cons.prems(1) assms(2), of "fst u" "snd u"] by (simp add: updates_def split_beta)
qed (simp add: updates_def)

lemma updates_refine:
  assumes "vx_inv base s" "all_tagged s" "willing y" "\<forall>(l, hdr) \<in> set us. known_index base l"
  shows "all_tagged (updates y us s) \<and> abs_vx (updates y us s) = spec_events (abs_vx s) us"
  using assms(1,2,4)
proof (induction us arbitrary: s)
  case (Cons u us)
  obtain l hdr where u: "u = (l, hdr)" by (cases u)
  then have k: "known_index base l" using Cons.prems(3) by simp
  have "good_env (y_attach y)" using assms(3) by (simp add: willing_def)
  note vxUpdate_inv [OF Cons.prems(1) this k, of hdr] vxUpdate_refines [OF Cons.prems(1,2) assms(3) k, of hdr]
  then show ?case using Cons.IH [of "vxUpdate y l hdr s"] Cons.prems(3) u by (simp add: updates_def)
qed (simp add: updates_def)

lemma newVX_inv:
  assumes "wf_knet (ag_net ag)" "ag_ifaceVni ag = []" "vxlanWatched (ag_mtr ag) = 0"
  shows "vx_inv (hooks (ag_net ag)) (newVXLANManager xdp eg, ag) \<and> all_tagged (newVXLANManager xdp eg, ag) \<and>
    abs_vx (newVXLANManager xdp eg, ag) = (\<lambda>_. None)"
  using kern.ledger_empty [OF assms(1), of va_detach] assms
  by (auto simp: vx_inv_def newVXLANManager_def gomap_simps mlen_def all_tagged_def abs_vx_def)

section \<open>Properties\<close>

text \<open>
  C13: The VXLAN watcher refines the map of devices. For any devices at the start and any link events
  after it, while the system accepts attachments and map entries, the devices the programs are
  attached to, each with the VNI observations off it are tagged with, are what the abstract watcher
  computes: a VXLAN device enters with the VNI of its first report and leaves with its DELLINK; events
  about other devices, repeated NEWLINKs and unknown DELLINKs change nothing.
\<close>

theorem vxlan_refines:
  assumes "wf_knet (ag_net ag)" "ag_ifaceVni ag = []" "vxlanWatched (ag_mtr ag) = 0" "willing y"
    and "\<forall>(l, hdr) \<in> set (initial existing @ us). known_index (hooks (ag_net ag)) l"
  shows "\<exists>s. runVXLANWatcher y f True existing (map (\<lambda>(l, hdr). Update l hdr) us) (newVXLANManager xdp eg, ag) = (False, s) \<and>
    abs_vx s = spec_events (\<lambda>_. None) (initial existing @ us) \<and>
    (\<forall>k. mget (ag_ifaceVni (snd s)) k \<noteq> None \<longleftrightarrow> (\<exists>i. spec_events (\<lambda>_. None) (initial existing @ us) i \<noteq> None \<and> k = word_of_int i)) \<and>
    vxlanWatched (ag_mtr (snd s)) = of_nat (mlen (vm_attached (fst s)))"
proof -
  note n = newVX_inv [OF assms(1-3), of xdp eg]
  let ?s = "updates y (initial existing @ us) (newVXLANManager xdp eg, ag)"
  have "good_env (y_attach y)" using assms(4) by (simp add: willing_def)
  then have inv: "vx_inv (hooks (ag_net ag)) ?s" using updates_inv n assms(5) by blast
  have ref: "all_tagged ?s" "abs_vx ?s = spec_events (\<lambda>_. None) (initial existing @ us)"
    using updates_refine [of "hooks (ag_net ag)" "(newVXLANManager xdp eg, ag)"] n assms(4,5) by auto
  have "mget (ag_ifaceVni (snd ?s)) k \<noteq> None \<longleftrightarrow> (\<exists>i. abs_vx ?s i \<noteq> None \<and> k = word_of_int i)" for k
    using ref(1) vx_invD(5) [of "hooks (ag_net ag)" "fst ?s" "snd ?s" k] inv by (auto simp: abs_vx_def all_tagged_def split: if_splits)
  then show ?thesis using inv ref(2) by (auto simp: runVXLAN_updates vx_inv_def split: prod.splits)
qed

definition vx_sys :: sys where
  "vx_sys = \<lparr>y_attach = demo_kernel\<lparr>kAttachTCX := (\<lambda>i d. None)\<rparr>, y_byName = (\<lambda>_. None), y_socket = Some, y_bind = (\<lambda>_. True),
     y_putIP = (\<lambda>_. True), y_putVNI = (\<lambda>_. True), y_putConfig = True,
     y_memlock = True, y_load = True, y_ringbuf = True, y_otlp = True\<rparr>"

definition vx_agent :: agent where
  "vx_agent = \<lparr>ag_net = knet0, ag_config = None, ag_localIps = [], ag_ifaceVni = [], ag_fds = [], ag_mtr = metrics0\<rparr>"

definition vx_dev :: "int \<Rightarrow> int \<Rightarrow> link" where
  "vx_dev i vni = \<lparr>lk_type = ''vxlan'', lk_index = i, lk_name = ''vx'', lk_vxlanId = Some vni\<rparr>"

lemma vx_world:
  "wf_knet (ag_net vx_agent)" "ag_ifaceVni vx_agent = []" "vxlanWatched (ag_mtr vx_agent) = 0" "willing vx_sys"
  "hooks (ag_net vx_agent) = {#}" "good_env (y_attach vx_sys)"
  by (simp_all add: vx_agent_def knet0_def wf_knet_def mwf_def hooks_def filter_hooks_def good_env_def vx_sys_def
      demo_kernel_def willing_def accepts_def metrics0_def)

theorem vxlan_refines_witness:
  "\<exists>s. runVXLANWatcher vx_sys (\<lambda>xs. xs) True (Some [vx_dev 9 100]) [Update (Some (vx_dev 10 200)) 16, Update (Some (vx_dev 9 100)) 17]
      (newVXLANManager False False, vx_agent) = (False, s) \<and> abs_vx s 10 = Some 200 \<and> abs_vx s 9 = None"
proof -
  have "\<forall>(l, hdr) \<in> set (initial (Some [vx_dev 9 100]) @ [(Some (vx_dev 10 200), 16), (Some (vx_dev 9 100), 17)]).
      known_index (hooks (ag_net vx_agent)) l"
    by (simp add: initial_def vx_world known_index_def index_ok_def vx_dev_def)
  from vxlan_refines [OF vx_world(1-4) this, of "\<lambda>xs. xs" False False] show ?thesis
    by (auto simp: initial_def spec_update_def RTM_NEWLINK_def RTM_DELLINK_def isVXLAN_def vxlanVNI_def vx_dev_def)
qed

text \<open>
  The VXLAN watcher gives everything back. Whatever the system answers to attaching and
  registering, once the watcher is stopped nothing it attached is left in the kernel, no VNI is
  registered, no device is in its table and the gauge is zero.
\<close>

theorem vxlan_no_leak:
  assumes "wf_knet (ag_net ag)" "ag_ifaceVni ag = []" "vxlanWatched (ag_mtr ag) = 0" "good_env (y_attach y)"
    and "\<forall>(l, hdr) \<in> set (initial existing @ us). known_index (hooks (ag_net ag)) l" "\<forall>xs. mset (f xs) = mset xs"
  shows "\<exists>m' ag'. runVXLANWatcher y f True existing (map (\<lambda>(l, hdr). Update l hdr) us @ Stopped # es) (newVXLANManager xdp eg, ag) =
      (True, (m', ag')) \<and> vm_attached m' = [] \<and> hooks (ag_net ag') = hooks (ag_net ag) \<and>
    (\<forall>k. mget (ag_ifaceVni ag') k = None) \<and> vxlanWatched (ag_mtr ag') = 0"
proof -
  have "vx_inv (hooks (ag_net ag)) (updates y (initial existing @ us) (newVXLANManager xdp eg, ag))"
    using updates_inv [OF _ assms(4,5)] newVX_inv [OF assms(1-3)] by blast
  from closeAllVX_spec [OF this assms(4,6)] show ?thesis by (auto simp: runVXLAN_updates split: prod.splits)
qed

theorem vxlan_no_leak_witness:
  "\<exists>m' ag'. runVXLANWatcher vx_sys (\<lambda>xs. xs) True (Some [vx_dev 9 100]) [Update (Some (vx_dev 10 200)) 16, Stopped]
      (newVXLANManager True True, vx_agent) = (True, (m', ag')) \<and> hooks (ag_net ag') = {#} \<and> mget (ag_ifaceVni ag') 9 = None"
proof -
  have "\<forall>(l, hdr) \<in> set (initial (Some [vx_dev 9 100]) @ [(Some (vx_dev 10 200), 16)]). known_index (hooks (ag_net vx_agent)) l"
    by (simp add: initial_def vx_world known_index_def index_ok_def vx_dev_def)
  from vxlan_no_leak [OF vx_world(1-3,6) this, of "\<lambda>xs. xs" "[]" True True] show ?thesis
    by (auto simp: vx_world(5))
qed

end
