(* ===== verification/Agent_Run.thy ===== *)
theory Agent_Run
  imports Watch Vxlan_Watch
begin

text \<open>
  The life of the agent (\<^verbatim>\<open>run\<close> of \<^verbatim>\<open>agent/main.go\<close>): the start with its early returns, the two watchers
  working on the shared state in any interleaving, and the deferred calls that unwind at the end, while the
  goroutines of the watchers, which nobody waits for, may still work between these calls.
\<close>

section \<open>Start\<close>

record running =
  rn_static :: "(release list \<times> responder option) option"
  rn_em :: emitter
  rn_tap :: "tapManager option"
  rn_vx :: "vxlanManager option"

text \<open>Loading creates the eBPF maps empty; closing the objects discards them.\<close>

definition resetObjs :: "agent \<Rightarrow> agent" where
  "resetObjs ag = ag\<lparr>ag_config := None, ag_localIps := [], ag_ifaceVni := []\<rparr>"

definition mkConfig :: "opts \<Rightarrow> tfConfig" where
  "mkConfig o1 = \<lparr>cfg_IfaceType = op_ifType o1, cfg_Respond = (if op_respond o1 then 1 else 0),
     cfg_TCPRespond = (if op_tcpRespond o1 then 1 else 0)\<rparr>"

definition startStatic :: "sys \<Rightarrow> agent \<Rightarrow> opts \<Rightarrow> (run_error + (release list \<times> responder option) option) \<times> agent" where
  "startStatic y ag o1 =
     (if op_ifaceName o1 \<noteq> [] then
        (case attachStatic y ag o1 of (Inl e, ag) \<Rightarrow> (Inl e, ag) | (Inr a, ag) \<Rightarrow> (Inr (Some a), ag))
      else (Inr None, ag))"

definition mkRunning :: "sys \<Rightarrow> opts \<Rightarrow> (release list \<times> responder option) option \<Rightarrow> running" where
  "mkRunning y o1 st =
     \<lparr>rn_static = st,
      rn_em = newEmitter (op_nodeID o1) (op_az o1) (op_collectorURL o1) (op_otlpEndpoint o1) (y_otlp y),
      rn_tap = (if op_watch o1 then Some (newTapManager (op_ifType o1) (op_respond o1) (op_tcpRespond o1)
                  (op_hmacKey o1) (op_xdp o1) (op_xdpTCEgress o1)) else None),
      rn_vx = (if op_watchVXLAN o1 then Some (newVXLANManager (op_xdp o1) (op_xdpTCEgress o1)) else None)\<rparr>"

definition runStart :: "sys \<Rightarrow> agent \<Rightarrow> opts \<Rightarrow> (run_error + running) \<times> agent" where
  "runStart y ag o1 =
     (if \<not> y_memlock y then (Inl MemlockFailed, ag)
      else if \<not> y_load y then (Inl LoadFailed, ag)
      else let ag = resetObjs ag in
      if \<not> y_putConfig y then (Inl ConfigMapFailed, resetObjs ag)
      else let ag = ag\<lparr>ag_config := Some (mkConfig o1)\<rparr> in
      (case addLocalIPs (y_putIP y) (ag_localIps ag) (op_localIPs o1) of
         (False, ips) \<Rightarrow> (Inl LocalIPsFailed, resetObjs ag)
       | (True, ips) \<Rightarrow>
           let ag = ag\<lparr>ag_localIps := ips\<rparr> in
           if \<not> y_ringbuf y then (Inl RingbufFailed, resetObjs ag)
           else (case startStatic y ag o1 of
                   (Inl e, ag) \<Rightarrow> (Inl e, resetObjs ag)
                 | (Inr st, ag) \<Rightarrow>
                     (Inr (mkRunning y o1 st), ag))))"

section \<open>Running\<close>

text \<open>Both managers are used under their mutex, so what the goroutines do is a sequence of whole operations: of the
  tap watcher scans, of the VXLAN watcher link updates (the devices found at the start count as updates) and the
  \<^verbatim>\<open>closeAll\<close> with which it ends itself.\<close>

definition stopVX :: "sys \<Rightarrow> ((int \<times> vxlanAttach) list \<Rightarrow> (int \<times> vxlanAttach) list) \<Rightarrow> running \<times> agent \<Rightarrow> running \<times> agent" where
  "stopVX y f s = (case s of (rn, ag) \<Rightarrow>
     (case rn_vx rn of None \<Rightarrow> (rn, ag)
      | Some m \<Rightarrow> (case closeAllVX y f (m, ag) of (m, ag) \<Rightarrow> (rn\<lparr>rn_vx := Some m\<rparr>, ag))))"

datatype agent_op =
    TapOp watch_op
  | VxOp sys "link option" u16
  | VxClose sys "(int \<times> vxlanAttach) list \<Rightarrow> (int \<times> vxlanAttach) list"

fun run_step :: "running \<times> agent \<Rightarrow> agent_op \<Rightarrow> running \<times> agent" where
  "run_step (rn, ag) (TapOp w) =
     (case rn_tap rn of None \<Rightarrow> (rn, ag)
      | Some m \<Rightarrow> (case watch_step (m, ag) w of (m, ag) \<Rightarrow> (rn\<lparr>rn_tap := Some m\<rparr>, ag)))"
| "run_step (rn, ag) (VxOp y l hdr) =
     (case rn_vx rn of None \<Rightarrow> (rn, ag)
      | Some m \<Rightarrow> (case vxUpdate y l hdr (m, ag) of (m, ag) \<Rightarrow> (rn\<lparr>rn_vx := Some m\<rparr>, ag)))"
| "run_step (rn, ag) (VxClose y f) = stopVX y f (rn, ag)"

section \<open>Stop\<close>

text \<open>The deferred calls, last first: the VXLAN manager, the tap manager, the emitter (its queue is closed and
  drained), the static attachment, the eBPF objects. The stop channels are closed but the goroutines are not
  joined, so operations of the watchers may still happen after each of these calls: those of
  \<open>l1\<close> after the first, and so on up to \<open>l4\<close>, between the last and the exit of the process.\<close>

definition stopTaps :: "sys \<Rightarrow> (string list \<Rightarrow> string list) \<Rightarrow> running \<times> agent \<Rightarrow> running \<times> agent" where
  "stopTaps y f s = run_step s (TapOp (CloseTaps y f))"

definition stopStatic :: "sys \<Rightarrow> running \<times> agent \<Rightarrow> agent" where
  "stopStatic y s = (case s of (rn, ag) \<Rightarrow> (case rn_static rn of None \<Rightarrow> ag | Some att \<Rightarrow> closeStatic y ag att))"

type_synonym late_ops = "agent_op list \<times> agent_op list \<times> agent_op list \<times> agent_op list"

definition runStop ::
  "sys \<Rightarrow> ((int \<times> vxlanAttach) list \<Rightarrow> (int \<times> vxlanAttach) list) \<Rightarrow> (string list \<Rightarrow> string list) \<Rightarrow> late_ops \<Rightarrow>
     running \<times> agent \<Rightarrow> running \<times> agent" where
  "runStop y fv ft late s =
     (case late of (l1, l2, l3, l4) \<Rightarrow>
        let s = foldl run_step (stopVX y fv s) l1;
            s = foldl run_step (stopTaps y ft s) l2;
            s = foldl run_step (fst s, stopStatic y s) l3
        in foldl run_step (fst s, resetObjs (snd s)) l4)"

definition run_agent ::
  "sys \<Rightarrow> ((int \<times> vxlanAttach) list \<Rightarrow> (int \<times> vxlanAttach) list) \<Rightarrow> (string list \<Rightarrow> string list) \<Rightarrow> opts \<Rightarrow>
     agent_op list \<Rightarrow> late_ops \<Rightarrow> agent \<Rightarrow> (run_error + running) \<times> agent" where
  "run_agent y fv ft o1 ops late ag =
     (case runStart y ag o1 of
        (Inl e, ag) \<Rightarrow> (Inl e, ag)
      | (Inr rn, ag) \<Rightarrow> (case runStop y fv ft late (foldl run_step (rn, ag) ops) of (rn, ag) \<Rightarrow> (Inr rn, ag)))"

section \<open>What the watchers leave alone\<close>

lemma startResponder_frame:
  "ag_ifaceVni (snd (startResponder y ag i t ips tcp key)) = ag_ifaceVni ag \<and> ag_mtr (snd (startResponder y ag i t ips tcp key)) = ag_mtr ag"
  by (simp add: startResponder_def split: option.split)

lemma attachLocked_vx:
  "ag_ifaceVni (snd (snd (attachLocked y p s))) = ag_ifaceVni (snd s) \<and> ag_mtr (snd (snd (attachLocked y p s))) = ag_mtr (snd s)"
proof -
  obtain m ag where s: "s = (m, ag)" by (cases s)
  have "ag_ifaceVni (snd (tapResponder y m a i d p)) = ag_ifaceVni a \<and> ag_mtr (snd (tapResponder y m a i d p)) = ag_mtr a" for a i d
    using startResponder_frame [of y a i "tm_ifType m" "p_IPs p" "tm_tcpRespond m" "tm_hmacKey m"]
    by (auto simp: tapResponder_def Let_def split: prod.splits option.splits)
  then show ?thesis using s by (simp add: attachLocked_def split_beta split: option.split sum.split)
qed

lemma detachLocked_vx:
  "ag_ifaceVni (snd (detachLocked y n s)) = ag_ifaceVni (snd s) \<and> ag_mtr (snd (detachLocked y n s)) = ag_mtr (snd s)"
  by (cases s) (simp add: detachLocked_def Let_def closeResponder_def split: option.split)

lemma attachNew_vx:
  "ag_ifaceVni (snd (attachNew y ps s)) = ag_ifaceVni (snd s) \<and> ag_mtr (snd (attachNew y ps s)) = ag_mtr (snd s)"
  by (induction y ps s rule: attachNew.induct) (simp_all add: attachLocked_vx)

lemma detachUnseen_vx:
  "ag_ifaceVni (snd (detachUnseen y seen ns s)) = ag_ifaceVni (snd s) \<and> ag_mtr (snd (detachUnseen y seen ns s)) = ag_mtr (snd s)"
  by (induction y seen ns s rule: detachUnseen.induct) (simp_all add: detachLocked_vx)

lemma watch_step_vx:
  "ag_ifaceVni (snd (watch_step s w)) = ag_ifaceVni (snd s) \<and> vxlanWatched (ag_mtr (snd (watch_step s w))) = vxlanWatched (ag_mtr (snd s))"
  by (cases w) (simp_all add: reconcile_def closeAllTaps_def Let_def attachNew_vx detachUnseen_vx)

lemma vxUpdate_fds: "ag_fds (snd (vxUpdate y l hdr s)) = ag_fds (snd s)"
  by (cases s) (simp add: vxUpdate_def vxAttach_def detachIdx_def storeGauge_def Let_def split_beta split: option.split sum.split)

lemma releaseAll_fds: "ag_fds (releaseAll y xs ag) = ag_fds ag"
  by (induction y xs ag rule: releaseAll.induct) simp_all

lemma vxUpdate_keys:
  assumes "mget (vm_attached (fst (vxUpdate y lo hdr s))) i \<noteq> None"
  shows "mget (vm_attached (fst s)) i \<noteq> None \<or> (\<exists>l. lo = Some l \<and> i = lk_index l)"
  using assms by (cases s)
    (auto simp: vxUpdate_def vxAttach_def detachIdx_def storeGauge_def Let_def gomap_simps split_beta split: option.splits sum.splits if_splits)

section \<open>Both watchers at once\<close>

definition tap_hooks :: "running \<Rightarrow> hook multiset" where
  "tap_hooks rn = (case rn_tap rn of None \<Rightarrow> {#} | Some m \<Rightarrow> sum_list (map ((owned \<circ> ta_detach) \<circ> snd) (tm_attached m)))"

definition tap_socks :: "running \<Rightarrow> nat multiset" where
  "tap_socks rn = (case rn_tap rn of None \<Rightarrow> {#} | Some m \<Rightarrow> sum_list (map (tap_fds \<circ> snd) (tm_attached m)))"

definition vx_hooks :: "running \<Rightarrow> hook multiset" where
  "vx_hooks rn = (case rn_vx rn of None \<Rightarrow> {#} | Some m \<Rightarrow> sum_list (map ((owned \<circ> va_detach) \<circ> snd) (vm_attached m)))"

text \<open>The interfaces the taps may be on are those of \<open>idx\<close>, the VXLAN devices those of \<open>I\<close>.\<close>

definition run_inv :: "(string \<rightharpoonup> nat) \<Rightarrow> int set \<Rightarrow> hook multiset \<Rightarrow> nat multiset \<Rightarrow> running \<times> agent \<Rightarrow> bool" where
  "run_inv idx I base fds s = (case s of (rn, ag) \<Rightarrow>
     wf_knet (ag_net ag) \<and> hooks (ag_net ag) = base + tap_hooks rn + vx_hooks rn \<and> mset (ag_fds ag) = fds + tap_socks rn \<and>
     (case rn_tap rn of None \<Rightarrow> True | Some m \<Rightarrow> watch_inv idx (base + vx_hooks rn) fds (m, ag)) \<and>
     (case rn_vx rn of None \<Rightarrow> True | Some m \<Rightarrow> vx_inv (base + tap_hooks rn) (m, ag) \<and>
        (\<forall>i. mget (vm_attached m) i \<noteq> None \<longrightarrow> i \<in> I)))"

lemma ledger_hooks: "kern.ledger g base m k \<Longrightarrow> hooks k = base + sum_list (map ((owned \<circ> g) \<circ> snd) m) \<and> wf_knet k"
  by (simp add: kern.ledger_def)

lemma ledger_rebase:
  "kern.ledger g base m k \<Longrightarrow> wf_knet k' \<Longrightarrow> hooks k' = base' + sum_list (map ((owned \<circ> g) \<circ> snd) m) \<Longrightarrow> kern.ledger g base' m k'"
  by (simp add: kern.ledger_def)

lemma tap_hooks_on:
  assumes "watch_inv idx base fds (m, ag)" "h \<in># sum_list (map ((owned \<circ> ta_detach) \<circ> snd) (tm_attached m))"
  shows "\<exists>i \<in> ran idx. hook_if h = int i"
proof -
  obtain n a where na: "(n, a) \<in> set (tm_attached m)" "h \<in># owned (ta_detach a)"
    using assms(2) by (auto simp: set_mset_sum_list_map)
  have "mwf (tm_attached m)" using assms(1) by (simp add: watch_inv_def kern.ledger_def)
  then have "mget (tm_attached m) n = Some a" using na(1) by (simp add: mwf_def mget_def)
  then show ?thesis using watch_invD [OF assms(1) _ na(2), of n] by (auto simp: ran_def)
qed

lemma vx_hooks_on:
  assumes "vx_inv base (m, ag)" "h \<in># sum_list (map ((owned \<circ> va_detach) \<circ> snd) (vm_attached m))"
  shows "mget (vm_attached m) (hook_if h) \<noteq> None"
proof -
  note D = vx_invD [OF assms(1)]
  obtain i a where ia: "(i, a) \<in> set (vm_attached m)" "h \<in># owned (va_detach a)"
    using assms(2) by (auto simp: set_mset_sum_list_map)
  then have "mget (vm_attached m) i = Some a" using D(2) by (simp add: mwf_def mget_def)
  then show ?thesis using D(4) [OF _ ia(2)] by auto
qed

definition apart :: "(string \<rightharpoonup> nat) \<Rightarrow> int set \<Rightarrow> hook multiset \<Rightarrow> bool" where
  "apart idx I base \<longleftrightarrow> inj_on idx (dom idx) \<and> I \<inter> int ` ran idx = {} \<and> (\<forall>h \<in># base. hook_if h \<notin> I \<union> int ` ran idx)"

fun op_ok :: "(string \<rightharpoonup> nat) \<Rightarrow> int set \<Rightarrow> agent_op \<Rightarrow> bool" where
  "op_ok idx I (TapOp w) = stable idx w"
| "op_ok idx I (VxOp y lo hdr) = (good_env (y_attach y) \<and> (case lo of None \<Rightarrow> True | Some l \<Rightarrow> index_ok (lk_index l) \<and> lk_index l \<in> I))"
| "op_ok idx I (VxClose y f) = (good_env (y_attach y) \<and> (\<forall>xs. mset (f xs) = mset xs))"

text \<open>Changing one manager's table re-bases the other's invariant.\<close>

lemma run_inv_tap:
  assumes inv: "run_inv idx I base fds (rn, ag)" and m: "rn_tap rn = Some m"
    and new: "watch_inv idx (base + vx_hooks rn) fds (m', ag')"
    and frame: "ag_ifaceVni ag' = ag_ifaceVni ag" "vxlanWatched (ag_mtr ag') = vxlanWatched (ag_mtr ag)"
  shows "run_inv idx I base fds (rn\<lparr>rn_tap := Some m'\<rparr>, ag')"
proof -
  let ?rn = "rn\<lparr>rn_tap := Some m'\<rparr>"
  have led: "kern.ledger ta_detach (base + vx_hooks rn) (tm_attached m') (ag_net ag')" using new by (simp add: watch_inv_def)
  have th: "tap_hooks ?rn = sum_list (map ((owned \<circ> ta_detach) \<circ> snd) (tm_attached m'))" by (simp add: tap_hooks_def)
  have vh: "vx_hooks ?rn = vx_hooks rn" by (simp add: vx_hooks_def)
  have h: "wf_knet (ag_net ag')" "hooks (ag_net ag') = base + tap_hooks ?rn + vx_hooks ?rn"
    using ledger_hooks [OF led] by (simp_all add: th vh ac_simps)
  have f: "mset (ag_fds ag') = fds + tap_socks ?rn" using new by (simp add: watch_inv_def tap_socks_def)
  have "vx_inv (base + tap_hooks ?rn) (v, ag')" if v: "rn_vx rn = Some v" for v
  proof -
    have old: "vx_inv (base + tap_hooks rn) (v, ag)" using inv v by (simp add: run_inv_def)
    have "kern.ledger va_detach (base + tap_hooks ?rn) (vm_attached v) (ag_net ag')"
      by (rule ledger_rebase [OF vx_invD(1) [OF old] h(1)]) (use h(2) v in \<open>simp add: vx_hooks_def\<close>)
    then show ?thesis using old frame by (simp add: vx_inv_def)
  qed
  then show ?thesis using inv new h f vh by (simp add: run_inv_def split: option.splits)
qed

lemma run_inv_vx:
  assumes inv: "run_inv idx I base fds (rn, ag)" and m: "rn_vx rn = Some m"
    and new: "vx_inv (base + tap_hooks rn) (m', ag')" "\<forall>i. mget (vm_attached m') i \<noteq> None \<longrightarrow> i \<in> I"
    and frame: "ag_fds ag' = ag_fds ag"
  shows "run_inv idx I base fds (rn\<lparr>rn_vx := Some m'\<rparr>, ag')"
proof -
  let ?rn = "rn\<lparr>rn_vx := Some m'\<rparr>"
  note led = vx_invD(1) [OF new(1)]
  have vh: "vx_hooks ?rn = sum_list (map ((owned \<circ> va_detach) \<circ> snd) (vm_attached m'))" by (simp add: vx_hooks_def)
  have th: "tap_hooks ?rn = tap_hooks rn" "tap_socks ?rn = tap_socks rn" by (simp_all add: tap_hooks_def tap_socks_def)
  have h: "wf_knet (ag_net ag')" "hooks (ag_net ag') = base + tap_hooks ?rn + vx_hooks ?rn"
    using ledger_hooks [OF led] by (simp_all add: th vh)
  have "watch_inv idx (base + vx_hooks ?rn) fds (t, ag')" if t: "rn_tap rn = Some t" for t
  proof -
    have old: "watch_inv idx (base + vx_hooks rn) fds (t, ag)" using inv t by (simp add: run_inv_def)
    then have "kern.ledger ta_detach (base + vx_hooks rn) (tm_attached t) (ag_net ag)" by (simp add: watch_inv_def)
    then have "kern.ledger ta_detach (base + vx_hooks ?rn) (tm_attached t) (ag_net ag')"
      by (rule ledger_rebase [OF _ h(1)]) (use h(2) t in \<open>simp add: tap_hooks_def ac_simps\<close>)
    then show ?thesis using old frame by (simp add: watch_inv_def)
  qed
  then show ?thesis using inv new h th frame by (simp add: run_inv_def split: option.splits)
qed

lemma stopVX_inv:
  assumes "run_inv idx I base fds s" "good_env (y_attach y)" "\<forall>xs. mset (f xs) = mset xs"
  shows "run_inv idx I base fds (stopVX y f s) \<and> vx_hooks (fst (stopVX y f s)) = {#}"
proof -
  obtain rn ag where s: "s = (rn, ag)" by (cases s)
  show ?thesis
  proof (cases "rn_vx rn")
    case (Some m)
    obtain m' ag' where c: "closeAllVX y f (m, ag) = (m', ag')" by fastforce
    have old: "vx_inv (base + tap_hooks rn) (m, ag)" using assms(1) Some s by (simp add: run_inv_def)
    from closeAllVX_spec [OF this assms(2,3)] c have e: "vm_attached m' = []" "hooks (ag_net ag') = base + tap_hooks rn"
        "\<forall>k. mget (ag_ifaceVni ag') k = None" "vxlanWatched (ag_mtr ag') = 0" by simp_all
    have wf: "wf_knet (ag_net (releaseAll y xs a))" if "wf_knet (ag_net a)" for xs a
      using that by (induction y xs a rule: releaseAll.induct) (simp_all add: run_detach_wf)
    have "wf_knet (ag_net ag')" "ag_fds ag' = ag_fds ag"
      using c wf [of ag] old releaseAll_fds [of y "f (vm_attached m)" ag] by (auto simp: closeAllVX_def Let_def vx_inv_def kern.ledger_def)
    moreover have "vx_inv (base + tap_hooks rn) (m', ag')"
      using e \<open>wf_knet (ag_net ag')\<close> by (simp add: vx_inv_def kern.ledger_def gomap_simps mlen_def)
    ultimately show ?thesis
      using run_inv_vx [OF assms(1) [unfolded s] Some, of m' ag'] e(1) c Some s by (simp add: stopVX_def vx_hooks_def gomap_simps)
  qed (use assms(1) s in \<open>simp add: stopVX_def vx_hooks_def\<close>)
qed

lemma run_step_inv:
  assumes inv: "run_inv idx I base fds s" and ap: "apart idx I base" and ok: "op_ok idx I op1"
  shows "run_inv idx I base fds (run_step s op1)"
proof -
  obtain rn ag where s: "s = (rn, ag)" by (cases s)
  note inv = inv [unfolded s]
  have vfree: "hook_if h \<notin> int ` ran idx" if "h \<in># vx_hooks rn" for h
    using that inv ap vx_hooks_on [of "base + tap_hooks rn" _ ag h]
    by (fastforce simp: run_inv_def vx_hooks_def apart_def split: option.splits)
  have tfree: "hook_if h \<notin> I" if "h \<in># tap_hooks rn" for h
    using that inv ap tap_hooks_on [of idx "base + vx_hooks rn" fds _ ag h]
    by (fastforce simp: run_inv_def tap_hooks_def apart_def split: option.splits)
  show ?thesis
  proof (cases op1)
    case (TapOp w)
    show ?thesis
    proof (cases "rn_tap rn")
      case (Some m)
      obtain m' ag' where w: "watch_step (m, ag) w = (m', ag')" by fastforce
      have "watch_inv idx (base + vx_hooks rn) fds (m, ag)" using inv Some by (simp add: run_inv_def)
      moreover have "inj_on idx (dom idx)" using ap by (simp add: apart_def)
      moreover have "\<forall>h \<in># base + vx_hooks rn. \<forall>i \<in> ran idx. hook_if h \<noteq> int i" using ap vfree by (auto simp: apart_def)
      ultimately have "watch_inv idx (base + vx_hooks rn) fds (m', ag')"
        using watch_step_inv [of idx "base + vx_hooks rn" fds "(m, ag)" w] ok TapOp w by simp
      from run_inv_tap [OF inv Some this] show ?thesis using watch_step_vx [of "(m, ag)" w] w Some TapOp s by simp
    qed (use inv s TapOp in simp)
  next
    case (VxOp y lo hdr)
    show ?thesis
    proof (cases "rn_vx rn")
      case (Some m)
      obtain m' ag' where u: "vxUpdate y lo hdr (m, ag) = (m', ag')" by fastforce
      have old: "vx_inv (base + tap_hooks rn) (m, ag)" "\<forall>i. mget (vm_attached m) i \<noteq> None \<longrightarrow> i \<in> I"
        using inv Some by (simp_all add: run_inv_def)
      have "known_index (base + tap_hooks rn) lo"
        using ok VxOp ap tfree by (fastforce simp: known_index_def apart_def split: option.splits)
      then have "vx_inv (base + tap_hooks rn) (m', ag')" using vxUpdate_inv [OF old(1), of y lo hdr] ok VxOp u by simp
      moreover have "\<forall>i. mget (vm_attached m') i \<noteq> None \<longrightarrow> i \<in> I"
        using vxUpdate_keys [of y lo hdr "(m, ag)"] old(2) ok VxOp u by (fastforce split: option.splits)
      moreover have "ag_fds ag' = ag_fds ag" using vxUpdate_fds [of y lo hdr "(m, ag)"] u by simp
      ultimately show ?thesis using run_inv_vx [OF inv Some] u Some VxOp s by simp
    qed (use inv s VxOp in simp)
  next
    case (VxClose y f)
    then show ?thesis using stopVX_inv [OF inv, of y f] ok s by simp
  qed
qed

lemma run_steps_inv:
  assumes "run_inv idx I base fds s" "apart idx I base" "\<forall>op1 \<in> set ops. op_ok idx I op1"
  shows "run_inv idx I base fds (foldl run_step s ops)"
  using assms(1,3) by (induction ops arbitrary: s) (simp_all add: run_step_inv [OF _ assms(2)])

lemma stopTaps_inv:
  assumes "run_inv idx I base fds s" "apart idx I base" "stable idx (CloseTaps y f)"
  shows "run_inv idx I base fds (stopTaps y f s) \<and> tap_hooks (fst (stopTaps y f s)) = {#} \<and> tap_socks (fst (stopTaps y f s)) = {#} \<and>
    vx_hooks (fst (stopTaps y f s)) = vx_hooks (fst s) \<and> rn_static (fst (stopTaps y f s)) = rn_static (fst s)"
proof -
  obtain rn ag where s: "s = (rn, ag)" by (cases s)
  have "run_inv idx I base fds (stopTaps y f s)" unfolding stopTaps_def by (rule run_step_inv [OF assms(1,2)]) (use assms(3) in simp)
  moreover have "tap_hooks (fst (stopTaps y f s)) = {#} \<and> tap_socks (fst (stopTaps y f s)) = {#} \<and>
      vx_hooks (fst (stopTaps y f s)) = vx_hooks (fst s) \<and> rn_static (fst (stopTaps y f s)) = rn_static (fst s)"
  proof (cases "rn_tap rn")
    case (Some m)
    obtain m' ag' where c: "closeAllTaps y f (m, ag) = (m', ag')" by fastforce
    have "fair_range f" using assms(3) by (simp add: stable_def)
    with closeAllTaps_empty [of f y "(m, ag)"] c have "tm_attached m' = []" by simp
    then show ?thesis using c Some s by (simp add: stopTaps_def tap_hooks_def tap_socks_def vx_hooks_def)
  qed (use s in \<open>simp add: stopTaps_def tap_hooks_def tap_socks_def\<close>)
  ultimately show ?thesis by blast
qed

section \<open>The static attachment\<close>

definition static_hooks :: "running \<Rightarrow> hook multiset" where
  "static_hooks rn = (case rn_static rn of None \<Rightarrow> {#} | Some (d, r) \<Rightarrow> owned d)"

definition static_socks :: "running \<Rightarrow> nat multiset" where
  "static_socks rn = (case rn_static rn of Some (d, Some r) \<Rightarrow> {#r_fd r#} | _ \<Rightarrow> {#})"

lemma attachStatic_spec:
  assumes "attachStatic y ag o1 = (r, ag')" "wf_knet (ag_net ag)" "good_env (y_attach y)"
    and "\<And>i. y_byName y (op_ifaceName o1) = Some i \<Longrightarrow> free_on (ag_net ag) (int i)"
  shows "wf_knet (ag_net ag') \<and> ag_mtr ag' = ag_mtr ag \<and> ag_ifaceVni ag' = ag_ifaceVni ag \<and>
    (case r of Inl e \<Rightarrow> hooks (ag_net ag') = hooks (ag_net ag) \<and> ag_fds ag' = ag_fds ag
     | Inr (d, rs) \<Rightarrow> hooks (ag_net ag') = hooks (ag_net ag) + owned d \<and> (\<forall>x \<in> set d. wf_release x) \<and>
         (\<exists>i. y_byName y (op_ifaceName o1) = Some i \<and> (\<forall>h \<in># owned d. hook_if h = int i)) \<and>
         mset (ag_fds ag') = mset (ag_fds ag) + (case rs of None \<Rightarrow> {#} | Some q \<Rightarrow> {#r_fd q#}))"
proof (cases "y_byName y (op_ifaceName o1)")
  case None
  then show ?thesis using assms(1,2) by (auto simp: attachStatic_def)
next
  case (Some i)
  obtain q net where q: "attachIface (y_attach y) (ag_net ag) (int i) (op_xdp o1) (op_xdpTCEgress o1) = (q, net)" by fastforce
  note free = assms(4) [OF Some, unfolded free_on_def]
  have spec: "attach_spec (y_attach y) (ag_net ag) (int i) (q, net)"
    using attachIface_spec [OF assms(2) free_on_filters [OF assms(2) assms(4) [OF Some]], of "y_attach y" "op_xdp o1" "op_xdpTCEgress o1"] q by simp
  show ?thesis
  proof (cases q)
    case (Inl e)
    then show ?thesis using assms(1,3) Some q spec by (auto simp: attachStatic_def attach_spec_def)
  next
    case (Inr d)
    let ?ag = "ag\<lparr>ag_net := net\<rparr>"
    obtain rs ag1 where rs: "startResponder y ?ag i (op_ifType o1) (op_localIPs o1) (op_tcpRespond o1) (op_hmacKey o1) = (rs, ag1)" by fastforce
    note f = startResponder_fds [OF rs] startResponder_frame [of y ?ag i "op_ifType o1" "op_localIPs o1" "op_tcpRespond o1" "op_hmacKey o1", unfolded rs]
    have none: "rs = None \<Longrightarrow> ag1 = ?ag" using rs by (auto simp: startResponder_def split: option.splits)
    have d: "wf_knet net" "hooks net = hooks (ag_net ag) + owned d" "\<forall>x \<in> set d. wf_release x" "\<forall>h \<in># owned d. hook_if h = int i"
      using spec Inr by (simp_all add: attach_spec_def)
    have undo: "hooks (run_detach (y_attach y) net d) = hooks (ag_net ag)" "wf_knet (run_detach (y_attach y) net d)"
      using run_detach_hooks [OF d(1) assms(3) d(3)] d(2) run_detach_wf [OF d(1)] by simp_all
    show ?thesis
      using assms(1) Some q Inr rs f d undo none
      by (cases rs; cases "op_respond o1 \<and> op_localIPs o1 \<noteq> []") (auto simp: attachStatic_def Let_def)
  qed
qed

lemma stopVX_static: "rn_static (fst (stopVX y f s)) = rn_static (fst s)"
  by (cases s) (simp add: stopVX_def split: option.split prod.split)

lemma run_step_static: "rn_static (fst (run_step s op1)) = rn_static (fst s)"
  by (cases s; cases op1) (simp_all add: stopVX_static split: option.split prod.split)

lemma run_steps_static: "rn_static (fst (foldl run_step s ops)) = rn_static (fst s)"
  by (induction ops rule: rev_induct) (simp_all add: run_step_static)

lemma resetObjs_frame: "ag_net (resetObjs a) = ag_net a" "ag_fds (resetObjs a) = ag_fds a"
  by (simp_all add: resetObjs_def)

lemma run_inv_rebase:
  assumes "run_inv idx I base fds (rn, ag)" "wf_knet (ag_net ag')" "hooks (ag_net ag') = base' + tap_hooks rn + vx_hooks rn"
    and "mset (ag_fds ag') = fds' + tap_socks rn" "ag_mtr ag' = ag_mtr ag" "ag_ifaceVni ag' \<in> {ag_ifaceVni ag, []}"
  shows "run_inv idx I base' fds' (rn, ag')"
proof -
  have "watch_inv idx (base' + vx_hooks rn) fds' (m, ag')" if m: "rn_tap rn = Some m" for m
  proof -
    have old: "watch_inv idx (base + vx_hooks rn) fds (m, ag)" using assms(1) m by (simp add: run_inv_def)
    then have "kern.ledger ta_detach (base + vx_hooks rn) (tm_attached m) (ag_net ag)" by (simp add: watch_inv_def)
    then have "kern.ledger ta_detach (base' + vx_hooks rn) (tm_attached m) (ag_net ag')"
      by (rule ledger_rebase [OF _ assms(2)]) (use assms(3) m in \<open>simp add: tap_hooks_def ac_simps\<close>)
    then show ?thesis using old assms(4) m by (simp add: watch_inv_def tap_socks_def)
  qed
  moreover have "vx_inv (base' + tap_hooks rn) (m, ag')" if m: "rn_vx rn = Some m" for m
  proof -
    have old: "vx_inv (base + tap_hooks rn) (m, ag)" using assms(1) m by (simp add: run_inv_def)
    have "kern.ledger va_detach (base' + tap_hooks rn) (vm_attached m) (ag_net ag')"
      by (rule ledger_rebase [OF vx_invD(1) [OF old] assms(2)]) (use assms(3) m in \<open>simp add: vx_hooks_def\<close>)
    then show ?thesis using old assms(5,6) by (auto simp: vx_inv_def gomap_simps)
  qed
  ultimately show ?thesis using assms by (auto simp: run_inv_def split: option.splits)
qed

lemma stopStatic_inv:
  assumes inv: "run_inv idx I (base + static_hooks rn) (fds + static_socks rn) (rn, ag)" and good: "good_env (y_attach y)"
    and rel: "case rn_static rn of None \<Rightarrow> True | Some (d, rs) \<Rightarrow> \<forall>x \<in> set d. wf_release x"
  shows "run_inv idx I base fds (rn, stopStatic y (rn, ag))"
proof (cases "rn_static rn")
  case None
  then show ?thesis using inv by (simp add: stopStatic_def static_hooks_def static_socks_def)
next
  case (Some a)
  obtain d rs where a: "a = (d, rs)" by (cases a)
  let ?ag = "stopStatic y (rn, ag)"
  have h: "wf_knet (ag_net ag)" "hooks (ag_net ag) = base + tap_hooks rn + vx_hooks rn + owned d"
      "mset (ag_fds ag) = fds + static_socks rn + tap_socks rn"
    using inv Some a by (simp_all add: run_inv_def static_hooks_def ac_simps)
  have net: "ag_net ?ag = run_detach (y_attach y) (ag_net ag) d" "ag_mtr ?ag = ag_mtr ag" "ag_ifaceVni ?ag = ag_ifaceVni ag"
    using Some a by (simp_all add: stopStatic_def closeStatic_def Let_def closeResponder_def split: option.split)
  have "hooks (ag_net ?ag) = base + tap_hooks rn + vx_hooks rn"
    using run_detach_hooks [OF h(1) good, of d] h(2) rel Some a net by simp
  moreover have "mset (ag_fds ?ag) = fds + tap_socks rn"
    using h(3) Some a by (cases rs) (simp_all add: stopStatic_def closeStatic_def Let_def closeResponder_def static_socks_def)
  ultimately show ?thesis
    by (intro run_inv_rebase [OF inv]) (simp_all add: net run_detach_wf [OF h(1)])
qed

lemma resetObjs_inv: "run_inv idx I base fds (rn, ag) \<Longrightarrow> run_inv idx I base fds (rn, resetObjs ag)"
  by (rule run_inv_rebase, assumption) (simp_all add: run_inv_def resetObjs_def)

lemma apart_mono: "apart idx I (base + b) \<Longrightarrow> apart idx I base"
  by (auto simp: apart_def)

text \<open>The operations that can attach again, and that without them a closed manager stays empty.\<close>

fun scans_taps :: "agent_op \<Rightarrow> bool" where
  "scans_taps (TapOp (Scan y f ports)) = True"
| "scans_taps op1 = False"

fun updates_vx :: "agent_op \<Rightarrow> bool" where
  "updates_vx (VxOp y l hdr) = True"
| "updates_vx op1 = False"

definition no_taps :: "running \<Rightarrow> bool" where
  "no_taps rn = (case rn_tap rn of None \<Rightarrow> True | Some m \<Rightarrow> tm_attached m = [])"

definition no_vx :: "running \<Rightarrow> bool" where
  "no_vx rn = (case rn_vx rn of None \<Rightarrow> True | Some m \<Rightarrow> vm_attached m = [])"

lemma stopVX_taps: "rn_tap (fst (stopVX y f s)) = rn_tap (fst s)"
  by (cases s) (simp add: stopVX_def split: option.split prod.split)

lemma stopVX_empties: "no_vx (fst (stopVX y f s))"
  by (cases s) (simp add: stopVX_def no_vx_def closeAllVX_def Let_def split: option.split)

lemma stopTaps_empties: "fair_range f \<Longrightarrow> no_taps (fst (stopTaps y f s))"
  by (cases s) (auto simp: stopTaps_def no_taps_def split_beta closeAllTaps_empty split: option.split)

lemma run_step_no_taps:
  assumes "no_taps (fst s)" "\<not> scans_taps op1" "op_ok idx I op1"
  shows "no_taps (fst (run_step s op1))"
proof -
  obtain rn ag where s: "s = (rn, ag)" by (cases s)
  show ?thesis
  proof (cases op1)
    case (TapOp w)
    then obtain y f where w: "w = CloseTaps y f" using assms(2) by (cases w) auto
    then show ?thesis using stopTaps_empties [of f y s] assms(3) TapOp by (simp add: stopTaps_def stable_def)
  next
    case (VxOp y l hdr)
    then show ?thesis using assms(1) s by (simp add: no_taps_def split: option.splits prod.splits)
  next
    case (VxClose y f)
    then show ?thesis using assms(1) s stopVX_taps [of y f s] by (simp add: no_taps_def)
  qed
qed

lemma run_step_no_vx:
  assumes "no_vx (fst s)" "\<not> updates_vx op1"
  shows "no_vx (fst (run_step s op1))"
  using assms stopVX_empties by (cases s; cases op1) (auto simp: no_vx_def split: option.splits prod.splits)

lemma run_steps_no_taps:
  "no_taps (fst s) \<Longrightarrow> \<forall>op1 \<in> set ops. \<not> scans_taps op1 \<and> op_ok idx I op1 \<Longrightarrow> no_taps (fst (foldl run_step s ops))"
  by (induction ops arbitrary: s) (simp_all add: run_step_no_taps [where idx = idx and I = I])

lemma run_steps_no_vx:
  "no_vx (fst s) \<Longrightarrow> \<forall>op1 \<in> set ops. \<not> updates_vx op1 \<Longrightarrow> no_vx (fst (foldl run_step s ops))"
  by (induction ops arbitrary: s) (simp_all add: run_step_no_vx)

lemma stopTaps_no_vx: "no_vx (fst s) \<Longrightarrow> no_vx (fst (stopTaps y f s))"
  unfolding stopTaps_def by (rule run_step_no_vx) simp_all

text \<open>The whole stop, whatever the watchers still do.\<close>

definition all_late :: "late_ops \<Rightarrow> agent_op list" where
  "all_late late = (case late of (l1, l2, l3, l4) \<Rightarrow> l1 @ l2 @ l3 @ l4)"

definition late_after_taps :: "late_ops \<Rightarrow> agent_op list" where
  "late_after_taps late = (case late of (l1, l2, l3, l4) \<Rightarrow> l2 @ l3 @ l4)"

lemma runStop_inv:
  assumes inv: "run_inv idx I (base + static_hooks (fst s)) (fds + static_socks (fst s)) s"
    and ap: "apart idx I (base + static_hooks (fst s))"
    and rel: "case rn_static (fst s) of None \<Rightarrow> True | Some (d, rs) \<Rightarrow> \<forall>x \<in> set d. wf_release x"
    and ok: "\<forall>op1 \<in> set (all_late late). op_ok idx I op1"
    and env: "good_env (y_attach y)" "stable idx (CloseTaps y ft)" "\<forall>xs. mset (fv xs) = mset xs"
  shows "run_inv idx I base fds (runStop y fv ft late s)"
proof -
  obtain l1 l2 l3 l4 where late: "late = (l1, l2, l3, l4)" by (cases late)
  let ?b = "base + static_hooks (fst s)" and ?f = "fds + static_socks (fst s)"
  define s1 where "s1 = foldl run_step (stopVX y fv s) l1"
  define s2 where "s2 = foldl run_step (stopTaps y ft s1) l2"
  define s3 where "s3 = foldl run_step (fst s2, stopStatic y s2) l3"
  have st: "runStop y fv ft late s = foldl run_step (fst s3, resetObjs (snd s3)) l4"
    by (simp add: runStop_def late Let_def s1_def s2_def s3_def)
  have ops: "\<forall>op1 \<in> set l. op_ok idx I op1" if "l \<in> {l1, l2, l3, l4}" for l using ok late that by (auto simp: all_late_def)
  have "run_inv idx I ?b ?f s1"
    unfolding s1_def by (rule run_steps_inv [OF conjunct1 [OF stopVX_inv [OF inv env(1,3)]] ap ops]) simp
  then have 2: "run_inv idx I ?b ?f s2"
    unfolding s2_def by (intro run_steps_inv [OF conjunct1 [OF stopTaps_inv [OF _ ap env(2)]] ap ops]) simp_all
  have "rn_static (fst s2) = rn_static (fst s)"
    by (simp add: s2_def s1_def run_steps_static stopTaps_def run_step_static stopVX_static)
  then have "static_hooks (fst s) = static_hooks (fst s2)" "static_socks (fst s) = static_socks (fst s2)"
      "case rn_static (fst s2) of None \<Rightarrow> True | Some (d, rs) \<Rightarrow> \<forall>x \<in> set d. wf_release x"
    using rel by (simp_all add: static_hooks_def static_socks_def)
  then have "run_inv idx I base fds (fst s2, stopStatic y (fst s2, snd s2))" using 2 env(1) by (intro stopStatic_inv) simp_all
  then have "run_inv idx I base fds s3" unfolding s3_def using apart_mono [OF ap] ops [of l3] by (intro run_steps_inv) simp_all
  then have "run_inv idx I base fds (fst s3, resetObjs (snd s3))" using resetObjs_inv [of idx I base fds "fst s3" "snd s3"] by simp
  then show ?thesis unfolding st using apart_mono [OF ap] ops [of l4] by (intro run_steps_inv) simp_all
qed

lemma runStop_quiet:
  assumes "\<forall>op1 \<in> set (all_late late). op_ok idx I op1" "stable idx (CloseTaps y ft)"
  shows "\<forall>op1 \<in> set (late_after_taps late). \<not> scans_taps op1 \<Longrightarrow> no_taps (fst (runStop y fv ft late s))"
    and "\<forall>op1 \<in> set (all_late late). \<not> updates_vx op1 \<Longrightarrow> no_vx (fst (runStop y fv ft late s))"
proof -
  obtain l1 l2 l3 l4 where late: "late = (l1, l2, l3, l4)" by (cases late)
  note defs = late runStop_def all_late_def late_after_taps_def Let_def
  have ft: "fair_range ft" using assms(2) by (simp add: stable_def)
  show "no_taps (fst (runStop y fv ft late s))" if "\<forall>op1 \<in> set (late_after_taps late). \<not> scans_taps op1"
    using that assms(1) stopTaps_empties [OF ft] by (simp add: defs run_steps_no_taps [where idx = idx and I = I])
  show "no_vx (fst (runStop y fv ft late s))" if "\<forall>op1 \<in> set (all_late late). \<not> updates_vx op1"
    using that stopVX_empties [of y fv s] by (simp add: defs run_steps_no_vx stopTaps_no_vx)
qed

lemma empty_tables:
  "no_taps rn \<Longrightarrow> tap_hooks rn = {#} \<and> tap_socks rn = {#}" "no_vx rn \<Longrightarrow> vx_hooks rn = {#}"
  by (auto simp: no_taps_def no_vx_def tap_hooks_def tap_socks_def vx_hooks_def split: option.splits)

text \<open>The world of a run: what is there before, and the interfaces the agent may attach to.\<close>

definition world :: "sys \<Rightarrow> opts \<Rightarrow> (string \<rightharpoonup> nat) \<Rightarrow> int set \<Rightarrow> agent \<Rightarrow> bool" where
  "world y o1 idx I ag \<longleftrightarrow> wf_knet (ag_net ag) \<and> vxlanWatched (ag_mtr ag) = 0 \<and> good_env (y_attach y) \<and>
     apart idx I (hooks (ag_net ag)) \<and>
     (\<forall>i. op_ifaceName o1 \<noteq> [] \<and> y_byName y (op_ifaceName o1) = Some i \<longrightarrow>
        free_on (ag_net ag) (int i) \<and> i \<notin> ran idx \<and> int i \<notin> I)"

lemma startStatic_spec:
  assumes "startStatic y ag o1 = (r, ag')" "world y o1 idx I ag"
  shows "wf_knet (ag_net ag') \<and> ag_mtr ag' = ag_mtr ag \<and> ag_ifaceVni ag' = ag_ifaceVni ag \<and>
    (case r of Inl e \<Rightarrow> hooks (ag_net ag') = hooks (ag_net ag) \<and> ag_fds ag' = ag_fds ag
     | Inr None \<Rightarrow> hooks (ag_net ag') = hooks (ag_net ag) \<and> ag_fds ag' = ag_fds ag
     | Inr (Some (d, rs)) \<Rightarrow> hooks (ag_net ag') = hooks (ag_net ag) + owned d \<and> (\<forall>x \<in> set d. wf_release x) \<and>
         apart idx I (hooks (ag_net ag) + owned d) \<and>
         mset (ag_fds ag') = mset (ag_fds ag) + (case rs of None \<Rightarrow> {#} | Some q \<Rightarrow> {#r_fd q#}))"
proof (cases "op_ifaceName o1 \<noteq> []")
  case True
  obtain q ag1 where q: "attachStatic y ag o1 = (q, ag1)" by fastforce
  note w = assms(2) [unfolded world_def]
  have spec: "wf_knet (ag_net ag1) \<and> ag_mtr ag1 = ag_mtr ag \<and> ag_ifaceVni ag1 = ag_ifaceVni ag \<and>
    (case q of Inl e \<Rightarrow> hooks (ag_net ag1) = hooks (ag_net ag) \<and> ag_fds ag1 = ag_fds ag
     | Inr (d, rs) \<Rightarrow> hooks (ag_net ag1) = hooks (ag_net ag) + owned d \<and> (\<forall>x \<in> set d. wf_release x) \<and>
         (\<exists>i. y_byName y (op_ifaceName o1) = Some i \<and> (\<forall>h \<in># owned d. hook_if h = int i)) \<and>
         mset (ag_fds ag1) = mset (ag_fds ag) + (case rs of None \<Rightarrow> {#} | Some q \<Rightarrow> {#r_fd q#}))"
    by (rule attachStatic_spec [OF q]) (use w True in auto)
  have "apart idx I (hooks (ag_net ag) + owned d)"
    if "y_byName y (op_ifaceName o1) = Some i" "\<forall>h \<in># owned d. hook_if h = int i" for d i
    using that w True by (auto simp: apart_def)
  then show ?thesis using spec assms(1) q True by (cases q) (auto simp: startStatic_def)
qed (use assms in \<open>auto simp: startStatic_def world_def\<close>)

lemma run_inv_start:
  assumes "wf_knet (ag_net ag)" "ag_ifaceVni ag = []" "vxlanWatched (ag_mtr ag) = 0"
    and "rn_tap rn = None \<or> (\<exists>t r tr k x e. rn_tap rn = Some (newTapManager t r tr k x e))"
    and "rn_vx rn = None \<or> (\<exists>x e. rn_vx rn = Some (newVXLANManager x e))"
  shows "run_inv idx I (hooks (ag_net ag)) (mset (ag_fds ag)) (rn, ag)"
proof -
  have tap: "watch_inv idx (hooks (ag_net ag)) (mset (ag_fds ag)) (newTapManager t r tr k x e, ag)" for t r tr k x e
    using kern.ledger_empty [OF assms(1), of ta_detach] by (simp add: watch_inv_def newTapManager_def gomap_simps)
  have empty: "tap_hooks rn = {#}" "tap_socks rn = {#}" "vx_hooks rn = {#}"
    using assms(4,5) by (auto simp: tap_hooks_def tap_socks_def vx_hooks_def newTapManager_def newVXLANManager_def)
  have "mget (vm_attached (newVXLANManager x e)) i = None" for x e i by (simp add: newVXLANManager_def gomap_simps)
  then show ?thesis using assms empty tap newVX_inv [OF assms(1-3)] by (auto simp: run_inv_def split: option.split)
qed

lemma runStart_spec:
  assumes "runStart y ag o1 = (r, ag')" "world y o1 idx I ag"
  shows "case r of Inl e \<Rightarrow> hooks (ag_net ag') = hooks (ag_net ag) \<and> ag_fds ag' = ag_fds ag
    | Inr rn \<Rightarrow> run_inv idx I (hooks (ag_net ag) + static_hooks rn) (mset (ag_fds ag) + static_socks rn) (rn, ag') \<and>
        apart idx I (hooks (ag_net ag) + static_hooks rn) \<and>
        (case rn_static rn of None \<Rightarrow> True | Some (d, rs) \<Rightarrow> \<forall>x \<in> set d. wf_release x)"
proof -
  obtain ok ips where ips: "addLocalIPs (y_putIP y) [] (op_localIPs o1) = (ok, ips)" by fastforce
  define ag1 where "ag1 = (resetObjs ag)\<lparr>ag_config := Some (mkConfig o1), ag_localIps := ips\<rparr>"
  obtain st ag2 where st: "startStatic y ag1 o1 = (st, ag2)" by fastforce
  have same: "ag_net ag1 = ag_net ag" "ag_fds ag1 = ag_fds ag" "ag_mtr ag1 = ag_mtr ag" "ag_ifaceVni ag1 = []"
    by (simp_all add: ag1_def resetObjs_def)
  have w1: "world y o1 idx I ag1" using assms(2) same by (simp add: world_def)
  note spec = startStatic_spec [OF st w1, unfolded same]
  have gauge: "vxlanWatched (ag_mtr ag2) = 0" "ag_ifaceVni ag2 = []" "wf_knet (ag_net ag2)"
    using spec assms(2) by (simp_all add: world_def)
  show ?thesis
  proof (cases "y_memlock y \<and> y_load y \<and> y_putConfig y \<and> ok \<and> y_ringbuf y")
    case False
    then have "\<exists>e. r = Inl e \<and> ag_net ag' = ag_net ag \<and> ag_fds ag' = ag_fds ag" using assms(1) ips
      by (cases ok) (auto simp: runStart_def Let_def resetObjs_def split: if_splits)
    then show ?thesis by auto
  next
    case True
    then have run: "runStart y ag o1 = (case (st, ag2) of (Inl e, ag) \<Rightarrow> (Inl e, resetObjs ag) | (Inr st, ag) \<Rightarrow> (Inr (mkRunning y o1 st), ag))"
      using ips st by (simp add: runStart_def Let_def resetObjs_def ag1_def)
    show ?thesis
    proof (cases st)
      case (Inl e)
      then show ?thesis using assms(1) run spec resetObjs_frame by auto
    next
      case (Inr a)
      define rn where "rn = mkRunning y o1 a"
      have rn: "r = Inr rn" "ag' = ag2" "rn_static rn = a"
          "rn_tap rn = None \<or> (\<exists>t r tr k x e. rn_tap rn = Some (newTapManager t r tr k x e))"
          "rn_vx rn = None \<or> (\<exists>x e. rn_vx rn = Some (newVXLANManager x e))"
        using assms(1) run Inr by (simp_all add: rn_def mkRunning_def) blast+
      have h: "hooks (ag_net ag2) = hooks (ag_net ag) + static_hooks rn" "mset (ag_fds ag2) = mset (ag_fds ag) + static_socks rn"
          "apart idx I (hooks (ag_net ag) + static_hooks rn)" "case a of None \<Rightarrow> True | Some (d, rs) \<Rightarrow> \<forall>x \<in> set d. wf_release x"
        using spec Inr assms(2) rn(3)
        by (auto simp: static_hooks_def static_socks_def world_def split: option.splits)
      show ?thesis
        using run_inv_start [OF gauge(3,2,1) rn(4,5), of idx I] h rn(1-3) by simp
    qed
  qed
qed

section \<open>Properties\<close>

text \<open>
  C5: The agent leaves no trace of its own stop. From the start to the exit, through every early return of the
  start, any interleaving of the two watchers and any operations their goroutines, which are not joined, still make
  between the deferred calls and until the exit, with any answers of the system to attaching, opening sockets
  and registering: a start that fails leaves exactly the links, filters and sockets that were there before; a
  run that stops leaves these and what late operations attached again (the entries of the managers'
  tables at the exit), nothing else. In particular it leaves nothing when no scan completes after the tap manager was
  closed and no link update is handled after the VXLAN manager was closed. This holds provided filters can be
  deleted, the static interface, the taps and the VXLAN devices are different interfaces that carry no hooks at
  the start, and the index of an interface does not change.
\<close>

theorem agent_leaves_no_trace:
  assumes "world y o1 idx I ag" "\<forall>op1 \<in> set (ops @ all_late late). op_ok idx I op1"
    and "stable idx (CloseTaps y ft)" "\<forall>xs. mset (fv xs) = mset xs"
  shows "case run_agent y fv ft o1 ops late ag of
      (Inl e, ag') \<Rightarrow> hooks (ag_net ag') = hooks (ag_net ag) \<and> mset (ag_fds ag') = mset (ag_fds ag)
    | (Inr rn, ag') \<Rightarrow>
        hooks (ag_net ag') = hooks (ag_net ag) + tap_hooks rn + vx_hooks rn \<and>
        mset (ag_fds ag') = mset (ag_fds ag) + tap_socks rn \<and>
        ((\<forall>op1 \<in> set (late_after_taps late). \<not> scans_taps op1) \<longrightarrow> tap_hooks rn = {#} \<and> tap_socks rn = {#}) \<and>
        ((\<forall>op1 \<in> set (all_late late). \<not> updates_vx op1) \<longrightarrow> vx_hooks rn = {#})"
proof -
  obtain r ag1 where r: "runStart y ag o1 = (r, ag1)" by fastforce
  note start = runStart_spec [OF r assms(1)]
  have good: "good_env (y_attach y)" using assms(1) by (simp add: world_def)
  have ok: "\<forall>op1 \<in> set ops. op_ok idx I op1" "\<forall>op1 \<in> set (all_late late). op_ok idx I op1" using assms(2) by simp_all
  show ?thesis
  proof (cases r)
    case (Inl e)
    then show ?thesis using start r by (simp add: run_agent_def)
  next
    case (Inr rn)
    let ?s = "foldl run_step (rn, ag1) ops"
    have "rn_static (fst ?s) = rn_static rn" by (simp add: run_steps_static)
    then have eq: "static_hooks (fst ?s) = static_hooks rn" "static_socks (fst ?s) = static_socks rn"
        "rn_static (fst ?s) = rn_static rn" by (simp_all add: static_hooks_def static_socks_def)
    obtain rn' ag' where s': "runStop y fv ft late ?s = (rn', ag')" by fastforce
    have "run_inv idx I (hooks (ag_net ag)) (mset (ag_fds ag)) (rn', ag')"
      unfolding s' [symmetric]
      by (rule runStop_inv [OF _ _ _ ok(2) good assms(3,4)])
        (use start Inr run_steps_inv [OF _ _ ok(1)] in \<open>simp_all add: eq\<close>)
    then have e: "hooks (ag_net ag') = hooks (ag_net ag) + tap_hooks rn' + vx_hooks rn'"
        "mset (ag_fds ag') = mset (ag_fds ag) + tap_socks rn'" by (simp_all add: run_inv_def)
    note quiet = runStop_quiet [OF ok(2) assms(3), of fv ?s, unfolded s' fst_conv]
    have "run_agent y fv ft o1 ops late ag = (Inr rn', ag')" by (simp add: run_agent_def r Inr s')
    then show ?thesis using e empty_tables(1) [OF quiet(1)] empty_tables(2) [OF quiet(2)] by simp
  qed
qed

definition demo_opts :: opts where
  "demo_opts = \<lparr>op_ifaceName = ''tap1'', op_ifType = 0, op_nodeID = ''n1'', op_respond = True, op_tcpRespond = True,
     op_localIPs = [[10, 0, 0, 9]], op_watch = True, op_watchInterval = 5, op_watchVXLAN = True, op_metricsAddr = [],
     op_hmacKey = [], op_az = [], op_collectorURL = [], op_otlpEndpoint = [], op_xdp = False, op_xdpTCEgress = False\<rparr>"

lemma demo_run_ok:
  "world demo_sys demo_opts (map_of [(''tap0'', 7)]) {9} demo_agent"
  "op_ok (map_of [(''tap0'', 7)]) {9} (TapOp (Scan demo_sys (\<lambda>ks. ks) [demo_port ''tap0'']))"
  "op_ok (map_of [(''tap0'', 7)]) {9} (VxOp demo_sys (Some (vx_dev 9 100)) 16)"
  "op_ok (map_of [(''tap0'', 7)]) {9} (VxClose demo_sys (\<lambda>xs. xs))"
  "stable (map_of [(''tap0'', 7)]) (CloseTaps demo_sys (\<lambda>ks. ks))"
  using demo_world by (simp_all add: world_def apart_def demo_sys_def demo_opts_def free_on_def demo_agent_def metrics0_def
      inj_on_def ran_def stable_def demo_port_def vx_dev_def index_ok_def)

theorem agent_leaves_no_trace_witness:
  "let scan = TapOp (Scan demo_sys (\<lambda>ks. ks) [demo_port ''tap0'']); dev = VxOp demo_sys (Some (vx_dev 9 100)) 16;
       late = ([scan], [VxClose demo_sys (\<lambda>xs. xs)], [], []) in
   \<exists>rn ag'. run_agent demo_sys (\<lambda>xs. xs) (\<lambda>ks. ks) demo_opts [scan, dev] late demo_agent = (Inr rn, ag') \<and>
     hooks (ag_net ag') = {#} \<and> ag_fds ag' = []"
proof -
  let ?scan = "TapOp (Scan demo_sys (\<lambda>ks. ks) [demo_port ''tap0''])" and ?dev = "VxOp demo_sys (Some (vx_dev 9 100)) 16"
  let ?late = "([?scan], [VxClose demo_sys (\<lambda>xs. xs)], [], [])"
  have late: "all_late ?late = [?scan, VxClose demo_sys (\<lambda>xs. xs)]" "late_after_taps ?late = [VxClose demo_sys (\<lambda>xs. xs)]"
    by (simp_all add: all_late_def late_after_taps_def)
  obtain x ag' where x: "run_agent demo_sys (\<lambda>xs. xs) (\<lambda>ks. ks) demo_opts [?scan, ?dev] ?late demo_agent = (x, ag')" by fastforce
  have "case x of Inl e \<Rightarrow> False | Inr rn \<Rightarrow> True"
  proof -
    have "case fst (runStart demo_sys demo_agent demo_opts) of Inl e \<Rightarrow> False | Inr rn \<Rightarrow> True" by code_simp
    then show ?thesis using x by (auto simp: run_agent_def split: prod.splits sum.splits)
  qed
  then obtain rn where rn: "x = Inr rn" by (cases x) auto
  have "ag_fds demo_agent = []" by (simp add: demo_agent_def)
  then show ?thesis
    using agent_leaves_no_trace [OF demo_run_ok(1) _ demo_run_ok(5), of "[?scan, ?dev]" ?late "\<lambda>xs. xs"] demo_run_ok(2-4) x rn demo_world(2)
    by (auto simp: Let_def late index_ok_def)
qed

end
