(* ===== verification/Bpf.thy ===== *)
theory Bpf
  imports Responder_Props Agent
begin

text \<open>
  The eBPF program (\<^verbatim>\<open>bpf/traceflow.c\<close>): the TC and XDP hooks that recognise marked packets, record them in
  the ring buffer and take probes this host answers off the wire. A pointer into the packet is an
  offset into the frame, and \<^verbatim>\<open>data_end\<close> the length of the frame; a load outside the frame is \<open>None\<close>, so
  memory safety is a theorem. Loads of network-order fields are converted to host order where they
  are read, and the constants compared with them are in host order too. The observation a parser
  fills is passed in and out, also when the parser gives up: in auto mode a failed attempt leaves
  its stores behind. \<^verbatim>\<open>struct observation\<close> is the record \<open>Raw\<close> of theory \<open>Observation\<close>.
\<close>

section \<open>Constants, maps and packets\<close>

definition TF_TOS :: byte where [simp]: "TF_TOS = 0xF8"
definition TF_MAGIC :: u32 where [simp]: "TF_MAGIC = 0x54464C4F"
definition TF_TTL_MAX :: byte where [simp]: "TF_TTL_MAX = 255"
definition TF_VXLAN_PORT :: u16 where [simp]: "TF_VXLAN_PORT = 4789"
definition TF_IFACE_REGULAR :: byte where [simp]: "TF_IFACE_REGULAR = 0"
definition TF_IFACE_VXLAN :: byte where [simp]: "TF_IFACE_VXLAN = 1"
definition TF_IFACE_AUTO :: byte where [simp]: "TF_IFACE_AUTO = 2"
definition TF_DIR_INGRESS :: byte where [simp]: "TF_DIR_INGRESS = 0"
definition TF_DIR_EGRESS :: byte where [simp]: "TF_DIR_EGRESS = 1"
definition TF_ACT_FORWARDED :: byte where [simp]: "TF_ACT_FORWARDED = 0"
definition TF_ACT_INTERCEPTED :: byte where [simp]: "TF_ACT_INTERCEPTED = 1"
definition TF_PROTO_ICMP :: byte where [simp]: "TF_PROTO_ICMP = 1"
definition TF_PROTO_TCP :: byte where [simp]: "TF_PROTO_TCP = 6"
definition TF_PROTO_UDP :: byte where [simp]: "TF_PROTO_UDP = 17"
definition TF_PROTO_ICMPV6 :: byte where [simp]: "TF_PROTO_ICMPV6 = 58"
definition TF_MF_DELIVER :: byte where [simp]: "TF_MF_DELIVER = 0x01"
definition TF_MF_NEED_RESPONSE :: byte where [simp]: "TF_MF_NEED_RESPONSE = 0x02"
definition TF_STAT_OBSERVED :: u32 where [simp]: "TF_STAT_OBSERVED = 0"
definition TF_STAT_RINGBUF_FULL :: u32 where [simp]: "TF_STAT_RINGBUF_FULL = 1"
definition ETH_P_IP :: u16 where [simp]: "ETH_P_IP = 0x0800"
definition ETH_P_IPV6 :: u16 where [simp]: "ETH_P_IPV6 = 0x86DD"
definition ETH_P_8021Q :: u16 where [simp]: "ETH_P_8021Q = 0x8100"
definition ETH_P_8021AD :: u16 where [simp]: "ETH_P_8021AD = 0x88A8"

datatype tc_action = TC_ACT_OK | TC_ACT_SHOT
datatype xdp_action = XDP_PASS | XDP_DROP

text \<open>The maps: the configuration (index 0 of an array), the records submitted to the ring buffer, the two
  counters of this CPU, the VNI of a device, the addresses of local VMs.\<close>

record bpf_maps =
  config_map :: "tfConfig option"
  events :: "bytes list"
  stat_observed :: u64
  stat_ringbuf_full :: u64
  iface_vni :: "(u32, u32) gomap"
  local_ips :: "(bytes, byte) gomap"

text \<open>A packet at the TC hook; \<open>sk_tunnel\<close> is the tunnel id the helper reads, \<open>None\<close> when it fails.\<close>

record sk_buff =
  sk_data :: bytes
  sk_ifindex :: u32
  sk_vlan_present :: bool
  sk_vlan_tci :: u32
  sk_tunnel :: "u32 option"

record xdp_md =
  xd_data :: bytes
  xd_ingress_ifindex :: u32

text \<open>What the kernel answers during one invocation: the monotonic clock and whether the ring buffer has
  room.\<close>

record bpf_env =
  ktime :: u64
  ring_room :: bool

definition obs0 :: Raw where
  "obs0 = \<lparr>raw_MetaTimestamp = 0, raw_CaptureNS = 0, raw_ID = make_bytes 16, raw_SrcIP = make_bytes 16,
     raw_DstIP = make_bytes 16, raw_VNI = 0, raw_IfIndex = 0, raw_SrcPort = 0, raw_DstPort = 0, raw_VLANID = 0,
     raw_IPVersion = 0, raw_Hop = 0, raw_Direction = 0, raw_Action = 0, raw_Protocol = 0, raw_TCPFlags = 0,
     raw_IfaceType = 0\<rparr>"

section \<open>Helpers\<close>

definition get_config :: "bpf_maps \<Rightarrow> tfConfig option" where
  "get_config m = config_map m"

definition stat_incr :: "u32 \<Rightarrow> bpf_maps \<Rightarrow> bpf_maps" where
  "stat_incr idx m =
     (if idx = TF_STAT_OBSERVED then m\<lparr>stat_observed := stat_observed m + 1\<rparr>
      else if idx = TF_STAT_RINGBUF_FULL then m\<lparr>stat_ringbuf_full := stat_ringbuf_full m + 1\<rparr>
      else m)"

definition dst_is_local :: "bpf_maps \<Rightarrow> Raw \<Rightarrow> bool" where
  "dst_is_local m obs \<longleftrightarrow> mget (local_ips m) (raw_DstIP obs) \<noteq> None"

section \<open>Parsers\<close>

text \<open>A parser's outcome: matched or not, the observation, the flags of the control block.\<close>

type_synonym parsed = "bool \<times> Raw \<times> byte"

text \<open>The transport header: ports, TCP flags and the offset of the payload.\<close>

definition l4_payload :: "bytes \<Rightarrow> nat \<Rightarrow> byte \<Rightarrow> (u16 \<times> u16 \<times> byte \<times> nat) option go" where
  "l4_payload d l4 proto =
     (if proto = TF_PROTO_ICMP \<or> proto = TF_PROTO_ICMPV6 then
        if length d < l4 + 8 then Some None else Some (Some (0, 0, 0, l4 + 8))
      else if proto = TF_PROTO_UDP then
        if length d < l4 + 8 then Some None
        else do {
          sport \<leftarrow> rdBE16 d l4 (l4 + 2);
          dport \<leftarrow> rdBE16 d (l4 + 2) (l4 + 4);
          Some (Some (sport, dport, 0, l4 + 8)) }
      else if proto = TF_PROTO_TCP then
        if length d < l4 + 20 then Some None
        else do {
          sport \<leftarrow> rdBE16 d l4 (l4 + 2);
          dport \<leftarrow> rdBE16 d (l4 + 2) (l4 + 4);
          tcp_flags \<leftarrow> at d (l4 + 13);
          doff_res \<leftarrow> at d (l4 + 12);
          let doff = unat (drop_bit 4 doff_res) * 4;
          if doff < 20 then Some None else Some (Some (sport, dport, tcp_flags, l4 + doff)) }
      else Some None)"

text \<open>The level-2 filter on the payload, and what a hit stores.\<close>

definition parse_meta :: "bytes \<Rightarrow> nat \<Rightarrow> u16 \<Rightarrow> u16 \<Rightarrow> byte \<Rightarrow> byte \<Rightarrow> Raw \<Rightarrow> byte \<Rightarrow> parsed go" where
  "parse_meta d payload sport dport tcp_flags proto obs mflags =
     (if length d < payload + 30 then Some (False, obs, mflags)
      else do {
        magic \<leftarrow> rdBE32 d payload (payload + 4);
        if magic \<noteq> TF_MAGIC then Some (False, obs, mflags)
        else do {
          timestamp \<leftarrow> (rdLE 8 d (payload + 22) (payload + 30) :: u64 go);
          id16 \<leftarrow> slice d (payload + 4) (payload + 20);
          deliver \<leftarrow> at d (payload + 20);
          need_response \<leftarrow> at d (payload + 21);
          Some (True, obs\<lparr>raw_MetaTimestamp := timestamp, raw_ID := id16, raw_SrcPort := sport,
                          raw_DstPort := dport, raw_TCPFlags := tcp_flags, raw_Protocol := proto\<rparr>,
                (if deliver \<noteq> 0 then TF_MF_DELIVER else 0) OR
                (if need_response \<noteq> 0 then TF_MF_NEED_RESPONSE else 0)) } })"

definition parse_l4_and_meta :: "bytes \<Rightarrow> nat \<Rightarrow> byte \<Rightarrow> Raw \<Rightarrow> byte \<Rightarrow> parsed go" where
  "parse_l4_and_meta d l4 proto obs mflags = do {
     t \<leftarrow> l4_payload d l4 proto;
     case t of None \<Rightarrow> Some (False, obs, mflags)
     | Some (sport, dport, tcp_flags, payload) \<Rightarrow> parse_meta d payload sport dport tcp_flags proto obs mflags }"

definition parse_ipv4 :: "bytes \<Rightarrow> nat \<Rightarrow> Raw \<Rightarrow> byte \<Rightarrow> parsed go" where
  "parse_ipv4 d l3 obs mflags =
     (if length d < l3 + 20 then Some (False, obs, mflags)
      else do {
        tos \<leftarrow> at d (l3 + 1);
        if tos AND 0xFC \<noteq> TF_TOS then Some (False, obs, mflags)
        else do {
          ihl_version \<leftarrow> at d l3;
          if drop_bit 4 ihl_version \<noteq> 4 then Some (False, obs, mflags)
          else do {
            let ihl = unat (ihl_version AND 0x0F) * 4;
            if ihl < 20 then Some (False, obs, mflags)
            else if length d < l3 + ihl then Some (False, obs, mflags)
            else do {
              saddr \<leftarrow> slice d (l3 + 12) (l3 + 16);
              daddr \<leftarrow> slice d (l3 + 16) (l3 + 20);
              ttl \<leftarrow> at d (l3 + 8);
              proto \<leftarrow> at d (l3 + 9);
              let obs = obs\<lparr>raw_IPVersion := 4, raw_SrcIP := copy_range (make_bytes 16) 0 4 saddr,
                            raw_DstIP := copy_range (make_bytes 16) 0 4 daddr, raw_Hop := TF_TTL_MAX - ttl\<rparr>;
              parse_l4_and_meta d (l3 + ihl) proto obs mflags } } } })"

text \<open>The bounded walk over IPv6 extension headers: next header and offset of the header it names.\<close>

fun ext_headers :: "nat \<Rightarrow> bytes \<Rightarrow> byte \<Rightarrow> nat \<Rightarrow> (byte \<times> nat) option go" where
  "ext_headers 0 d nexthdr cur = Some (Some (nexthdr, cur))"
| "ext_headers (Suc n) d nexthdr cur =
     (if nexthdr = TF_PROTO_ICMPV6 \<or> nexthdr = TF_PROTO_TCP \<or> nexthdr = TF_PROTO_UDP then Some (Some (nexthdr, cur))
      else if nexthdr = 0 \<or> nexthdr = 43 \<or> nexthdr = 60 then
        if length d < cur + 2 then Some None
        else do {
          nh \<leftarrow> at d cur;
          len \<leftarrow> at d (cur + 1);
          let cur = cur + (unat len + 1) * 8;
          if length d < cur then Some None else ext_headers n d nh cur }
      else if nexthdr = 44 then
        if length d < cur + 8 then Some None
        else do {
          off \<leftarrow> rdBE16 d (cur + 2) (cur + 4);
          if off AND 0xFFF8 \<noteq> 0 then Some None
          else do { nh \<leftarrow> at d cur; ext_headers n d nh (cur + 8) } }
      else Some (Some (nexthdr, cur)))"

definition parse_ipv6 :: "bytes \<Rightarrow> nat \<Rightarrow> Raw \<Rightarrow> byte \<Rightarrow> parsed go" where
  "parse_ipv6 d l3 obs mflags =
     (if length d < l3 + 40 then Some (False, obs, mflags)
      else do {
        ver_tc \<leftarrow> at d l3;
        if drop_bit 4 ver_tc \<noteq> 6 then Some (False, obs, mflags)
        else do {
          tc_low_flow \<leftarrow> at d (l3 + 1);
          let tc = push_bit 4 (ver_tc AND 0x0F) OR drop_bit 4 tc_low_flow;
          if tc AND 0xFC \<noteq> TF_TOS then Some (False, obs, mflags)
          else do {
            saddr \<leftarrow> slice d (l3 + 8) (l3 + 24);
            daddr \<leftarrow> slice d (l3 + 24) (l3 + 40);
            hop_limit \<leftarrow> at d (l3 + 7);
            let obs = obs\<lparr>raw_IPVersion := 6, raw_SrcIP := saddr, raw_DstIP := daddr, raw_Hop := TF_TTL_MAX - hop_limit\<rparr>;
            next_hdr \<leftarrow> at d (l3 + 6);
            x \<leftarrow> ext_headers 4 d next_hdr (l3 + 40);
            case x of None \<Rightarrow> Some (False, obs, mflags)
            | Some (nexthdr, cur) \<Rightarrow> parse_l4_and_meta d cur nexthdr obs mflags } } })"

text \<open>Ethernet and up to two tags: ethertype, outermost VID, offset of the network header.\<close>

fun parse_l2_tags :: "nat \<Rightarrow> bytes \<Rightarrow> u16 \<Rightarrow> u16 \<Rightarrow> nat \<Rightarrow> (u16 \<times> u16 \<times> nat) option go" where
  "parse_l2_tags 0 d proto vid cur = Some (Some (proto, vid, cur))"
| "parse_l2_tags (Suc n) d proto vid cur =
     (if proto = ETH_P_8021Q \<or> proto = ETH_P_8021AD then
        if length d < cur + 4 then Some None
        else do {
          vid \<leftarrow> (if vid = 0 then do { tci \<leftarrow> rdBE16 d cur (cur + 2); Some (tci AND 0x0FFF) } else Some vid);
          proto \<leftarrow> rdBE16 d (cur + 2) (cur + 4);
          parse_l2_tags n d proto vid (cur + 4) }
      else parse_l2_tags n d proto vid cur)"

definition parse_l2 :: "bytes \<Rightarrow> nat \<Rightarrow> (u16 \<times> u16 \<times> nat) option go" where
  "parse_l2 d off =
     (if length d < off + 14 then Some None
      else do {
        proto \<leftarrow> rdBE16 d (off + 12) (off + 14);
        parse_l2_tags 2 d proto 0 (off + 14) })"

definition parse_l3 :: "bytes \<Rightarrow> nat \<Rightarrow> u16 \<Rightarrow> Raw \<Rightarrow> byte \<Rightarrow> parsed go" where
  "parse_l3 d l3 ethertype obs mflags =
     (if ethertype = ETH_P_IP then parse_ipv4 d l3 obs mflags
      else if ethertype = ETH_P_IPV6 then parse_ipv6 d l3 obs mflags
      else Some (False, obs, mflags))"

text \<open>The outer network header of a VXLAN frame: the offset of the UDP header.\<close>

definition outer_udp :: "bytes \<Rightarrow> nat \<Rightarrow> u16 \<Rightarrow> nat option go" where
  "outer_udp d ol3 oetype =
     (if oetype = ETH_P_IP then
        if length d < ol3 + 20 then Some None
        else do {
          proto \<leftarrow> at d (ol3 + 9);
          if proto \<noteq> TF_PROTO_UDP then Some None
          else do {
            ihl_version \<leftarrow> at d ol3;
            let oihl = unat (ihl_version AND 0x0F) * 4;
            if oihl < 20 then Some None else Some (Some (ol3 + oihl)) } }
      else if oetype = ETH_P_IPV6 then
        if length d < ol3 + 40 then Some None
        else do {
          next_hdr \<leftarrow> at d (ol3 + 6);
          if next_hdr \<noteq> TF_PROTO_UDP then Some None else Some (Some (ol3 + 40)) }
      else Some None)"

text \<open>From the outer UDP header on: port, VXLAN header, inner frame.\<close>

definition parse_vxlan_udp :: "bytes \<Rightarrow> nat \<Rightarrow> Raw \<Rightarrow> byte \<Rightarrow> parsed go" where
  "parse_vxlan_udp d oudp obs mflags =
     (if length d < oudp + 8 then Some (False, obs, mflags)
      else do {
        dest \<leftarrow> rdBE16 d (oudp + 2) (oudp + 4);
        if dest \<noteq> TF_VXLAN_PORT then Some (False, obs, mflags)
        else if length d < oudp + 16 then Some (False, obs, mflags)
        else do {
          flags \<leftarrow> rdBE32 d (oudp + 8) (oudp + 12);
          if flags AND 0x08000000 = 0 then Some (False, obs, mflags)
          else do {
            w \<leftarrow> rdBE32 d (oudp + 12) (oudp + 16);
            il2 \<leftarrow> parse_l2 d (oudp + 16);
            case il2 of None \<Rightarrow> Some (False, obs, mflags)
            | Some (ietype, ivid, il3) \<Rightarrow>
                parse_l3 d il3 ietype
                  (obs\<lparr>raw_IfaceType := TF_IFACE_VXLAN, raw_VNI := drop_bit 8 w, raw_VLANID := ivid\<rparr>) mflags } } })"

definition parse_vxlan :: "bytes \<Rightarrow> Raw \<Rightarrow> byte \<Rightarrow> parsed go" where
  "parse_vxlan d obs mflags = do {
     l2 \<leftarrow> parse_l2 d 0;
     case l2 of None \<Rightarrow> Some (False, obs, mflags)
     | Some (oetype, ovid, ol3) \<Rightarrow> do {
         u \<leftarrow> outer_udp d ol3 oetype;
         case u of None \<Rightarrow> Some (False, obs, mflags)
         | Some oudp \<Rightarrow> parse_vxlan_udp d oudp obs mflags } }"

definition parse_regular :: "bytes \<Rightarrow> Raw \<Rightarrow> byte \<Rightarrow> u16 \<Rightarrow> parsed go" where
  "parse_regular d obs mflags skb_vlan = do {
     l2 \<leftarrow> parse_l2 d 0;
     case l2 of None \<Rightarrow> Some (False, obs, mflags)
     | Some (etype, vid, l3) \<Rightarrow>
         parse_l3 d l3 etype
           (obs\<lparr>raw_IfaceType := TF_IFACE_REGULAR, raw_VNI := 0, raw_VLANID := (if vid = 0 then skb_vlan else vid)\<rparr>) mflags }"

section \<open>The hooks\<close>

text \<open>Mode selection: the VXLAN attempt, then the plain one on what it left behind.\<close>

definition parse_by_mode :: "byte \<Rightarrow> bytes \<Rightarrow> Raw \<Rightarrow> u16 \<Rightarrow> parsed go" where
  "parse_by_mode mode d obs skb_vlan = do {
     (matched, obs, mflags) \<leftarrow> (if mode = TF_IFACE_VXLAN \<or> mode = TF_IFACE_AUTO then parse_vxlan d obs 0
                               else Some (False, obs, 0));
     if \<not> matched \<and> (mode = TF_IFACE_REGULAR \<or> mode = TF_IFACE_AUTO) then parse_regular d obs mflags skb_vlan
     else Some (matched, obs, mflags) }"

definition device_vni :: "bpf_maps \<Rightarrow> u32 \<Rightarrow> Raw \<Rightarrow> Raw" where
  "device_vni m ifidx obs =
     (if raw_VNI obs = 0 then
        (case mget (iface_vni m) ifidx of
           None \<Rightarrow> obs
         | Some vni \<Rightarrow> obs\<lparr>raw_VNI := vni, raw_IfaceType := TF_IFACE_VXLAN\<rparr>)
      else obs)"

definition tunnel_vni :: "u32 option \<Rightarrow> Raw \<Rightarrow> Raw" where
  "tunnel_vni tk obs =
     (if raw_VNI obs = 0 then
        (case tk of
           Some i \<Rightarrow> if i \<noteq> 0 then obs\<lparr>raw_VNI := i, raw_IfaceType := TF_IFACE_VXLAN\<rparr> else obs
         | None \<Rightarrow> obs)
      else obs)"

definition do_drop :: "bpf_maps \<Rightarrow> tfConfig \<Rightarrow> Raw \<Rightarrow> byte \<Rightarrow> bool" where
  "do_drop m cfg obs mflags \<longleftrightarrow>
     mflags AND TF_MF_NEED_RESPONSE \<noteq> 0 \<and> mflags AND TF_MF_DELIVER = 0 \<and> dst_is_local m obs \<and>
     raw_IfaceType obs \<noteq> TF_IFACE_VXLAN \<and> cfg_Respond cfg \<noteq> 0 \<and>
     (raw_Protocol obs \<noteq> TF_PROTO_TCP \<or> cfg_TCPRespond cfg \<noteq> 0)"

definition submit :: "bpf_env \<Rightarrow> bpf_maps \<Rightarrow> Raw \<Rightarrow> bpf_maps" where
  "submit e m obs =
     (if ring_room e then stat_incr TF_STAT_OBSERVED (m\<lparr>events := events m @ [observation_bytes obs]\<rparr>)
      else stat_incr TF_STAT_RINGBUF_FULL m)"

definition bpf_handle :: "bpf_env \<Rightarrow> bpf_maps \<Rightarrow> sk_buff \<Rightarrow> byte \<Rightarrow> (tc_action \<times> bpf_maps) go" where
  "bpf_handle e m skb dir =
     (case get_config m of
        None \<Rightarrow> Some (TC_ACT_OK, m)
      | Some cfg \<Rightarrow>
          let obs = obs0\<lparr>raw_Direction := dir, raw_IfIndex := sk_ifindex skb\<rparr>;
              skb_vlan = (if sk_vlan_present skb then ucast (sk_vlan_tci skb AND 0x0FFF) else 0)
          in do {
            (matched, obs, mflags) \<leftarrow> parse_by_mode (cfg_IfaceType cfg) (sk_data skb) obs skb_vlan;
            if \<not> matched then Some (TC_ACT_OK, m)
            else do {
              let obs = tunnel_vni (sk_tunnel skb) (device_vni m (sk_ifindex skb) obs);
              let drop = do_drop m cfg obs mflags;
              let obs = obs\<lparr>raw_Action := (if drop then TF_ACT_INTERCEPTED else TF_ACT_FORWARDED),
                            raw_CaptureNS := ktime e\<rparr>;
              Some (if drop then TC_ACT_SHOT else TC_ACT_OK, submit e m obs) } })"

definition traceflow_ingress :: "bpf_env \<Rightarrow> bpf_maps \<Rightarrow> sk_buff \<Rightarrow> (tc_action \<times> bpf_maps) go" where
  "traceflow_ingress e m skb = bpf_handle e m skb TF_DIR_INGRESS"

definition traceflow_egress :: "bpf_env \<Rightarrow> bpf_maps \<Rightarrow> sk_buff \<Rightarrow> (tc_action \<times> bpf_maps) go" where
  "traceflow_egress e m skb = bpf_handle e m skb TF_DIR_EGRESS"

definition traceflow_xdp :: "bpf_env \<Rightarrow> bpf_maps \<Rightarrow> xdp_md \<Rightarrow> (xdp_action \<times> bpf_maps) go" where
  "traceflow_xdp e m ctx =
     (case get_config m of
        None \<Rightarrow> Some (XDP_PASS, m)
      | Some cfg \<Rightarrow>
          let obs = obs0\<lparr>raw_Direction := TF_DIR_INGRESS, raw_IfIndex := xd_ingress_ifindex ctx\<rparr>
          in do {
            (matched, obs, mflags) \<leftarrow> parse_by_mode (cfg_IfaceType cfg) (xd_data ctx) obs 0;
            if \<not> matched then Some (XDP_PASS, m)
            else do {
              let obs = device_vni m (xd_ingress_ifindex ctx) obs;
              let drop = do_drop m cfg obs mflags;
              let obs = obs\<lparr>raw_Action := (if drop then TF_ACT_INTERCEPTED else TF_ACT_FORWARDED),
                            raw_CaptureNS := ktime e\<rparr>;
              Some (if drop then XDP_DROP else XDP_PASS, submit e m obs) } })"

end
