(* ===== verification/Bpf_Views.thy ===== *)
theory Bpf_Views
  imports Bpf
begin

text \<open>
  The parsers of the eBPF program read a frame as the agent's parsers do: equations that express each C
  parser by the views of theories \<open>Frames\<close> and \<open>Responder_Correct\<close>, from which memory safety and the
  agreement of data path and responder follow.
\<close>

section \<open>The control block\<close>

text \<open>What a marked segment adds to an observation, and the two flags as C reads them (any nonzero byte).\<close>

definition obs_l4 :: "byte \<Rightarrow> bytes \<Rightarrow> Meta \<Rightarrow> Raw \<Rightarrow> Raw" where
  "obs_l4 proto seg mt obs = obs\<lparr>raw_MetaTimestamp := Timestamp mt, raw_ID := ID mt,
     raw_SrcPort := (if proto = 6 \<or> proto = 17 then be16_at seg 0 else 0),
     raw_DstPort := (if proto = 6 \<or> proto = 17 then be16_at seg 2 else 0),
     raw_TCPFlags := (if proto = 6 then seg ! 13 else 0), raw_Protocol := proto\<rparr>"

definition meta_flags :: "bytes \<Rightarrow> byte" where
  "meta_flags p = (if p ! 20 \<noteq> 0 then 1 else 0) OR (if p ! 21 \<noteq> 0 then 2 else 0)"

lemma nth_at_drop: "l + i < length d \<Longrightarrow> drop l d ! i = d ! (l + i)" for d :: bytes
  by simp

lemma be16_at_drop: "n + lo + 2 \<le> length b \<Longrightarrow> be16_at (drop n b) lo = be16_at b (n + lo)"
  by (simp add: be16_at_def)

lemma decode_meta_eq:
  "decode_meta b = (if length b < 30 \<or> be32_at b 0 \<noteq> Magic then None
     else Some \<lparr>ID = take 16 (drop 4 b), Deliver = (b ! 20 = 1), NeedResponse = (b ! 21 = 1),
                Timestamp = le_val (take 8 (drop 22 b))\<rparr>)"
  by (simp add: decode_meta_def Unmarshal_eq be32_at_iff)

lemma parse_meta_eq:
  assumes "q \<le> length d"
  shows "parse_meta d q sp dp fl pr obs mf = Some (case decode_meta (drop q d) of None \<Rightarrow> (False, obs, mf)
     | Some mt \<Rightarrow> (True, obs\<lparr>raw_MetaTimestamp := Timestamp mt, raw_ID := ID mt, raw_SrcPort := sp,
         raw_DstPort := dp, raw_TCPFlags := fl, raw_Protocol := pr\<rparr>, meta_flags (drop q d)))"
proof (cases "length d < q + 30")
  case True
  then have "length (drop q d) < 30" using assms by auto
  then show ?thesis using True by (simp add: parse_meta_def decode_meta_eq)
next
  case False
  then have "\<not> length (drop q d) < 30" "be32_at (drop q d) 0 = be32_at d q" by (auto simp: be32_at_drop)
  then show ?thesis
    using False by (simp add: parse_meta_def decode_meta_eq Magic_def rdLE_in meta_flags_def add.commute)
qed

lemma parse_l4_eq:
  assumes "l4 \<le> length d"
  shows "parse_l4_and_meta d l4 proto obs mf = Some (case payload_of proto (drop l4 d) of
       None \<Rightarrow> (False, obs, mf)
     | Some p \<Rightarrow> (case decode_meta p of None \<Rightarrow> (False, obs, mf)
                 | Some mt \<Rightarrow> (True, obs_l4 proto (drop l4 d) mt obs, meta_flags p)))"
proof -
  let ?seg = "drop l4 d"
  have short: "length ?seg < n \<longleftrightarrow> length d < l4 + n" for n using assms by auto
  consider (echo) "proto = 1 \<or> proto = 58" | (udp) "proto = 17" | (tcp) "proto = 6"
    | (other) "proto \<notin> {1, 58, 17, 6}" by auto
  then show ?thesis
  proof cases
    case echo
    then show ?thesis using short [of 8]
      by (cases "length d < l4 + 8"; elim disjE)
        (simp_all add: parse_l4_and_meta_def l4_payload_def payload_of_def parse_meta_eq obs_l4_def
          add.commute [of 8 l4] del: length_drop split: option.split)
  next
    case udp
    have "be16_at ?seg 0 = be16_at d l4" "be16_at ?seg 2 = be16_at d (l4 + 2)" if "\<not> length d < l4 + 8"
      using that by (simp_all add: be16_at_drop)
    with udp short [of 8] show ?thesis
      by (cases "length d < l4 + 8")
        (simp_all add: parse_l4_and_meta_def l4_payload_def payload_of_def parse_meta_eq obs_l4_def
          add.commute [of _ l4] del: length_drop split: option.split)
  next
    case tcp
    show ?thesis
    proof (cases "length d < l4 + 20")
      case True
      then show ?thesis using short [of 20] tcp
        by (simp add: parse_l4_and_meta_def l4_payload_def payload_of_def Let_def del: length_drop)
    next
      case False
      let ?doff = "unat (drop_bit 4 (d ! (l4 + 12))) * 4"
      have n: "?seg ! 12 = d ! (l4 + 12)" "?seg ! 13 = d ! (l4 + 13)"
        "be16_at ?seg 0 = be16_at d l4" "be16_at ?seg 2 = be16_at d (l4 + 2)"
        using False by (simp_all add: be16_at_drop)
      note facts = False tcp n short [of 20] short [of ?doff]
      consider "?doff < 20" | "\<not> ?doff < 20" "length d < l4 + ?doff" | "\<not> ?doff < 20" "l4 + ?doff \<le> length d" by linarith
      then show ?thesis
      proof cases
        case 1
        with facts show ?thesis by (simp add: parse_l4_and_meta_def l4_payload_def payload_of_def Let_def del: length_drop)
      next
        case 2
        with facts show ?thesis
          by (simp add: parse_l4_and_meta_def l4_payload_def payload_of_def parse_meta_def Let_def del: length_drop)
      next
        case 3
        with facts show ?thesis
          by (simp add: parse_l4_and_meta_def l4_payload_def payload_of_def parse_meta_eq obs_l4_def Let_def
              add.commute [of _ l4] del: length_drop split: option.split)
      qed
    qed
  next
    case other
    then show ?thesis by (simp add: parse_l4_and_meta_def l4_payload_def payload_of_def)
  qed
qed

section \<open>Ethernet\<close>

lemma parse_l2_tags_plain:
  "proto \<noteq> 0x8100 \<Longrightarrow> proto \<noteq> 0x88A8 \<Longrightarrow> parse_l2_tags n d proto vid cur = Some (Some (proto, vid, cur))"
  by (induction n) simp_all

lemma parse_l2_tags_eq:
  assumes "off + k \<le> length d" "parseL2_tags n (drop off d) et k vid = Some r"
  shows "parse_l2_tags n d et vid (off + k) = Some (map_option (\<lambda>(et, o', v). (et, v, off + o')) r)"
  using assms
proof (induction n arbitrary: et k vid)
  case (Suc n)
  show ?case
  proof (cases "(et = 0x8100 \<or> et = 0x88A8) \<and> off + k + 4 \<le> length d")
    case True
    have b: "be16_at (drop off d) k = be16_at d (off + k)" "be16_at (drop off d) (k + 2) = be16_at d (off + k + 2)"
      using True by (simp_all add: be16_at_drop add.assoc)
    from True Suc.prems b
    have "parseL2_tags n (drop off d) (be16_at d (off + k + 2)) (k + 4)
        (if vid = 0 then be16_at d (off + k) AND 0x0FFF else vid) = Some r" (is "parseL2_tags n _ ?et' _ ?v = _")
      by (auto simp: EtherTypeVLAN_def split: if_splits)
    from Suc.IH [OF _ this] True
    have "parse_l2_tags n d ?et' ?v (off + (k + 4)) = Some (map_option (\<lambda>(et, o', v). (et, v, off + o')) r)" by simp
    with True show ?thesis by (auto simp: add.assoc)
  next
    case False
    show ?thesis
    proof (cases "et = 0x8100 \<or> et = 0x88A8")
      case True
      with False have "length (drop off d) < k + 4" "length d < off + k + 4" using Suc.prems(1) by auto
      with Suc.prems True show ?thesis by (auto simp: EtherTypeVLAN_def)
    next
      case False
      with Suc.prems show ?thesis by (auto simp: EtherTypeVLAN_def parse_l2_tags_plain)
    qed
  qed
qed auto

text \<open>Both parsers accept the same frames and find the same network header.\<close>

lemma parse_l2_eq:
  assumes "off \<le> length d"
  shows "\<exists>x. parse_l2 d off = Some x \<and>
    (case parseL2 (drop off d) of
       Some (Some l2) \<Rightarrow> \<exists>l3. x = Some (l2_etherType l2, l2_vlan l2, l3) \<and> l3 \<le> length d \<and> drop l3 d = l2_l3 l2
     | _ \<Rightarrow> x = None)"
proof (cases "length d < off + 14")
  case True
  then have "length (drop off d) < 14" using assms by auto
  then show ?thesis using True by (simp add: parse_l2_def parseL2_def)
next
  case False
  let ?f = "drop off d"
  have len: "14 \<le> length ?f" using False by auto
  have et: "be16_at ?f 12 = be16_at d (off + 12)" using False by (simp add: be16_at_drop)
  obtain r where r: "parseL2_tags 2 ?f (be16_at ?f 12) 14 0 = Some r"
    and lim: "\<forall>et' off' vlan'. r = Some (et', off', vlan') \<longrightarrow> off' \<le> length ?f"
    using parseL2_tags_total [of 14 ?f 2 "be16_at ?f 12" 0] len by blast
  have p: "parse_l2 d off = Some (map_option (\<lambda>(et, o', v). (et, v, off + o')) r)"
    using False parse_l2_tags_eq [OF _ r] et by (simp add: parse_l2_def)
  show ?thesis
  proof (cases r)
    case None
    then show ?thesis using False r p by (simp add: parseL2_def)
  next
    case (Some t)
    obtain et' off' v where t: "t = (et', off', v)" by (cases t)
    with Some lim have "off' \<le> length ?f" by simp
    then show ?thesis using False r p Some t assms by (auto simp: parseL2_def add.commute)
  qed
qed

section \<open>IP\<close>

lemma ext_headers_shift:
  assumes "off + k \<le> length d"
  shows "\<exists>r. ext_headers n (drop off d) nh k = Some r \<and>
    ext_headers n d nh (off + k) = Some (map_option (\<lambda>(nh, c). (nh, off + c)) r) \<and>
    (\<forall>nh' c. r = Some (nh', c) \<longrightarrow> off + c \<le> length d)"
  using assms
proof (induction n arbitrary: nh k)
  case (Suc n)
  let ?f = "drop off d"
  have short: "length ?f < x \<longleftrightarrow> length d < off + x" for x using Suc.prems by auto
  consider (stop) "nh \<notin> {0, 43, 60, 44}" | (opt) "nh = 0 \<or> nh = 43 \<or> nh = 60" | (frag) "nh = 44" by auto
  then show ?case
  proof cases
    case stop
    then show ?thesis using Suc.prems by simp
  next
    case opt
    show ?thesis
    proof (cases "length d < off + (k + 2)")
      case True
      with opt short [of "k + 2"] show ?thesis by (auto simp del: length_drop)
    next
      case False
      then have n: "at ?f k = Some (d ! (off + k))" "at ?f (k + 1) = Some (d ! (off + k + 1))"
        "at d (off + k) = Some (d ! (off + k))" "at d (off + k + 1) = Some (d ! (off + k + 1))" by (auto simp: at_def)
      let ?k = "k + (unat (d ! (off + k + 1)) + 1) * 8"
      show ?thesis
      proof (cases "length d < off + ?k")
        case True
        with opt False n short [of "k + 2"] short [of ?k] show ?thesis by (auto simp: Let_def add.assoc simp del: length_drop)
      next
        case in_range: False
        with Suc.IH [of ?k "d ! (off + k)"] opt False n short [of "k + 2"] short [of ?k] show ?thesis
          by (auto simp: Let_def add.assoc simp del: length_drop)
      qed
    qed
  next
    case frag
    show ?thesis
    proof (cases "length d < off + (k + 8)")
      case True
      with frag short [of "k + 8"] show ?thesis by (simp del: length_drop)
    next
      case False
      then have n: "at ?f k = Some (d ! (off + k))" "at d (off + k) = Some (d ! (off + k))"
        "rdBE16 ?f (k + 2) (k + 4) = Some (be16_at d (off + k + 2))"
        "rdBE16 d (off + k + 2) (off + k + 4) = Some (be16_at d (off + k + 2))" by (auto simp: be16_at_drop add.assoc)
      with Suc.IH [of "k + 8" "d ! (off + k)"] frag False short [of "k + 8"] show ?thesis
        by (auto simp: add.assoc simp del: length_drop)
    qed
  qed
qed auto

text \<open>A network packet as the eBPF program reads it: as the agent does, with the version checked and the
  transport header found behind IPv6 extension headers.\<close>

type_synonym packet_view = "byte \<times> bytes \<times> bytes \<times> byte \<times> bytes \<times> bool"

definition bpf_view :: "u16 \<Rightarrow> bytes \<Rightarrow> packet_view option" where
  "bpf_view et l3 =
     (case net_view et l3 of
        None \<Rightarrow> None
      | Some (tos, src, dst, proto, seg, v6) \<Rightarrow>
          if drop_bit 4 (l3 ! 0) \<noteq> (if v6 then 6 else 4) then None
          else if v6 then
            (case ext_headers 4 l3 proto 40 of Some (Some (nh, cur)) \<Rightarrow> Some (tos, src, dst, nh, drop cur l3, v6) | _ \<Rightarrow> None)
          else Some (tos, src, dst, proto, seg, v6))"

text \<open>A marked packet: the traffic class carries the mark and the payload starts with a control block.\<close>

definition marked :: "packet_view option \<Rightarrow> (bytes \<times> bytes \<times> byte \<times> bytes \<times> bool \<times> bytes \<times> Meta) option" where
  "marked v = (case v of None \<Rightarrow> None
     | Some (tos, src, dst, proto, seg, v6) \<Rightarrow>
         if tos AND 0xFC \<noteq> 0xF8 then None
         else (case payload_of proto seg of None \<Rightarrow> None
               | Some p \<Rightarrow> (case decode_meta p of None \<Rightarrow> None
                           | Some mt \<Rightarrow> Some (src, dst, proto, seg, v6, p, mt))))"

definition obs_net :: "bool \<Rightarrow> bytes \<Rightarrow> bytes \<Rightarrow> bytes \<Rightarrow> Raw \<Rightarrow> Raw" where
  "obs_net v6 src dst l3 obs = obs\<lparr>raw_IPVersion := (if v6 then 6 else 4), raw_SrcIP := pad 16 src,
     raw_DstIP := pad 16 dst, raw_Hop := 255 - (if v6 then l3 ! 7 else l3 ! 8)\<rparr>"

text \<open>The fields no parser stores to.\<close>

definition same_origin :: "Raw \<Rightarrow> Raw \<Rightarrow> bool" where
  "same_origin o1 o2 \<longleftrightarrow> raw_Direction o1 = raw_Direction o2 \<and> raw_IfIndex o1 = raw_IfIndex o2 \<and>
     raw_Action o1 = raw_Action o2 \<and> raw_CaptureNS o1 = raw_CaptureNS o2"

definition l3_outcome :: "u16 \<Rightarrow> bytes \<Rightarrow> Raw \<Rightarrow> byte \<Rightarrow> parsed go \<Rightarrow> bool" where
  "l3_outcome et l3 obs mf r \<longleftrightarrow>
     (case marked (bpf_view et l3) of
        None \<Rightarrow> \<exists>obs'. r = Some (False, obs', mf) \<and> same_origin obs' obs
      | Some (src, dst, proto, seg, v6, p, mt) \<Rightarrow>
          r = Some (True, obs_l4 proto seg mt (obs_net v6 src dst l3 obs), meta_flags p))"

lemma same_origin_refl [simp]: "same_origin obs obs"
  by (simp add: same_origin_def)

lemma same_origin_net [simp]: "same_origin (obs_net v6 src dst l3 obs) obs"
  by (simp add: same_origin_def obs_net_def)

lemma l3_outcome_reject:
  "marked (bpf_view et l3) = None \<Longrightarrow> l3_outcome et l3 obs mf (Some (False, obs, mf))"
  by (simp add: l3_outcome_def)

lemma l3_outcome_l4:
  assumes "bpf_view et l3 = Some (tos, src, dst, proto, seg, v6)" "tos AND 0xFC = 0xF8"
  shows "l3_outcome et l3 obs mf (Some (case payload_of proto seg of
       None \<Rightarrow> (False, obs_net v6 src dst l3 obs, mf)
     | Some p \<Rightarrow> (case decode_meta p of None \<Rightarrow> (False, obs_net v6 src dst l3 obs, mf)
                 | Some mt \<Rightarrow> (True, obs_l4 proto seg mt (obs_net v6 src dst l3 obs), meta_flags p))))"
  using assms by (auto simp: l3_outcome_def marked_def split: option.split)

lemma parse_ipv4_outcome:
  assumes "off \<le> length d"
  shows "l3_outcome 0x0800 (drop off d) obs mf (parse_ipv4 d off obs mf)"
proof (cases "length d < off + 20")
  case True
  then have "length (drop off d) < 20" using assms by auto
  then have "net_view 0x0800 (drop off d) = None" by (simp add: net_view_def parseIPv4_eq Let_def)
  then show ?thesis using True by (auto simp: parse_ipv4_def bpf_view_def marked_def intro!: l3_outcome_reject)
next
  case False
  let ?l3 = "drop off d"
  have n: "?l3 ! i = d ! (off + i)" if "i < 20" for i using False that by simp
  have len: "\<not> length ?l3 < 20" "length ?l3 < k \<longleftrightarrow> length d < off + k" for k using False by auto
  let ?ihl = "unat (d ! off AND 0x0F) * 4"
  have v: "net_view 0x0800 ?l3 = (if ?ihl < 20 \<or> length d < off + ?ihl then None
      else Some (d ! (off + 1), take 4 (drop (off + 12) d), take 4 (drop (off + 16) d), d ! (off + 9), drop (off + ?ihl) d, False))"
    using False len n [of 0] n [of 1] n [of 9]
    by (simp add: net_view_def parseIPv4_eq Let_def add.commute [of _ off] del: length_drop)
  have r: "parse_ipv4 d off obs mf =
      (if d ! (off + 1) AND 0xFC \<noteq> 0xF8 \<or> drop_bit 4 (d ! off) \<noteq> 4 \<or> ?ihl < 20 \<or> length d < off + ?ihl then Some (False, obs, mf)
       else parse_l4_and_meta d (off + ?ihl) (d ! (off + 9))
         (obs_net False (take 4 (drop (off + 12) d)) (take 4 (drop (off + 16) d)) ?l3 obs) mf)"
    using False n [of 8] by (simp add: parse_ipv4_def Let_def obs_net_def copy_range_def copy_from_def pad_def make_bytes_def)
  show ?thesis
  proof (cases "d ! (off + 1) AND 0xFC \<noteq> 0xF8 \<or> drop_bit 4 (d ! off) \<noteq> 4 \<or> ?ihl < 20 \<or> length d < off + ?ihl")
    case True
    then have "marked (bpf_view 0x0800 ?l3) = None" using v n [of 0] by (auto simp: bpf_view_def marked_def)
    with True r show ?thesis by (simp add: l3_outcome_reject)
  next
    case in_range: False
    then have "bpf_view 0x0800 ?l3 = Some (d ! (off + 1), take 4 (drop (off + 12) d), take 4 (drop (off + 16) d), d ! (off + 9), drop (off + ?ihl) d, False)"
      using v n [of 0] by (simp add: bpf_view_def)
    from l3_outcome_l4 [OF this] in_range r show ?thesis by (simp add: parse_l4_eq)
  qed
qed

lemma parse_ipv6_outcome:
  assumes "off \<le> length d"
  shows "l3_outcome 0x86DD (drop off d) obs mf (parse_ipv6 d off obs mf)"
proof (cases "length d < off + 40")
  case True
  then have "length (drop off d) < 40" using assms by auto
  then have "net_view 0x86DD (drop off d) = None" by (simp add: net_view_def parseIPv6_eq)
  then show ?thesis using True by (auto simp: parse_ipv6_def bpf_view_def marked_def intro!: l3_outcome_reject)
next
  case False
  let ?l3 = "drop off d"
  have n: "?l3 ! i = d ! (off + i)" if "i < 40" for i using False that by simp
  have len: "\<not> length ?l3 < 40" using False by auto
  let ?tc = "push_bit 4 (d ! off AND 0x0F) OR drop_bit 4 (d ! (off + 1))"
  let ?s = "take 16 (drop (off + 8) d)" and ?t = "take 16 (drop (off + 24) d)"
  have v: "net_view 0x86DD ?l3 = Some (?tc, ?s, ?t, d ! (off + 6), drop (off + 40) d, True)"
    using len n [of 0] n [of 1] n [of 6]
    by (simp add: net_view_def parseIPv6_eq add.commute [of _ off] del: length_drop)
  obtain x where x: "ext_headers 4 ?l3 (d ! (off + 6)) 40 = Some x"
      "ext_headers 4 d (d ! (off + 6)) (off + 40) = Some (map_option (\<lambda>(nh, c). (nh, off + c)) x)"
      "\<forall>nh' c. x = Some (nh', c) \<longrightarrow> off + c \<le> length d"
    using ext_headers_shift [of off 40 d 4 "d ! (off + 6)"] False by auto
  have pd: "pad 16 ?s = ?s" "pad 16 ?t = ?t" using False by (auto simp: pad_def)
  let ?o = "obs_net True ?s ?t ?l3 obs"
  have r: "parse_ipv6 d off obs mf =
      (if drop_bit 4 (d ! off) \<noteq> 6 \<or> ?tc AND 0xFC \<noteq> 0xF8 then Some (False, obs, mf)
       else (case x of None \<Rightarrow> Some (False, ?o, mf)
             | Some (nh, c) \<Rightarrow> parse_l4_and_meta d (off + c) nh ?o mf))"
    using False n [of 7] x(2) pd by (cases x) (auto simp: parse_ipv6_def Let_def obs_net_def)
  show ?thesis
  proof (cases "drop_bit 4 (d ! off) \<noteq> 6 \<or> ?tc AND 0xFC \<noteq> 0xF8")
    case True
    then have "marked (bpf_view 0x86DD ?l3) = None" using v n [of 0] by (auto simp: bpf_view_def marked_def split: option.split)
    with True r show ?thesis by (simp add: l3_outcome_reject)
  next
    case ok: False
    show ?thesis
    proof (cases x)
      case None
      then have "marked (bpf_view 0x86DD ?l3) = None" using v x(1) by (auto simp: bpf_view_def marked_def)
      then show ?thesis using None ok r by (auto simp: l3_outcome_def)
    next
      case (Some y)
      obtain nh c where y: "x = Some (nh, c)" using Some by (cases y) auto
      then have "bpf_view 0x86DD ?l3 = Some (?tc, ?s, ?t, nh, drop (off + c) d, True)"
        using v x(1) ok n [of 0] by (simp add: bpf_view_def add.commute [of _ off])
      from l3_outcome_l4 [OF this] ok r y x(3) show ?thesis by (simp add: parse_l4_eq)
    qed
  qed
qed

lemma parse_l3_outcome:
  assumes "off \<le> length d"
  shows "l3_outcome et (drop off d) obs mf (parse_l3 d off et obs mf)"
proof (cases "et = 0x0800 \<or> et = 0x86DD")
  case True
  then show ?thesis using assms by (auto simp: parse_l3_def parse_ipv4_outcome parse_ipv6_outcome)
next
  case False
  then have "net_view et (drop off d) = None" by (simp add: net_view_def EtherTypeIPv4_def EtherTypeIPv6_def)
  then show ?thesis using False by (auto simp: parse_l3_def bpf_view_def marked_def intro!: l3_outcome_reject)
qed

end
