(* ===== verification/Bpf_Props.thy ===== *)
theory Bpf_Props
  imports Bpf_Views
begin

text \<open>
  The eBPF program as a whole: an abstract classifier (\<open>classify\<close>, written over the agent's own view of
  a frame) that both hooks implement, what a record says of the packet, and the division of labour
  between the data path, which takes a probe off the wire, and the responder, which answers it.
\<close>

section \<open>The abstract classifier\<close>

text \<open>The observation of a marked packet found at a network header, and the flags of its control block.\<close>

definition observe :: "u16 \<Rightarrow> bytes \<Rightarrow> Raw \<Rightarrow> (Raw \<times> byte) option" where
  "observe et l3 obs = (case marked (bpf_view et l3) of None \<Rightarrow> None
     | Some (src, dst, proto, seg, v6, p, mt) \<Rightarrow>
         Some (obs_l4 proto seg mt (obs_net v6 src dst l3 obs), meta_flags p))"

definition observe_regular :: "bytes \<Rightarrow> u16 \<Rightarrow> Raw \<Rightarrow> (Raw \<times> byte) option" where
  "observe_regular d offloaded obs = (case parseL2 d of
       Some (Some l2) \<Rightarrow> observe (l2_etherType l2) (l2_l3 l2)
         (obs\<lparr>raw_IfaceType := 0, raw_VNI := 0, raw_VLANID := orVlan (l2_vlan l2) offloaded\<rparr>)
     | _ \<Rightarrow> None)"

definition observe_vxlan :: "bytes \<Rightarrow> Raw \<Rightarrow> (Raw \<times> byte) option" where
  "observe_vxlan d obs = (case vxlan_view d of
       Some (oL2, osrc, odst, vni, iL2) \<Rightarrow> observe (l2_etherType iL2) (l2_l3 iL2)
         (obs\<lparr>raw_IfaceType := 1, raw_VNI := vni, raw_VLANID := l2_vlan iL2\<rparr>)
     | None \<Rightarrow> None)"

definition classify :: "byte \<Rightarrow> bytes \<Rightarrow> u16 \<Rightarrow> Raw \<Rightarrow> (Raw \<times> byte) option" where
  "classify mode d offloaded obs =
     (if mode = 0 then observe_regular d offloaded obs
      else if mode = 1 then observe_vxlan d obs
      else if mode = 2 then
        (case observe_vxlan d obs of Some x \<Rightarrow> Some x | None \<Rightarrow> observe_regular d offloaded obs)
      else None)"

section \<open>The parsers implement it\<close>

definition implements :: "parsed go \<Rightarrow> Raw \<Rightarrow> byte \<Rightarrow> (Raw \<times> byte) option \<Rightarrow> bool" where
  "implements r obs mf spec \<longleftrightarrow>
     (case spec of None \<Rightarrow> \<exists>obs'. r = Some (False, obs', mf) \<and> same_origin obs' obs
      | Some (obs', f) \<Rightarrow> r = Some (True, obs', f))"

lemma implements_reject: "same_origin obs' obs \<Longrightarrow> implements (Some (False, obs', mf)) obs mf None"
  by (simp add: implements_def)

lemma observe_implemented:
  assumes "off \<le> length d" "same_origin obs1 obs"
  shows "implements (parse_l3 d off et obs1 mf) obs mf (observe et (drop off d) obs1)"
  using parse_l3_outcome [OF assms(1), of et obs1 mf] assms(2)
  by (auto simp: l3_outcome_def observe_def implements_def same_origin_def split: option.splits)

lemma observe_cong:
  assumes "same_origin obs1 obs"
  shows "observe et l3 (obs1\<lparr>raw_IfaceType := t, raw_VNI := v, raw_VLANID := vl\<rparr>) =
         observe et l3 (obs\<lparr>raw_IfaceType := t, raw_VNI := v, raw_VLANID := vl\<rparr>)"
  using assms by (cases obs1; cases obs)
    (auto simp: observe_def obs_l4_def obs_net_def same_origin_def split: option.split)

lemma vlan_choice: "(if a = 0 then b else a) = orVlan a b"
  by (simp add: orVlan_def)

lemma parse_regular_implements:
  assumes "same_origin obs1 obs"
  shows "implements (parse_regular d obs1 mf v) obs mf (observe_regular d v obs)"
proof -
  obtain x where x: "parse_l2 d 0 = Some x"
    "case parseL2 d of
       Some (Some l2) \<Rightarrow> \<exists>l3. x = Some (l2_etherType l2, l2_vlan l2, l3) \<and> l3 \<le> length d \<and> drop l3 d = l2_l3 l2
     | _ \<Rightarrow> x = None" using parse_l2_eq [of 0 d] by auto
  obtain r where r: "parseL2 d = Some r" using parseL2_total by blast
  show ?thesis
  proof (cases r)
    case None
    then show ?thesis using x r assms by (simp add: parse_regular_def observe_regular_def implements_reject)
  next
    case (Some l2)
    then obtain l3 where l3: "x = Some (l2_etherType l2, l2_vlan l2, l3)" "l3 \<le> length d" "drop l3 d = l2_l3 l2"
      using x(2) r by auto
    let ?o = "obs1\<lparr>raw_IfaceType := 0, raw_VNI := 0, raw_VLANID := orVlan (l2_vlan l2) v\<rparr>"
    have "same_origin ?o obs" using assms by (simp add: same_origin_def)
    from observe_implemented [OF l3(2) this, of "l2_etherType l2" mf] show ?thesis
      using x(1) r Some l3 observe_cong [OF assms] vlan_choice [of "l2_vlan l2" v]
      by (simp add: parse_regular_def observe_regular_def)
  qed
qed

lemma vxlan_flag: "u32be a b c d AND 0x08000000 = 0 \<longleftrightarrow> a AND 0x08 = 0"
proof -
  have "(w AND 0x08000000 = 0) = (\<not> bit w 27)" for w :: u32
    using and_exp_eq_0_iff_not_bit [of w 27] by simp
  moreover have "(a AND 0x08 = 0) = (\<not> bit a 3)"
    using and_exp_eq_0_iff_not_bit [of a 3] by simp
  moreover have "bit (u32be a b c d) 27 = bit a 3"
    by (simp add: u32be_def bit_simps)
  ultimately show ?thesis by simp
qed

lemma outer_udp_eq:
  assumes "off \<le> length d"
  shows "\<exists>u. outer_udp d off et = Some u \<and>
    (case outerUDP et (drop off d) of
       Some (Some (s, t, l4)) \<Rightarrow> \<exists>q. u = Some q \<and> q \<le> length d \<and> drop q d = l4
     | _ \<Rightarrow> u = None \<or> (\<exists>q. u = Some q \<and> length d < q))"
proof -
  let ?l3 = "drop off d"
  have len: "length ?l3 < k \<longleftrightarrow> length d < off + k" for k using assms by auto
  consider (v4) "et = 0x0800" | (v6) "et = 0x86DD" | (other) "et \<noteq> 0x0800" "et \<noteq> 0x86DD" by blast
  then show ?thesis
  proof cases
    case v4
    have "?l3 ! 0 = d ! off" "?l3 ! 9 = d ! (off + 9)" if "\<not> length d < off + 20" using that by simp_all
    then show ?thesis using v4 len [of 20] len
      by (cases "length d < off + 20")
        (auto simp: outer_udp_def outerUDP_def parseIPv4_eq Let_def add.commute [of _ off] simp del: length_drop)
  next
    case v6
    have "?l3 ! 6 = d ! (off + 6)" if "\<not> length d < off + 40" using that by simp
    then show ?thesis using v6 len [of 40]
      by (cases "length d < off + 40")
        (auto simp: outer_udp_def outerUDP_def parseIPv6_eq add.commute [of _ off] simp del: length_drop)
  next
    case other
    then show ?thesis by (simp add: outer_udp_def outerUDP_def)
  qed
qed

text \<open>What follows the outer UDP header, as \<open>vxlan_view\<close> reads it.\<close>

definition vxlan_inner :: "bytes \<Rightarrow> (u32 \<times> l2info) option" where
  "vxlan_inner l4 =
     (if length l4 < 16 \<or> be16_at l4 2 \<noteq> 4789 \<or> l4 ! 8 AND 0x08 = 0 then None
      else (case parseL2 (drop 16 l4) of
              Some (Some iL2) \<Rightarrow> Some (drop_bit 8 (be32_at l4 12), iL2) | _ \<Rightarrow> None))"

lemma vxlan_view_inner:
  "vxlan_view d = (case parseL2 d of Some (Some oL2) \<Rightarrow>
     (case outerUDP (l2_etherType oL2) (l2_l3 oL2) of Some (Some (osrc, odst, ol4)) \<Rightarrow>
        map_option (\<lambda>(vni, iL2). (oL2, osrc, odst, vni, iL2)) (vxlan_inner ol4)
      | _ \<Rightarrow> None) | _ \<Rightarrow> None)"
  by (auto simp: vxlan_view_def vxlan_inner_def split: option.split)

lemma parse_vxlan_udp_implements:
  assumes q: "q \<le> length d"
  shows "implements (parse_vxlan_udp d q obs mf) obs mf
    (case vxlan_inner (drop q d) of None \<Rightarrow> None
     | Some (vni, iL2) \<Rightarrow> observe (l2_etherType iL2) (l2_l3 iL2)
         (obs\<lparr>raw_IfaceType := 1, raw_VNI := vni, raw_VLANID := l2_vlan iL2\<rparr>))"
proof -
  let ?l4 = "drop q d"
  have len: "length ?l4 < k \<longleftrightarrow> length d < q + k" for k using q by auto
  have port: "be16_at ?l4 2 = be16_at d (q + 2)" if "\<not> length d < q + 8"
    using that by (simp add: be16_at_drop)
  have hdr: "?l4 ! 8 = d ! (q + 8)" "be32_at ?l4 12 = be32_at d (q + 12)" if "\<not> length d < q + 16"
    using that by (simp_all add: be32_at_drop)
  have flag: "be32_at d (q + 8) AND 0x08000000 = 0 \<longleftrightarrow> d ! (q + 8) AND 0x08 = 0"
    by (simp add: be32_at_def vxlan_flag)
  show ?thesis
  proof (cases "length ?l4 < 16 \<or> be16_at ?l4 2 \<noteq> 4789 \<or> ?l4 ! 8 AND 0x08 = 0")
    case True
    have "parse_vxlan_udp d q obs mf = Some (False, obs, mf)"
      using True len [of 16] port hdr flag by (auto simp: parse_vxlan_udp_def simp del: length_drop nth_drop)
    with True show ?thesis by (simp add: vxlan_inner_def implements_reject)
  next
    case False
    then have big: "\<not> length d < q + 16" "\<not> length d < q + 8" using len [of 16] by auto
    have inner: "drop (q + 16) d = drop 16 ?l4" by (simp add: add.commute)
    obtain i where i: "parse_l2 d (q + 16) = Some i"
      "case parseL2 (drop 16 ?l4) of
         Some (Some l2) \<Rightarrow> \<exists>l3. i = Some (l2_etherType l2, l2_vlan l2, l3) \<and> l3 \<le> length d \<and> drop l3 d = l2_l3 l2
       | _ \<Rightarrow> i = None" using parse_l2_eq [of "q + 16" d] big unfolding inner by auto
    obtain ri where ri: "parseL2 (drop 16 ?l4) = Some ri" using parseL2_total by blast
    note facts = i(1) ri False big port [OF big(2)] hdr [OF big(1)] flag
    show ?thesis
    proof (cases ri)
      case None
      with facts i(2) show ?thesis by (simp add: parse_vxlan_udp_def vxlan_inner_def implements_reject del: drop_drop)
    next
      case (Some i2)
      then obtain il3 where il3: "i = Some (l2_etherType i2, l2_vlan i2, il3)" "il3 \<le> length d" "drop il3 d = l2_l3 i2"
        using i(2) ri by auto
      let ?o = "obs\<lparr>raw_IfaceType := 1, raw_VNI := drop_bit 8 (be32_at d (q + 12)), raw_VLANID := l2_vlan i2\<rparr>"
      have "same_origin ?o obs" by (simp add: same_origin_def)
      from observe_implemented [OF il3(2) this, of "l2_etherType i2" mf] facts Some il3 show ?thesis
        by (simp add: parse_vxlan_udp_def vxlan_inner_def del: drop_drop)
    qed
  qed
qed

lemma parse_vxlan_implements: "implements (parse_vxlan d obs mf) obs mf (observe_vxlan d obs)"
proof -
  obtain x where x: "parse_l2 d 0 = Some x"
    "case parseL2 d of
       Some (Some l2) \<Rightarrow> \<exists>l3. x = Some (l2_etherType l2, l2_vlan l2, l3) \<and> l3 \<le> length d \<and> drop l3 d = l2_l3 l2
     | _ \<Rightarrow> x = None" using parse_l2_eq [of 0 d] by auto
  obtain r where r: "parseL2 d = Some r" using parseL2_total by blast
  show ?thesis
  proof (cases r)
    case None
    then show ?thesis using x r by (simp add: parse_vxlan_def observe_vxlan_def vxlan_view_def implements_reject)
  next
    case (Some o2)
    then obtain l3 where l3: "x = Some (l2_etherType o2, l2_vlan o2, l3)" "l3 \<le> length d" "drop l3 d = l2_l3 o2"
      using x(2) r by auto
    obtain u where u: "outer_udp d l3 (l2_etherType o2) = Some u"
      "case outerUDP (l2_etherType o2) (l2_l3 o2) of
         Some (Some (s, t, l4)) \<Rightarrow> \<exists>q. u = Some q \<and> q \<le> length d \<and> drop q d = l4
       | _ \<Rightarrow> u = None \<or> (\<exists>q. u = Some q \<and> length d < q)"
      using outer_udp_eq [OF l3(2), of "l2_etherType o2"] l3(3) by auto
    obtain ou where ou: "outerUDP (l2_etherType o2) (l2_l3 o2) = Some ou" using outerUDP_total by blast
    note facts = x(1) r Some l3(1) u(1) ou
    show ?thesis
    proof (cases ou)
      case None
      with u(2) facts show ?thesis
        by (auto simp: parse_vxlan_def parse_vxlan_udp_def observe_vxlan_def vxlan_view_def implements_reject)
    next
      case (Some t)
      obtain s' t' l4 where t: "ou = Some (s', t', l4)" using Some by (cases t) auto
      then obtain q where q: "u = Some q" "q \<le> length d" "drop q d = l4" using u(2) ou by auto
      have "observe_vxlan d obs = (case vxlan_inner l4 of None \<Rightarrow> None
          | Some (vni, iL2) \<Rightarrow> observe (l2_etherType iL2) (l2_l3 iL2)
              (obs\<lparr>raw_IfaceType := 1, raw_VNI := vni, raw_VLANID := l2_vlan iL2\<rparr>))"
        using facts t by (auto simp: observe_vxlan_def vxlan_view_inner split: option.split)
      with parse_vxlan_udp_implements [OF q(2), of obs mf] facts t q show ?thesis by (simp add: parse_vxlan_def)
    qed
  qed
qed

lemma parse_by_mode_implements:
  "\<exists>obs' mf. parse_by_mode mode d obs v = Some (case classify mode d v obs of
     None \<Rightarrow> (False, obs', mf) | Some (o1, f) \<Rightarrow> (True, o1, f))"
proof -
  note vx = parse_vxlan_implements [of d obs 0]
  have reg: "implements (parse_regular d obs' 0 v) obs 0 (observe_regular d v obs)" if "same_origin obs' obs" for obs'
    using parse_regular_implements [OF that] .
  consider "mode = 0" | "mode = 1" | "mode = 2" | "mode \<notin> {0, 1, 2}" by auto
  then show ?thesis
  proof cases
    case 1
    with reg [of obs] show ?thesis
      by (auto simp: parse_by_mode_def classify_def implements_def split: option.splits)
  next
    case 2
    with vx show ?thesis
      by (auto simp: parse_by_mode_def classify_def implements_def split: option.splits)
  next
    case 3
    show ?thesis
    proof (cases "observe_vxlan d obs")
      case None
      with vx obtain obs' where "parse_vxlan d obs 0 = Some (False, obs', 0)" "same_origin obs' obs"
        by (auto simp: implements_def)
      with 3 None reg [of obs'] show ?thesis
        by (auto simp: parse_by_mode_def classify_def implements_def split: option.splits)
    next
      case (Some x)
      with vx 3 show ?thesis by (cases x) (auto simp: parse_by_mode_def classify_def implements_def)
    qed
  next
    case 4
    then show ?thesis by (simp add: parse_by_mode_def classify_def)
  qed
qed

section \<open>The hooks\<close>

definition start_obs :: "byte \<Rightarrow> u32 \<Rightarrow> Raw" where
  "start_obs dir ifindex = obs0\<lparr>raw_Direction := dir, raw_IfIndex := ifindex\<rparr>"

definition offloaded_vlan :: "sk_buff \<Rightarrow> u16" where
  "offloaded_vlan skb = (if sk_vlan_present skb then ucast (sk_vlan_tci skb AND 0x0FFF) else 0)"

text \<open>The verdict on a marked packet and its record.\<close>

definition settle :: "bpf_env \<Rightarrow> bpf_maps \<Rightarrow> tfConfig \<Rightarrow> Raw \<Rightarrow> byte \<Rightarrow> bool \<times> bpf_maps" where
  "settle e m cfg obs f =
     (let dropped = do_drop m cfg obs f in
      (dropped, submit e m (obs\<lparr>raw_Action := (if dropped then 1 else 0), raw_CaptureNS := ktime e\<rparr>)))"

lemma bpf_handle_eq:
  assumes "config_map m = Some cfg"
  shows "bpf_handle e m skb dir = Some (case classify (cfg_IfaceType cfg) (sk_data skb) (offloaded_vlan skb) (start_obs dir (sk_ifindex skb)) of
      None \<Rightarrow> (TC_ACT_OK, m)
    | Some (obs, f) \<Rightarrow>
        (case settle e m cfg (tunnel_vni (sk_tunnel skb) (device_vni m (sk_ifindex skb) obs)) f of
           (dropped, m') \<Rightarrow> (if dropped then TC_ACT_SHOT else TC_ACT_OK, m')))"
proof -
  obtain obs' mf where "parse_by_mode (cfg_IfaceType cfg) (sk_data skb) (start_obs dir (sk_ifindex skb)) (offloaded_vlan skb) =
      Some (case classify (cfg_IfaceType cfg) (sk_data skb) (offloaded_vlan skb) (start_obs dir (sk_ifindex skb)) of
        None \<Rightarrow> (False, obs', mf) | Some (o1, f) \<Rightarrow> (True, o1, f))"
    using parse_by_mode_implements by blast
  then show ?thesis
    using assms by (auto simp: bpf_handle_def get_config_def start_obs_def offloaded_vlan_def settle_def Let_def
        split: option.split)
qed

lemma traceflow_xdp_eq:
  "traceflow_xdp e m ctx = map_option (\<lambda>(a, m'). (if a = TC_ACT_SHOT then XDP_DROP else XDP_PASS, m'))
     (traceflow_ingress e m \<lparr>sk_data = xd_data ctx, sk_ifindex = xd_ingress_ifindex ctx, sk_vlan_present = False,
        sk_vlan_tci = tci, sk_tunnel = None\<rparr>)"
  by (simp add: traceflow_xdp_def traceflow_ingress_def bpf_handle_def tunnel_vni_def Let_def
      split: option.split bind_split)

lemma observe_wf:
  "observe et l3 obs = Some (obs', f) \<Longrightarrow> wf_raw obs'"
  by (auto simp: observe_def marked_def decode_meta_eq obs_l4_def obs_net_def wf_raw_def split: option.splits if_splits)

lemma classify_wf: "classify mode d v obs = Some (obs', f) \<Longrightarrow> wf_raw obs'"
  by (auto simp: classify_def observe_regular_def observe_vxlan_def split: option.splits if_splits prod.splits dest: observe_wf)

lemma wf_raw_vni [simp]:
  "wf_raw (device_vni m i obs) = wf_raw obs" "wf_raw (tunnel_vni tk obs) = wf_raw obs"
  "wf_raw (obs\<lparr>raw_Action := a, raw_CaptureNS := t\<rparr>) = wf_raw obs"
  by (auto simp: device_vni_def tunnel_vni_def wf_raw_def split: option.split)

end
