(* ===== verification/Intercept.thy ===== *)
theory Intercept
  imports Bpf_Props Responder_Tcp
begin

text \<open>
  The data path and the rest of the agent: what a record tells of the packet it was made for, until it
  is an observation; when a packet is taken off the wire; and that on the host of its destination a
  probe is answered exactly once, by the agent or by the VM, and by neither only in the cases listed.
\<close>

section \<open>The two tables of local addresses\<close>

text \<open>Addresses both tables tell apart: the IPv6 addresses with twelve trailing zero bytes are excluded.\<close>

definition clean_ip :: "bytes \<Rightarrow> bool" where
  "clean_ip a \<longleftrightarrow> (length a = 4 \<or> length a = 16) \<and> (To4 a = [] \<longrightarrow> drop 4 a \<noteq> replicate 12 0)"

text \<open>An address as it stands in a packet: an IPv6 packet to an IPv4-mapped address is excluded.\<close>

definition wire_ip :: "bytes \<Rightarrow> bool" where
  "wire_ip a \<longleftrightarrow> clean_ip a \<and> (length a = 16 \<longrightarrow> To4 a = [])"

lemma ipKey16_wire: "wire_ip a \<Longrightarrow> ipKey16 a = pad 16 a"
  by (auto simp: wire_ip_def clean_ip_def ipKey16_v4 ipKey16_v6 pad_def)

lemma same_key:
  assumes "clean_ip a" "wire_ip b"
  shows "ipKey16 a = pad 16 b \<longleftrightarrow> key16 a = key16 b"
proof -
  have l: "length a = 4 \<or> length a = 16" "length b = 4 \<or> length b = 16"
    using assms by (auto simp: clean_ip_def wire_ip_def)
  have "\<not> (To4 a \<noteq> [] \<and> b = To4 a @ replicate 12 0)" "\<not> (To4 b \<noteq> [] \<and> a = To4 b @ replicate 12 0)"
    using assms length_To4 [of a] length_To4 [of b] To4_low [of "To4 a"] To4_low [of "To4 b"]
    by (auto simp: clean_ip_def wire_ip_def)
  with ipKey16_collision [OF l] show ?thesis by (simp flip: ipKey16_wire [OF assms(2)])
qed

text \<open>A data path and a responder of one agent: the same mode, the same switches, tables made from one
  list of addresses.\<close>

definition same_host :: "bpf_maps \<Rightarrow> rstate \<Rightarrow> bytes list \<Rightarrow> bool" where
  "same_host m r ips \<longleftrightarrow>
     (\<exists>cfg. config_map m = Some cfg \<and> cfg_IfaceType cfg = r_ifType r \<and> cfg_Respond cfg \<noteq> 0 \<and>
            (cfg_TCPRespond cfg \<noteq> 0 \<longleftrightarrow> r_tcpRespond r)) \<and>
     (\<forall>k. mget (local_ips m) k \<noteq> None \<longleftrightarrow> k \<in> ipKey16 ` set ips) \<and>
     (\<forall>a. isLocal r a \<longleftrightarrow> key16 a \<in> key16 ` set ips) \<and> (\<forall>a \<in> set ips. clean_ip a)"

lemma same_host_local:
  assumes "same_host m r ips" "wire_ip a"
  shows "mget (local_ips m) (pad 16 a) \<noteq> None \<longleftrightarrow> isLocal r a"
proof -
  have clean: "clean_ip b" if "b \<in> set ips" for b using assms(1) that by (simp add: same_host_def)
  have "pad 16 a \<in> ipKey16 ` set ips \<longleftrightarrow> key16 a \<in> key16 ` set ips"
  proof
    assume "pad 16 a \<in> ipKey16 ` set ips"
    then obtain b where b: "b \<in> set ips" "ipKey16 b = pad 16 a" by auto
    with same_key [OF clean [OF b(1)] assms(2)] show "key16 a \<in> key16 ` set ips" by (intro image_eqI [of _ _ b]) simp_all
  next
    assume "key16 a \<in> key16 ` set ips"
    then obtain b where b: "b \<in> set ips" "key16 b = key16 a" by auto
    with same_key [OF clean [OF b(1)] assms(2)] show "pad 16 a \<in> ipKey16 ` set ips" by (intro image_eqI [of _ _ b]) simp_all
  qed
  then show ?thesis using assms(1) by (simp add: same_host_def)
qed

text \<open>What the agent sets up for its options is such a pair.\<close>

lemma agent_same_host:
  assumes "addLocalIPs put [] ips = (True, tbl)" "\<forall>a \<in> set ips. clean_ip a"
    "newResponder sock bind_ok iface t ips tcp key mt = Some r"
    "config_map m = Some \<lparr>cfg_IfaceType = t, cfg_Respond = 1, cfg_TCPRespond = (if tcp then 1 else 0)\<rparr>"
    "local_ips m = tbl"
  shows "same_host m r ips"
proof -
  have "isLocal r a \<longleftrightarrow> key16 a \<in> key16 ` set ips" for a
    using assms(3) by (auto simp: newResponder_def isLocal_def local_set_get gomap_simps split: option.splits if_splits)
  moreover have "r_ifType r = t" "r_tcpRespond r = tcp"
    using assms(3) by (auto simp: newResponder_def split: option.splits if_splits)
  ultimately show ?thesis
    using assms(2,4,5) addLocalIPs_ok [OF assms(1)] by (auto simp: same_host_def gomap_simps)
qed

section \<open>When the two views of a packet coincide\<close>

definition plain_ip :: "u16 \<Rightarrow> bytes \<Rightarrow> bool" where
  "plain_ip et l3 \<longleftrightarrow> (et = 0x0800 \<longrightarrow> drop_bit 4 (l3 ! 0) = 4) \<and>
     (et = 0x86DD \<longrightarrow> drop_bit 4 (l3 ! 0) = 6 \<and> l3 ! 6 \<notin> {0, 43, 44, 60})"

lemma bpf_view_plain:
  assumes "plain_ip et l3"
  shows "bpf_view et l3 = net_view et l3"
proof (cases "net_view et l3")
  case None
  then show ?thesis by (simp add: bpf_view_def)
next
  case (Some a)
  obtain tos src dst proto seg v6 where a: "a = (tos, src, dst, proto, seg, v6)" by (cases a)
  have "et = (if v6 then 0x86DD else 0x0800)" using net_view_lengths Some a by blast
  moreover have "proto = l3 ! 6" "seg = drop 40 l3" if v6
    using Some a that by (auto simp: net_view_def parseIPv4_eq parseIPv6_eq Let_def split: if_splits option.splits)
  moreover have "ext_headers 4 l3 nh c = Some (Some (nh, c))" if "nh \<notin> {0, 43, 44, 60}" for nh c
    using that by (simp add: numeral_eq_Suc)
  ultimately show ?thesis using assms Some a by (cases v6) (auto simp: bpf_view_def plain_ip_def)
qed

definition canonical_flags :: "bytes \<Rightarrow> bool" where
  "canonical_flags p \<longleftrightarrow> p ! 20 \<in> {0, 1} \<and> p ! 21 \<in> {0, 1}"

lemma meta_flags_need: "meta_flags p AND 2 \<noteq> 0 \<longleftrightarrow> p ! 21 \<noteq> 0"
  and meta_flags_deliver: "meta_flags p AND 1 = 0 \<longleftrightarrow> p ! 20 = 0"
  by (auto simp: meta_flags_def)

lemma asks_flags:
  assumes "canonical_flags p"
  shows "asks p \<longleftrightarrow> decode_meta p \<noteq> None \<and> p ! 21 \<noteq> 0 \<and> p ! 20 = 0"
  using assms by (auto simp: asks_def decode_meta_def canonical_flags_def Unmarshal_eq)

section \<open>A sequence of packets\<close>

type_synonym arrival = "bpf_env \<times> sk_buff \<times> byte"

fun bpf_run :: "bpf_maps \<Rightarrow> arrival list \<Rightarrow> (tc_action list \<times> bpf_maps) go" where
  "bpf_run m [] = Some ([], m)"
| "bpf_run m ((e, skb, dir) # xs) = do {
     (a, m) \<leftarrow> bpf_handle e m skb dir;
     (as, m) \<leftarrow> bpf_run m xs;
     Some (a # as, m) }"

text \<open>What is to be recorded of an arriving packet: nothing when it is not marked.\<close>

definition record_of :: "bpf_maps \<Rightarrow> arrival \<Rightarrow> Raw option" where
  "record_of m x = (case x of (e, skb, dir) \<Rightarrow>
     (case config_map m of None \<Rightarrow> None
      | Some cfg \<Rightarrow>
          (case classify (cfg_IfaceType cfg) (sk_data skb) (offloaded_vlan skb) (start_obs dir (sk_ifindex skb)) of
             None \<Rightarrow> None
           | Some (obs, f) \<Rightarrow>
               let obs = tunnel_vni (sk_tunnel skb) (device_vni m (sk_ifindex skb) obs)
               in Some (obs\<lparr>raw_Action := (if do_drop m cfg obs f then 1 else 0), raw_CaptureNS := ktime e\<rparr>))))"

definition recorded :: "bpf_maps \<Rightarrow> arrival list \<Rightarrow> Raw list" where
  "recorded m xs = List.map_filter (record_of m) (filter (\<lambda>(e, skb, dir). ring_room e) xs)"

definition overflowed :: "bpf_maps \<Rightarrow> arrival list \<Rightarrow> nat" where
  "overflowed m xs = length (List.map_filter (record_of m) (filter (\<lambda>(e, skb, dir). \<not> ring_room e) xs))"

lemma bpf_handle_record:
  "\<exists>m'. bpf_handle e m skb dir = Some (case record_of m (e, skb, dir) of
       None \<Rightarrow> TC_ACT_OK | Some raw \<Rightarrow> if raw_Action raw = 1 then TC_ACT_SHOT else TC_ACT_OK, m') \<and>
     m' = (case record_of m (e, skb, dir) of None \<Rightarrow> m | Some raw \<Rightarrow> submit e m raw)"
proof (cases "config_map m")
  case None
  then show ?thesis by (simp add: bpf_handle_def get_config_def record_of_def)
next
  case (Some cfg)
  show ?thesis
    unfolding bpf_handle_eq [OF Some]
    using Some by (auto simp: record_of_def settle_def Let_def split: option.split)
qed

lemma record_of_wf: "record_of m x = Some raw \<Longrightarrow> wf_raw raw"
  by (auto simp: record_of_def Let_def split: prod.splits option.splits dest: classify_wf)

lemma record_of_cong:
  "config_map m' = config_map m \<Longrightarrow> local_ips m' = local_ips m \<Longrightarrow> iface_vni m' = iface_vni m \<Longrightarrow> record_of m' = record_of m"
  by (rule ext) (auto simp: record_of_def do_drop_def dst_is_local_def device_vni_def Let_def split: option.split)

lemma submit_fields [simp]:
  "config_map (submit e m raw) = config_map m" "local_ips (submit e m raw) = local_ips m"
  "iface_vni (submit e m raw) = iface_vni m"
  "events (submit e m raw) = events m @ (if ring_room e then [observation_bytes raw] else [])"
  "stat_observed (submit e m raw) = stat_observed m + (if ring_room e then 1 else 0)"
  "stat_ringbuf_full (submit e m raw) = stat_ringbuf_full m + (if ring_room e then 0 else 1)"
  by (simp_all add: submit_def stat_incr_def)

definition verdict_of :: "Raw option \<Rightarrow> tc_action" where
  "verdict_of x = (case x of None \<Rightarrow> TC_ACT_OK | Some raw \<Rightarrow> if raw_Action raw = 1 then TC_ACT_SHOT else TC_ACT_OK)"

lemma bpf_run_records:
  "\<exists>as m'. bpf_run m xs = Some (as, m') \<and> as = map (\<lambda>x. verdict_of (record_of m x)) xs \<and>
     events m' = events m @ map observation_bytes (recorded m xs) \<and>
     stat_observed m' = stat_observed m + of_nat (length (recorded m xs)) \<and>
     stat_ringbuf_full m' = stat_ringbuf_full m + of_nat (overflowed m xs) \<and>
     config_map m' = config_map m \<and> local_ips m' = local_ips m \<and> iface_vni m' = iface_vni m"
proof (induction xs arbitrary: m)
  case Nil
  then show ?case by (simp add: recorded_def overflowed_def map_filter_simps)
next
  case (Cons x xs)
  obtain e skb dir where x: "x = (e, skb, dir)" by (cases x)
  define m1 where "m1 = (case record_of m (e, skb, dir) of None \<Rightarrow> m | Some raw \<Rightarrow> submit e m raw)"
  have h: "bpf_handle e m skb dir = Some (verdict_of (record_of m x), m1)"
    using bpf_handle_record [of e m skb dir] by (simp add: m1_def verdict_of_def x)
  have f: "config_map m1 = config_map m" "local_ips m1 = local_ips m" "iface_vni m1 = iface_vni m"
    by (auto simp: m1_def split: option.split)
  have eq: "recorded m1 xs = recorded m xs" "overflowed m1 xs = overflowed m xs"
    using record_of_cong [OF f] by (simp_all add: recorded_def overflowed_def)
  show ?case
    using Cons.IH [of m1] h f eq record_of_cong [OF f]
    by (auto simp: x m1_def recorded_def overflowed_def map_filter_simps add.assoc split: option.splits if_splits)
qed

lemma decoded_records:
  "\<forall>raw \<in> set rs. wf_raw raw \<Longrightarrow> decoded (map (\<lambda>raw. RingRecord (observation_bytes raw) (now raw) (k raw)) rs) = rs"
  using Parse_observation_bytes [of _ "[]"] by (induction rs) auto

lemma recorded_wf: "raw \<in> set (recorded m xs) \<Longrightarrow> wf_raw raw"
  by (auto simp: recorded_def List.map_filter_def dest: record_of_wf)

section \<open>Properties of the data path\<close>

text \<open>
  C4: The data path implements the classifier. For every sequence of packets (any bytes at all) the eBPF
  program performs no load outside a packet; each packet gets the verdict of the abstract classifier;
  the ring buffer gains, in order, exactly the records of the marked packets that found room; the two
  counters grow by the number of records submitted and of records lost; nothing else changes. In auto
  mode a failed attempt to read a packet as VXLAN leaves no trace in the record.
\<close>

theorem data_path_exact:
  "\<exists>as m'. bpf_run m xs = Some (as, m') \<and> as = map (\<lambda>x. verdict_of (record_of m x)) xs \<and>
     events m' = events m @ map observation_bytes (recorded m xs) \<and>
     stat_observed m' = stat_observed m + of_nat (length (recorded m xs)) \<and>
     stat_ringbuf_full m' = stat_ringbuf_full m + of_nat (overflowed m xs) \<and>
     config_map m' = config_map m \<and> local_ips m' = local_ips m \<and> iface_vni m' = iface_vni m"
  by (rule bpf_run_records)

text \<open>
  From the wire to the observation. The records the data path submits for any sequence of packets are
  all decoded by the agent's reader, which writes one observation for each, in order, with the run id,
  hop, direction, action, VNI, VLAN, addresses, protocol and ports of the record, and counts no error.
\<close>

theorem wire_to_observation:
  "\<exists>as m' s' obs. bpf_run (m\<lparr>events := []\<rparr>) xs = Some (as, m') \<and>
     readLoop uuidString byIndex s (map (\<lambda>rec. RingRecord rec (now rec) (k rec)) (events m') @ [RingClosed]) = (True, s') \<and>
     em_stdout (rd_em s') = em_stdout (rd_em s) @ obs \<and>
     list_all2 (traces uuidString (em_nodeID (rd_em s))) (recorded m xs) obs \<and>
     parseErrors (rd_mtr s') = parseErrors (rd_mtr s) \<and> readErrors (rd_mtr s') = readErrors (rd_mtr s)"
proof -
  let ?rs = "recorded m xs"
  let ?es = "map (\<lambda>raw. RingRecord (observation_bytes raw) (now (observation_bytes raw)) (k (observation_bytes raw))) ?rs"
  have same: "recorded (m\<lparr>events := []\<rparr>) xs = ?rs"
    using record_of_cong [of "m\<lparr>events := []\<rparr>" m] by (simp add: recorded_def)
  obtain as m' where run: "bpf_run (m\<lparr>events := []\<rparr>) xs = Some (as, m')" "events m' = map observation_bytes ?rs"
    using bpf_run_records [of "m\<lparr>events := []\<rparr>" xs] same by auto
  have wf: "\<forall>raw \<in> set ?rs. wf_raw raw" using recorded_wf by blast
  have ev: "map (\<lambda>rec. RingRecord rec (now rec) (k rec)) (events m') = ?es" using run(2) by (simp add: o_def)
  have nc: "RingClosed \<notin> set ?es" by auto
  have none: "filter is_short ?es = []" "filter is_error ?es = []"
    using wf length_observation_bytes by (auto simp: filter_empty_conv is_short_def is_error_def)
  have dec: "decoded ?es = ?rs"
    using decoded_records [OF wf, of "\<lambda>raw. now (observation_bytes raw)" "\<lambda>raw. k (observation_bytes raw)"] .
  obtain obs where obs: "em_stdout (rd_em (snd (readLoop uuidString byIndex s ?es))) = em_stdout (rd_em s) @ obs"
      "list_all2 (traces uuidString (em_nodeID (rd_em s))) ?rs obs"
    using readLoop_emits [OF nc, of uuidString byIndex s] unfolding dec by blast
  have loop: "readLoop uuidString byIndex s (?es @ [RingClosed]) = (True, snd (readLoop uuidString byIndex s ?es))"
    using readLoop_append(1) [OF nc] .
  have counts: "readErrors (rd_mtr (snd (readLoop uuidString byIndex s ?es))) = readErrors (rd_mtr s)"
      "parseErrors (rd_mtr (snd (readLoop uuidString byIndex s ?es))) = parseErrors (rd_mtr s)"
    using readLoop_counts [OF nc, of uuidString byIndex s] none by simp_all
  show ?thesis
    by (rule exI [of _ as], rule exI [of _ m'], rule exI [of _ "snd (readLoop uuidString byIndex s ?es)"], rule exI [of _ obs])
      (use run(1) loop obs counts in \<open>simp only: ev simp_thms\<close>)
qed

section \<open>Answered once\<close>

text \<open>On a plain interface (no VNI for the device, no tunnel): the record and the verdict.\<close>

text \<open>The frames that data path and responder both read as they stand: on an interface of type regular all of them, in
  auto mode those that are not UDP to the VXLAN port.\<close>

definition plain_mode :: "byte \<Rightarrow> bytes \<Rightarrow> bool" where
  "plain_mode mode d \<longleftrightarrow> mode = 0 \<or> mode = 2 \<and> isVXLANFrame d = Some False"

lemma not_vxlan_view: "isVXLANFrame d = Some False \<Longrightarrow> vxlan_view d = None"
  by (auto simp: isVXLANFrame_def vxlan_view_def split: option.splits if_splits bind_splits)

lemma plain_mode_classify: "plain_mode mode d \<Longrightarrow> classify mode d v obs = observe_regular d v obs"
  using not_vxlan_view [of d] by (auto simp: plain_mode_def classify_def observe_vxlan_def)

lemma plain_mode_handle: "plain_mode (r_ifType r) d \<Longrightarrow> handle ok r d aux = handleRegular ok r d aux"
  by (auto simp: plain_mode_def handle_def IfaceVXLAN_def IfaceRegular_def)

lemma net_view_outerUDP:
  "net_view et l3 = Some (tos, src, dst, proto, seg, v6) \<Longrightarrow> outerUDP et l3 = Some (if proto = 17 then Some (src, dst, seg) else None)"
  by (auto simp: net_view_def outerUDP_def split: if_splits option.splits prod.splits)

lemma plain_modeI:
  assumes "mode = 0 \<or> mode = 2 \<and> (proto \<noteq> 17 \<or> be16_at seg 2 \<noteq> 4789)" "parseL2 d = Some (Some l2)"
    and "net_view (l2_etherType l2) (l2_l3 l2) = Some (tos, src, dst, proto, seg, v6)"
  shows "plain_mode mode d"
  using assms net_view_outerUDP [OF assms(3)] by (auto simp: plain_mode_def isVXLANFrame_def)

definition plain_device :: "bpf_maps \<Rightarrow> sk_buff \<Rightarrow> bool" where
  "plain_device m skb \<longleftrightarrow> mget (iface_vni m) (sk_ifindex skb) = None \<and> sk_tunnel skb \<in> {None, Some 0}"

lemma plain_device_vni:
  "plain_device m skb \<Longrightarrow> tunnel_vni (sk_tunnel skb) (device_vni m (sk_ifindex skb) obs) = obs"
  by (auto simp: plain_device_def tunnel_vni_def device_vni_def)

lemma do_drop_observed:
  "do_drop m cfg (obs_l4 proto seg mt (obs_net v6 src dst l3 obs)) (meta_flags p) \<longleftrightarrow>
     p ! 21 \<noteq> 0 \<and> p ! 20 = 0 \<and> mget (local_ips m) (pad 16 dst) \<noteq> None \<and> raw_IfaceType obs \<noteq> 1 \<and>
     cfg_Respond cfg \<noteq> 0 \<and> (proto = 6 \<longrightarrow> cfg_TCPRespond cfg \<noteq> 0)"
  using meta_flags_need [of p] meta_flags_deliver [of p]
  by (auto simp: do_drop_def dst_is_local_def obs_l4_def obs_net_def)

lemma regular_verdict:
  assumes "config_map m = Some cfg" "plain_mode (cfg_IfaceType cfg) (sk_data skb)" "plain_device m skb" "parseL2 (sk_data skb) = Some (Some l2)"
  shows "verdict_of (record_of m (e, skb, dir)) = TC_ACT_SHOT \<longleftrightarrow>
    (case marked (bpf_view (l2_etherType l2) (l2_l3 l2)) of None \<Rightarrow> False
     | Some (src, dst, proto, seg, v6, p, mt) \<Rightarrow>
         p ! 21 \<noteq> 0 \<and> p ! 20 = 0 \<and> mget (local_ips m) (pad 16 dst) \<noteq> None \<and> cfg_Respond cfg \<noteq> 0 \<and>
         (proto = 6 \<longrightarrow> cfg_TCPRespond cfg \<noteq> 0))"
  using assms plain_device_vni [OF assms(3)]
  by (auto simp: record_of_def verdict_of_def plain_mode_classify observe_regular_def observe_def do_drop_observed Let_def
      split: option.split prod.split)

lemma marked_plain:
  assumes "plain_ip et l3" "net_view et l3 = Some (tos, src, dst, proto, seg, v6)" "payload_of proto seg = Some p"
  shows "marked (bpf_view et l3) = (if tos AND 0xFC \<noteq> 0xF8 then None
     else map_option (\<lambda>mt. (src, dst, proto, seg, v6, p, mt)) (decode_meta p))"
  using assms by (auto simp: bpf_view_plain marked_def split: option.split)

text \<open>
  C3: A probe is answered once. Take an agent whose data path and responder serve the same list of local
  addresses (none of them an IPv6 address with twelve trailing zero bytes), an interface of type regular or auto that
  has no VNI and no tunnel metadata, and a frame whose IP version is right, without IPv6 extension headers, to no
  IPv6 address that is IPv4-mapped or ends in twelve zero bytes, whose transport payload is there and has flag bytes 0 or 1; in auto mode let it not
  be UDP to the VXLAN port. Then the responder answers the frame exactly when
  the data path takes it off the wire, the payload verifies under the key and, for TCP, the segment is
  one the responder answers. So no such probe is answered by the agent and delivered to the VM as well; and
  one that is taken off the wire without an answer failed authentication or is a TCP segment such as a
  bare ACK or a reset. Outside these conditions the two can differ, see the end of this theory.
\<close>

theorem answered_once:
  assumes "same_host m r ips" "plain_device m skb"
    and "r_ifType r = 0 \<or> r_ifType r = 2 \<and> (proto \<noteq> 17 \<or> be16_at seg 2 \<noteq> 4789)"
    and "parseL2 (sk_data skb) = Some (Some l2)" "plain_ip (l2_etherType l2) (l2_l3 l2)"
    and "net_view (l2_etherType l2) (l2_l3 l2) = Some (tos, src, dst, proto, seg, v6)" "wire_ip dst"
    and "payload_of proto seg = Some p" "canonical_flags p"
  shows "\<exists>a m' out r'. bpf_handle e m skb dir = Some (a, m') \<and> handle True r (sk_data skb) aux = Some (out, r') \<and>
    (out \<noteq> None \<longleftrightarrow> a = TC_ACT_SHOT \<and> authentic (r_hmacKey r) p \<and> (proto = 6 \<longrightarrow> tcp_answers (seg ! 13)))"
proof -
  note mode = plain_modeI [OF assms(3,4,6)]
  obtain cfg where cfg: "config_map m = Some cfg" "plain_mode (cfg_IfaceType cfg) (sk_data skb)" "cfg_Respond cfg \<noteq> 0"
      "cfg_TCPRespond cfg \<noteq> 0 \<longleftrightarrow> r_tcpRespond r"
    using assms(1) mode by (auto simp: same_host_def)
  obtain m' where b: "bpf_handle e m skb dir = Some (verdict_of (record_of m (e, skb, dir)), m')"
    using bpf_handle_record [of e m skb dir] by (auto simp: verdict_of_def)
  obtain rep r1 where rep: "buildReply r (l2_etherType l2) (l2_l3 l2) = Some (rep, r1)" using buildReply_total by fastforce
  then obtain out r' where h: "handle True r (sk_data skb) aux = Some (out, r')" "out \<noteq> None \<longleftrightarrow> rep \<noteq> None"
    using assms(4) by (cases rep) (simp_all add: plain_mode_handle [OF mode] handleRegular_def send_frameL2)
  have "verdict_of (record_of m (e, skb, dir)) = TC_ACT_SHOT \<longleftrightarrow>
      tos AND 0xFC = 0xF8 \<and> asks p \<and> isLocal r dst \<and> (proto = 6 \<longrightarrow> r_tcpRespond r)"
    unfolding regular_verdict [OF cfg(1,2) assms(2,4)] marked_plain [OF assms(5,6,8)]
      asks_flags [OF assms(9)] same_host_local [OF assms(1,7)]
    using cfg(3,4) same_host_local [OF assms(1,7)] by (cases "decode_meta p") auto
  moreover have "rep \<noteq> None \<longleftrightarrow> tos AND 0xFC = 0xF8 \<and> isLocal r dst \<and> asks p \<and> authentic (r_hmacKey r) p \<and>
      (proto = 6 \<longrightarrow> r_tcpRespond r \<and> tcp_answers (seg ! 13))"
    using buildReply_iff [OF rep] assms(6,8) by (simp add: warrants_def warrantsL4_def)
  ultimately show ?thesis using b h by blast
qed

definition demo_maps :: bpf_maps where
  "demo_maps = \<lparr>config_map = Some \<lparr>cfg_IfaceType = 0, cfg_Respond = 1, cfg_TCPRespond = 1\<rparr>, events = [],
     stat_observed = 0, stat_ringbuf_full = 0, iface_vni = [], local_ips = mput [] (ipKey16 [10, 0, 0, 2]) 1\<rparr>"

definition demo_skb :: "bytes \<Rightarrow> sk_buff" where
  "demo_skb d = \<lparr>sk_data = d, sk_ifindex = 3, sk_vlan_present = False, sk_vlan_tci = 0, sk_tunnel = None\<rparr>"

definition demo_benv :: bpf_env where
  "demo_benv = \<lparr>ktime = 1000, ring_room = True\<rparr>"

definition demo_host :: "byte \<Rightarrow> bytes \<Rightarrow> bpf_maps \<times> rstate" where
  "demo_host t vm = (demo_maps\<lparr>config_map := Some \<lparr>cfg_IfaceType = t, cfg_Respond = 1, cfg_TCPRespond = 1\<rparr>,
       local_ips := mput [] (ipKey16 vm) 1\<rparr>,
     (demo_agent t)\<lparr>r_localIPs := mput [] (key16 vm) True\<rparr>)"

lemma demo_same_host: "same_host (fst (demo_host t [10, 0, 0, 2])) (snd (demo_host t [10, 0, 0, 2])) [[10, 0, 0, 2]]"
proof (rule agent_same_host)
  show "newResponder (Some 7) True 3 t [[10, 0, 0, 2]] True [] metrics0 = Some (snd (demo_host t [10, 0, 0, 2]))"
    by (simp add: newResponder_def demo_agent_def demo_host_def)
  show "addLocalIPs (\<lambda>_. True) [] [[10, 0, 0, 2]] = (True, mput [] (ipKey16 [10, 0, 0, 2]) 1)" by simp
qed (simp_all add: demo_host_def clean_ip_def)

definition verdict :: "(tc_action \<times> bpf_maps) go \<Rightarrow> tc_action option" where
  "verdict x = map_option fst x"

theorem answered_once_witness:
  "\<exists>a m' out r'. bpf_handle demo_benv (fst (demo_host 2 [10, 0, 0, 2])) (demo_skb demo_frame) 0 = Some (a, m') \<and>
     handle True (snd (demo_host 2 [10, 0, 0, 2])) demo_frame 0 = Some (out, r') \<and> (out \<noteq> None \<longleftrightarrow> a = TC_ACT_SHOT)"
proof -
  let ?p = "Marshal demo_meta"
  let ?seg = "UDP [10, 0, 0, 1] [10, 0, 0, 2] 40000 7 ?p"
  have l2: "parseL2 demo_frame = Some (Some \<lparr>l2_dst = [2, 0, 0, 0, 0, 2], l2_src = [2, 0, 0, 0, 0, 1], l2_etherType = 0x0800,
      l2_vlan = 42, l2_l3 = demo_udp\<rparr>)"
    unfolding demo_frame_def by (subst parseL2_reframe) simp_all
  have v: "net_view 0x0800 demo_udp = Some (0xF8, [10, 0, 0, 1], [10, 0, 0, 2], 17, ?seg, False)"
    by (simp add: demo_udp_def net_view_def parseIPv4_IPv4)
  have p: "plain_ip 0x0800 demo_udp" "canonical_flags ?p" "authentic [] ?p" "be16_at ?seg 2 \<noteq> 4789" by code_simp+
  show ?thesis
    using answered_once [OF demo_same_host [of 2], of "demo_skb demo_frame" 17 ?seg "\<lparr>l2_dst = [2, 0, 0, 0, 0, 2],
        l2_src = [2, 0, 0, 0, 0, 1], l2_etherType = 0x0800, l2_vlan = 42, l2_l3 = demo_udp\<rparr>" "0xF8"
        "[10, 0, 0, 1]" "[10, 0, 0, 2]" False ?p demo_benv 0 0] l2 v p
    by (auto simp: demo_skb_def demo_host_def demo_agent_def plain_device_def demo_maps_def gomap_simps wire_ip_def clean_ip_def)
qed

lemma observe_regularE:
  assumes "observe_regular d v ob = Some (obs, f)"
  obtains l2 src dst proto seg v6 p mt where "parseL2 d = Some (Some l2)"
    "marked (bpf_view (l2_etherType l2) (l2_l3 l2)) = Some (src, dst, proto, seg, v6, p, mt)" "f = meta_flags p"
    "obs = obs_l4 proto seg mt (obs_net v6 src dst (l2_l3 l2)
       (ob\<lparr>raw_IfaceType := 0, raw_VNI := 0, raw_VLANID := orVlan (l2_vlan l2) v\<rparr>))"
  using assms by (auto simp: observe_regular_def observe_def split: option.splits)

text \<open>
  C11: Only probes this host answers are taken off the wire. If a hook drops a packet (in any mode, with
  any tables), the agent answers probes, the packet is read as a plain frame on a device without VNI,
  it is marked, its control block asks for a response and not for delivery, its destination is in the
  table of local addresses, and for TCP the agent answers TCP: packets in transit are never dropped.
\<close>

theorem drops_only_local:
  assumes "bpf_handle e m skb dir = Some (TC_ACT_SHOT, m')"
  shows "\<exists>cfg l2 src dst proto seg v6 p mt. config_map m = Some cfg \<and> cfg_IfaceType cfg \<in> {0, 2} \<and> cfg_Respond cfg \<noteq> 0 \<and>
    parseL2 (sk_data skb) = Some (Some l2) \<and>
    marked (bpf_view (l2_etherType l2) (l2_l3 l2)) = Some (src, dst, proto, seg, v6, p, mt) \<and>
    p ! 21 \<noteq> 0 \<and> p ! 20 = 0 \<and> mget (local_ips m) (pad 16 dst) \<noteq> None \<and>
    (proto = 6 \<longrightarrow> cfg_TCPRespond cfg \<noteq> 0) \<and> plain_device m skb"
proof -
  obtain cfg where cfg: "config_map m = Some cfg"
    using assms by (cases "config_map m") (auto simp: bpf_handle_def get_config_def)
  obtain obs f where c: "classify (cfg_IfaceType cfg) (sk_data skb) (offloaded_vlan skb) (start_obs dir (sk_ifindex skb)) = Some (obs, f)"
    and d: "do_drop m cfg (tunnel_vni (sk_tunnel skb) (device_vni m (sk_ifindex skb) obs)) f"
    using assms unfolding bpf_handle_eq [OF cfg] by (auto simp: settle_def Let_def split: option.splits if_splits)
  have it: "raw_IfaceType (tunnel_vni (sk_tunnel skb) (device_vni m (sk_ifindex skb) obs)) \<noteq> 1" using d by (simp add: do_drop_def)
  have "raw_IfaceType obs \<noteq> 1" using it by (auto simp: tunnel_vni_def device_vni_def split: option.splits if_splits)
  then have reg: "observe_regular (sk_data skb) (offloaded_vlan skb) (start_obs dir (sk_ifindex skb)) = Some (obs, f)"
      "cfg_IfaceType cfg \<in> {0, 2}"
    using c by (auto simp: classify_def observe_vxlan_def observe_def obs_l4_def obs_net_def split: option.splits if_splits)
  from reg(1) obtain l2 src dst proto seg v6 p mt where m: "parseL2 (sk_data skb) = Some (Some l2)"
      "marked (bpf_view (l2_etherType l2) (l2_l3 l2)) = Some (src, dst, proto, seg, v6, p, mt)" "f = meta_flags p"
      "obs = obs_l4 proto seg mt (obs_net v6 src dst (l2_l3 l2) (start_obs dir (sk_ifindex skb)
         \<lparr>raw_IfaceType := 0, raw_VNI := 0, raw_VLANID := orVlan (l2_vlan l2) (offloaded_vlan skb)\<rparr>))"
    by (rule observe_regularE)
  then have "raw_VNI obs = 0" by (simp add: obs_l4_def obs_net_def)
  then have dev: "plain_device m skb"
    using it by (auto simp: plain_device_def tunnel_vni_def device_vni_def split: option.splits if_splits)
  show ?thesis
    using cfg reg(2) m dev d by (auto simp: plain_device_vni [OF dev] do_drop_observed)
qed

theorem drops_only_local_witness:
  "\<exists>m' l2 dst. bpf_handle demo_benv demo_maps (demo_skb demo_frame) 0 = Some (TC_ACT_SHOT, m') \<and>
     parseL2 demo_frame = Some (Some l2) \<and> mget (local_ips demo_maps) (pad 16 dst) \<noteq> None"
proof -
  have "verdict (bpf_handle demo_benv demo_maps (demo_skb demo_frame) 0) = Some TC_ACT_SHOT" by code_simp
  then obtain m' where "bpf_handle demo_benv demo_maps (demo_skb demo_frame) 0 = Some (TC_ACT_SHOT, m')"
    by (auto simp: verdict_def)
  with drops_only_local [OF this] show ?thesis by (auto simp: demo_skb_def)
qed

lemma record_decodes:
  assumes "record_of m (e, skb, dir) = Some raw" "ring_room e"
  shows "\<exists>m'. bpf_handle e m skb dir = Some (verdict_of (Some raw), m') \<and> events m' = events m @ [observation_bytes raw] \<and>
    Parse (observation_bytes raw) = Inr raw"
  using bpf_handle_record [of e m skb dir] assms Parse_observation_bytes [OF record_of_wf [OF assms(1)], of "[]"]
  by (simp add: verdict_of_def)

definition vni_for :: "bpf_maps \<Rightarrow> sk_buff \<Rightarrow> u32" where
  "vni_for m skb = (let v = (case mget (iface_vni m) (sk_ifindex skb) of Some v \<Rightarrow> v | None \<Rightarrow> 0) in
     if v \<noteq> 0 then v else (case sk_tunnel skb of Some t \<Rightarrow> t | None \<Rightarrow> 0))"

lemma vni_keeps [simp]:
  "raw_MetaTimestamp (tunnel_vni tk obs) = raw_MetaTimestamp obs" "raw_MetaTimestamp (device_vni m i obs) = raw_MetaTimestamp obs"
  "raw_CaptureNS (tunnel_vni tk obs) = raw_CaptureNS obs" "raw_CaptureNS (device_vni m i obs) = raw_CaptureNS obs"
  "raw_ID (tunnel_vni tk obs) = raw_ID obs" "raw_ID (device_vni m i obs) = raw_ID obs"
  "raw_SrcIP (tunnel_vni tk obs) = raw_SrcIP obs" "raw_SrcIP (device_vni m i obs) = raw_SrcIP obs"
  "raw_DstIP (tunnel_vni tk obs) = raw_DstIP obs" "raw_DstIP (device_vni m i obs) = raw_DstIP obs"
  "raw_IfIndex (tunnel_vni tk obs) = raw_IfIndex obs" "raw_IfIndex (device_vni m i obs) = raw_IfIndex obs"
  "raw_SrcPort (tunnel_vni tk obs) = raw_SrcPort obs" "raw_SrcPort (device_vni m i obs) = raw_SrcPort obs"
  "raw_DstPort (tunnel_vni tk obs) = raw_DstPort obs" "raw_DstPort (device_vni m i obs) = raw_DstPort obs"
  "raw_VLANID (tunnel_vni tk obs) = raw_VLANID obs" "raw_VLANID (device_vni m i obs) = raw_VLANID obs"
  "raw_IPVersion (tunnel_vni tk obs) = raw_IPVersion obs" "raw_IPVersion (device_vni m i obs) = raw_IPVersion obs"
  "raw_Hop (tunnel_vni tk obs) = raw_Hop obs" "raw_Hop (device_vni m i obs) = raw_Hop obs"
  "raw_Direction (tunnel_vni tk obs) = raw_Direction obs" "raw_Direction (device_vni m i obs) = raw_Direction obs"
  "raw_Action (tunnel_vni tk obs) = raw_Action obs" "raw_Action (device_vni m i obs) = raw_Action obs"
  "raw_Protocol (tunnel_vni tk obs) = raw_Protocol obs" "raw_Protocol (device_vni m i obs) = raw_Protocol obs"
  "raw_TCPFlags (tunnel_vni tk obs) = raw_TCPFlags obs" "raw_TCPFlags (device_vni m i obs) = raw_TCPFlags obs"
  by (simp_all add: tunnel_vni_def device_vni_def split: option.split)

lemma vni_tagged:
  "raw_VNI obs = 0 \<Longrightarrow> raw_VNI (tunnel_vni (sk_tunnel skb) (device_vni m (sk_ifindex skb) obs)) = vni_for m skb"
  by (auto simp: tunnel_vni_def device_vni_def vni_for_def split: option.split)

lemma record_fields:
  assumes "config_map m = Some cfg" "plain_mode (cfg_IfaceType cfg) (sk_data skb)" "parseL2 (sk_data skb) = Some (Some l2)"
    and "marked (bpf_view (l2_etherType l2) (l2_l3 l2)) = Some (src, dst, proto, seg, v6, p, mt)"
  shows "\<exists>t act. record_of m (e, skb, dir) = Some \<lparr>raw_MetaTimestamp = Timestamp mt, raw_CaptureNS = ktime e, raw_ID = ID mt,
    raw_SrcIP = pad 16 src, raw_DstIP = pad 16 dst, raw_VNI = vni_for m skb, raw_IfIndex = sk_ifindex skb,
    raw_SrcPort = (if proto = 6 \<or> proto = 17 then be16_at seg 0 else 0),
    raw_DstPort = (if proto = 6 \<or> proto = 17 then be16_at seg 2 else 0),
    raw_VLANID = orVlan (l2_vlan l2) (offloaded_vlan skb), raw_IPVersion = (if v6 then 6 else 4),
    raw_Hop = 255 - (if v6 then l2_l3 l2 ! 7 else l2_l3 l2 ! 8), raw_Direction = dir, raw_Action = act,
    raw_Protocol = proto, raw_TCPFlags = (if proto = 6 then seg ! 13 else 0), raw_IfaceType = t\<rparr>"
proof -
  let ?ob = "start_obs dir (sk_ifindex skb)\<lparr>raw_IfaceType := 0, raw_VNI := 0, raw_VLANID := orVlan (l2_vlan l2) (offloaded_vlan skb)\<rparr>"
  let ?obs = "obs_l4 proto seg mt (obs_net v6 src dst (l2_l3 l2) ?ob)"
  let ?tag = "tunnel_vni (sk_tunnel skb) (device_vni m (sk_ifindex skb) ?obs)"
  have z: "raw_VNI ?obs = 0" by (simp add: obs_l4_def obs_net_def)
  obtain act where r: "record_of m (e, skb, dir) = Some (?tag\<lparr>raw_Action := act, raw_CaptureNS := ktime e\<rparr>)"
    using assms by (simp add: record_of_def plain_mode_classify observe_regular_def observe_def Let_def)
  show ?thesis
    by (intro exI [of _ "raw_IfaceType ?tag"] exI [of _ act], unfold r, rule arg_cong [where f = Some], rule Raw.equality)
      (use vni_tagged [OF z, of skb m] in \<open>simp_all add: obs_l4_def obs_net_def start_obs_def\<close>)
qed

text \<open>
  C12: What a record says. A marked packet on an interface of type regular, or of type auto when the packet is not UDP to
  the VXLAN port, that finds room in the ring buffer is
  recorded with its run id and send time, the hop counted from the TTL, its addresses, ports, TCP
  flags and protocol, the VLAN tag (inline or stripped by the NIC), the VNI of the device (or of the
  tunnel) when there is one, the direction and interface, the capture time, and the action that was
  taken; decoding the record gives these fields back.
\<close>

theorem record_tells_packet:
  assumes "config_map m = Some cfg" "plain_mode (cfg_IfaceType cfg) (sk_data skb)" "ring_room e"
    and "parseL2 (sk_data skb) = Some (Some l2)"
    and "marked (bpf_view (l2_etherType l2) (l2_l3 l2)) = Some (src, dst, proto, seg, v6, p, mt)"
  shows "\<exists>a m' rec raw. bpf_handle e m skb dir = Some (a, m') \<and> events m' = events m @ [rec] \<and> Parse rec = Inr raw \<and>
    raw_ID raw = ID mt \<and> raw_MetaTimestamp raw = Timestamp mt \<and>
    raw_Hop raw = 255 - (if v6 then l2_l3 l2 ! 7 else l2_l3 l2 ! 8) \<and> raw_IPVersion raw = (if v6 then 6 else 4) \<and>
    raw_SrcIP raw = pad 16 src \<and> raw_DstIP raw = pad 16 dst \<and> raw_Protocol raw = proto \<and>
    raw_SrcPort raw = (if proto = 6 \<or> proto = 17 then be16_at seg 0 else 0) \<and>
    raw_DstPort raw = (if proto = 6 \<or> proto = 17 then be16_at seg 2 else 0) \<and>
    raw_TCPFlags raw = (if proto = 6 then seg ! 13 else 0) \<and>
    raw_VLANID raw = orVlan (l2_vlan l2) (offloaded_vlan skb) \<and>
    raw_Direction raw = dir \<and> raw_IfIndex raw = sk_ifindex skb \<and> raw_CaptureNS raw = ktime e \<and>
    raw_VNI raw = vni_for m skb \<and> (raw_Action raw = 1 \<longleftrightarrow> a = TC_ACT_SHOT)"
proof -
  obtain t act where "record_of m (e, skb, dir) = Some \<lparr>raw_MetaTimestamp = Timestamp mt, raw_CaptureNS = ktime e, raw_ID = ID mt,
    raw_SrcIP = pad 16 src, raw_DstIP = pad 16 dst, raw_VNI = vni_for m skb, raw_IfIndex = sk_ifindex skb,
    raw_SrcPort = (if proto = 6 \<or> proto = 17 then be16_at seg 0 else 0),
    raw_DstPort = (if proto = 6 \<or> proto = 17 then be16_at seg 2 else 0),
    raw_VLANID = orVlan (l2_vlan l2) (offloaded_vlan skb), raw_IPVersion = (if v6 then 6 else 4),
    raw_Hop = 255 - (if v6 then l2_l3 l2 ! 7 else l2_l3 l2 ! 8), raw_Direction = dir, raw_Action = act,
    raw_Protocol = proto, raw_TCPFlags = (if proto = 6 then seg ! 13 else 0), raw_IfaceType = t\<rparr>" (is "_ = Some ?raw")
    using record_fields [OF assms(1,2,4,5)] by blast
  from record_decodes [OF this assms(3)] obtain m' where "bpf_handle e m skb dir = Some (verdict_of (Some ?raw), m')"
      "events m' = events m @ [observation_bytes ?raw]" "Parse (observation_bytes ?raw) = Inr ?raw" by blast
  then show ?thesis
    by (intro exI [of _ "verdict_of (Some ?raw)"] exI [of _ m'] exI [of _ "observation_bytes ?raw"] exI [of _ ?raw])
      (simp add: verdict_of_def)
qed

theorem record_tells_packet_witness:
  "\<exists>a m' rec raw. bpf_handle demo_benv demo_maps (demo_skb demo_frame) 0 = Some (a, m') \<and> events m' = [rec] \<and>
     Parse rec = Inr raw \<and> raw_ID raw = ID demo_meta \<and> raw_VLANID raw = 42 \<and> raw_Hop raw = 0"
proof -
  let ?l2 = "\<lparr>l2_dst = [2, 0, 0, 0, 0, 2], l2_src = [2, 0, 0, 0, 0, 1], l2_etherType = 0x0800, l2_vlan = 42, l2_l3 = demo_udp\<rparr>"
  have l2: "parseL2 demo_frame = Some (Some ?l2)"
    unfolding demo_frame_def by (subst parseL2_reframe) simp_all
  have "map_option (\<lambda>(src, dst, proto, seg, v6, p, mt). (v6, mt, demo_udp ! 8)) (marked (bpf_view 0x0800 demo_udp)) =
      Some (False, demo_meta, 255)" by code_simp
  then obtain src dst proto seg p where mk: "marked (bpf_view 0x0800 demo_udp) = Some (src, dst, proto, seg, False, p, demo_meta)"
      "demo_udp ! 8 = 255" by auto
  have h: "config_map demo_maps = Some \<lparr>cfg_IfaceType = 0, cfg_Respond = 1, cfg_TCPRespond = 1\<rparr>" "ring_room demo_benv"
      "sk_data (demo_skb demo_frame) = demo_frame" "events demo_maps = []" "offloaded_vlan (demo_skb demo_frame) = 0"
    by (simp_all add: demo_maps_def demo_benv_def demo_skb_def offloaded_vlan_def)
  from record_tells_packet [OF h(1) _ h(2), of "demo_skb demo_frame" ?l2 src dst proto seg False p demo_meta 0]
  obtain a m' rec raw where "bpf_handle demo_benv demo_maps (demo_skb demo_frame) 0 = Some (a, m')" "events m' = [rec]"
      "Parse rec = Inr raw" "raw_ID raw = ID demo_meta" "raw_VLANID raw = 42" "raw_Hop raw = 255 - demo_udp ! 8"
    using l2 mk(1) h by (auto simp: orVlan_def plain_mode_def)
  then show ?thesis using mk(2) by auto
qed

text \<open>
  XDP and TC agree. The program at the XDP hook does to every frame what the TC ingress program does to
  the same frame with its tag inline and no tunnel metadata: the same verdict, record and counters.
\<close>

theorem xdp_like_tc:
  "traceflow_xdp e m ctx = map_option (\<lambda>(a, m'). (if a = TC_ACT_SHOT then XDP_DROP else XDP_PASS, m'))
     (traceflow_ingress e m \<lparr>sk_data = xd_data ctx, sk_ifindex = xd_ingress_ifindex ctx, sk_vlan_present = False,
        sk_vlan_tci = tci, sk_tunnel = None\<rparr>)"
  by (rule traceflow_xdp_eq)

section \<open>Where data path and responder differ\<close>

text \<open>The hypotheses of the agreement above are needed. \<open>lost\<close>: the packet is taken off the wire and nobody
  answers; \<open>doubled\<close>: the agent answers and the VM receives the packet too.\<close>

definition lost :: "bpf_maps \<Rightarrow> rstate \<Rightarrow> bytes \<Rightarrow> bool" where
  "lost m r d \<longleftrightarrow> verdict (bpf_handle demo_benv m (demo_skb d) 0) = Some TC_ACT_SHOT \<and> \<not> sends_reply (handle True r d 0)"

definition doubled :: "bpf_maps \<Rightarrow> rstate \<Rightarrow> bytes \<Rightarrow> bool" where
  "doubled m r d \<longleftrightarrow> verdict (bpf_handle demo_benv m (demo_skb d) 0) = Some TC_ACT_OK \<and> sends_reply (handle True r d 0)"

definition udp_probe :: "u16 \<Rightarrow> bytes \<Rightarrow> bytes" where
  "udp_probe dport payload = Ethernet [2, 0, 0, 0, 0, 2] [2, 0, 0, 0, 0, 1] 0x0800
     (IPv4 0xF8 255 17 [10, 0, 0, 1] [10, 0, 0, 2] (UDP [10, 0, 0, 1] [10, 0, 0, 2] 40000 dport payload))"

definition vm6 :: bytes where
  "vm6 = [0xfd, 0, 0, 0, 0, 0, 0, 0, 0, 0, 0, 0, 0, 0, 0, 2]"

text \<open>An ICMPv6 probe behind a hop-by-hop header: the data path walks the header, the responder does not.\<close>

lemma extension_header_lost:
  "case demo_host 0 vm6 of (m, r) \<Rightarrow> lost m r (Ethernet [2, 0, 0, 0, 0, 2] [2, 0, 0, 0, 0, 1] 0x86DD
     (IPv6 0xF8 255 0 (replicate 16 1) vm6 ([58, 0, 1, 4, 0, 0, 0, 0] @
        ICMPv6 128 1 1 (replicate 16 1) vm6 (Marshal demo_meta))))"
  by code_simp

text \<open>In auto mode a plain probe to the VXLAN port: the data path falls back to the plain reading, the
  responder does not.\<close>

lemma auto_vxlan_port_lost: "case demo_host 2 [10, 0, 0, 2] of (m, r) \<Rightarrow> lost m r (udp_probe 4789 (Marshal demo_meta))"
  by code_simp

text \<open>Flag bytes other than 0 and 1: nonzero in C, equal to one in Go.\<close>

lemma odd_need_response_lost: "case demo_host 0 [10, 0, 0, 2] of (m, r) \<Rightarrow> lost m r (udp_probe 7 ((Marshal demo_meta)[21 := 2]))"
  by code_simp

lemma odd_deliver_doubled: "case demo_host 0 [10, 0, 0, 2] of (m, r) \<Rightarrow> doubled m r (udp_probe 7 ((Marshal demo_meta)[20 := 2]))"
  by code_simp

text \<open>A probe that fails authentication is taken off the wire all the same.\<close>

lemma unauthenticated_lost: "case demo_host 0 [10, 0, 0, 2] of (m, r) \<Rightarrow> lost m (r\<lparr>r_hmacKey := [1]\<rparr>) (udp_probe 7 (Marshal demo_meta))"
  by code_simp

end
