(* ===== verification/Trace.thy ===== *)
theory Trace
  imports Intercept End_To_End
begin

text \<open>
  Client and data path together: the probe the client's ICMP sub-command sends is recorded by every host
  it passes, under its run id and at the hop that host is at.
\<close>

section \<open>A packet on its way\<close>

text \<open>What \<open>k\<close> routers do to a network packet: they count the TTL down and, for IPv4, rewrite the header
  checksum (with any value here). The kernel of the sender, through whose raw socket a packet can go, also
  fills in the identification of an IPv4 packet.\<close>

definition forwarded :: "bool \<Rightarrow> nat \<Rightarrow> bytes \<Rightarrow> bytes \<Rightarrow> bool" where
  "forwarded v6 k l3 l3' \<longleftrightarrow>
     (if v6 then l3' = l3[7 := l3 ! 7 - of_nat k]
      else \<exists>i1 i2 c1 c2. l3' = l3[4 := i1, 5 := i2, 8 := l3 ! 8 - of_nat k, 10 := c1, 11 := c2])"

lemma forwarded_view:
  assumes "forwarded v6 k l3 l3'" "et = (if v6 then 0x86DD else 0x0800)"
  shows "net_view et l3' = net_view et l3"
proof (cases v6)
  case True
  then have l3': "l3' = l3[7 := l3 ! 7 - of_nat k]" using assms(1) by (simp add: forwarded_def)
  show ?thesis using True assms(2)
    by (simp add: l3' net_view_def parseIPv6_eq drop_update_cancel)
next
  case False
  then obtain i1 i2 c1 c2 where l3': "l3' = l3[4 := i1, 5 := i2, 8 := l3 ! 8 - of_nat k, 10 := c1, 11 := c2]"
    using assms(1) by (auto simp: forwarded_def)
  show ?thesis using False assms(2)
    by (auto simp: l3' net_view_def parseIPv4_eq drop_update_cancel Let_def)
qed

lemma forwarded_bytes:
  assumes "forwarded v6 k l3 l3'" "20 \<le> length l3"
  shows "l3' ! 0 = l3 ! 0" "l3' ! 6 = l3 ! 6"
    "(if v6 then l3' ! 7 else l3' ! 8) = (if v6 then l3 ! 7 else l3 ! 8) - of_nat k"
  using assms by (auto simp: forwarded_def split: if_splits)

lemma wrapIP_bytes:
  "wrapIP v6 q s d l4 ! 0 = (if v6 then 0x6F else 0x45)" "v6 \<Longrightarrow> wrapIP v6 q s d l4 ! 6 = q"
  "(if v6 then wrapIP v6 q s d l4 ! 7 else wrapIP v6 q s d l4 ! 8) = 255" "20 \<le> length (wrapIP v6 q s d l4)"
  by (simp_all add: wrapIP_def IPv4_layout IPv6_layout ip4_front_def nth_append Let_def)

lemma wrapIP_forwarded:
  assumes "forwarded v6 k (wrapIP v6 q s d l4) l3'" "q \<in> {1, 6, 17, 58}"
    and "length s = (if v6 then 16 else 4)" "length d = (if v6 then 16 else 4)"
  shows "bpf_view (ether v6) l3' = Some (0xF8, s, d, q, l4, v6)"
    and "255 - (if v6 then l3' ! 7 else l3' ! 8) = of_nat k"
    and "net_view (ether v6) l3' = Some (0xF8, s, d, q, l4, v6)"
proof -
  note b = forwarded_bytes [OF assms(1) wrapIP_bytes(4)]
  have "plain_ip (ether v6) l3'"
    using assms(2) b(1,2) wrapIP_bytes(1,2) [of v6 q s d l4] by (auto simp: plain_ip_def ether_def)
  moreover show "net_view (ether v6) l3' = Some (0xF8, s, d, q, l4, v6)"
    using forwarded_view [OF assms(1)] net_view_wrapIP [OF assms(3,4), of q l4] by (simp add: ether_def)
  ultimately show "bpf_view (ether v6) l3' = Some (0xF8, s, d, q, l4, v6)" by (simp add: bpf_view_plain)
  show "255 - (if v6 then l3' ! 7 else l3' ! 8) = of_nat k"
    unfolding b(3) wrapIP_bytes(3) by simp
qed

section \<open>A ping is traced at every hop\<close>

lemma marked_probe:
  assumes "payload_of q l4 = Some p" "decode_meta p = Some mt"
  shows "marked (Some (0xF8, s, d, q, l4, v6)) = Some (s, d, q, l4, v6, p, mt)"
  using assms by (simp add: marked_def)

lemma client_meta:
  assumes "wf_env e"
  shows "decode_meta (payload f (fst (newMeta e f)) @ rest) = Some (fst (newMeta e f))"
proof -
  have "wf_meta (fst (newMeta e f))" using assms by (simp add: wf_meta_def wf_env_def newMeta_fields)
  from Unmarshal_Signed [OF this] show ?thesis by (simp add: payload_def decode_meta_def)
qed

text \<open>The network packet of what the client sends, as a frame or through the kernel.\<close>

definition sent_l3 :: "sent \<Rightarrow> bytes option" where
  "sent_l3 s = (case s of
       Frame idx frame \<Rightarrow> (case parseL2 frame of Some (Some l2) \<Rightarrow> Some (l2_l3 l2) | _ \<Rightarrow> None)
     | Packet addr l3 \<Rightarrow> Some l3)"

lemma emit_l3:
  assumes "emit e f dst l3 v6 = Inr s"
  shows "sent_l3 s = Some l3"
proof (cases s)
  case (Frame idx frame)
  obtain l2 where "parseL2 frame = Some (Some l2)" "l2_l3 l2 = l3" by (rule emit_frame [OF assms [unfolded Frame]])
  then show ?thesis by (simp add: sent_l3_def Frame)
next
  case (Packet addr p)
  then show ?thesis using assms
    by (auto simp: sent_l3_def emit_def sendIP_def sendL2_def Let_def split: if_splits option.splits)
qed

text \<open>The packet of a ping, taken apart.\<close>

lemma ping_packet:
  assumes "runICMP e f evs = Some (Inr ([s], rr))" "ParseIP (f_dst f) = Some dst"
  obtains src l4 where
    "sent_l3 s = Some (wrapIP (isV6 dst) (if isV6 dst then 58 else 1) (net_addr (isV6 dst) src) (net_addr (isV6 dst) dst) l4)"
    "payload_of (if isV6 dst then 58 else 1) l4 = Some (payload f (fst (newMeta e f)))"
proof -
  obtain src s' where em: "emit e f dst (fst (icmpL3 src dst 0x1234 1 (payload f (fst (newMeta e f))))) (isV6 dst) = Inr s'"
    and aw: "await f (newUUID e) isEchoReply evs s' = Some (Inr ([s], rr))"
    using assms unfolding runICMP_def
    by (auto elim!: bindE_InrE simp: split_beta newMeta_fields icmpL3_eq Let_def mustIP_Inr)
  have s: "s' = s" using await_sent [OF aw] by simp
  let ?l4 = "if isV6 dst then ICMPv6 128 0x1234 1 src dst (payload f (fst (newMeta e f))) else ICMP 8 0x1234 1 (payload f (fst (newMeta e f)))"
  have "sent_l3 s = Some (wrapIP (isV6 dst) (if isV6 dst then 58 else 1) (net_addr (isV6 dst) src) (net_addr (isV6 dst) dst) ?l4)"
    using emit_l3 [OF em] by (simp add: s icmpL3_eq Let_def)
  moreover have "payload_of (if isV6 dst then 58 else 1) ?l4 = Some (payload f (fst (newMeta e f)))" by simp
  ultimately show ?thesis by (rule that)
qed

text \<open>The record of a ping after \<open>k\<close> routers, on an interface of type regular or auto.\<close>

lemma ping_record:
  assumes "wf_env e" "runICMP e f evs = Some (Inr ([s], rr))" "ParseIP (f_dst f) = Some dst"
    and "sent_l3 s = Some l3" "forwarded (isV6 dst) k l3 (l2_l3 l2')"
    and "parseL2 (sk_data skb) = Some (Some l2')" "l2_etherType l2' = ether (isV6 dst)"
    and "config_map m = Some cfg" "cfg_IfaceType cfg \<in> {0, 2}"
  shows "\<exists>raw. record_of m (be, skb, dir) = Some raw \<and> raw_ID raw = newUUID e \<and> raw_Hop raw = of_nat k \<and>
    raw_MetaTimestamp raw = nowNano e \<and> raw_DstIP raw = pad 16 (net_addr (isV6 dst) dst) \<and>
    raw_IPVersion raw = (if isV6 dst then 6 else 4) \<and> raw_Protocol raw = (if isV6 dst then 58 else 1)"
proof -
  let ?v6 = "isV6 dst" and ?p = "payload f (fst (newMeta e f))"
  let ?q = "if ?v6 then 58 else 1 :: byte" and ?d = "net_addr ?v6 dst"
  obtain src l4 where fr: "l3 = wrapIP ?v6 ?q (net_addr ?v6 src) ?d l4" "payload_of ?q l4 = Some ?p"
    using ping_packet [OF assms(2,3)] assms(4) by (metis option.inject)
  have fwd: "forwarded ?v6 k (wrapIP ?v6 ?q (net_addr ?v6 src) ?d l4) (l2_l3 l2')" using assms(5) fr(1) by simp
  have q: "?q \<in> {1, 6, 17, 58}" by simp
  note v = wrapIP_forwarded [OF fwd q length_net_addr length_net_addr]
  have mk: "marked (bpf_view (l2_etherType l2') (l2_l3 l2')) =
      Some (net_addr ?v6 src, ?d, ?q, l4, ?v6, ?p, fst (newMeta e f))"
    using v(1) assms(7) marked_probe [OF fr(2), of "fst (newMeta e f)"] client_meta [OF assms(1), of f "[]"] by simp
  have "net_view (l2_etherType l2') (l2_l3 l2') = Some (0xF8, net_addr ?v6 src, ?d, ?q, l4, ?v6)"
    using v(3) assms(7) by simp
  then have "plain_mode (cfg_IfaceType cfg) (sk_data skb)"
    by (intro plain_modeI [OF _ assms(6)]) (use assms(9) in auto)
  from record_fields [OF assms(8) this assms(6) mk, of be dir] v(2) show ?thesis by (auto simp: newMeta_def)
qed

text \<open>
  A ping is traced at every hop. When the client's ICMP sub-command has sent its probe, a host \<open>k\<close>
  routers away (they count the TTL down, rewrite the IPv4 checksum and the frame around the packet;
  the hop is a byte, as the TTL is) whose data path watches an interface of type regular or auto and has room in its ring buffer submits
  one record for it, which decodes to the run id of the client, hop \<open>k\<close>, the send time and the
  destination of the ping.
\<close>

theorem ping_traced:
  assumes "wf_env e" "runICMP e f evs = Some (Inr ([s], rr))" "ParseIP (f_dst f) = Some dst"
    and "sent_l3 s = Some l3" "forwarded (isV6 dst) k l3 (l2_l3 l2')"
    and "parseL2 (sk_data skb) = Some (Some l2')" "l2_etherType l2' = ether (isV6 dst)"
    and "config_map m = Some cfg" "cfg_IfaceType cfg \<in> {0, 2}" "ring_room be"
  shows "\<exists>a m' rec raw. bpf_handle be m skb dir = Some (a, m') \<and> events m' = events m @ [rec] \<and> Parse rec = Inr raw \<and>
    raw_ID raw = newUUID e \<and> raw_Hop raw = of_nat k \<and> raw_MetaTimestamp raw = nowNano e \<and>
    raw_DstIP raw = pad 16 (net_addr (isV6 dst) dst) \<and> raw_Protocol raw = (if isV6 dst then 58 else 1)"
proof -
  obtain raw where "record_of m (be, skb, dir) = Some raw" "raw_ID raw = newUUID e" "raw_Hop raw = of_nat k" "raw_MetaTimestamp raw = nowNano e"
      "raw_DstIP raw = pad 16 (net_addr (isV6 dst) dst)" "raw_Protocol raw = (if isV6 dst then 58 else 1)"
    using ping_record [OF assms(1-9)] by blast
  then show ?thesis using record_decodes [OF _ assms(10)] by fastforce
qed

text \<open>The answer to a ping on its way back: a record made of it shows the sender of the ping as destination.\<close>

lemma reply_record:
  assumes "buildReply r (ether v6) l3 = Some (Some rep, r1)" "net_view (ether v6) l3 = Some (tos, src, d, proto, l4, v6)"
    and "proto \<in> {1, 58}" "forwarded v6 k rep (l2_l3 l2')"
    and "parseL2 (sk_data skb) = Some (Some l2')" "l2_etherType l2' = ether v6"
    and "config_map m = Some cfg" "cfg_IfaceType cfg \<in> {0, 2}" "record_of m (be, skb, dir) = Some raw"
  shows "raw_IPVersion raw = (if v6 then 6 else 4) \<and> raw_DstIP raw = pad 16 src"
  using assms(1)
proof (rule buildReply_shape)
  fix tos' src' dst' proto' l4' v6' p q lr
  assume n: "net_view (ether v6) l3 = Some (tos', src', dst', proto', l4', v6')" and q: "q = reply_proto v6' proto'"
    and rep: "rep = wrapIP v6' q dst' src' lr"
  have eq: "src' = src" "v6' = v6" "proto' = proto" using n assms(2) by simp_all
  have len: "length dst' = (if v6 then 16 else 4)" "length src = (if v6 then 16 else 4)"
    using net_view_lengths [OF n] eq by auto
  have q6: "q \<in> {1, 6, 17, 58}" "q \<noteq> 17" using assms(3) q eq by (auto simp: reply_proto_def)
  have "forwarded v6 k (wrapIP v6 q dst' src lr) (l2_l3 l2')" using assms(4) rep eq by simp
  note v = wrapIP_forwarded [OF this q6(1) len]
  have "plain_mode (cfg_IfaceType cfg) (sk_data skb)"
    by (rule plain_modeI [OF _ assms(5)]) (use v(3) assms(6,8) q6(2) in auto)
  note cl = plain_mode_classify [OF this]
  obtain obs f where obs: "observe_regular (sk_data skb) (offloaded_vlan skb) (start_obs dir (sk_ifindex skb)) = Some (obs, f)"
    "raw_IPVersion raw = raw_IPVersion obs" "raw_DstIP raw = raw_DstIP obs"
    using assms(7,9) by (auto simp: record_of_def cl Let_def split: option.splits)
  from obs(1) show ?thesis
  proof (rule observe_regularE)
    fix l2 s2 d2 pr sg w6 pp mt
    assume l: "parseL2 (sk_data skb) = Some (Some l2)" and mk: "marked (bpf_view (l2_etherType l2) (l2_l3 l2)) = Some (s2, d2, pr, sg, w6, pp, mt)"
      and o: "obs = obs_l4 pr sg mt (obs_net w6 s2 d2 (l2_l3 l2) (start_obs dir (sk_ifindex skb)
         \<lparr>raw_IfaceType := 0, raw_VNI := 0, raw_VLANID := orVlan (l2_vlan l2) (offloaded_vlan skb)\<rparr>))"
    have "l2 = l2'" using l assms(5) by simp
    then have "d2 = src" "w6 = v6" using mk v(1) assms(6) by (auto simp: marked_def split: option.splits if_splits)
    then show ?thesis using obs(2,3) o by (simp add: obs_l4_def obs_net_def)
  qed
qed

definition demo_dst :: bytes where
  "demo_dst = v4InV6Prefix @ [10, 0, 0, 2]"

lemma demo_ping_dst: "ParseIP (f_dst (demo_flags True 40000)) = Some demo_dst"
  using demo_local(2) by (simp add: demo_dst_def)

text \<open>A ping of the test client, and the packet two routers on.\<close>

lemma demo_ping:
  obtains s l3 skb l2' where "runICMP demo_env (demo_flags True 40000) [] = Some (Inr ([s], None))"
    "sent_l3 s = Some l3" "forwarded (isV6 demo_dst) 2 l3 (l2_l3 l2')" "parseL2 (sk_data (skb :: sk_buff)) = Some (Some l2')"
    "l2_etherType l2' = ether (isV6 demo_dst)"
proof -
  obtain fr where fr: "runICMP demo_env (demo_flags True 40000) [] = Some (Inr ([Frame 3 fr], None))" using demo_runs(1) by blast
  have v6: "\<not> isV6 demo_dst" by code_simp
  obtain l3 where l3: "sent_l3 (Frame 3 fr) = Some l3" using ping_packet [OF fr demo_ping_dst] by metis
  let ?l3 = "l3[4 := 0, 5 := 0, 8 := l3 ! 8 - of_nat 2, 10 := 0, 11 := 0]"
  let ?l2 = "\<lparr>l2_dst = replicate 6 2, l2_src = replicate 6 1, l2_etherType = 0x0800, l2_vlan = 0, l2_l3 = ?l3\<rparr>"
  have "parseL2 (sk_data (demo_skb (Ethernet (replicate 6 2) (replicate 6 1) 0x0800 ?l3))) = Some (Some ?l2)"
    by (simp add: demo_skb_def parseL2_Ethernet)
  moreover have "forwarded (isV6 demo_dst) 2 l3 (l2_l3 ?l2)" using v6 by (auto simp: forwarded_def)
  ultimately show ?thesis
    using that [OF fr l3, of ?l2 "demo_skb (Ethernet (replicate 6 2) (replicate 6 1) 0x0800 ?l3)"] v6 by (simp add: ether_def)
qed

theorem ping_traced_witness:
  "\<exists>s skb m' rec raw a. runICMP demo_env (demo_flags True 40000) [] = Some (Inr ([s], None)) \<and>
     bpf_handle demo_benv demo_maps skb 0 = Some (a, m') \<and> events m' = [rec] \<and> Parse rec = Inr raw \<and>
     raw_ID raw = ID demo_meta \<and> raw_Hop raw = 2"
proof -
  obtain s l3 l2' and skb :: sk_buff where p: "runICMP demo_env (demo_flags True 40000) [] = Some (Inr ([s], None))"
      "sent_l3 s = Some l3" "forwarded (isV6 demo_dst) 2 l3 (l2_l3 l2')" "parseL2 (sk_data skb) = Some (Some l2')"
      "l2_etherType l2' = ether (isV6 demo_dst)"
    by (rule demo_ping)
  have h: "config_map demo_maps = Some \<lparr>cfg_IfaceType = 0, cfg_Respond = 1, cfg_TCPRespond = 1\<rparr>" "ring_room demo_benv"
    "events demo_maps = []" "newUUID demo_env = ID demo_meta" by (simp_all add: demo_maps_def demo_benv_def demo_env_def)
  obtain a m' rec raw where "bpf_handle demo_benv demo_maps skb 0 = Some (a, m')" "events m' = [rec]" "Parse rec = Inr raw"
      "raw_ID raw = ID demo_meta" "raw_Hop raw = of_nat 2"
    using ping_traced [OF demo_wf p(1) demo_ping_dst p(2-5) h(1) _ h(2), of 0] h(3,4) by auto
  with p(1) show ?thesis by fastforce
qed

end
