(* ===== verification/Go_Url.thy ===== *)
theory Go_Url
  imports Net_Parse
begin

text \<open>
  What the collector uses of the standard library's packages \<^verbatim>\<open>net/url\<close> and \<^verbatim>\<open>net/http\<close> to read a request:
  percent-encoding, the query parameters, and how the request multiplexer cleans a path and finds the
  handler for it. What was escaped is read back.
\<close>

section \<open>Percent-encoding\<close>

text \<open>\<open>inQuery\<close>: in a query a plus sign is a space.\<close>

fun unescape :: "bool \<Rightarrow> string \<Rightarrow> string option" where
  "unescape inQuery [] = Some []"
| "unescape inQuery (c # s) =
     (if c = CHR ''%'' then
        case s of
          a # b # r \<Rightarrow>
            (case (hexval a, hexval b) of
               (Some x, Some y) \<Rightarrow> map_option (Cons (char_of (16 * x + y))) (unescape inQuery r)
             | _ \<Rightarrow> None)
        | _ \<Rightarrow> None
      else map_option (Cons (if inQuery \<and> c = CHR ''+'' then CHR '' '' else c)) (unescape inQuery s))"

definition upper_hex :: "nat \<Rightarrow> char" where
  "upper_hex d = (if d < 10 then char_of (48 + d) else char_of (55 + d))"

definition unreserved :: "char \<Rightarrow> bool" where
  "unreserved c \<longleftrightarrow> (let n = of_char c :: nat in 48 \<le> n \<and> n \<le> 57 \<or> 65 \<le> n \<and> n \<le> 90 \<or> 97 \<le> n \<and> n \<le> 122) \<or>
     c \<in> set ''-_.~''"

definition QueryEscape :: "string \<Rightarrow> string" where
  "QueryEscape s = concat (map (\<lambda>c.
     if unreserved c then [c]
     else if c = CHR '' '' then ''+''
     else [CHR ''%'', upper_hex (of_char c div 16), upper_hex (of_char c mod 16)]) s)"

definition QueryUnescape :: "string \<Rightarrow> string option" where
  "QueryUnescape s = unescape True s"

text \<open>A segment that is not well escaped stands for itself.\<close>

definition pathUnescape :: "string \<Rightarrow> string" where
  "pathUnescape s = (case unescape False s of Some t \<Rightarrow> t | None \<Rightarrow> s)"

section \<open>Queries\<close>

definition Cut :: "char \<Rightarrow> string \<Rightarrow> string \<times> string" where
  "Cut c s = (takeWhile (\<lambda>x. x \<noteq> c) s, tl (dropWhile (\<lambda>x. x \<noteq> c) s))"

text \<open>\<^verbatim>\<open>url.ParseQuery\<close>: settings that are empty, contain a semicolon or are not well escaped are skipped.\<close>

definition setting :: "string \<Rightarrow> (string \<times> string) option" where
  "setting s =
     (if s = [] \<or> CHR '';'' \<in> set s then None
      else case Cut (CHR ''='') s of (k, v) \<Rightarrow>
        (case (QueryUnescape k, QueryUnescape v) of (Some k, Some v) \<Rightarrow> Some (k, v) | _ \<Rightarrow> None))"

definition ParseQuery :: "string \<Rightarrow> (string \<times> string) list" where
  "ParseQuery q = List.map_filter setting (split_on (CHR ''&'') q)"

text \<open>\<^verbatim>\<open>Values.Get\<close>: the first value, or the empty string.\<close>

definition query_get :: "string \<Rightarrow> string \<Rightarrow> string" where
  "query_get q k = (case map_of (ParseQuery q) k of Some v \<Rightarrow> v | None \<Rightarrow> [])"

section \<open>Paths\<close>

text \<open>\<^verbatim>\<open>path.Clean\<close> of a rooted path.\<close>

fun clean_segments :: "string list \<Rightarrow> string list \<Rightarrow> string list" where
  "clean_segments acc [] = acc"
| "clean_segments acc (x # xs) =
     (if x = [] \<or> x = ''.'' then clean_segments acc xs
      else if x = ''..'' then clean_segments (butlast acc) xs
      else clean_segments (acc @ [x]) xs)"

definition Clean :: "string \<Rightarrow> string" where
  "Clean p = CHR ''/'' # join ''/'' (clean_segments [] (split_on (CHR ''/'') p))"

definition cleanPath :: "string \<Rightarrow> string" where
  "cleanPath p =
     (if p = [] then ''/''
      else let p = (if hd p \<noteq> CHR ''/'' then CHR ''/'' # p else p);
               np = Clean p
           in if last p = CHR ''/'' \<and> np \<noteq> ''/'' then np @ ''/'' else np)"

text \<open>The handler of a clean path: a pattern of one segment matches that segment, unescaped; everything
  else falls to the root.\<close>

definition mux_route :: "string list \<Rightarrow> string \<Rightarrow> string" where
  "mux_route names p =
     (let seg = tl p in
      if CHR ''/'' \<notin> set seg \<and> pathUnescape seg \<in> set names then pathUnescape seg else [])"

section \<open>What was escaped is read back\<close>

lemma hexval_upper [simp]: "d < 16 \<Longrightarrow> hexval (upper_hex d) = Some d"
  by (auto simp: hexval_def upper_hex_def Let_def)

lemma char_parts: "char_of (16 * (of_char c div 16) + of_char c mod 16 :: nat) = c" "(of_char c :: nat) div 16 < 16"
proof -
  have "(of_char c :: nat) < 256" by (rule nat_of_char_less_256)
  then show "(of_char c :: nat) div 16 < 16" by (simp add: less_mult_imp_div_less)
qed simp

lemma unescape_QueryEscape: "unescape True (QueryEscape s @ r) = map_option ((@) s) (unescape True r)"
proof (induction s)
  case (Cons c s)
  have "unreserved c \<Longrightarrow> c \<noteq> CHR ''%'' \<and> c \<noteq> CHR ''+''" by (auto simp: unreserved_def)
  then show ?case
    using Cons char_parts [of c] by (auto simp: QueryEscape_def option.map_comp comp_def)
qed (simp add: QueryEscape_def option.map_id0 [unfolded id_def])

lemma QueryUnescape_QueryEscape: "QueryUnescape (QueryEscape s) = Some s"
  using unescape_QueryEscape [of s "[]"] by (simp add: QueryUnescape_def)

lemma QueryEscape_chars: "c \<in> set (QueryEscape s) \<Longrightarrow> unreserved c \<or> c = CHR ''+'' \<or> c = CHR ''%''"
proof -
  have "unreserved (upper_hex d)" if "d < 16" for d using that by (auto simp: unreserved_def upper_hex_def Let_def)
  then show "c \<in> set (QueryEscape s) \<Longrightarrow> unreserved c \<or> c = CHR ''+'' \<or> c = CHR ''%''"
    using char_parts(2) by (auto simp: QueryEscape_def split: if_splits)
qed

lemma query_get_escaped: "query_get (''id='' @ QueryEscape i) ''id'' = i"
proof -
  let ?q = "''id='' @ QueryEscape i"
  have "CHR ''&'' \<notin> set ?q" "CHR '';'' \<notin> set ?q"
    using QueryEscape_chars [of _ i] by (auto simp: unreserved_def dest!: QueryEscape_chars)
  moreover have "Cut (CHR ''='') ?q = (''id'', QueryEscape i)" by (simp add: Cut_def)
  moreover have "QueryUnescape ''id'' = Some ''id''" by (simp add: QueryUnescape_def)
  ultimately show ?thesis
    by (simp add: query_get_def ParseQuery_def split_on_free List.map_filter_simps setting_def QueryUnescape_QueryEscape)
qed

end
