(* ===== verification/Collector.thy ===== *)
theory Collector
  imports Observation Go_Url "HOL-Library.Multiset"
begin

text \<open>
  The collector (\<^verbatim>\<open>collector/main.go\<close>): a bounded in-memory store of observations grouped by run id, and
  its HTTP handlers. The mutex serialises the operations, so a history of the store is a sequence of
  calls. \<open>spec_add\<close> is the abstract store (a queue of runs); \<open>add\<close> refines it.
\<close>

section \<open>The store\<close>

definition maxObsPerRun :: nat where "maxObsPerRun = 4096"

record store =
  runs :: "(string, Observation list) gomap"
  order :: "string list"
  cap :: int

definition newStore :: "int \<Rightarrow> store" where
  "newStore capRuns = \<lparr>runs = [], order = [], cap = capRuns\<rparr>"

text \<open>The eviction loop of \<^verbatim>\<open>add\<close>; indexing an empty \<^verbatim>\<open>order\<close> panics.\<close>

fun evict :: "int \<Rightarrow> string list \<Rightarrow> (string, Observation list) gomap \<Rightarrow>
    (string list \<times> (string, Observation list) gomap) go" where
  "evict c [] rs = (if 0 > c then None else Some ([], rs))"
| "evict c (old # rest) rs =
     (if int (length (old # rest)) > c then evict c rest (mdel rs old) else Some (old # rest, rs))"

definition run_of :: "(string, Observation list) gomap \<Rightarrow> string \<Rightarrow> Observation list" where
  "run_of rs i = (case mget rs i of None \<Rightarrow> [] | Some obs \<Rightarrow> obs)"

definition add :: "store \<Rightarrow> Observation \<Rightarrow> store go" where
  "add s ob = do {
     (ord, rs) \<leftarrow> (if mget (runs s) (o_ID ob) = None
                   then evict (cap s) (order s @ [o_ID ob]) (runs s)
                   else Some (order s, runs s));
     let s = s\<lparr>order := ord, runs := rs\<rparr>;
     if length (run_of rs (o_ID ob)) \<ge> maxObsPerRun then Some s
     else Some (s\<lparr>runs := mput rs (o_ID ob) (run_of rs (o_ID ob) @ [ob])\<rparr>) }"

text \<open>\<^verbatim>\<open>sort.SliceStable\<close> with the comparison of \<^verbatim>\<open>path\<close>: by hop, then by timestamp text (Go compares
  strings bytewise), equal elements in their original order.\<close>

definition path :: "store \<Rightarrow> string \<Rightarrow> Observation list" where
  "path s i = sort_key (\<lambda>ob. (o_Hop ob, o_Timestamp ob)) (run_of (runs s) i)"

record runSummary =
  rs_ID :: string
  rs_Count :: nat

definition ids :: "store \<Rightarrow> runSummary list" where
  "ids s = foldl (\<lambda>out i. out @ [\<lparr>rs_ID = i, rs_Count = length (run_of (runs s) i)\<rparr>]) [] (order s)"

section \<open>HTTP handlers\<close>

text \<open>A request as the multiplexer gets it: method, path and query as they stand in the URL, escaped, and what
  the JSON decoder makes of the body. The method \<^verbatim>\<open>CONNECT\<close>, whose path the multiplexer leaves as it is, is
  not modelled.\<close>

record request =
  req_method :: string
  req_path :: string
  req_query :: string
  req_body :: "string + Observation"

datatype body = Text string | RunList "runSummary list" | ObsList "Observation list" | NoContent | Moved string

record response =
  status :: nat
  resp_body :: body

text \<open>\<^verbatim>\<open>http.Error\<close> writes the message as a line.\<close>

definition httpError :: "nat \<Rightarrow> string \<Rightarrow> response" where
  "httpError code msg = \<lparr>status = code, resp_body = Text (msg @ ''\<newline>'')\<rparr>"

text \<open>The multiplexer sends a request whose path is not clean to the clean path, by a redirect.\<close>

definition handlers :: "string list" where
  "handlers = [''healthz'', ''paths'', ''path'']"

definition serve :: "store \<Rightarrow> request \<Rightarrow> (response \<times> store) go" where
  "serve st r =
     (if cleanPath (req_path r) \<noteq> req_path r then Some (\<lparr>status = 301, resp_body = Moved (cleanPath (req_path r))\<rparr>, st)
      else let name = mux_route handlers (req_path r) in
      if name = ''healthz'' then Some (\<lparr>status = 200, resp_body = Text ''ok\<newline>''\<rparr>, st)
      else if name = ''paths'' then Some (\<lparr>status = 200, resp_body = RunList (ids st)\<rparr>, st)
      else if name = ''path'' then
        let i = query_get (req_query r) ''id'' in
        if i = [] then Some (httpError 400 ''missing id'', st)
        else Some (\<lparr>status = 200, resp_body = ObsList (path st i)\<rparr>, st)
      else if req_method r \<noteq> ''POST'' then Some (httpError 405 ''POST an observation'', st)
      else case req_body r of
        Inl err \<Rightarrow> Some (httpError 400 err, st)
      | Inr ob \<Rightarrow>
          if o_ID ob = [] then Some (httpError 400 ''observation missing id'', st)
          else do {
            st \<leftarrow> add st ob;
            Some (\<lparr>status = 204, resp_body = NoContent\<rparr>, st) })"

text \<open>The paths that take observations: clean ones that name no other handler.\<close>

definition ingests :: "string \<Rightarrow> bool" where
  "ingests p \<longleftrightarrow> cleanPath p = p \<and> mux_route handlers p = []"

section \<open>Invariant\<close>

definition run_ok :: "string \<Rightarrow> Observation list \<Rightarrow> bool" where
  "run_ok i obs \<longleftrightarrow> obs \<noteq> [] \<and> length obs \<le> maxObsPerRun \<and> (\<forall>ob \<in> set obs. o_ID ob = i)"

definition store_inv :: "store \<Rightarrow> bool" where
  "store_inv s \<longleftrightarrow> 1 \<le> cap s \<and> distinct (order s) \<and> mwf (runs s) \<and> int (length (order s)) \<le> cap s \<and>
     (\<forall>i. mget (runs s) i \<noteq> None \<longleftrightarrow> i \<in> set (order s)) \<and>
     (\<forall>i obs. mget (runs s) i = Some obs \<longrightarrow> run_ok i obs)"

text \<open>One new run is admitted by dropping at most the oldest.\<close>

lemma evict_one:
  assumes "1 \<le> c" "int (length ord) \<le> c"
  shows "evict c (ord @ [i]) rs = Some
    (if int (length ord) < c then (ord @ [i], rs) else (tl ord @ [i], mdel rs (hd ord)))"
proof (cases ord)
  case Nil
  with assms show ?thesis by simp
next
  case (Cons old rest)
  have stop: "evict c (xs @ [i]) rs' = Some (xs @ [i], rs')" if "int (length xs) < c" for xs rs'
    using that by (cases xs) auto
  show ?thesis
    using assms Cons stop [of rest "mdel rs old"] by simp
qed

text \<open>The abstract store: runs in order of arrival, at most \<open>c\<close> of them, the oldest leaving first.\<close>

definition spec_add :: "int \<Rightarrow> (string \<times> Observation list) list \<Rightarrow> Observation \<Rightarrow> (string \<times> Observation list) list" where
  "spec_add c l ob =
     (if o_ID ob \<in> fst ` set l
      then map (\<lambda>(i, obs). (i, if i = o_ID ob \<and> length obs < maxObsPerRun then obs @ [ob] else obs)) l
      else (if int (length l) < c then l else tl l) @ [(o_ID ob, [ob])])"

definition abs_store :: "store \<Rightarrow> (string \<times> Observation list) list" where
  "abs_store s = map (\<lambda>i. (i, run_of (runs s) i)) (order s)"

lemma add_known:
  assumes "mget (runs s) (o_ID ob) = Some obs"
  shows "add s ob = Some (if maxObsPerRun \<le> length obs then s
                          else s\<lparr>runs := mput (runs s) (o_ID ob) (obs @ [ob])\<rparr>)"
  using assms by (simp add: add_def run_of_def)

lemma add_new:
  assumes "store_inv s" "mget (runs s) (o_ID ob) = None"
  shows "add s ob = Some (if int (length (order s)) < cap s
     then s\<lparr>order := order s @ [o_ID ob], runs := mput (runs s) (o_ID ob) [ob]\<rparr>
     else s\<lparr>order := tl (order s) @ [o_ID ob], runs := mput (mdel (runs s) (hd (order s))) (o_ID ob) [ob]\<rparr>)"
  using assms evict_one [of "cap s" "order s" "o_ID ob" "runs s"]
  by (auto simp: add_def run_of_def store_inv_def gomap_simps maxObsPerRun_def)

lemma store_invD:
  assumes "store_inv s"
  shows "1 \<le> cap s" "distinct (order s)" "mwf (runs s)" "int (length (order s)) \<le> cap s"
    "mget (runs s) i \<noteq> None \<longleftrightarrow> i \<in> set (order s)"
    "mget (runs s) i = Some obs \<Longrightarrow> run_ok i obs"
  using assms by (simp_all add: store_inv_def)

text \<open>Storing a good run under an id of the order keeps the invariant.\<close>

lemma store_inv_put:
  assumes "1 \<le> cap s" "distinct ord" "mwf rs" "int (length ord) \<le> cap s" "i \<in> set ord" "run_ok i obs"
    and "\<And>j. j \<noteq> i \<Longrightarrow> mget rs j \<noteq> None \<longleftrightarrow> j \<in> set ord"
    and "\<And>j obs. j \<noteq> i \<Longrightarrow> mget rs j = Some obs \<Longrightarrow> run_ok j obs"
  shows "store_inv (s\<lparr>order := ord, runs := mput rs i obs\<rparr>)"
  unfolding store_inv_def
  using assms(1-6) assms(7,8) by (simp add: gomap_simps)

lemma run_ok_single: "run_ok (o_ID ob) [ob]"
  by (simp add: run_ok_def maxObsPerRun_def)

lemma run_ok_append: "run_ok (o_ID ob) obs \<Longrightarrow> \<not> maxObsPerRun \<le> length obs \<Longrightarrow> run_ok (o_ID ob) (obs @ [ob])"
  by (auto simp: run_ok_def)

lemma add_new_inv:
  assumes inv: "store_inv s" and new: "mget (runs s) (o_ID ob) = None" and add: "add s ob = Some s'"
  shows "store_inv s' \<and> cap s' = cap s"
proof -
  note D = store_invD [OF inv]
  have fresh: "o_ID ob \<notin> set (order s)" using D(5) [of "o_ID ob"] new by simp
  show ?thesis
  proof (cases "int (length (order s)) < cap s")
    case True
    have "store_inv (s\<lparr>order := order s @ [o_ID ob], runs := mput (runs s) (o_ID ob) [ob]\<rparr>)"
      by (rule store_inv_put) (use D fresh True run_ok_single in simp_all)
    with True add [unfolded add_new [OF inv new]] show ?thesis by auto
  next
    case False
    obtain old rest where o: "order s = old # rest"
      using False D(1,4) by (cases "order s") auto
    have mem: "mget (runs s) j \<noteq> None \<longleftrightarrow> j = old \<or> j \<in> set rest" for j using D(5) [of j] o by simp
    have "store_inv (s\<lparr>order := rest @ [o_ID ob], runs := mput (mdel (runs s) old) (o_ID ob) [ob]\<rparr>)"
    proof (rule store_inv_put)
      show "mget (mdel (runs s) old) j \<noteq> None \<longleftrightarrow> j \<in> set (rest @ [o_ID ob])" if "j \<noteq> o_ID ob" for j
        using mem [of j] D(2) o that by (auto simp: gomap_simps)
      show "run_ok j obs" if "mget (mdel (runs s) old) j = Some obs" for j obs
        using that D(6) by (simp add: gomap_simps split: if_splits)
    qed (use D fresh o run_ok_single in \<open>simp_all add: gomap_simps\<close>)
    with False o add [unfolded add_new [OF inv new]] show ?thesis by auto
  qed
qed

lemma add_known_inv:
  assumes inv: "store_inv s" and known: "mget (runs s) (o_ID ob) = Some obs" and add: "add s ob = Some s'"
  shows "store_inv s' \<and> cap s' = cap s"
proof (cases "maxObsPerRun \<le> length obs")
  case True
  with inv add [unfolded add_known [OF known]] show ?thesis by simp
next
  case False
  note D = store_invD [OF inv]
  have "o_ID ob \<in> set (order s)" using D(5) [of "o_ID ob"] known by simp
  moreover have "run_ok (o_ID ob) (obs @ [ob])" using D(6) [OF known] False by (rule run_ok_append)
  ultimately have "store_inv (s\<lparr>order := order s, runs := mput (runs s) (o_ID ob) (obs @ [ob])\<rparr>)"
    by (intro store_inv_put) (use D in simp_all)
  with False add [unfolded add_known [OF known]] show ?thesis by auto
qed

lemma add_inv: "store_inv s \<Longrightarrow> add s ob = Some s' \<Longrightarrow> store_inv s' \<and> cap s' = cap s"
  using add_new_inv [of s ob s'] add_known_inv [of s ob _ s'] by (cases "mget (runs s) (o_ID ob)") blast+

lemma add_total: "store_inv s \<Longrightarrow> \<exists>s'. add s ob = Some s'"
  using add_new [of s ob] add_known [of s ob] by (cases "mget (runs s) (o_ID ob)") blast+

lemma newStore_inv: "1 \<le> c \<Longrightarrow> store_inv (newStore c)"
  by (simp add: store_inv_def newStore_def gomap_simps)

text \<open>The store driven by a sequence of observations.\<close>

definition store_step :: "store \<Rightarrow> Observation \<Rightarrow> store" where
  "store_step s ob = (case add s ob of None \<Rightarrow> s | Some s' \<Rightarrow> s')"

interpretation coll: invariant_machine store_step store_inv
proof
  fix s :: store and ob
  assume "store_inv s"
  with add_total [of s ob] add_inv [of s ob] show "store_inv (store_step s ob)"
    by (auto simp: store_step_def)
qed

lemma abs_add:
  assumes inv: "store_inv s" and add: "add s ob = Some s'"
  shows "abs_store s' = spec_add (cap s) (abs_store s) ob"
proof (cases "mget (runs s) (o_ID ob)")
  case None
  note D = store_invD [OF inv]
  have fresh: "o_ID ob \<notin> set (order s)" using D(5) [of "o_ID ob"] None by simp
  show ?thesis
  proof (cases "int (length (order s)) < cap s")
    case True
    with fresh add [unfolded add_new [OF inv None]] show ?thesis
      by (auto simp: abs_store_def spec_add_def run_of_def gomap_simps image_image)
  next
    case False
    obtain old rest where o: "order s = old # rest"
      using False D(1,4) by (cases "order s") auto
    have "old \<notin> set rest" using D(2) o by simp
    with False o fresh add [unfolded add_new [OF inv None]] show ?thesis
      by (auto simp: abs_store_def spec_add_def run_of_def gomap_simps image_image)
  qed
next
  case (Some obs)
  then have "o_ID ob \<in> set (order s)" using store_invD(5) [OF inv, of "o_ID ob"] by simp
  then show ?thesis
    using add [unfolded add_known [OF Some]] Some
    by (auto simp: abs_store_def spec_add_def run_of_def gomap_simps image_image)
qed

lemma store_step_eq: "store_inv s \<Longrightarrow> add s ob = Some (store_step s ob)"
  using add_total [of s ob] by (auto simp: store_step_def)

lemma run_cap:
  assumes "1 \<le> c"
  shows "cap (foldl store_step (newStore c) obs) = c"
proof (induction obs rule: rev_induct)
  case (snoc x xs)
  have "store_inv (foldl store_step (newStore c) xs)" using newStore_inv [OF assms] by (rule coll.run_inv)
  from add_inv [OF this store_step_eq [OF this]] snoc show ?case by simp
qed (simp add: newStore_def)

lemma take_snoc: "take n (xs @ [x]) = (if n \<le> length xs then take n xs else take n xs @ [x])"
  by simp

text \<open>While no more runs arrive than the store retains, it holds the first observations of each.\<close>

lemma history:
  assumes "1 \<le> c" "int (card (o_ID ` set obs)) \<le> c"
  shows "set (order (foldl store_step (newStore c) obs)) = o_ID ` set obs \<and>
    (\<forall>i. run_of (runs (foldl store_step (newStore c) obs)) i =
       take maxObsPerRun (filter (\<lambda>ob. o_ID ob = i) obs))"
  using assms(2)
proof (induction obs rule: rev_induct)
  case Nil
  then show ?case by (simp add: newStore_def run_of_def gomap_simps)
next
  case (snoc ob obs)
  let ?s = "foldl store_step (newStore c) obs"
  have inv: "store_inv ?s" using newStore_inv [OF assms(1)] by (rule coll.run_inv)
  have cap: "cap ?s = c" by (rule run_cap [OF assms(1)])
  have "card (o_ID ` set obs) \<le> card (o_ID ` set (obs @ [ob]))" by (rule card_mono) auto
  then have IH: "set (order ?s) = o_ID ` set obs"
      "run_of (runs ?s) i = take maxObsPerRun (filter (\<lambda>ob. o_ID ob = i) obs)" for i
    using snoc by auto
  note step = store_step_eq [OF inv, of ob]
  show ?case
  proof (cases "mget (runs ?s) (o_ID ob)")
    case None
    then have fresh: "o_ID ob \<notin> o_ID ` set obs" using store_invD(5) [OF inv, of "o_ID ob"] IH(1) by simp
    then have nil: "filter (\<lambda>x. o_ID x = o_ID ob) obs = []" by (auto simp: filter_empty_conv image_iff)
    have "length (order ?s) = card (o_ID ` set obs)"
      using distinct_card [OF store_invD(2) [OF inv]] IH(1) by simp
    also have "\<dots> < card (o_ID ` set (obs @ [ob]))" using fresh by simp
    finally have "int (length (order ?s)) < cap ?s" using snoc.prems cap by simp
    then have s': "store_step ?s ob = ?s\<lparr>order := order ?s @ [o_ID ob], runs := mput (runs ?s) (o_ID ob) [ob]\<rparr>"
      using step add_new [OF inv None] by simp
    have "run_of (runs (store_step ?s ob)) i = take maxObsPerRun (filter (\<lambda>x. o_ID x = i) (obs @ [ob]))" for i
      using IH(2) [of i] nil by (auto simp: s' run_of_def gomap_simps maxObsPerRun_def)
    then show ?thesis using IH(1) by (auto simp: s')
  next
    case (Some os)
    then have mem: "o_ID ob \<in> o_ID ` set obs" using store_invD(5) [OF inv, of "o_ID ob"] IH(1) by simp
    have os: "os = take maxObsPerRun (filter (\<lambda>x. o_ID x = o_ID ob) obs)"
      using IH(2) [of "o_ID ob"] Some by (simp add: run_of_def)
    have s': "store_step ?s ob = (if maxObsPerRun \<le> length os then ?s
        else ?s\<lparr>runs := mput (runs ?s) (o_ID ob) (os @ [ob])\<rparr>)"
      using step add_known [OF Some] by simp
    have "run_of (runs (store_step ?s ob)) i = take maxObsPerRun (filter (\<lambda>x. o_ID x = i) (obs @ [ob]))" for i
    proof (cases "i = o_ID ob")
      case True
      then show ?thesis
        using IH(2) [of i] os unfolding s'
        by (auto simp: run_of_def gomap_simps take_snoc simp del: take_append)
    next
      case False
      then show ?thesis using IH(2) [of i] by (simp add: s' run_of_def gomap_simps)
    qed
    moreover have "set (order (store_step ?s ob)) = o_ID ` set (obs @ [ob])"
      using IH(1) mem by (auto simp: s')
    ultimately show ?thesis by simp
  qed
qed

section \<open>Concrete observations\<close>

definition demo_obs :: "string \<Rightarrow> byte \<Rightarrow> string \<Rightarrow> Observation" where
  "demo_obs i hop ts = \<lparr>o_ID = i, o_NodeID = ''n1'', o_Hop = hop, o_Direction = ''INGRESS'', o_VNI = 0, o_VLAN = 0,
     o_Action = ''FORWARDED'', o_Protocol = ''UDP'', o_IPVersion = 4, o_IfIndex = 2, o_Iface = ''eth0'',
     o_LogicalSwitch = [], o_AZ = [], o_SrcIP = ''10.0.0.1'', o_DstIP = ''10.0.0.2'', o_SrcPort = 1, o_DstPort = 2,
     o_TCPFlags = [], o_IfaceType = ''REGULAR'', o_Timestamp = ts, o_CaptureNS = 1, o_LatencyNS = 1, o_ClockSkew = False\<rparr>"

lemma demo_obs_ID [simp]: "o_ID (demo_obs i hop ts) = i" "o_Hop (demo_obs i hop ts) = hop"
  "o_Timestamp (demo_obs i hop ts) = ts"
  by (simp_all add: demo_obs_def)

section \<open>Properties\<close>



text \<open>
  Boundedness. For a retention of at least one run, after any sequence of observations the store
  holds at most that many runs, each run id once and in order of arrival, at most 4096 observations
  per run, every observation under its own run id, and no run outside the order.
\<close>

theorem store_bounded:
  assumes "1 \<le> c"
  shows "store_inv (foldl store_step (newStore c) obs)"
  using newStore_inv [OF assms] by (rule coll.run_inv)

theorem store_bounded_witness: "store_inv (foldl store_step (newStore 1) [demo_obs ''a'' 1 ''t'', demo_obs ''b'' 1 ''t''])"
  by (rule store_bounded) simp



text \<open>The store is not an LRU store: of two runs in a full store the one just updated is dropped, because it
  arrived first.\<close>

lemma not_lru:
  "map_option (map fst \<circ> abs_store)
     (do { s \<leftarrow> add (newStore 2) (demo_obs ''a'' 1 ''t''); s \<leftarrow> add s (demo_obs ''b'' 1 ''t'');
           s \<leftarrow> add s (demo_obs ''a'' 2 ''t''); add s (demo_obs ''c'' 1 ''t'') }) = Some [''b'', ''c'']"
  by code_simp

text \<open>
  Paths are ordered. The path of a run lists exactly the stored observations, by ascending hop and,
  within a hop, ascending timestamp text; observations with equal hop and timestamp keep the order
  in which they arrived.
\<close>

theorem path_ordered:
  "mset (path s i) = mset (run_of (runs s) i) \<and>
   sorted (map (\<lambda>ob. (o_Hop ob, o_Timestamp ob)) (path s i)) \<and>
   filter (\<lambda>ob. (o_Hop ob, o_Timestamp ob) = k) (path s i) =
     filter (\<lambda>ob. (o_Hop ob, o_Timestamp ob) = k) (run_of (runs s) i)"
  unfolding path_def by (simp add: sort_key_stable del: prod.inject)

lemma mux_route_handlers: "mux_route handlers p \<in> {[], ''healthz'', ''paths'', ''path''}"
  by (auto simp: mux_route_def handlers_def Let_def)

lemma handler_paths:
  "cleanPath ''/paths'' = ''/paths''" "mux_route handlers ''/paths'' = ''paths''"
  "cleanPath ''/path'' = ''/path''" "mux_route handlers ''/path'' = ''path''"
  "cleanPath ''/healthz'' = ''/healthz''" "mux_route handlers ''/healthz'' = ''healthz''"
  by code_simp+

lemma root_ingests: "ingests ''/''"
  by code_simp

text \<open>
  C38: The HTTP interface. On a store that meets the invariant every request is answered without a panic, and:
  a POST of an observation with an id, to a clean path that names no other handler, adds the observation to
  the store and is answered 204; nothing else changes the store or is answered 204. A path that is not clean is
  redirected, 301. \<^verbatim>\<open>/healthz\<close> answers 200 and ok. \<^verbatim>\<open>/paths\<close> answers 200 and the runs with their numbers of
  observations. \<^verbatim>\<open>/path\<close> answers 200 and the path of the run the query names, percent-encoded, and 400 when it
  names none. A method other than POST on an ingest path is answered 405, and a body that is not an observation or has
  no id 400.
\<close>

theorem serve_branches:
  assumes "store_inv st"
  shows "\<exists>resp st'. serve st r = Some (resp, st') \<and> store_inv st' \<and>
     (ingests (req_path r) \<and> req_method r = ''POST'' \<and> req_body r = Inr ob \<and> o_ID ob \<noteq> [] \<longrightarrow>
        add st ob = Some st' \<and> status resp = 204 \<and> resp_body resp = NoContent) \<and>
     (st' \<noteq> st \<or> status resp = 204 \<longrightarrow> req_method r = ''POST'' \<and> ingests (req_path r) \<and>
        (\<exists>ob. req_body r = Inr ob \<and> o_ID ob \<noteq> [] \<and> add st ob = Some st' \<and> status resp = 204)) \<and>
     (cleanPath (req_path r) \<noteq> req_path r \<longrightarrow> status resp = 301 \<and> resp_body resp = Moved (cleanPath (req_path r))) \<and>
     (req_path r = ''/healthz'' \<longrightarrow> status resp = 200 \<and> resp_body resp = Text ''ok\<newline>'') \<and>
     (req_path r = ''/paths'' \<longrightarrow> status resp = 200 \<and>
        resp_body resp = RunList (map (\<lambda>(i, obs). \<lparr>rs_ID = i, rs_Count = length obs\<rparr>) (abs_store st))) \<and>
     (req_path r = ''/path'' \<and> req_query r = ''id='' @ QueryEscape i \<and> i \<noteq> [] \<longrightarrow> status resp = 200 \<and> resp_body resp = ObsList (path st i)) \<and>
     (req_path r = ''/path'' \<and> query_get (req_query r) ''id'' = [] \<longrightarrow> status resp = 400) \<and>
     (ingests (req_path r) \<and> req_method r \<noteq> ''POST'' \<longrightarrow> status resp = 405) \<and>
     (ingests (req_path r) \<and> req_method r = ''POST'' \<and> (\<forall>ob. req_body r = Inr ob \<longrightarrow> o_ID ob = []) \<longrightarrow> status resp = 400)"
proof -
  have ids: "ids st = map (\<lambda>(i, obs). \<lparr>rs_ID = i, rs_Count = length obs\<rparr>) (abs_store st)"
  proof -
    have "foldl (\<lambda>out i. out @ [f i]) acc xs = acc @ map f xs" for f :: "string \<Rightarrow> runSummary" and acc xs
      by (induction xs arbitrary: acc) simp_all
    then show ?thesis by (simp add: ids_def abs_store_def)
  qed
  note paths = handler_paths
  show ?thesis
  proof (cases "\<exists>ob. req_method r = ''POST'' \<and> ingests (req_path r) \<and> req_body r = Inr ob \<and> o_ID ob \<noteq> []")
    case True
    then obtain ob' where ob: "req_method r = ''POST''" "ingests (req_path r)" "req_body r = Inr ob'" "o_ID ob' \<noteq> []" by blast
    have "req_path r \<noteq> ''/paths''" "req_path r \<noteq> ''/path''" "req_path r \<noteq> ''/healthz''" using ob(2) paths by (auto simp: ingests_def)
    moreover obtain s' where "add st ob' = Some s'" using add_total [OF assms] by blast
    ultimately show ?thesis using ob add_inv [OF assms] by (auto simp: serve_def ingests_def)
  next
    case False
    note named = paths query_get_escaped [simplified]
    consider "cleanPath (req_path r) \<noteq> req_path r" | "cleanPath (req_path r) = req_path r" "mux_route handlers (req_path r) = ''healthz''"
      | "cleanPath (req_path r) = req_path r" "mux_route handlers (req_path r) = ''paths''"
      | "cleanPath (req_path r) = req_path r" "mux_route handlers (req_path r) = ''path''" | "ingests (req_path r)"
      using mux_route_handlers [of "req_path r"] by (auto simp: ingests_def)
    then show ?thesis
    proof cases
      case 5
      have "req_path r \<noteq> ''/paths''" "req_path r \<noteq> ''/path''" "req_path r \<noteq> ''/healthz''" using 5 paths by (auto simp: ingests_def)
      then show ?thesis using 5 False assms by (cases "req_body r") (auto simp: serve_def httpError_def ingests_def)
    qed (use assms ids named in \<open>auto simp: serve_def httpError_def ingests_def Let_def\<close>)
  qed
qed

theorem serve_branches_witness:
  "(\<exists>resp st'. serve (newStore 1) \<lparr>req_method = ''GET'', req_path = ''/path'', req_query = ''id=a%2'', req_body = Inl []\<rparr> =
      Some (resp, st') \<and> status resp = 400) \<and>
   (\<exists>resp st'. serve (newStore 1) \<lparr>req_method = ''POST'', req_path = ''/'', req_query = [], req_body = Inr (demo_obs ''a'' 1 ''t'')\<rparr> =
      Some (resp, st') \<and> add (newStore 1) (demo_obs ''a'' 1 ''t'') = Some st' \<and> status resp = 204)"
proof
  have "query_get ''id=a%2'' ''id'' = []" by code_simp
  then show "\<exists>resp st'. serve (newStore 1) \<lparr>req_method = ''GET'', req_path = ''/path'', req_query = ''id=a%2'', req_body = Inl []\<rparr> =
      Some (resp, st') \<and> status resp = 400"
    using serve_branches [OF newStore_inv, of 1 "\<lparr>req_method = ''GET'', req_path = ''/path'', req_query = ''id=a%2'', req_body = Inl []\<rparr>" undefined "[]"]
    by auto
  show "\<exists>resp st'. serve (newStore 1) \<lparr>req_method = ''POST'', req_path = ''/'', req_query = [], req_body = Inr (demo_obs ''a'' 1 ''t'')\<rparr> =
      Some (resp, st') \<and> add (newStore 1) (demo_obs ''a'' 1 ''t'') = Some st' \<and> status resp = 204"
    using serve_branches [OF newStore_inv, of 1 "\<lparr>req_method = ''POST'', req_path = ''/'', req_query = [], req_body = Inr (demo_obs ''a'' 1 ''t'')\<rparr>"
        "demo_obs ''a'' 1 ''t''" "[]"] root_ingests
    by (auto simp: demo_obs_def)
qed

section \<open>Limits of the store\<close>

text \<open>With a retention of zero runs a new id is evicted from the order before its observation is
  stored, so the run stays in the map and is never evicted: the map grows without bound.\<close>

lemma cap_zero_leaks:
  assumes "cap s = 0" "order s = []" "mwf (runs s)" "mget (runs s) (o_ID ob) = None"
  shows "\<exists>s'. add s ob = Some s' \<and> cap s' = 0 \<and> order s' = [] \<and> mwf (runs s') \<and> mlen (runs s') = Suc (mlen (runs s))"
  using assms by (simp add: add_def run_of_def maxObsPerRun_def gomap_simps gm.len_put gm.len_del)

text \<open>With a negative retention the eviction loop indexes an empty slice.\<close>

lemma negative_cap_panics: "c < 0 \<Longrightarrow> add (newStore c) ob = None"
  by (simp add: add_def newStore_def gomap_simps)

lemma less_append_same: "p @ x < p @ y \<longleftrightarrow> x < (y :: string)"
  by (induction p) simp_all

text \<open>
  Timestamps are ordered as text, not as instants. Two observations of one hop, the first taken
  20 ms before the second, are listed in the wrong order of time: the text form drops trailing
  zeros of the fraction, so the earlier \<^verbatim>\<open>.1Z\<close> sorts after the later \<^verbatim>\<open>.12Z\<close>.
\<close>

theorem path_not_time_ordered:
  "\<exists>t1 t2. UnixNano t1 < UnixNano t2 \<and> zoneOffset t1 = 0 \<and> zoneOffset t2 = 0 \<and>
     path (foldl store_step (newStore 1) [demo_obs ''a'' 1 (RFC3339Nano t1), demo_obs ''a'' 1 (RFC3339Nano t2)]) ''a'' =
       [demo_obs ''a'' 1 (RFC3339Nano t2), demo_obs ''a'' 1 (RFC3339Nano t1)]"
proof -
  let ?t1 = "\<lparr>unixSec = 1700000000, nsec = 100000000, zoneOffset = 0\<rparr>"
  let ?t2 = "\<lparr>unixSec = 1700000000, nsec = 120000000, zoneOffset = 0\<rparr>"
  have chars: "char_of (48 :: nat) = CHR ''0''" "char_of (49 :: nat) = CHR ''1''" "char_of (50 :: nat) = CHR ''2''"
    by code_simp+
  have frac: "frac_string 100000000 = ''.1''" "frac_string 120000000 = ''.12''"
    by (simp_all add: frac_string_def zpad_def dec_string_def num_string.simps digit_char_def chars)
  have t: "RFC3339Nano ?t2 < RFC3339Nano ?t1"
    by (simp add: RFC3339Nano_def frac zone_string_def Let_def split_beta less_append_same less_char_def)
  have u: "UnixNano ?t1 < UnixNano ?t2" by (simp add: UnixNano_def word_less_nat_alt)
  have "path (foldl store_step (newStore 1) [demo_obs ''a'' 1 (RFC3339Nano ?t1), demo_obs ''a'' 1 (RFC3339Nano ?t2)]) ''a'' =
       [demo_obs ''a'' 1 (RFC3339Nano ?t2), demo_obs ''a'' 1 (RFC3339Nano ?t1)]"
    using history [of 1 "[demo_obs ''a'' 1 (RFC3339Nano ?t1), demo_obs ''a'' 1 (RFC3339Nano ?t2)]"] t
    by (simp add: path_def maxObsPerRun_def)
  with u show ?thesis by (intro exI [of _ ?t1] exI [of _ ?t2]) simp
qed

end
