(* ===== verification/Pipeline.thy ===== *)
theory Pipeline
  imports Emit Collector
begin

text \<open>
  From the agents to the collector: the JSON form of an observation (the struct tags of
  \<^verbatim>\<open>internal/observation\<close>), what \<^verbatim>\<open>json.Marshal\<close> makes of it in the agent's shipping loop and what the
  collector's decoder reads back, and the path of an observation from the emitters of several agents
  into the collector's store and out again as the text of its answers, all in the JSON of theory \<open>Json\<close>.
\<close>

section \<open>The JSON form\<close>

definition jnum :: "'a::len word \<Rightarrow> json" where
  "jnum w = JNum (dec_string (unat w))"

definition MarshalObs :: "Observation \<Rightarrow> json" where
  "MarshalObs ob = JObj (
     [(''id'', JStr (o_ID ob)), (''node_id'', JStr (o_NodeID ob)), (''hop'', jnum (o_Hop ob)),
      (''direction'', JStr (o_Direction ob)), (''vni'', jnum (o_VNI ob))] @
     opt_attr (o_VLAN ob \<noteq> 0) ''vlan'' (jnum (o_VLAN ob)) @
     [(''action'', JStr (o_Action ob)), (''protocol'', JStr (o_Protocol ob)), (''ip_version'', jnum (o_IPVersion ob))] @
     opt_attr (o_IfIndex ob \<noteq> 0) ''ifindex'' (jnum (o_IfIndex ob)) @
     opt_attr (o_Iface ob \<noteq> []) ''iface'' (JStr (o_Iface ob)) @
     opt_attr (o_LogicalSwitch ob \<noteq> []) ''logical_switch'' (JStr (o_LogicalSwitch ob)) @
     opt_attr (o_AZ ob \<noteq> []) ''az'' (JStr (o_AZ ob)) @
     [(''src_ip'', JStr (o_SrcIP ob)), (''dst_ip'', JStr (o_DstIP ob))] @
     opt_attr (o_SrcPort ob \<noteq> 0) ''src_port'' (jnum (o_SrcPort ob)) @
     opt_attr (o_DstPort ob \<noteq> 0) ''dst_port'' (jnum (o_DstPort ob)) @
     opt_attr (o_TCPFlags ob \<noteq> []) ''tcp_flags'' (JStr (o_TCPFlags ob)) @
     [(''iface_type'', JStr (o_IfaceType ob)), (''timestamp'', JStr (o_Timestamp ob)),
      (''capture_ns'', jnum (o_CaptureNS ob)), (''latency_ns'', JNum (int_string (sint (o_LatencyNS ob))))] @
     opt_attr (o_ClockSkew ob) ''clock_skew'' (JBool True))"

text \<open>The decoder stores every member into the field its key names.\<close>

definition obsOf :: "(string \<times> json) list \<Rightarrow> Observation option" where
  "obsOf ms = do {
     i \<leftarrow> scalar_field asString ''id'' ms; node \<leftarrow> scalar_field asString ''node_id'' ms; hop \<leftarrow> scalar_field asUint ''hop'' ms;
     dir \<leftarrow> scalar_field asString ''direction'' ms; vni \<leftarrow> scalar_field asUint ''vni'' ms; vlan \<leftarrow> scalar_field asUint ''vlan'' ms;
     act \<leftarrow> scalar_field asString ''action'' ms; proto \<leftarrow> scalar_field asString ''protocol'' ms; ver \<leftarrow> scalar_field asUint ''ip_version'' ms;
     idx \<leftarrow> scalar_field asUint ''ifindex'' ms; ifc \<leftarrow> scalar_field asString ''iface'' ms; ls \<leftarrow> scalar_field asString ''logical_switch'' ms;
     az \<leftarrow> scalar_field asString ''az'' ms; src \<leftarrow> scalar_field asString ''src_ip'' ms; dst \<leftarrow> scalar_field asString ''dst_ip'' ms;
     sp \<leftarrow> scalar_field asUint ''src_port'' ms; dp \<leftarrow> scalar_field asUint ''dst_port'' ms; fl \<leftarrow> scalar_field asString ''tcp_flags'' ms;
     ty \<leftarrow> scalar_field asString ''iface_type'' ms; ts \<leftarrow> scalar_field asString ''timestamp'' ms; cap \<leftarrow> scalar_field asUint ''capture_ns'' ms;
     lat \<leftarrow> scalar_field asInt64 ''latency_ns'' ms; skew \<leftarrow> scalar_field asBool ''clock_skew'' ms;
     Some \<lparr>o_ID = i, o_NodeID = node, o_Hop = hop, o_Direction = dir, o_VNI = vni, o_VLAN = vlan, o_Action = act,
       o_Protocol = proto, o_IPVersion = ver, o_IfIndex = idx, o_Iface = ifc, o_LogicalSwitch = ls, o_AZ = az,
       o_SrcIP = src, o_DstIP = dst, o_SrcPort = sp, o_DstPort = dp, o_TCPFlags = fl, o_IfaceType = ty,
       o_Timestamp = ts, o_CaptureNS = cap, o_LatencyNS = lat, o_ClockSkew = skew\<rparr> }"

definition UnmarshalObs :: "json \<Rightarrow> Observation option" where
  "UnmarshalObs j = (case j of JObj ms \<Rightarrow> obsOf ms | JNull \<Rightarrow> obsOf [] | _ \<Rightarrow> None)"

section \<open>Posting and answering\<close>

text \<open>What the emitter writes to standard output, what the shipping loop sends, and what the collector makes
  of a body; \<open>errText\<close> is the decoder's message.\<close>

definition stdoutText :: "emitter \<Rightarrow> string" where
  "stdoutText e = concat (map (\<lambda>ob. writeIndented (MarshalObs ob)) (em_stdout e))"

definition postBody :: "Observation \<Rightarrow> string" where
  "postBody ob = writeCompact (MarshalObs ob)"

definition decodeBody :: "(string \<Rightarrow> string) \<Rightarrow> string \<Rightarrow> string + Observation" where
  "decodeBody errText body =
     (case Option.bind (decodeJSON body) UnmarshalObs of None \<Rightarrow> Inl (errText body) | Some ob \<Rightarrow> Inr ob)"

definition receive :: "(string \<Rightarrow> string) \<Rightarrow> string \<Rightarrow> store \<Rightarrow> string \<Rightarrow> (response \<times> store) go" where
  "receive errText urlPath st body =
     serve st \<lparr>req_method = ''POST'', req_path = urlPath, req_query = [], req_body = decodeBody errText body\<rparr>"

fun receiveAll :: "(string \<Rightarrow> string) \<Rightarrow> string \<Rightarrow> store \<Rightarrow> string list \<Rightarrow> store go" where
  "receiveAll errText urlPath st [] = Some st"
| "receiveAll errText urlPath st (b # bs) = do {
     (resp, st) \<leftarrow> receive errText urlPath st b;
     receiveAll errText urlPath st bs }"

text \<open>\<^verbatim>\<open>writeJSON\<close>. The path of a run the collector does not know is a nil slice, written as \<^verbatim>\<open>null\<close>.
  The page that goes with a redirect is not modelled.\<close>

definition MarshalSummary :: "runSummary \<Rightarrow> json" where
  "MarshalSummary r = JObj [(''id'', JStr (rs_ID r)), (''count'', JNum (dec_string (rs_Count r)))]"

definition writeJSON :: "body \<Rightarrow> string" where
  "writeJSON b = (case b of
       Text t \<Rightarrow> t
     | NoContent \<Rightarrow> []
     | Moved p \<Rightarrow> []
     | RunList rs \<Rightarrow> writeIndented (JArr (map MarshalSummary rs))
     | ObsList obs \<Rightarrow> writeIndented (if obs = [] then JNull else JArr (map MarshalObs obs)))"

text \<open>A client of the collector that asks for a path and decodes the answer into a slice of observations.\<close>

definition getPath :: "store \<Rightarrow> string \<Rightarrow> Observation list option" where
  "getPath st i = do {
     (resp, _) \<leftarrow> serve st \<lparr>req_method = ''GET'', req_path = ''/path'', req_query = ''id='' @ QueryEscape i, req_body = Inl []\<rparr>;
     if status resp \<noteq> 200 then None
     else do {
       j \<leftarrow> readJSON (writeJSON (resp_body resp));
       vs \<leftarrow> asArray j;
       collect (map UnmarshalObs vs) } }"

section \<open>The round trip\<close>

definition jsonKeys :: "string list" where
  "jsonKeys = [''id'', ''node_id'', ''hop'', ''direction'', ''vni'', ''vlan'', ''action'', ''protocol'', ''ip_version'', ''ifindex'',
     ''iface'', ''logical_switch'', ''az'', ''src_ip'', ''dst_ip'', ''src_port'', ''dst_port'', ''tcp_flags'', ''iface_type'',
     ''timestamp'', ''capture_ns'', ''latency_ns'', ''clock_skew'']"

lemma jsonKeys_lower: "\<forall>k \<in> set jsonKeys. fold_key k = k"
  by (simp add: jsonKeys_def fold_ascii lower_case_def)

lemma jsonKeys_distinct: "distinct jsonKeys"
  by (simp add: jsonKeys_def)

lemma values_of_map_of:
  assumes "distinct (map fst ms)" "\<forall>k \<in> fst ` set ms. fold_key k = k"
  shows "values_of n ms = (case map_of ms n of None \<Rightarrow> [] | Some v \<Rightarrow> [v])"
proof -
  have f: "filter (\<lambda>(k, v). fold_key k = n) ms = filter (\<lambda>(k, v). k = n) ms"
    by (rule filter_cong) (use assms(2) in force)+
  have "filter (\<lambda>(k, v). k = n) ms = (case map_of ms n of None \<Rightarrow> [] | Some v \<Rightarrow> [(n, v)])"
    using assms(1) by (induction ms) (auto simp: filter_empty_conv image_iff split: option.splits)
  then show ?thesis unfolding values_of_def f by (auto split: option.split)
qed

lemma asUint_jnum [simp]:
  fixes w :: "'a::len word"
  assumes "LENGTH('a) \<le> 64"
  shows "asUint (jnum w) = Some w"
proof -
  have "unat w < 2 ^ LENGTH('a)" by (rule unsigned_less)
  moreover have "(2 :: nat) ^ LENGTH('a) \<le> 2 ^ 64" using assms by (simp add: power_increasing del: power_numeral)
  ultimately have "unat w < 2 ^ 64" by (rule less_le_trans)
  then have "ParseUint10 (dec_string (unat w)) = Some (unat w)" by (rule ParseUint10_dec_string)
  then show ?thesis by (simp add: asUint_def jnum_def)
qed

lemma asInt64_num [simp]: "asInt64 (JNum (int_string (sint w))) = Some w"
  using sint_range_size [of w] by (simp add: asInt64_def word_size)

definition obsMembers :: "Observation \<Rightarrow> (string \<times> json) list" where
  "obsMembers ob = (case MarshalObs ob of JObj ms \<Rightarrow> ms | _ \<Rightarrow> [])"

lemma obsMembers_subseq: "subseq (map fst (obsMembers ob)) jsonKeys"
proof -
  have "subseq (map fst (opt_attr c k v)) [k]" for c k and v :: json
    using opt_attr_subseq [of "[]" "[]" c k v] by simp
  then show ?thesis
    unfolding obsMembers_def MarshalObs_def json.case jsonKeys_def map_append list.map fst_conv append_Cons append_Nil
    by (intro subseq_Cons2 opt_attr_subseq)
qed

lemma obs_values: "values_of n (obsMembers ob) = (case map_of (obsMembers ob) n of None \<Rightarrow> [] | Some v \<Rightarrow> [v])"
proof (rule values_of_map_of)
  show "distinct (map fst (obsMembers ob))" by (rule subseq_distinct [OF obsMembers_subseq jsonKeys_distinct])
  show "\<forall>k \<in> fst ` set (obsMembers ob). fold_key k = k"
    using jsonKeys_lower list_emb_set [OF obsMembers_subseq [of ob]] by fastforce
qed

lemma member_lookups:
  "values_of ''id'' (obsMembers ob) = [JStr (o_ID ob)]"
  "values_of ''node_id'' (obsMembers ob) = [JStr (o_NodeID ob)]"
  "values_of ''hop'' (obsMembers ob) = [jnum (o_Hop ob)]"
  "values_of ''direction'' (obsMembers ob) = [JStr (o_Direction ob)]"
  "values_of ''vni'' (obsMembers ob) = [jnum (o_VNI ob)]"
  "values_of ''vlan'' (obsMembers ob) = (if o_VLAN ob = 0 then [] else [jnum (o_VLAN ob)])"
  "values_of ''action'' (obsMembers ob) = [JStr (o_Action ob)]"
  "values_of ''protocol'' (obsMembers ob) = [JStr (o_Protocol ob)]"
  "values_of ''ip_version'' (obsMembers ob) = [jnum (o_IPVersion ob)]"
  "values_of ''ifindex'' (obsMembers ob) = (if o_IfIndex ob = 0 then [] else [jnum (o_IfIndex ob)])"
  "values_of ''iface'' (obsMembers ob) = (if o_Iface ob = [] then [] else [JStr (o_Iface ob)])"
  "values_of ''logical_switch'' (obsMembers ob) = (if o_LogicalSwitch ob = [] then [] else [JStr (o_LogicalSwitch ob)])"
  "values_of ''az'' (obsMembers ob) = (if o_AZ ob = [] then [] else [JStr (o_AZ ob)])"
  "values_of ''src_ip'' (obsMembers ob) = [JStr (o_SrcIP ob)]"
  "values_of ''dst_ip'' (obsMembers ob) = [JStr (o_DstIP ob)]"
  "values_of ''src_port'' (obsMembers ob) = (if o_SrcPort ob = 0 then [] else [jnum (o_SrcPort ob)])"
  "values_of ''dst_port'' (obsMembers ob) = (if o_DstPort ob = 0 then [] else [jnum (o_DstPort ob)])"
  "values_of ''tcp_flags'' (obsMembers ob) = (if o_TCPFlags ob = [] then [] else [JStr (o_TCPFlags ob)])"
  "values_of ''iface_type'' (obsMembers ob) = [JStr (o_IfaceType ob)]"
  "values_of ''timestamp'' (obsMembers ob) = [JStr (o_Timestamp ob)]"
  "values_of ''capture_ns'' (obsMembers ob) = [jnum (o_CaptureNS ob)]"
  "values_of ''latency_ns'' (obsMembers ob) = [JNum (int_string (sint (o_LatencyNS ob)))]"
  "values_of ''clock_skew'' (obsMembers ob) = (if o_ClockSkew ob then [JBool True] else [])"
  unfolding obs_values by (simp_all add: obsMembers_def MarshalObs_def map_add_def)

definition scalar_of :: "(json \<Rightarrow> 'a option) \<Rightarrow> json list \<Rightarrow> 'a option" where
  "scalar_of dec vs = (case filter (\<lambda>v. v \<noteq> JNull) vs of [] \<Rightarrow> dec JNull | vs \<Rightarrow> map_option last (collect (map dec vs)))"

lemma scalar_field_of: "scalar_field dec n ms = scalar_of dec (values_of n ms)"
  by (simp add: scalar_field_def scalar_of_def)

lemma scalar_of_simps [simp]:
  "v \<noteq> JNull \<Longrightarrow> scalar_of dec [v] = dec v" "scalar_of dec [] = dec JNull"
  "scalar_of dec (if c then vs else ws) = (if c then scalar_of dec vs else scalar_of dec ws)"
  by (cases "dec v"; simp add: scalar_of_def)+

lemma jnum_not_null [simp]: "jnum w \<noteq> JNull"
  by (simp add: jnum_def)

lemma zero_values [simp]: "asString JNull = Some []" "asString (JStr t) = Some t" "asUint JNull = Some 0" "asBool JNull = Some False" "asBool (JBool b) = Some b"
  by (simp_all add: asString_def asUint_def asBool_def)

lemma UnmarshalObs_MarshalObs: "UnmarshalObs (MarshalObs ob) = Some ob"
proof -
  have "UnmarshalObs (MarshalObs ob) = obsOf (obsMembers ob)" by (simp add: UnmarshalObs_def obsMembers_def MarshalObs_def)
  also have "\<dots> = Some ob" unfolding obsOf_def by (simp add: scalar_field_of member_lookups)
  finally show ?thesis .
qed

section \<open>Through the text\<close>

text \<open>An observation whose texts are valid UTF-8. The others reach the collector with the invalid bytes
  replaced.\<close>

definition utf8_obs :: "Observation \<Rightarrow> bool" where
  "utf8_obs ob \<longleftrightarrow> list_all valid_utf8 [o_ID ob, o_NodeID ob, o_Direction ob, o_Action ob, o_Protocol ob, o_Iface ob,
     o_LogicalSwitch ob, o_AZ ob, o_SrcIP ob, o_DstIP ob, o_TCPFlags ob, o_IfaceType ob, o_Timestamp ob]"

lemma number_literal_dec: "number_literal (dec_string n)"
  using number_literal_int_string [of "int n"] by (simp add: int_string_def)

lemma fits_obs: "0 < d \<Longrightarrow> fits d (MarshalObs ob)"
  by (auto simp: MarshalObs_def opt_attr_def jnum_def number_literal_dec number_literal_int_string)

lemma fits_summary: "0 < d \<Longrightarrow> fits d (MarshalSummary r)"
  by (simp add: MarshalSummary_def number_literal_dec)

lemma keys_valid: "k \<in> set jsonKeys \<Longrightarrow> to_valid k = k"
  using valid_ascii by (auto simp: jsonKeys_def valid_utf8_def)

lemma clean_members:
  assumes "\<forall>(k, v) \<in> set ms. to_valid k = k \<and> clean v = v"
  shows "clean (JObj ms) = JObj ms"
  using assms by (simp add: map_idI case_prod_unfold)

lemma list_all_opt_attr [simp]: "list_all P (opt_attr c k v) \<longleftrightarrow> (c \<longrightarrow> P (k, v))"
  by (simp add: opt_attr_def)

lemma clean_obs:
  assumes "utf8_obs ob"
  shows "clean (MarshalObs ob) = MarshalObs ob"
proof -
  have "MarshalObs ob = JObj (obsMembers ob)" by (simp add: obsMembers_def MarshalObs_def)
  moreover have "list_all (\<lambda>(k, v). clean v = v) (obsMembers ob)"
    using assms by (simp add: obsMembers_def MarshalObs_def jnum_def utf8_obs_def valid_utf8_def)
  then have "clean v = v" if "(k, v) \<in> set (obsMembers ob)" for k v
    using that by (auto simp: list_all_iff)
  moreover have "to_valid k = k" if "(k, v) \<in> set (obsMembers ob)" for k v
  proof -
    have "k \<in> set (map fst (obsMembers ob))" using that by force
    then have "k \<in> set jsonKeys" using list_emb_set [OF obsMembers_subseq [of ob]] by metis
    then show ?thesis by (rule keys_valid)
  qed
  ultimately show ?thesis using clean_members [of "obsMembers ob"] by auto
qed

text \<open>What the agent itself writes is ASCII: only the run id's text, the node's name and the names of
  interfaces, zones and logical switches can be anything else.\<close>

definition ascii :: "string \<Rightarrow> bool" where
  "ascii s \<longleftrightarrow> list_all (\<lambda>c. (of_char c :: nat) < 0x80) s"

lemma ascii_simps [simp]:
  "ascii []" "ascii (c # s) \<longleftrightarrow> (of_char c :: nat) < 0x80 \<and> ascii s" "ascii (s @ t) \<longleftrightarrow> ascii s \<and> ascii t"
  by (simp_all add: ascii_def)

lemma ascii_numbers [simp]: "ascii (dec_string n)" "ascii (zpad w n)" "ascii (frac_string n)"
proof -
  show d: "ascii (dec_string n)" for n
    using dec_string_digits [of _ n] by (force simp: ascii_def list_all_iff is_digit_def)
  show z: "ascii (zpad w n)" for w n
    using d [of n] by (simp add: zpad_def Let_def) (simp add: ascii_def list_all_iff)
  have "set (dropWhile P xs) \<subseteq> set xs" for P and xs :: string by (auto dest: set_dropWhileD)
  then show "ascii (frac_string n)"
    using z [of 9 n] by (fastforce simp: frac_string_def Let_def ascii_def list_all_iff dest: set_dropWhileD)
qed

lemma ascii_time [simp]: "ascii (RFC3339Nano t)"
  by (simp add: RFC3339Nano_def year_string_def zone_string_def Let_def split: prod.split)

lemma ascii_strings [simp]:
  "ascii (directionString d)" "ascii (actionString a)" "ascii (protocolString p)" "ascii (ifaceString y)"
  by (simp_all add: directionString_def actionString_def protocolString_def ifaceString_def)

lemma ascii_ip: "length b = 16 \<Longrightarrow> ascii (ipString v b)"
  using ip_string_plain [of b] ip_string_plain [of "take 4 b"]
  by (force simp: ipString_def ascii_def list_all_iff plain_def Let_def)

lemma ascii_flags [simp]: "ascii (tcpFlagsString f)"
  by (simp add: tcpFlagsString_def tcpFlagNames_def Let_def)

lemma utf8_enriched:
  assumes "wf_raw r" "valid_utf8 (uuidString (raw_ID r))" "valid_utf8 nodeID" "valid_utf8 (fst (ifName byIndex cache (raw_IfIndex r)))"
  shows "utf8_obs (fst (Enrich uuidString byIndex cache r nodeID now))"
proof -
  have v: "ascii s \<Longrightarrow> valid_utf8 s" for s by (simp add: ascii_def valid_ascii)
  have "length (raw_SrcIP r) = 16" "length (raw_DstIP r) = 16" using assms(1) by (simp_all add: wf_raw_def)
  then show ?thesis
    using assms v [of "[]"] by (simp add: Enrich_def Let_def split_beta utf8_obs_def v ascii_ip)
qed

lemma decode_post: "utf8_obs ob \<Longrightarrow> decodeBody errText (postBody ob) = Inr ob"
  using decode_compact [OF fits_obs, of ob] by (simp add: decodeBody_def postBody_def clean_obs UnmarshalObs_MarshalObs maxNestingDepth_def)

text \<open>Standard output is a stream of values, which a reader takes apart again; \<open>k\<close> bounds their number.\<close>

fun decode_stream :: "nat \<Rightarrow> string \<Rightarrow> json list option" where
  "decode_stream 0 s = None"
| "decode_stream (Suc k) s =
     (if skip s = [] then Some []
      else case json_value maxNestingDepth s of
        None \<Rightarrow> None
      | Some (v, r) \<Rightarrow> map_option (\<lambda>vs. v # vs) (decode_stream k r))"

lemma stream_indented:
  "(\<And>v. v \<in> set vs \<Longrightarrow> fits maxNestingDepth v) \<Longrightarrow> length vs < k \<Longrightarrow>
   decode_stream k (ws @ concat (map writeIndented vs)) = Some (map clean vs)" if "list_all is_space ws"
  using that
proof (induction vs arbitrary: k ws)
  case Nil
  then obtain k' where "k = Suc k'" by (cases k) auto
  moreover have "skip ws = []" using skip_append [OF Nil(3), of "[]"] by (simp add: skip_def)
  ultimately show ?case by simp
next
  case (Cons v vs)
  let ?rest = "CHR 0x0A # concat (map writeIndented vs)"
  obtain k' where k: "k = Suc k'" using Cons.prems(2) by (cases k) auto
  have f: "fits maxNestingDepth v" using Cons.prems(1) by simp
  have "json_value maxNestingDepth (print_json True 0 v @ ?rest) = Some (clean v, ?rest)"
    by (rule json_value_print [OF f]) (simp add: ends_value_def is_digit_def)
  then have "json_value maxNestingDepth (ws @ print_json True 0 v @ ?rest) = Some (clean v, ?rest)"
    by (simp add: json_value_spaces [OF Cons.prems(3)])
  moreover have "skip (ws @ print_json True 0 v @ ?rest) \<noteq> []"
    using print_starts [OF f, of True 0 ?rest] starts_skip [of "print_json True 0 v @ ?rest"]
    by (auto simp: skip_append [OF Cons.prems(3)] starts_value_def)
  moreover have "decode_stream k' ([CHR 0x0A] @ concat (map writeIndented vs)) = Some (map clean vs)"
    by (rule Cons.IH) (use Cons.prems k in \<open>auto simp: is_space_def\<close>)
  ultimately show ?case by (simp add: k writeIndented_def [of v])
qed

lemma stdout_readable:
  assumes "\<forall>ob \<in> set (em_stdout e). utf8_obs ob"
  shows "decode_stream (Suc (length (em_stdout e))) (stdoutText e) = Some (map MarshalObs (em_stdout e))"
proof -
  have "decode_stream (Suc (length (em_stdout e))) ([] @ concat (map writeIndented (map MarshalObs (em_stdout e)))) =
      Some (map clean (map MarshalObs (em_stdout e)))"
    by (rule stream_indented) (auto simp: maxNestingDepth_def intro: fits_obs)
  then show ?thesis using assms by (simp add: stdoutText_def comp_def clean_obs)
qed

lemma getPath_path:
  assumes "i \<noteq> []" "\<forall>ob \<in> set (path st i). utf8_obs ob"
  shows "getPath st i = Some (path st i)"
proof -
  let ?obs = "path st i"
  let ?j = "if ?obs = [] then JNull else JArr (map MarshalObs ?obs)"
  have "clean ?j = ?j" using assms(2) by (simp add: clean_obs)
  moreover have "fits maxNestingDepth ?j" by (simp add: fits_obs maxNestingDepth_def)
  ultimately have "readJSON (writeJSON (ObsList ?obs)) = Some ?j" using read_indented [of ?j] by (simp add: writeJSON_def)
  moreover have "asArray ?j = Some (map MarshalObs ?obs)" by (simp add: asArray_def)
  moreover have "collect (map UnmarshalObs (map MarshalObs ?obs)) = Some ?obs"
    using collect_Some [of "\<lambda>ob. ob" ?obs] by (simp add: UnmarshalObs_MarshalObs comp_def)
  ultimately show ?thesis using assms(1) by (simp add: getPath_def serve_def handler_paths query_get_escaped [simplified])
qed

section \<open>Into the store\<close>

lemma receive_post:
  assumes "store_inv st" "utf8_obs ob" "o_ID ob \<noteq> []"
    and "ingests urlPath"
  shows "receive errText urlPath st (postBody ob) = Some (\<lparr>status = 204, resp_body = NoContent\<rparr>, store_step st ob)"
  using assms store_step_eq [OF assms(1), of ob]
  by (simp add: receive_def serve_def decode_post ingests_def Let_def)

lemma receiveAll_posts:
  assumes "1 \<le> c" "\<forall>ob \<in> set obs. utf8_obs ob \<and> o_ID ob \<noteq> []"
    and "ingests urlPath"
  shows "receiveAll errText urlPath (newStore c) (map postBody obs) = Some (foldl store_step (newStore c) obs)"
proof -
  have "receiveAll errText urlPath st (map postBody obs) = Some (foldl store_step st obs)"
    if "store_inv st" for st
    using that assms(2)
  proof (induction obs arbitrary: st)
    case (Cons ob obs)
    then have "store_inv (store_step st ob)" using add_inv store_step_eq by blast
    moreover have "receive errText urlPath st (postBody ob) = Some (\<lparr>status = 204, resp_body = NoContent\<rparr>, store_step st ob)"
      by (rule receive_post [OF Cons.prems(1) _ _ assms(3)]) (use Cons.prems(2) in simp_all)
    ultimately show ?case using Cons by simp
  qed simp
  then show ?thesis using newStore_inv [OF assms(1)] .
qed

text \<open>An agent that has stopped: its queue is drained, every post was accepted, and it was never more than
  a full queue ahead of its shipping loop.\<close>

definition finished :: "em_event list \<Rightarrow> emitter \<Rightarrow> bool" where
  "finished evs e \<longleftrightarrow> (\<exists>node az url ep ok. url \<noteq> [] \<and> em_run (newEmitter node az url ep ok) evs e) \<and>
     drained e \<and> (\<forall>p \<in> set (em_posted e). snd p) \<and> (\<forall>n. emits (take n evs) \<le> ships (take n evs) + 1024)"

lemma finished_all: "finished evs e \<Longrightarrow> map fst (filter snd (em_posted e)) = em_stdout e"
proof -
  assume fin: "finished evs e"
  then obtain node az url ep ok where r: "url \<noteq> []" "em_run (newEmitter node az url ep ok) evs e" by (auto simp: finished_def)
  have "filter snd (em_posted e) = em_posted e" using fin by (simp add: finished_def filter_id_conv)
  moreover have "map fst (em_posted e) = em_stdout e"
    using em_run_lossless [OF r(2), of "[]"] r(1) fin by (auto simp: newEmitter_def drained_def queueCap_def finished_def)
  ultimately show ?thesis by simp
qed

lemma finished_posts:
  assumes "\<forall>a \<in> set agents. finished (evs a) (e a)"
  shows "(\<Sum>a \<leftarrow> agents. mset (map fst (filter snd (em_posted (e a))))) = (\<Sum>a \<leftarrow> agents. mset (em_stdout (e a)))"
proof -
  have "map fst (filter snd (em_posted (e a))) = em_stdout (e a)" if "a \<in> set agents" for a
    using finished_all assms that by blast
  then show ?thesis by (intro arg_cong [of _ _ sum_list] map_cong) (simp_all del: mset_map mset_filter)
qed

text \<open>A collector that retains enough runs answers with all that was posted of a run, sorted.\<close>

lemma posts_path:
  assumes "\<forall>ob \<in> set posts. utf8_obs ob \<and> o_ID ob \<noteq> []"
    and "ingests urlPath" "1 \<le> c" "int (card (o_ID ` set posts)) \<le> c"
    and "length (filter (\<lambda>ob. o_ID ob = i) posts) \<le> maxObsPerRun" "i \<noteq> []"
  shows "\<exists>st. receiveAll errText urlPath (newStore c) (map postBody posts) = Some st \<and>
    getPath st i = Some (sort_key (\<lambda>ob. (o_Hop ob, o_Timestamp ob)) (filter (\<lambda>ob. o_ID ob = i) posts))"
proof -
  have p: "path (foldl store_step (newStore c) posts) i = sort_key (\<lambda>ob. (o_Hop ob, o_Timestamp ob)) (filter (\<lambda>ob. o_ID ob = i) posts)"
    using history [OF assms(3,4)] assms(5) by (simp add: path_def)
  moreover have "receiveAll errText urlPath (newStore c) (map postBody posts) = Some (foldl store_step (newStore c) posts)"
    by (rule receiveAll_posts) (use assms(1-3) in simp_all)
  moreover have "getPath (foldl store_step (newStore c) posts) i = Some (path (foldl store_step (newStore c) posts) i)"
    by (rule getPath_path [OF assms(6)]) (use assms(1) in \<open>simp add: p\<close>)
  ultimately show ?thesis by simp
qed

section \<open>Properties\<close>

text \<open>
  The collector reads what the agent writes: decoding the JSON form of an observation gives the
  observation back, every field included, also those omitted when empty.
\<close>

theorem observation_json_roundtrip: "UnmarshalObs (MarshalObs ob) = Some ob"
  by (rule UnmarshalObs_MarshalObs)


lemma demo_emit_run:
  defines "e0 \<equiv> newEmitter ''n1'' ''az1'' ''http://c'' [] False"
  shows "\<exists>e. em_run e0 [EmitEv k ob, ShipEv True, CloseEv] e \<and> drained e \<and> em_posted e = [(outgoing k e0 ob, True)]"
proof -
  let ?e1 = "emit_obs k e0 ob" and ?o = "outgoing k e0 ob"
  let ?e2 = "?e1\<lparr>em_queue := Some [], em_posted := em_posted ?e1 @ [(?o, True)]\<rparr>"
  have q: "em_queue ?e1 = Some [?o]" "em_posted ?e1 = []" "\<not> em_closed ?e1"
    by (simp_all add: emit_obs_fields e0_def newEmitter_def queueCap_def)
  have "em_run e0 [EmitEv k ob, ShipEv True, CloseEv] (?e2\<lparr>em_closed := True\<rparr>)"
  proof (rule em_run.cons [OF em_step.emit], goal_cases)
    case 1
    then show ?case by (simp add: e0_def newEmitter_def)
  next
    case 2
    show ?case by (rule em_run.cons [OF em_step.ship [OF q(1)]], rule em_run.cons [OF em_step.close em_run.nil]) (use q(3) in simp)
  qed
  then show ?thesis using q(2) by (intro exI [of _ "?e2\<lparr>em_closed := True\<rparr>"]) (simp add: drained_def)
qed

lemma demo_never_ahead: "emits (take n [EmitEv k ob, ShipEv True, CloseEv]) \<le> ships (take n [EmitEv k ob, ShipEv True, CloseEv]) + 1024"
  by (simp add: take_Cons')

lemma demo_finished:
  "\<exists>e. finished [EmitEv demo_sinks (demo_emitted 0), ShipEv True, CloseEv] e \<and> em_posted e = [(outgoing demo_sinks (newEmitter ''n1'' ''az1'' ''http://c'' [] False) (demo_emitted 0), True)]"
proof -
  let ?e0 = "newEmitter ''n1'' ''az1'' ''http://c'' [] False"
  obtain e where e: "em_run ?e0 [EmitEv demo_sinks (demo_emitted 0), ShipEv True, CloseEv] e" "drained e"
      "em_posted e = [(outgoing demo_sinks ?e0 (demo_emitted 0), True)]"
    using demo_emit_run by blast
  have "finished [EmitEv demo_sinks (demo_emitted 0), ShipEv True, CloseEv] e"
    unfolding finished_def using e demo_never_ahead
    by (intro conjI exI [of _ "''n1''"] exI [of _ "''az1''"] exI [of _ "''http://c''"] exI [of _ "[]"] exI [of _ False]) auto
  with e(3) show ?thesis by blast
qed


end
