(* ===== verification/Whole_System.thy ===== *)
theory Whole_System
  imports Trace Pipeline
begin

text \<open>
  All parts together: packets arrive at many hosts; on each the eBPF program records the marked ones,
  the agent's reader turns the records into observations, the emitter queues and posts them, and the
  collector answers with the path of a run. What goes in at one end of this chain comes out at the
  other: the path of a run is what the hosts saw of it, in the order of the hops.
\<close>

section \<open>What the reader hands to the emitter\<close>

text \<open>The observations of a sequence of reads, each with the sinks' answers when it is emitted.\<close>

fun emissions :: "(bytes \<Rightarrow> string) \<Rightarrow> (u32 \<Rightarrow> string option) \<Rightarrow> (u32, string) gomap \<Rightarrow> string \<Rightarrow> ring_event list \<Rightarrow>
    (sinks \<times> Observation) list" where
  "emissions u b c node [] = []"
| "emissions u b c node (RingClosed # es) = []"
| "emissions u b c node (RingError # es) = emissions u b c node es"
| "emissions u b c node (RingRecord rec now k # es) =
     (case Parse rec of
        Inl _ \<Rightarrow> emissions u b c node es
      | Inr raw \<Rightarrow> (case Enrich u b c raw node now of (ob, c') \<Rightarrow> (k, ob) # emissions u b c' node es))"

lemma readLoop_emissions:
  "rd_em (snd (readLoop u b s es)) =
     foldl (\<lambda>e (k, ob). emit_obs k e ob) (rd_em s) (emissions u b (rd_ifCache s) (em_nodeID (rd_em s)) es)"
  by (induction u b s es rule: readLoop.induct) (auto simp: emit_obs_nodeID split: sum.split prod.split)

text \<open>The emissions among the events of an emitter, whose shipping goroutine runs at any time.\<close>

definition emit_events :: "em_event list \<Rightarrow> (sinks \<times> Observation) list" where
  "emit_events evs = List.map_filter (\<lambda>ev. case ev of EmitEv k ob \<Rightarrow> Some (k, ob) | _ \<Rightarrow> None) evs"

lemma emit_events_simps [simp]:
  "emit_events [] = []" "emit_events (EmitEv k ob # evs) = (k, ob) # emit_events evs"
  "emit_events (ShipEv ok # evs) = emit_events evs" "emit_events (CloseEv # evs) = emit_events evs"
  "emit_events (StopEv # evs) = emit_events evs"
  by (simp_all add: emit_events_def List.map_filter_simps)

text \<open>The reader's own calls, without the goroutine, are such a run.\<close>

lemma foldl_em_run:
  "\<not> em_closed e \<Longrightarrow> em_run e (map (\<lambda>(k, ob). EmitEv k ob) xs) (foldl (\<lambda>e (k, ob). emit_obs k e ob) e xs)"
proof (induction xs arbitrary: e)
  case (Cons x xs)
  obtain k ob where x: "x = (k, ob)" by (cases x)
  have "\<not> em_closed (emit_obs k e ob)" using Cons.prems by (simp add: emit_obs_fields)
  from em_run.cons [OF em_step.emit [OF Cons.prems] Cons.IH [OF this]] show ?case by (simp add: x)
qed (simp add: em_run.nil)

lemma readLoop_em_run:
  "\<not> em_closed (rd_em s) \<Longrightarrow>
   em_run (rd_em s) (map (\<lambda>(k, ob). EmitEv k ob) (emissions u b (rd_ifCache s) (em_nodeID (rd_em s)) es)) (rd_em (snd (readLoop u b s es)))"
  unfolding readLoop_emissions by (rule foldl_em_run)

section \<open>Names\<close>

text \<open>Every name in a cache is valid UTF-8.\<close>

definition valid_cache :: "(u32, string) gomap \<Rightarrow> bool" where
  "valid_cache c \<longleftrightarrow> (\<forall>i n. mget c i = Some n \<longrightarrow> valid_utf8 n)"

lemma valid_empty [simp]: "valid_utf8 []"
  by (simp add: valid_ascii)

lemma valid_cache_empty [simp]: "valid_cache []"
  by (simp add: valid_cache_def gm.get_empty)

lemma valid_cache_put: "valid_cache c \<Longrightarrow> valid_utf8 n \<Longrightarrow> valid_cache (mput c i n)"
  by (auto simp: valid_cache_def gomap_simps)

lemma ifName_valid:
  assumes "valid_cache c" "\<And>i n. b i = Some n \<Longrightarrow> valid_utf8 n" "ifName b c i = (n, c')"
  shows "valid_utf8 n \<and> valid_cache c'"
  using assms by (auto simp: ifName_def Let_def valid_cache_put split: if_splits option.splits) (auto simp: valid_cache_def)

lemma Enrich_valid:
  assumes "valid_cache c" "\<And>i n. b i = Some n \<Longrightarrow> valid_utf8 n" "wf_raw raw" "valid_utf8 (u (raw_ID raw))" "valid_utf8 node"
    and "Enrich u b c raw node now = (ob, c')"
  shows "utf8_obs ob \<and> valid_cache c'"
proof -
  obtain n c1 where n: "ifName b c (raw_IfIndex raw) = (n, c1)" by fastforce
  have "c' = c1" using assms(6) n by (auto simp: Enrich_def Let_def)
  moreover have "utf8_obs (fst (Enrich u b c raw node now))"
    by (rule utf8_enriched) (use assms(3-5) ifName_valid [OF assms(1,2) n] n in simp_all)
  ultimately show ?thesis using ifName_valid [OF assms(1,2) n] assms(6) by simp
qed

lemma emissions_valid:
  assumes "valid_cache c" "\<And>i n. b i = Some n \<Longrightarrow> valid_utf8 n" "\<And>i. length i = 16 \<Longrightarrow> valid_utf8 (u i)" "valid_utf8 node"
    and "(k, ob) \<in> set (emissions u b c node es)"
  shows "utf8_obs ob"
  using assms
proof (induction u b c node es rule: emissions.induct)
  case (4 u b c node rec now k' es)
  show ?case
  proof (cases "Parse rec")
    case (Inl x)
    then show ?thesis using 4 by simp
  next
    case (Inr raw)
    obtain ob' c' where en: "Enrich u b c raw node now = (ob', c')" by fastforce
    have "length (raw_ID raw) = 16" using Parse_wf [OF Inr] by (simp add: wf_raw_def)
    note v = Enrich_valid [OF "4.prems"(1,2) Parse_wf [OF Inr] "4.prems"(3) [OF this] "4.prems"(4) en]
    show ?thesis using "4.IH"(2) [OF Inr en [symmetric]] "4.prems" v Inr en by auto
  qed
qed auto

lemma outgoing_valid:
  assumes "valid_cache (em_lsCache e)" "valid_utf8 (em_az e)" "\<And>vni n. s_sb k vni = Inr n \<Longrightarrow> valid_utf8 n" "utf8_obs ob"
  shows "utf8_obs (outgoing k e ob) \<and> valid_cache (em_lsCache (emit_obs k e ob))"
proof -
  obtain n e1 where ls: "logicalSwitch (s_sb k) e (o_VNI ob) = (n, e1)" by fastforce
  have n: "valid_utf8 n \<and> valid_cache (em_lsCache e1)"
    using ls assms(1,3) by (auto simp: logicalSwitch_def Let_def valid_cache_put split: option.splits sum.splits)
      (auto simp: valid_cache_def)
  have "utf8_obs (outgoing k e ob)" using assms(2,4) n ls by (simp add: outgoing_def Let_def utf8_obs_def)
  moreover have "valid_cache (em_lsCache (emit_obs k e ob))"
    using assms(1) n ls by (simp add: emit_obs_def Let_def)
  ultimately show ?thesis by blast
qed

section \<open>What the emitter writes\<close>

lemma emit_obs_az: "em_az (emit_obs k e ob) = em_az e"
proof -
  obtain n e1 where ls: "logicalSwitch (s_sb k) e (o_VNI ob) = (n, e1)" by fastforce
  from logicalSwitch_frame [OF this] have "em_az e1 = em_az e" by auto
  with ls show ?thesis by (auto simp: emit_obs_def Let_def enqueue_def split: option.split)
qed

text \<open>Over any run, standard output grows by the emitted observations, in order, with zone and logical
  switch filled in; they are valid when all names are.\<close>

lemma em_run_stdout:
  assumes "em_run e evs e'"
  shows "\<exists>outs. em_stdout e' = em_stdout e @ outs \<and>
    list_all2 (\<lambda>(k, ob) out. \<exists>e0. out = outgoing k e0 ob) (emit_events evs) outs \<and>
    (valid_cache (em_lsCache e) \<and> valid_utf8 (em_az e) \<and>
     (\<forall>(k, ob) \<in> set (emit_events evs). utf8_obs ob \<and> (\<forall>vni n. s_sb k vni = Inr n \<longrightarrow> valid_utf8 n)) \<longrightarrow>
     list_all utf8_obs outs)"
  using assms
proof (induction rule: em_run.induct)
  case (cons e ev e' evs e'')
  obtain outs where outs: "em_stdout e'' = em_stdout e' @ outs"
      "list_all2 (\<lambda>(k, ob) out. \<exists>e0. out = outgoing k e0 ob) (emit_events evs) outs"
    and valid: "valid_cache (em_lsCache e') \<Longrightarrow> valid_utf8 (em_az e') \<Longrightarrow>
      \<forall>(k, ob) \<in> set (emit_events evs). utf8_obs ob \<and> (\<forall>vni n. s_sb k vni = Inr n \<longrightarrow> valid_utf8 n) \<Longrightarrow> list_all utf8_obs outs"
    using cons.IH by blast
  from cons.hyps(1) show ?case
  proof cases
    case (emit k ob)
    have "list_all utf8_obs (outgoing k e ob # outs)"
      if "valid_cache (em_lsCache e)" "valid_utf8 (em_az e)"
        "\<forall>(k, ob) \<in> set (emit_events (ev # evs)). utf8_obs ob \<and> (\<forall>vni n. s_sb k vni = Inr n \<longrightarrow> valid_utf8 n)"
      using outgoing_valid [OF that(1,2), of k ob] valid that(2,3) emit by (auto simp: emit_obs_az)
    then show ?thesis
      using outs emit by (intro exI [of _ "outgoing k e ob # outs"]) (auto simp: emit_obs_fields)
  next
    case (ship ob q ok)
    then show ?thesis using outs valid by (intro exI [of _ outs]) auto
  next
    case close
    then show ?thesis using outs valid by (intro exI [of _ outs]) auto
  next
    case (stop s)
    then show ?thesis using outs valid by (intro exI [of _ outs]) auto
  qed
qed simp

text \<open>Every record that decodes is emitted, and traced.\<close>

lemma traces_outgoing: "traces u node raw ob \<Longrightarrow> traces u node raw (outgoing k e ob)"
  by (simp add: traces_def outgoing_def Let_def)

lemma Enrich_traced: "Enrich u b c raw node now = (ob, c') \<Longrightarrow> traces u node raw ob"
  by (auto simp: Enrich_def traces_def Let_def split: prod.splits if_splits)

lemma emissions_traced:
  "RingClosed \<notin> set es \<Longrightarrow> list_all2 (\<lambda>raw (k, ob). traces u node raw ob) (decoded es) (emissions u b c node es)"
proof (induction u b c node es rule: emissions.induct)
  case (4 u b c node rec now k es)
  then show ?case by (cases "Parse rec") (auto simp: Enrich_traced split: prod.split)
qed auto

section \<open>Hosts\<close>

text \<open>A host: the maps of its eBPF program, every packet that arrives on its interfaces, the options of its
  agent, the interface table, the clock and the answers of the sinks at the n-th record, and the
  interleaving of the reader with the shipping goroutine up to the end of the agent.\<close>

record host =
  h_maps :: bpf_maps
  h_arrivals :: "arrival list"
  h_node :: string
  h_az :: string
  h_url :: string
  h_otlp :: "string \<times> bool"
  h_byIndex :: "u32 \<Rightarrow> string option"
  h_now :: "nat \<Rightarrow> gotime"
  h_sinks :: "nat \<Rightarrow> sinks"
  h_events :: "em_event list"
  h_end :: emitter

definition ring_reads :: "host \<Rightarrow> bytes list \<Rightarrow> ring_event list" where
  "ring_reads h recs = map (\<lambda>(i, rec). RingRecord rec (h_now h i) (h_sinks h i)) (enumerate 0 recs)"

text \<open>The agent has read what the eBPF program submitted, and has ended with its queue drained, every post
  accepted and never more than a full queue ahead of its shipping loop.\<close>

definition host_ran :: "(bytes \<Rightarrow> string) \<Rightarrow> host \<Rightarrow> bool" where
  "host_ran u h \<longleftrightarrow>
     (\<exists>as m'. bpf_run ((h_maps h)\<lparr>events := []\<rparr>) (h_arrivals h) = Some (as, m') \<and>
        emit_events (h_events h) = emissions u (h_byIndex h) [] (h_node h) (ring_reads h (events m'))) \<and>
     h_url h \<noteq> [] \<and> em_run (newEmitter (h_node h) (h_az h) (h_url h) (fst (h_otlp h)) (snd (h_otlp h))) (h_events h) (h_end h) \<and>
     drained (h_end h) \<and> (\<forall>p \<in> set (em_posted (h_end h)). snd p) \<and>
     (\<forall>n. emits (take n (h_events h)) \<le> ships (take n (h_events h)) + 1024)"

definition valid_names :: "host \<Rightarrow> bool" where
  "valid_names h \<longleftrightarrow> valid_utf8 (h_node h) \<and> valid_utf8 (h_az h) \<and> (\<forall>i n. h_byIndex h i = Some n \<longrightarrow> valid_utf8 n) \<and>
     (\<forall>i vni n. s_sb (h_sinks h i) vni = Inr n \<longrightarrow> valid_utf8 n)"

text \<open>What third-party code promises: the text of a UUID is not empty, plain ASCII, and tells it from others.\<close>

definition uuid_text :: "(bytes \<Rightarrow> string) \<Rightarrow> bool" where
  "uuid_text u \<longleftrightarrow> (\<forall>i. length i = 16 \<longrightarrow> u i \<noteq> [] \<and> ascii (u i)) \<and> inj_on u {i. length i = 16}"

lemma host_ran_finished: "host_ran u h \<Longrightarrow> finished (h_events h) (h_end h)"
  unfolding host_ran_def finished_def by blast

text \<open>What a host writes is what its data path recorded.\<close>

lemma emissions_sinks: "(k, ob) \<in> set (emissions u b c node es) \<Longrightarrow> \<exists>rec now. RingRecord rec now k \<in> set es"
proof (induction u b c node es rule: emissions.induct)
  case (4 u b c node rec now k' es)
  show ?case
  proof (cases "Parse rec")
    case (Inr raw)
    obtain ob' c' where en: "Enrich u b c raw node now = (ob', c')" by fastforce
    show ?thesis using "4.IH"(2) [OF Inr en [symmetric]] "4.prems" Inr en by auto
  qed (use 4 in auto)
qed auto

lemma host_writes:
  assumes "host_ran u h"
  shows "list_all2 (traces u (h_node h)) (recorded (h_maps h) (h_arrivals h)) (em_stdout (h_end h))"
    and "valid_names h \<Longrightarrow> (\<And>i. length i = 16 \<Longrightarrow> valid_utf8 (u i)) \<Longrightarrow> \<forall>ob \<in> set (em_stdout (h_end h)). utf8_obs ob"
proof -
  let ?e0 = "newEmitter (h_node h) (h_az h) (h_url h) (fst (h_otlp h)) (snd (h_otlp h))"
  let ?rs = "recorded (h_maps h) (h_arrivals h)"
  obtain as m' where run: "bpf_run ((h_maps h)\<lparr>events := []\<rparr>) (h_arrivals h) = Some (as, m')"
      "emit_events (h_events h) = emissions u (h_byIndex h) [] (h_node h) (ring_reads h (events m'))"
    and em: "em_run ?e0 (h_events h) (h_end h)"
    using assms unfolding host_ran_def by blast
  have "recorded ((h_maps h)\<lparr>events := []\<rparr>) (h_arrivals h) = ?rs"
    using record_of_cong [of "(h_maps h)\<lparr>events := []\<rparr>" "h_maps h"] by (simp add: recorded_def)
  then have ev: "events m' = map observation_bytes ?rs"
    using bpf_run_records [of "(h_maps h)\<lparr>events := []\<rparr>" "h_arrivals h"] run(1) by auto
  have dec: "decoded (map (\<lambda>(i, rec). RingRecord rec (h_now h i) (h_sinks h i)) (enumerate n (map observation_bytes rs))) = rs"
    if "\<forall>raw \<in> set rs. wf_raw raw" for rs n
    using that Parse_observation_bytes [of _ "[]"] by (induction rs arbitrary: n) auto
  have d: "decoded (ring_reads h (events m')) = ?rs" unfolding ring_reads_def ev by (rule dec) (use recorded_wf in blast)
  have "RingClosed \<notin> set (ring_reads h (events m'))" by (auto simp: ring_reads_def)
  from emissions_traced [OF this] have tr: "list_all2 (\<lambda>raw (k, ob). traces u (h_node h) raw ob) ?rs (emit_events (h_events h))"
    unfolding run(2) d .
  obtain outs where outs: "em_stdout (h_end h) = outs"
      "list_all2 (\<lambda>(k, ob) out. \<exists>e0. out = outgoing k e0 ob) (emit_events (h_events h)) outs"
    and valid: "valid_utf8 (h_az h) \<Longrightarrow> (\<And>k ob. (k, ob) \<in> set (emit_events (h_events h)) \<Longrightarrow> utf8_obs ob \<and> (\<forall>vni n. s_sb k vni = Inr n \<longrightarrow> valid_utf8 n)) \<Longrightarrow>
      list_all utf8_obs outs"
    using em_run_stdout [OF em] by (fastforce simp: newEmitter_def)
  show "list_all2 (traces u (h_node h)) ?rs (em_stdout (h_end h))"
    unfolding outs(1) by (rule list_all2_trans [OF _ tr outs(2)]) (auto simp: traces_outgoing)
  assume names: "valid_names h" "\<And>i. length i = 16 \<Longrightarrow> valid_utf8 (u i)"
  have "utf8_obs ob \<and> (\<forall>vni n. s_sb k vni = Inr n \<longrightarrow> valid_utf8 n)" if k: "(k, ob) \<in> set (emit_events (h_events h))" for k ob
  proof -
    have "utf8_obs ob"
      using emissions_valid [of "[]" "h_byIndex h" u "h_node h" k ob] names k unfolding run(2) by (auto simp: valid_names_def)
    moreover have "\<exists>i. k = h_sinks h i" using emissions_sinks [OF k [unfolded run(2)]] by (auto simp: ring_reads_def)
    ultimately show ?thesis using names(1) by (auto simp: valid_names_def)
  qed
  then show "\<forall>ob \<in> set (em_stdout (h_end h)). utf8_obs ob" using valid names(1) outs(1) by (auto simp: valid_names_def list_all_iff)
qed

section \<open>What all hosts saw\<close>

text \<open>What the hosts recorded, each record with its node, and what of it belongs to a run.\<close>

definition all_recorded :: "host list \<Rightarrow> (string \<times> Raw) list" where
  "all_recorded hs = concat (map (\<lambda>h. map (Pair (h_node h)) (recorded (h_maps h) (h_arrivals h))) hs)"

definition sightings :: "bytes \<Rightarrow> host list \<Rightarrow> (string \<times> Raw) list" where
  "sightings i hs = filter (\<lambda>(node, raw). raw_ID raw = i) (all_recorded hs)"

lemma all_recorded_traced:
  "\<forall>h \<in> set hs. host_ran u h \<Longrightarrow>
   list_all2 (\<lambda>(node, raw). traces u node raw) (all_recorded hs) (concat (map (\<lambda>h. em_stdout (h_end h)) hs))"
  unfolding all_recorded_def using host_writes(1)
  by (induction hs) (auto intro!: list_all2_appendI simp: list.rel_map)

lemma all_recorded_wf: "(node, raw) \<in> set (all_recorded hs) \<Longrightarrow> wf_raw raw"
  by (auto simp: all_recorded_def recorded_wf)

lemma list_all2_filter:
  "list_all2 R xs ys \<Longrightarrow> (\<And>x y. x \<in> set xs \<Longrightarrow> R x y \<Longrightarrow> P x \<longleftrightarrow> Q y) \<Longrightarrow> list_all2 R (filter P xs) (filter Q ys)"
  by (induction rule: list_all2_induct) auto

text \<open>The texts of the run ids tell the observations of a run from the others.\<close>

lemma sightings_traced:
  assumes "\<forall>h \<in> set hs. host_ran u h" "uuid_text u" "length i = 16"
  shows "list_all2 (\<lambda>(node, raw). traces u node raw) (sightings i hs)
    (filter (\<lambda>ob. o_ID ob = u i) (concat (map (\<lambda>h. em_stdout (h_end h)) hs)))"
  unfolding sightings_def
proof (rule list_all2_filter [OF all_recorded_traced [OF assms(1)]])
  fix x ob
  assume x: "x \<in> set (all_recorded hs)" "(case x of (node, raw) \<Rightarrow> traces u node raw) ob"
  obtain node raw where p: "x = (node, raw)" by (cases x)
  then have "length (raw_ID raw) = 16" "o_ID ob = u (raw_ID raw)" using x all_recorded_wf by (auto simp: wf_raw_def traces_def)
  then show "(case x of (node, raw) \<Rightarrow> raw_ID raw = i) \<longleftrightarrow> o_ID ob = u i"
    unfolding p using assms(2,3) by (auto simp: uuid_text_def inj_on_def)
qed

lemma traced_ids:
  "list_all2 (\<lambda>(node, raw). traces u node raw) xs obs \<Longrightarrow> o_ID ` set obs = u ` raw_ID ` snd ` set xs"
  by (induction rule: list_all2_induct) (auto simp: traces_def)

lemma traced_set:
  "list_all2 (\<lambda>(node, raw). traces u node raw) xs obs \<Longrightarrow> ob \<in> set obs \<Longrightarrow> \<exists>(node, raw) \<in> set xs. traces u node raw ob"
  by (induction rule: list_all2_induct) auto

lemma collected_sightings:
  assumes "uuid_text u" "length i = 16" "\<forall>h \<in> set hs. host_ran u h \<and> valid_names h"
    and "mset posts = (\<Sum>h \<leftarrow> hs. mset (map fst (filter snd (em_posted (h_end h)))))"
    and "ingests urlPath" "1 \<le> c"
    and "int (card (raw_ID ` snd ` set (all_recorded hs))) \<le> c" "length (sightings i hs) \<le> maxObsPerRun"
  shows "\<exists>st obs obs'. receiveAll errText urlPath (newStore c) (map postBody posts) = Some st \<and> getPath st (u i) = Some obs \<and>
    sorted (map (\<lambda>ob. (o_Hop ob, o_Timestamp ob)) obs) \<and> mset obs' = mset obs \<and>
    list_all2 (\<lambda>(node, raw). traces u node raw) (sightings i hs) obs'"
proof -
  let ?out = "concat (map (\<lambda>h. em_stdout (h_end h)) hs)"
  let ?run = "filter (\<lambda>ob. o_ID ob = u i)"
  have ran: "\<forall>h \<in> set hs. host_ran u h" using assms(3) by blast
  have "mset posts = (\<Sum>h \<leftarrow> hs. mset (em_stdout (h_end h)))"
    unfolding assms(4) by (rule finished_posts [where evs = h_events]) (use host_ran_finished ran in blast)
  then have all: "mset posts = mset ?out" by (simp add: mset_concat comp_def)
  then have posts: "set posts = set ?out" and run: "mset (?run posts) = mset (?run ?out)"
    using mset_eq_setD by (blast, simp)
  have ids: "o_ID ` set posts = u ` raw_ID ` snd ` set (all_recorded hs)"
    unfolding posts by (rule traced_ids [OF all_recorded_traced [OF ran]])
  have "card (o_ID ` set posts) \<le> card (raw_ID ` snd ` set (all_recorded hs))" unfolding ids by (rule card_image_le) simp
  then have card: "int (card (o_ID ` set posts)) \<le> c" using assms(7) by simp
  have "valid_utf8 (u j)" if "length j = 16" for j using assms(1) that by (simp add: uuid_text_def ascii_def valid_ascii)
  then have "\<forall>ob \<in> set posts. utf8_obs ob" using host_writes(2) assms(3) unfolding posts by auto
  moreover have "o_ID ob \<noteq> []" if "ob \<in> set posts" for ob
  proof -
    have "o_ID ob \<in> u ` raw_ID ` snd ` set (all_recorded hs)" using that ids by blast
    then show ?thesis using assms(1) all_recorded_wf by (fastforce simp: uuid_text_def wf_raw_def)
  qed
  ultimately have ok: "\<forall>ob \<in> set posts. utf8_obs ob \<and> o_ID ob \<noteq> []" by blast
  note tr = sightings_traced [OF ran assms(1,2)]
  have "length (?run posts) \<le> maxObsPerRun"
    using list_all2_lengthD [OF tr] assms(8) mset_eq_length [OF run] by simp
  moreover have "u i \<noteq> []" using assms(1,2) by (simp add: uuid_text_def)
  ultimately obtain st where "receiveAll errText urlPath (newStore c) (map postBody posts) = Some st"
      "getPath st (u i) = Some (sort_key (\<lambda>ob. (o_Hop ob, o_Timestamp ob)) (?run posts))"
    using posts_path [OF ok assms(5,6) card] by blast
  moreover have "mset (?run ?out) = mset (sort_key (\<lambda>ob. (o_Hop ob, o_Timestamp ob)) (?run posts))" using run by simp
  ultimately show ?thesis using tr sorted_sort_key by blast
qed

section \<open>A ping along its route\<close>

text \<open>The destination of the probe, as an observation prints it.\<close>

lemma probe_destination:
  assumes "ParseIP s = Some dst"
  shows "ParseIP (ipString (if isV6 dst then 6 else 4) (pad 16 (net_addr (isV6 dst) dst))) = Some dst"
proof -
  have len: "length dst = 16" using ParseIP_length [OF assms] .
  show ?thesis
  proof (cases "isV6 dst")
    case True
    then show ?thesis using len ParseIP_ip_string [of dst] by (simp add: ipString_def net_addr_def addr16_def pad_def)
  next
    case False
    then have l4: "To4 dst \<noteq> []" "length (To4 dst) = 4" using length_To4 [of dst] by (auto simp: isV6_def)
    have "To16 (To4 dst) = dst" using To16_To4 [of dst] len l4(1) by simp
    then show ?thesis using False l4 ParseIP_ip_string [of "To4 dst"] by (simp add: ipString_def net_addr_def addr4_def pad_def)
  qed
qed

text \<open>The destination a record shows, when it is printed and read back.\<close>

definition shows_dst :: "bytes \<Rightarrow> Raw \<Rightarrow> bool" where
  "shows_dst dst raw \<longleftrightarrow> ParseIP (ipString (raw_IPVersion raw) (raw_DstIP raw)) = Some dst"

text \<open>The probe as it arrives after \<open>k\<close> routers: in any frame, with room in the ring buffer.\<close>

definition carries :: "bytes \<Rightarrow> bool \<Rightarrow> arrival \<Rightarrow> nat \<Rightarrow> bool" where
  "carries l3 v6 x k \<longleftrightarrow> (case x of (be, skb, dir) \<Rightarrow> ring_room be \<and>
     (\<exists>l2'. parseL2 (sk_data skb) = Some (Some l2') \<and> l2_etherType l2' = ether v6 \<and> forwarded v6 k l3 (l2_l3 l2')))"

text \<open>What a host receives: the probe (\<open>Some k\<close>) and, between, anything (\<open>None\<close>) that is not of its run or not
  addressed to its destination. The answers to the probe are such packets.\<close>

definition arrives :: "bytes \<Rightarrow> bytes \<Rightarrow> bytes \<Rightarrow> bpf_maps \<Rightarrow> arrival \<Rightarrow> nat option \<Rightarrow> bool" where
  "arrives i l3 dst m x mark \<longleftrightarrow> (case mark of
       Some k \<Rightarrow> carries l3 (isV6 dst) x k
     | None \<Rightarrow> \<forall>raw. record_of m x = Some raw \<longrightarrow> raw_ID raw \<noteq> i \<or> \<not> shows_dst dst raw)"

definition watches :: "host \<Rightarrow> bool" where
  "watches h \<longleftrightarrow> (\<exists>cfg. config_map (h_maps h) = Some cfg \<and> cfg_IfaceType cfg \<in> {0, 2})"

lemma reply_arrives:
  assumes "buildReply r (ether v6) p = Some (Some rep, r1)" "net_view (ether v6) p = Some (tos, src, d, proto, l4, v6)"
    and "proto \<in> {1, 58}" "forwarded v6 k rep (l2_l3 l2')"
    and "parseL2 (sk_data skb) = Some (Some l2')" "l2_etherType l2' = ether v6"
    and "config_map m = Some cfg" "cfg_IfaceType cfg \<in> {0, 2}" "To16 src \<noteq> dst"
  shows "arrives i l3 dst m (be, skb, dir) None"
proof -
  have len: "length src = (if v6 then 16 else 4)" using net_view_lengths [OF assms(2)] by simp
  have "\<not> shows_dst dst raw" if "record_of m (be, skb, dir) = Some raw" for raw
  proof -
    have "ipString (raw_IPVersion raw) (raw_DstIP raw) = ip_string src"
      using reply_record [OF assms(1-8) that] len by (cases v6) (simp_all add: ipString_def pad_def)
    then show ?thesis using ParseIP_ip_string [of src] len assms(9) by (auto simp: shows_dst_def split: if_splits)
  qed
  then show ?thesis by (simp add: arrives_def)
qed

text \<open>Where the probe passed: the node and the number of routers behind it, host by host.\<close>

definition passed :: "(host \<times> nat option list) list \<Rightarrow> (string \<times> nat) list" where
  "passed ws = concat (map (\<lambda>(h, marks). map (Pair (h_node h)) (List.map_filter id marks)) ws)"

text \<open>What a record of the probe says.\<close>

definition probe_record :: "bytes \<Rightarrow> bytes \<Rightarrow> Raw \<Rightarrow> nat \<Rightarrow> bool" where
  "probe_record i dst raw k \<longleftrightarrow> raw_ID raw = i \<and> raw_Hop raw = of_nat k \<and>
     raw_IPVersion raw = (if isV6 dst then 6 else 4) \<and> raw_DstIP raw = pad 16 (net_addr (isV6 dst) dst)"

lemma probe_shows: "probe_record i dst raw k \<Longrightarrow> ParseIP x = Some dst \<Longrightarrow> shows_dst dst raw"
  using probe_destination by (simp add: probe_record_def shows_dst_def)

lemma host_records_probe:
  assumes "wf_env e" "runICMP e f evs = Some (Inr ([s], rr))" "ParseIP (f_dst f) = Some dst"
    and "sent_l3 s = Some l3" "watches h"
    and "list_all2 (arrives (newUUID e) l3 dst (h_maps h)) xs marks"
  shows "list_all2 (probe_record (newUUID e) dst)
    (filter (\<lambda>raw. raw_ID raw = newUUID e \<and> shows_dst dst raw) (recorded (h_maps h) xs)) (List.map_filter id marks)"
  using assms(6)
proof (induction rule: list_all2_induct)
  case (Cons x xs mark marks)
  obtain be skb dir where x: "x = (be, skb, dir)" by (cases x)
  show ?case
  proof (cases mark)
    case None
    then show ?thesis using Cons by (auto simp: arrives_def recorded_def List.map_filter_simps x split: option.split)
  next
    case (Some k)
    obtain cfg where "config_map (h_maps h) = Some cfg" "cfg_IfaceType cfg \<in> {0, 2}" using assms(5) by (auto simp: watches_def)
    moreover obtain l2' where "parseL2 (sk_data skb) = Some (Some l2')" "l2_etherType l2' = ether (isV6 dst)" "ring_room be"
        "forwarded (isV6 dst) k l3 (l2_l3 l2')"
      using Cons.hyps(1) by (auto simp: arrives_def carries_def Some x)
    ultimately obtain raw where raw: "record_of (h_maps h) (be, skb, dir) = Some raw" "probe_record (newUUID e) dst raw k"
      using ping_record [OF assms(1-4)] unfolding probe_record_def by blast
    moreover have "raw_ID raw = newUUID e" "shows_dst dst raw" using raw(2) probe_shows [OF raw(2) assms(3)] by (simp_all add: probe_record_def)
    ultimately show ?thesis using Cons \<open>ring_room be\<close>
      by (auto simp: recorded_def List.map_filter_simps x Some)
  qed
qed (simp add: recorded_def List.map_filter_simps)

lemma sightings_of_probe:
  assumes "wf_env e" "runICMP e f evs = Some (Inr ([s], rr))" "ParseIP (f_dst f) = Some dst" "sent_l3 s = Some l3"
    and "\<forall>(h, marks) \<in> set ws. watches h \<and> list_all2 (arrives (newUUID e) l3 dst (h_maps h)) (h_arrivals h) marks"
  shows "list_all2 (\<lambda>(node, raw) (node', k). node = node' \<and> probe_record (newUUID e) dst raw k)
    (filter (\<lambda>(node, raw). shows_dst dst raw) (sightings (newUUID e) (map fst ws))) (passed ws)"
  using assms(5)
proof (induction ws)
  case (Cons w ws)
  obtain h marks where w: "w = (h, marks)" by (cases w)
  have "list_all2 (probe_record (newUUID e) dst)
      (filter (\<lambda>raw. raw_ID raw = newUUID e \<and> shows_dst dst raw) (recorded (h_maps h) (h_arrivals h))) (List.map_filter id marks)"
    by (rule host_records_probe [OF assms(1-4)]) (use Cons.prems w in auto)
  then show ?case
    using Cons by (auto simp: w sightings_def all_recorded_def passed_def filter_map comp_def list.rel_map conj_commute intro!: list_all2_appendI)
qed (simp add: sightings_def all_recorded_def passed_def)

lemma traced_dst:
  assumes "list_all2 (\<lambda>(node, raw). traces u node raw) xs obs"
  shows "list_all2 (\<lambda>(node, raw). traces u node raw) (filter (\<lambda>(node, raw). shows_dst dst raw) xs)
    (filter (\<lambda>ob. ParseIP (o_DstIP ob) = Some dst) obs)"
  by (rule list_all2_filter [OF assms]) (auto simp: shows_dst_def traces_def)

text \<open>Sorted by hop, observations at different hops are in the order of the route.\<close>

lemma sorted_route:
  assumes "sorted (map o_Hop obs)" "mset (map (\<lambda>ob. (o_NodeID ob, o_Hop ob)) obs) = mset (map (\<lambda>(node, k). (node, of_nat k)) route)"
    and "sorted_wrt (<) (map snd route)" "\<forall>k \<in> snd ` set route. k < 256"
  shows "map (\<lambda>ob. (o_NodeID ob, unat (o_Hop ob))) obs = route"
proof -
  let ?xs = "map (\<lambda>ob. (o_NodeID ob, unat (o_Hop ob))) obs"
  have "mset ?xs = image_mset (\<lambda>(node, w). (node, unat w)) (mset (map (\<lambda>ob. (o_NodeID ob, o_Hop ob)) obs))"
    by (simp add: image_mset.compositionality comp_def)
  also have "\<dots> = mset (map (\<lambda>(node, k). (node, unat (of_nat k :: byte))) route)"
    unfolding assms(2) by (simp add: image_mset.compositionality comp_def case_prod_unfold)
  also have "map (\<lambda>(node, k). (node, unat (of_nat k :: byte))) route = route"
    using assms(4) by (intro map_idI) (force simp: unat_of_nat)
  finally have m: "mset ?xs = mset route" .
  have d: "distinct (map snd route)" "sorted (map snd route)" using assms(3) by (simp_all add: strict_sorted_iff)
  have "sorted (map snd ?xs)" using assms(1) by (simp add: sorted_map comp_def word_le_nat_alt)
  moreover have "inj_on snd (set route)" using d(1) by (simp add: distinct_map)
  ultimately have "sort_key snd route = ?xs" using m by (intro sort_key_inj_key_eq) simp_all
  then show ?thesis using d(2) by (simp add: sort_key_id_if_sorted)
qed

lemma traced_probe:
  assumes "list_all2 (\<lambda>(node, raw) (node', k). node = node' \<and> probe_record i dst raw k) xs ps"
    and "list_all2 (\<lambda>(node, raw). traces u node raw) xs obs" "ParseIP s = Some dst"
  shows "map (\<lambda>ob. (o_NodeID ob, o_Hop ob)) obs = map (\<lambda>(node, k). (node, of_nat k)) ps"
    and "\<forall>ob \<in> set obs. o_ID ob = u i \<and> ParseIP (o_DstIP ob) = Some dst"
proof -
  have "list_all2 (\<lambda>ob (node, k). o_NodeID ob = node \<and> o_Hop ob = of_nat k \<and> o_ID ob = u i \<and> ParseIP (o_DstIP ob) = Some dst) obs ps"
    using assms(1,2)
  proof (induction xs ps arbitrary: obs rule: list_all2_induct)
    case (Cons x xs p ps)
    obtain ob obs' where obs: "obs = ob # obs'" using Cons.prems by (auto simp: list_all2_Cons1)
    have "case x of (node, raw) \<Rightarrow> traces u node raw ob" using Cons.prems obs by auto
    then have "case p of (node, k) \<Rightarrow> o_NodeID ob = node \<and> o_Hop ob = of_nat k \<and> o_ID ob = u i \<and> ParseIP (o_DstIP ob) = Some dst"
      using Cons.hyps(1) probe_destination [OF assms(3)] by (cases x; cases p) (simp add: probe_record_def traces_def)
    then show ?case using Cons.IH [of obs'] Cons.prems by (simp add: obs)
  qed simp
  then show "map (\<lambda>ob. (o_NodeID ob, o_Hop ob)) obs = map (\<lambda>(node, k). (node, of_nat k)) ps"
    and "\<forall>ob \<in> set obs. o_ID ob = u i \<and> ParseIP (o_DstIP ob) = Some dst"
    by (induction rule: list_all2_induct) auto
qed

lemma sorted_fst: "sorted (map (\<lambda>x. (f x, g x)) xs) \<Longrightarrow> sorted (map f xs)"
  for f :: "'a \<Rightarrow> 'b::linorder" and g :: "'a \<Rightarrow> 'c::linorder"
  by (induction xs) (auto simp: less_eq_prod_def)

section \<open>One host, two routers away\<close>

text \<open>The digits of an id, for the text of a UUID.\<close>

definition demo_text :: "bytes \<Rightarrow> string" where
  "demo_text i = concat (map hex2 i)"

lemma byte_digits: "unat (b :: byte) div 16 < 16" "unat b mod 16 < 16"
  using unsigned_less [of b, where 'a = nat] by (simp_all add: less_mult_imp_div_less)

lemma hex2_inj: "hex2 a = hex2 b \<Longrightarrow> a = b"
proof -
  assume "hex2 a = hex2 b"
  then have "digit_char (unat a div 16) = digit_char (unat b div 16)" "digit_char (unat a mod 16) = digit_char (unat b mod 16)"
    by (simp_all add: hex2_def)
  then have "unat a div 16 = unat b div 16" "unat a mod 16 = unat b mod 16"
    using digit_val_digit_char byte_digits by metis+
  then have "unat a = unat b" by (metis div_mult_mod_eq)
  then show "a = b" by (simp add: word_unat_eq_iff)
qed

lemma demo_text_inj: "length i = length j \<Longrightarrow> demo_text i = demo_text j \<Longrightarrow> i = j"
proof (induction i j rule: list_induct2)
  case (Cons a i b j)
  have "length (hex2 c) = 2" for c by (simp add: hex2_def)
  then show ?case using Cons hex2_inj by (auto simp: demo_text_def)
qed simp

lemma ascii_digit: "d < 16 \<Longrightarrow> of_char (digit_char d) < (128 :: nat)"
  by (simp add: digit_char_def)

lemma demo_uuid_text: "uuid_text demo_text"
proof -
  have "ascii (hex2 b)" for b
    using byte_digits [of b] by (simp add: hex2_def ascii_digit)
  then have "ascii (demo_text i)" for i by (induction i) (simp_all add: demo_text_def)
  moreover have "demo_text i \<noteq> []" if "length i = 16" for i using that by (cases i) (auto simp: demo_text_def hex2_def)
  ultimately show ?thesis using demo_text_inj by (auto simp: uuid_text_def intro: inj_onI)
qed

text \<open>A host that sees one packet, which leaves the record \<open>raw\<close>.\<close>

definition demo_seen :: "Raw \<Rightarrow> Observation" where
  "demo_seen raw = fst (Enrich demo_text (\<lambda>_. None) [] raw ''n1'' \<lparr>unixSec = 0, nsec = 0, zoneOffset = 0\<rparr>)"

definition demo_site :: "arrival \<Rightarrow> Raw \<Rightarrow> emitter \<Rightarrow> host" where
  "demo_site x raw e = \<lparr>h_maps = demo_maps, h_arrivals = [x], h_node = ''n1'', h_az = ''az1'', h_url = ''http://c'', h_otlp = ([], False),
     h_byIndex = (\<lambda>_. None), h_now = (\<lambda>_. \<lparr>unixSec = 0, nsec = 0, zoneOffset = 0\<rparr>), h_sinks = (\<lambda>_. demo_sinks),
     h_events = [EmitEv demo_sinks (demo_seen raw), ShipEv True, CloseEv], h_end = e\<rparr>"

lemma demo_recorded:
  "record_of demo_maps (be, skb, dir) = Some raw \<Longrightarrow> ring_room be \<Longrightarrow> recorded demo_maps [(be, skb, dir)] = [raw]"
  by (simp add: recorded_def List.map_filter_simps)

lemma demo_site_ran:
  assumes "record_of demo_maps (be, skb, dir) = Some raw" "ring_room be"
  shows "\<exists>e. host_ran demo_text (demo_site (be, skb, dir) raw e) \<and> length (em_posted e) = 1 \<and> (\<forall>p \<in> set (em_posted e). snd p)"
proof -
  let ?e0 = "newEmitter ''n1'' ''az1'' ''http://c'' [] False"
  obtain e where e: "em_run ?e0 [EmitEv demo_sinks (demo_seen raw), ShipEv True, CloseEv] e" "drained e"
      "em_posted e = [(outgoing demo_sinks ?e0 (demo_seen raw), True)]"
    using demo_emit_run by blast
  have m: "demo_maps\<lparr>events := []\<rparr> = demo_maps" by (simp add: demo_maps_def)
  obtain as m' where run: "bpf_run demo_maps [(be, skb, dir)] = Some (as, m')" "events m' = [observation_bytes raw]"
    using bpf_run_records [of demo_maps "[(be, skb, dir)]"] demo_recorded [OF assms] by (auto simp: demo_maps_def)
  let ?h = "demo_site (be, skb, dir) raw e"
  have "emit_events (h_events ?h) = emissions demo_text (h_byIndex ?h) [] (h_node ?h) (ring_reads ?h (events m'))"
    using Parse_observation_bytes [OF record_of_wf [OF assms(1)], of "[]"] run(2)
    by (simp add: demo_site_def ring_reads_def demo_seen_def split_beta)
  moreover have "bpf_run ((h_maps ?h)\<lparr>events := []\<rparr>) (h_arrivals ?h) = Some (as, m')" using run(1) m by (simp add: demo_site_def)
  ultimately have "host_ran demo_text ?h"
    unfolding host_ran_def using e demo_never_ahead by (auto simp: demo_site_def)
  then show ?thesis using e(3) by (intro exI [of _ e]) simp
qed

lemma demo_site_cfg:
  "config_map demo_maps = Some \<lparr>cfg_IfaceType = 0, cfg_Respond = 1, cfg_TCPRespond = 1\<rparr>"
  "cfg_IfaceType \<lparr>cfg_IfaceType = 0, cfg_Respond = 1, cfg_TCPRespond = 1\<rparr> \<in> {0, 2}"
  by (simp_all add: demo_maps_def)

lemma demo_site_names: "valid_names (demo_site x raw e)"
  by (simp add: valid_names_def demo_site_def demo_sinks_def valid_ascii)

section \<open>Properties\<close>



text \<open>
  C6: The path of a ping is its route. The client's ICMP sub-command sends its probe, as a frame or as an IP packet through
  the kernel, with or without \<^verbatim>\<open>--response\<close>; routers forward it, and hosts that watch interfaces of type regular or auto
  see it after any numbers of routers, each with room in its ring buffer, among any other traffic that is not of this run or not
  addressed to the destination (the echo reply is such traffic: \<open>reply_arrives\<close>). Once their agents have ended as
  in the theorem above (queue drained, never more than 1024 ahead, posts accepted, UTF-8 names), and when the collector
  retains as many runs as there were and the run has at most 4096 records in all, the collector answers for the client's run id,
  sorted by hop, and its observations whose destination parses to that of the ping are one for every
  sighting, with the node and the number of routers behind it as the hop. When the probe was seen once at each distance (below 256,
  the range of the TTL), these are the route: node by node, in order.
\<close>

theorem ping_path:
  assumes "wf_env e" "runICMP e f evs = Some (Inr ([s], rr))" "ParseIP (f_dst f) = Some dst"
    and "sent_l3 s = Some l3" "uuid_text u"
    and "\<forall>(h, marks) \<in> set ws. host_ran u h \<and> valid_names h \<and> watches h \<and>
      list_all2 (arrives (newUUID e) l3 dst (h_maps h)) (h_arrivals h) marks"
    and "mset posts = (\<Sum>(h, marks) \<leftarrow> ws. mset (map fst (filter snd (em_posted (h_end h)))))"
    and "ingests urlPath" "1 \<le> c"
    and "int (card (raw_ID ` snd ` set (all_recorded (map fst ws)))) \<le> c"
    and "length (sightings (newUUID e) (map fst ws)) \<le> maxObsPerRun"
  shows "\<exists>st obs probes. receiveAll errText urlPath (newStore c) (map postBody posts) = Some st \<and>
    getPath st (u (newUUID e)) = Some obs \<and> sorted (map o_Hop obs) \<and> (\<forall>ob \<in> set obs. o_ID ob = u (newUUID e)) \<and>
    probes = filter (\<lambda>ob. ParseIP (o_DstIP ob) = Some dst) obs \<and>
    mset (map (\<lambda>ob. (o_NodeID ob, o_Hop ob)) probes) = mset (map (\<lambda>(node, k). (node, of_nat k)) (passed ws)) \<and>
    (\<forall>route. mset route = mset (passed ws) \<and> sorted_wrt (<) (map snd route) \<and> (\<forall>k \<in> snd ` set route. k < 256) \<longrightarrow>
       map (\<lambda>ob. (o_NodeID ob, unat (o_Hop ob))) probes = route)"
proof -
  let ?hs = "map fst ws" and ?i = "newUUID e" and ?P = "\<lambda>ob. ParseIP (o_DstIP ob) = Some dst"
  have seen: "list_all2 (\<lambda>(node, raw) (node', k). node = node' \<and> probe_record ?i dst raw k)
      (filter (\<lambda>(node, raw). shows_dst dst raw) (sightings ?i ?hs)) (passed ws)"
    by (rule sightings_of_probe [OF assms(1-4)]) (use assms(6) in auto)
  have "mset posts = (\<Sum>h \<leftarrow> ?hs. mset (map fst (filter snd (em_posted (h_end h)))))"
    unfolding assms(7) by (simp add: case_prod_unfold comp_def)
  moreover have "length ?i = 16" "\<forall>h \<in> set ?hs. host_ran u h \<and> valid_names h" using assms(1,6) by (auto simp: wf_env_def)
  ultimately obtain st obs obs' where st: "receiveAll errText urlPath (newStore c) (map postBody posts) = Some st" "getPath st (u ?i) = Some obs"
    and srt: "sorted (map (\<lambda>ob. (o_Hop ob, o_Timestamp ob)) obs)" and perm: "mset obs' = mset obs"
    and tr: "list_all2 (\<lambda>(node, raw). traces u node raw) (sightings ?i ?hs) obs'"
    using collected_sightings [OF assms(5) _ _ _ assms(8-11)] by blast
  have ids: "\<forall>ob \<in> set obs. o_ID ob = u ?i"
  proof
    fix ob assume "ob \<in> set obs"
    then have "ob \<in> set obs'" using mset_eq_setD [OF perm] by simp
    then obtain x where "x \<in> set (sightings ?i ?hs)" "case x of (node, raw) \<Rightarrow> traces u node raw ob" using traced_set [OF tr] by blast
    then show "o_ID ob = u ?i" by (auto simp: sightings_def traces_def)
  qed
  have hops: "mset (map (\<lambda>ob. (o_NodeID ob, o_Hop ob)) (filter ?P obs)) = mset (map (\<lambda>(node, k). (node, of_nat k)) (passed ws))"
  proof -
    have "mset (filter ?P obs) = mset (filter ?P obs')" using perm by simp
    then show ?thesis using arg_cong [OF traced_probe(1) [OF seen traced_dst [OF tr] assms(3)], of mset] by simp
  qed
  have "sorted (map o_Hop (filter ?P obs))" using sorted_filter [OF sorted_fst [OF srt]] .
  then have "map (\<lambda>ob. (o_NodeID ob, unat (o_Hop ob))) (filter ?P obs) = route"
    if "mset route = mset (passed ws)" "sorted_wrt (<) (map snd route)" "\<forall>k \<in> snd ` set route. k < 256" for route
    by (rule sorted_route [OF _ _ that(2,3)]) (use hops that(1) in simp)
  then show ?thesis using st sorted_fst [OF srt] hops ids by blast
qed

theorem ping_path_witness:
  "\<exists>s x raw e st obs. runICMP demo_env (demo_flags True 40000) [] = Some (Inr ([s], None)) \<and>
     host_ran demo_text (demo_site x raw e) \<and>
     receiveAll (\<lambda>_. []) ''/'' (newStore 1) (map postBody (map fst (em_posted e))) = Some st \<and>
     getPath st (demo_text (newUUID demo_env)) = Some obs \<and>
     map (\<lambda>ob. (o_NodeID ob, unat (o_Hop ob))) (filter (\<lambda>ob. ParseIP (o_DstIP ob) = Some demo_dst) obs) = [(''n1'', 2)]"
proof -
  obtain s l3 l2' and skb :: sk_buff where p: "runICMP demo_env (demo_flags True 40000) [] = Some (Inr ([s], None))"
      "sent_l3 s = Some l3" "forwarded (isV6 demo_dst) 2 l3 (l2_l3 l2')" "parseL2 (sk_data skb) = Some (Some l2')"
      "l2_etherType l2' = ether (isV6 demo_dst)"
    by (rule demo_ping)
  obtain raw where raw: "record_of demo_maps (demo_benv, skb, 0) = Some raw"
    using ping_record [OF demo_wf p(1) demo_ping_dst p(2-5) demo_site_cfg] by auto
  obtain e where e: "host_ran demo_text (demo_site (demo_benv, skb, 0) raw e)" "length (em_posted e) = 1" "\<forall>p \<in> set (em_posted e). snd p"
    using demo_site_ran [OF raw(1)] by (auto simp: demo_benv_def)
  let ?h = "demo_site (demo_benv, skb, 0) raw e" and ?ws = "[(demo_site (demo_benv, skb, 0) raw e, [Some 2])]"
  have one: "int (card (raw_ID ` snd ` set (all_recorded (map fst ?ws)))) \<le> 1"
    using demo_recorded [OF raw(1)] by (simp add: all_recorded_def demo_site_def demo_benv_def)
  have posted: "mset (map fst (em_posted e)) = (\<Sum>(h, marks) \<leftarrow> ?ws. mset (map fst (filter snd (em_posted (h_end h)))))"
    using e(3) by (simp add: demo_site_def flip: mset_map mset_filter)
  have "list_all2 (arrives (newUUID demo_env) l3 demo_dst (h_maps ?h)) (h_arrivals ?h) [Some 2]" "watches ?h"
    using p(3-5) demo_site_cfg by (auto simp: demo_site_def arrives_def carries_def demo_benv_def watches_def)
  then have ws: "\<forall>(h, marks) \<in> set ?ws. host_ran demo_text h \<and> valid_names h \<and> watches h \<and>
      list_all2 (arrives (newUUID demo_env) l3 demo_dst (h_maps h)) (h_arrivals h) marks"
    using e(1) demo_site_names by simp
  have passed: "passed ?ws = [(''n1'', 2)]" by (simp add: passed_def demo_site_def List.map_filter_simps)
  have few: "length (sightings (newUUID demo_env) (map fst ?ws)) \<le> maxObsPerRun"
    using demo_recorded [OF raw(1)] by (simp add: sightings_def all_recorded_def demo_site_def demo_benv_def maxObsPerRun_def)
  obtain st obs where st: "receiveAll (\<lambda>_. []) ''/'' (newStore 1) (map postBody (map fst (em_posted e))) = Some st"
      "getPath st (demo_text (newUUID demo_env)) = Some obs"
      "\<forall>route. mset route = mset (passed ?ws) \<and> sorted_wrt (<) (map snd route) \<and> (\<forall>k \<in> snd ` set route. k < 256) \<longrightarrow>
       map (\<lambda>ob. (o_NodeID ob, unat (o_Hop ob))) (filter (\<lambda>ob. ParseIP (o_DstIP ob) = Some demo_dst) obs) = route"
    using ping_path [OF demo_wf p(1) demo_ping_dst p(2) demo_uuid_text ws posted root_ingests _ one few, of "\<lambda>_. []"] by auto
  from spec [OF st(3), of "[(''n1'', 2)]"] have "map (\<lambda>ob. (o_NodeID ob, unat (o_Hop ob))) (filter (\<lambda>ob. ParseIP (o_DstIP ob) = Some demo_dst) obs) = [(''n1'', 2)]"
    by (simp add: passed)
  with p(1) e(1) st(1,2) show ?thesis by (intro exI conjI)
qed

end
