(* ===== verification/Metrics_Page.thy ===== *)
theory Metrics_Page
  imports Utf8 Go_Url Intercept Agent_Run
begin

text \<open>
  The metrics endpoint of the agent (\<^verbatim>\<open>serveMetrics\<close> of \<^verbatim>\<open>agent/metrics.go\<close>): the text of the page, and that a
  reader of the text exposition format finds in it exactly the counters the agent and the eBPF program
  keep, whatever the node is called.
\<close>

section \<open>The page\<close>

definition statObserved :: u32 where [simp]: "statObserved = 0"
definition statRingbufFull :: u32 where [simp]: "statRingbufFull = 1"

definition nl :: char where "nl = CHR 0x0A"

definition metric :: "(nat \<Rightarrow> bool) \<Rightarrow> string \<Rightarrow> string \<Rightarrow> string \<Rightarrow> string \<Rightarrow> u64 \<Rightarrow> string" where
  "metric isPrint name help typ node v =
     ''# HELP '' @ name @ '' '' @ help @ [nl] @ ''# TYPE '' @ name @ '' '' @ typ @ [nl] @
     name @ ''{node='' @ Quote isPrint node @ ''} '' @ dec_string (unat v) @ [nl]"

definition counter :: "(nat \<Rightarrow> bool) \<Rightarrow> string \<Rightarrow> string \<Rightarrow> string \<Rightarrow> u64 \<Rightarrow> string" where
  "counter isPrint name help node v = metric isPrint name help ''counter'' node v"

definition gauge :: "(nat \<Rightarrow> bool) \<Rightarrow> string \<Rightarrow> string \<Rightarrow> string \<Rightarrow> u64 \<Rightarrow> string" where
  "gauge isPrint name help node v = metric isPrint name help ''gauge'' node v"

definition metricsPage :: "(nat \<Rightarrow> bool) \<Rightarrow> string \<Rightarrow> (u32 \<Rightarrow> u64 list option) \<Rightarrow> metrics \<Rightarrow> string" where
  "metricsPage isPrint nodeID stats m =
     counter isPrint ''traceflow_observations_total'' ''Marked packets observed and pushed to the ring buffer.''
       nodeID (sumPerCPU stats statObserved) @
     counter isPrint ''traceflow_ringbuf_drops_total'' ''Observations dropped because the ring buffer was full (reader too slow).''
       nodeID (sumPerCPU stats statRingbufFull) @
     counter isPrint ''traceflow_parse_errors_total'' ''Ring-buffer records that failed to decode.''
       nodeID (parseErrors m) @
     counter isPrint ''traceflow_ringbuf_read_errors_total'' ''Ring-buffer read errors.''
       nodeID (readErrors m) @
     counter isPrint ''traceflow_replies_sent_total'' ''Replies emitted by the responder.''
       nodeID (repliesSent m) @
     counter isPrint ''traceflow_auth_failures_total'' ''Requests rejected by the responder for a bad/missing HMAC.''
       nodeID (authFailures m) @
     gauge isPrint ''traceflow_taps_watched'' ''VM taps currently attached in watch mode.''
       nodeID (tapsWatched m) @
     gauge isPrint ''traceflow_vxlan_ifaces_watched'' ''Per-tenant VXLAN netdevs currently attached (netlink watcher).''
       nodeID (vxlanWatched m) @
     gauge isPrint ''traceflow_up'' ''1 if the agent is running.'' nodeID 1"

text \<open>The two handlers behind the multiplexer, which redirects a path that is not clean (the page of a redirect is
  not modelled).\<close>

record http_text =
  ht_status :: nat
  ht_contentType :: string
  ht_body :: string

definition serveMetrics :: "(nat \<Rightarrow> bool) \<Rightarrow> string \<Rightarrow> (u32 \<Rightarrow> u64 list option) \<Rightarrow> metrics \<Rightarrow> string \<Rightarrow> http_text" where
  "serveMetrics isPrint nodeID stats m path =
     (let name = mux_route [''healthz'', ''metrics''] path in
      if cleanPath path \<noteq> path then \<lparr>ht_status = 301, ht_contentType = ''text/html; charset=utf-8'', ht_body = []\<rparr>
      else if name = ''healthz'' then \<lparr>ht_status = 200, ht_contentType = ''text/plain'', ht_body = ''ok'' @ [nl]\<rparr>
      else if name = ''metrics'' then
        \<lparr>ht_status = 200, ht_contentType = ''text/plain; version=0.0.4'', ht_body = metricsPage isPrint nodeID stats m\<rparr>
      else \<lparr>ht_status = 404, ht_contentType = ''text/plain; charset=utf-8'', ht_body = ''404 page not found'' @ [nl]\<rparr>)"

lemma metrics_path: "cleanPath ''/metrics'' = ''/metrics''" "mux_route [''healthz'', ''metrics''] ''/metrics'' = ''metrics''"
  by code_simp+

section \<open>Reading the page\<close>

text \<open>A reader of the exposition format: comment lines start with a hash; of a sample line the name is what
  precedes the labels and the value what follows the last space.\<close>

definition sample_of :: "string \<Rightarrow> (string \<times> nat) option" where
  "sample_of line =
     (if line = [] \<or> hd line = CHR ''#'' then None
      else Some (takeWhile (\<lambda>c. c \<noteq> CHR ''{'') line,
                 num_val 10 (rev (takeWhile (\<lambda>c. c \<noteq> CHR '' '') (rev line)))))"

definition scrape :: "string \<Rightarrow> (string \<times> nat) list" where
  "scrape page = List.map_filter sample_of (split_on nl page)"

definition plain_name :: "string \<Rightarrow> bool" where
  "plain_name s \<longleftrightarrow> s \<noteq> [] \<and> nl \<notin> set s \<and> CHR ''{'' \<notin> set s \<and> hd s \<noteq> CHR ''#''"

lemma nl_chars [simp]: "nl \<noteq> CHR ''#''" "CHR ''#'' \<noteq> nl" "\<not> num_char nl"
  by (simp_all add: nl_def)

lemma split_line: "nl \<notin> set x \<Longrightarrow> split_on nl (x @ nl # s) = x # split_on nl s"
  by (rule split_on_append)

lemma metric_lines:
  assumes "nl \<notin> set name" "nl \<notin> set help" "nl \<notin> set typ"
  shows "split_on nl (metric isPrint name help typ node v @ rest) =
    (''# HELP '' @ name @ '' '' @ help) # (''# TYPE '' @ name @ '' '' @ typ) #
    (name @ ''{node='' @ Quote isPrint node @ ''} '' @ dec_string (unat v)) # split_on nl rest"
proof -
  have d: "nl \<notin> set (dec_string (unat v))" using dec_string_chars by fastforce
  have q: "nl \<notin> set (Quote isPrint node)" using Quote_line by (simp add: nl_def)
  have c: "nl \<notin> set ''# HELP ''" "nl \<notin> set ''# TYPE ''" "nl \<notin> set '' ''" "nl \<notin> set ''{node=''" "nl \<notin> set ''} ''"
    by (simp_all add: nl_def)
  let ?a = "''# HELP '' @ name @ '' '' @ help" and ?b = "''# TYPE '' @ name @ '' '' @ typ"
  let ?c = "name @ ''{node='' @ Quote isPrint node @ ''} '' @ dec_string (unat v)"
  have "metric isPrint name help typ node v @ rest = ?a @ nl # ?b @ nl # ?c @ nl # rest"
    by (simp add: metric_def)
  moreover have "nl \<notin> set ?a" "nl \<notin> set ?b" "nl \<notin> set ?c"
    using assms d q c by (simp_all only: set_append Un_iff simp_thms)
  ultimately show ?thesis by (simp only: split_line simp_thms)
qed

lemma takeWhile_sep: "c \<notin> set x \<Longrightarrow> takeWhile (\<lambda>d. d \<noteq> c) (x @ c # y) = x"
  by (induction x) auto

lemma sample_line:
  assumes "plain_name name"
  shows "sample_of (name @ ''{node='' @ Quote isPrint node @ ''} '' @ dec_string (unat v)) = Some (name, unat v)"
proof -
  let ?line = "name @ ''{node='' @ Quote isPrint node @ ''} '' @ dec_string (unat v)"
  have "\<not> num_char (CHR '' '')" by (simp add: num_char_def Let_def)
  then have "CHR '' '' \<notin> set (rev (dec_string (unat v)))" using dec_string_chars by fastforce
  then have "rev (takeWhile (\<lambda>c. c \<noteq> CHR '' '') (rev ?line)) = dec_string (unat v)"
    using takeWhile_sep [of "CHR '' ''" "rev (dec_string (unat v))"] by simp
  moreover have "takeWhile (\<lambda>c. c \<noteq> CHR ''{'') ?line = name"
    using assms takeWhile_sep [of "CHR ''{''" name] by (simp add: plain_name_def)
  ultimately show ?thesis
    using assms by (cases name) (simp_all add: sample_of_def plain_name_def dec_val)
qed

lemma scrape_metric:
  assumes "plain_name name" "nl \<notin> set help" "nl \<notin> set typ"
  shows "scrape (metric isPrint name help typ node v @ rest) = (name, unat v) # scrape rest"
proof -
  have n: "nl \<notin> set name" using assms(1) by (simp add: plain_name_def)
  have "sample_of (''# HELP '' @ x) = None" "sample_of (''# TYPE '' @ x) = None" for x by (simp_all add: sample_of_def)
  then show ?thesis
    by (simp only: scrape_def metric_lines [OF n assms(2,3)] map_filter_simps sample_line [OF assms(1)] option.case)
qed

lemma scrape_end: "scrape [] = []"
  by (simp add: scrape_def sample_of_def map_filter_simps)

lemmas scrape_metric_end = scrape_metric [where rest = "[]", unfolded append_Nil2 scrape_end]

lemma scrape_page:
  "scrape (metricsPage isPrint nodeID stats m) =
     [(''traceflow_observations_total'', unat (sumPerCPU stats 0)), (''traceflow_ringbuf_drops_total'', unat (sumPerCPU stats 1)),
      (''traceflow_parse_errors_total'', unat (parseErrors m)), (''traceflow_ringbuf_read_errors_total'', unat (readErrors m)),
      (''traceflow_replies_sent_total'', unat (repliesSent m)), (''traceflow_auth_failures_total'', unat (authFailures m)),
      (''traceflow_taps_watched'', unat (tapsWatched m)), (''traceflow_vxlan_ifaces_watched'', unat (vxlanWatched m)),
      (''traceflow_up'', 1)]"
  unfolding metricsPage_def counter_def gauge_def
  by (simp add: scrape_metric scrape_metric_end plain_name_def nl_def)

section \<open>The page tells what happened\<close>

text \<open>The per-CPU map as the agent reads it: one value per CPU.\<close>

definition cpu_stats :: "bpf_maps list \<Rightarrow> u32 \<Rightarrow> u64 list option" where
  "cpu_stats ms key =
     (if key = TF_STAT_OBSERVED then Some (map stat_observed ms)
      else if key = TF_STAT_RINGBUF_FULL then Some (map stat_ringbuf_full ms) else None)"

text \<open>The data path on each CPU, from counters at zero.\<close>

definition cpu_run :: "bpf_maps \<times> arrival list \<Rightarrow> bpf_maps" where
  "cpu_run x = (case x of (m, xs) \<Rightarrow>
     (case bpf_run (m\<lparr>stat_observed := 0, stat_ringbuf_full := 0\<rparr>) xs of Some (as, m') \<Rightarrow> m' | None \<Rightarrow> m))"

lemma cpu_run_counts:
  "stat_observed (cpu_run (m, xs)) = of_nat (length (recorded m xs))"
  "stat_ringbuf_full (cpu_run (m, xs)) = of_nat (overflowed m xs)"
proof -
  let ?m = "m\<lparr>stat_observed := 0, stat_ringbuf_full := 0\<rparr>"
  have r: "record_of ?m = record_of m" by (rule record_of_cong) simp_all
  then have eq: "recorded ?m xs = recorded m xs" "overflowed ?m xs = overflowed m xs"
    by (simp_all add: recorded_def overflowed_def)
  obtain as m' where run: "bpf_run ?m xs = Some (as, m')" "stat_observed m' = 0 + of_nat (length (recorded ?m xs))"
      "stat_ringbuf_full m' = 0 + of_nat (overflowed ?m xs)"
    using bpf_run_records [of ?m xs] by auto
  from run(1) have "cpu_run (m, xs) = m'" by (simp add: cpu_run_def)
  with run(2,3) eq show "stat_observed (cpu_run (m, xs)) = of_nat (length (recorded m xs))"
    "stat_ringbuf_full (cpu_run (m, xs)) = of_nat (overflowed m xs)" by simp_all
qed

lemma sum_list_words: "sum_list (map (\<lambda>x. of_nat (f x) :: u64) xs) = of_nat (sum_list (map f xs))"
  by (induction xs) simp_all

lemma unat_count: "n < 2 ^ 64 \<Longrightarrow> unat (of_nat n :: u64) = n"
  by (simp add: unat_of_nat take_bit_nat_eq_self)

lemma cpu_stats_sums:
  "sumPerCPU (cpu_stats (map cpu_run cs)) 0 = of_nat (\<Sum>(m, xs) \<leftarrow> cs. length (recorded m xs))"
  "sumPerCPU (cpu_stats (map cpu_run cs)) 1 = of_nat (\<Sum>(m, xs) \<leftarrow> cs. overflowed m xs)"
proof -
  have "stat_observed \<circ> cpu_run = (\<lambda>x. of_nat (case x of (m, xs) \<Rightarrow> length (recorded m xs)))"
    "stat_ringbuf_full \<circ> cpu_run = (\<lambda>x. of_nat (case x of (m, xs) \<Rightarrow> overflowed m xs))"
    by (auto simp: fun_eq_iff cpu_run_counts)
  then show "sumPerCPU (cpu_stats (map cpu_run cs)) 0 = of_nat (\<Sum>(m, xs) \<leftarrow> cs. length (recorded m xs))"
    "sumPerCPU (cpu_stats (map cpu_run cs)) 1 = of_nat (\<Sum>(m, xs) \<leftarrow> cs. overflowed m xs)"
    by (simp_all only: cpu_stats_def sumPerCPU_def option.case foldl_plus_word
        map_map sum_list_words add_0 if_True if_False TF_STAT_OBSERVED_def TF_STAT_RINGBUF_FULL_def zero_neq_one one_neq_zero simp_thms)
qed

text \<open>The gauges: what each watcher stores is the size of its table, whatever the other does in between.\<close>

definition taps_attached :: "running \<Rightarrow> nat" where
  "taps_attached rn = (case rn_tap rn of None \<Rightarrow> 0 | Some m \<Rightarrow> mlen (tm_attached m))"

definition vx_attached :: "running \<Rightarrow> nat" where
  "vx_attached rn = (case rn_vx rn of None \<Rightarrow> 0 | Some m \<Rightarrow> mlen (vm_attached m))"

definition gauges_ok :: "running \<times> agent \<Rightarrow> bool" where
  "gauges_ok s \<longleftrightarrow> tapsWatched (ag_mtr (snd s)) = of_nat (taps_attached (fst s)) \<and>
     vxlanWatched (ag_mtr (snd s)) = of_nat (vx_attached (fst s))"

fun closes_taps :: "agent_op \<Rightarrow> bool" where
  "closes_taps (TapOp (CloseTaps y f)) = True"
| "closes_taps op1 = False"

lemma releaseAll_mtr: "ag_mtr (releaseAll y xs ag) = ag_mtr ag"
  by (induction y xs ag rule: releaseAll.induct) simp_all

lemma vxUpdate_gauges:
  "tapsWatched (ag_mtr (snd (vxUpdate y l hdr s))) = tapsWatched (ag_mtr (snd s))"
  "vxlanWatched (ag_mtr (snd s)) = of_nat (mlen (vm_attached (fst s))) \<Longrightarrow>
     vxlanWatched (ag_mtr (snd (vxUpdate y l hdr s))) = of_nat (mlen (vm_attached (fst (vxUpdate y l hdr s))))"
  by (cases s; simp add: vxUpdate_def vxAttach_def detachIdx_def storeGauge_def Let_def split_beta split: option.split sum.split)+

lemma stopVX_gauges: "gauges_ok s \<Longrightarrow> gauges_ok (stopVX y f s)"
  by (cases s) (auto simp: gauges_ok_def stopVX_def closeAllVX_def Let_def taps_attached_def vx_attached_def releaseAll_mtr
      mlen_def split: option.splits)

lemma run_step_gauges:
  assumes "gauges_ok s" "\<not> closes_taps op1"
  shows "gauges_ok (run_step s op1)"
proof -
  obtain rn ag where s: "s = (rn, ag)" by (cases s)
  show ?thesis
  proof (cases op1)
    case (TapOp w)
    then obtain y f ports where w: "w = Scan y f ports" using assms(2) by (cases w) auto
    have "tapsWatched (ag_mtr (snd (watch_step (m, ag) w))) = of_nat (mlen (tm_attached (fst (watch_step (m, ag) w))))" for m
      by (simp add: w reconcile_def Let_def)
    then show ?thesis
      using assms(1) watch_step_vx [of "(_, ag)" w] TapOp s
      by (cases "rn_tap rn") (auto simp: gauges_ok_def taps_attached_def vx_attached_def split_beta)
  next
    case (VxOp y l hdr)
    then show ?thesis
      using assms(1) vxUpdate_gauges(1) [of y l hdr "(_, ag)"] vxUpdate_gauges(2) [of "(_, ag)" y l hdr] s
      by (cases "rn_vx rn") (auto simp: gauges_ok_def taps_attached_def vx_attached_def split_beta)
  next
    case (VxClose y f)
    then show ?thesis using stopVX_gauges [OF assms(1)] s by simp
  qed
qed

lemma runStart_gauges:
  assumes "runStart y ag o1 = (Inr rn, ag1)" "ag_mtr ag = metrics0"
  shows "gauges_ok (rn, ag1)"
proof -
  have st: "ag_mtr (snd (attachStatic y a o1)) = ag_mtr a" for a
    using startResponder_frame [of y] by (auto simp: attachStatic_def Let_def split_beta split: option.split sum.split)
  have "ag_mtr ag1 = metrics0 \<and> (\<exists>a. rn = mkRunning y o1 a)"
    using assms st by (auto simp: runStart_def startStatic_def resetObjs_def Let_def split_beta split: if_splits sum.splits prod.splits bool.splits)
  then show ?thesis
    by (auto simp: gauges_ok_def metrics0_def mkRunning_def taps_attached_def vx_attached_def newTapManager_def
        newVXLANManager_def mlen_def)
qed

lemma run_gauges:
  assumes "runStart y ag o1 = (Inr rn, ag1)" "ag_mtr ag = metrics0" "\<forall>op1 \<in> set ops. \<not> closes_taps op1"
  shows "gauges_ok (foldl run_step (rn, ag1) ops)"
  using assms(3) by (induction ops rule: rev_induct) (simp_all add: runStart_gauges [OF assms(1,2)] run_step_gauges)

text \<open>The counters are one structure of the process. Each goroutine adds to its own counters, atomically, so their
  values are those of the reader, the sums over the responders and those of the watchers.\<close>

definition process_metrics :: "reader \<Rightarrow> rstate list \<Rightarrow> agent \<Rightarrow> metrics" where
  "process_metrics rd rs ag =
     \<lparr>parseErrors = parseErrors (rd_mtr rd), readErrors = readErrors (rd_mtr rd),
      repliesSent = sum_list (map (\<lambda>r. repliesSent (mtr r)) rs), authFailures = sum_list (map (\<lambda>r. authFailures (mtr r)) rs),
      tapsWatched = tapsWatched (ag_mtr ag), vxlanWatched = vxlanWatched (ag_mtr ag)\<rparr>"

definition looped :: "(bytes \<Rightarrow> (nat \<times> nat \<times> bytes) list option) \<Rightarrow> rstate \<times> recv list \<Rightarrow> bytes list \<times> rstate" where
  "looped parseSCM x = (case Loop parseSCM (fst x) (snd x) of Some y \<Rightarrow> y | None \<Rightarrow> ([], fst x))"

lemma looped_counts:
  assumes "mtr r = metrics0"
  shows "repliesSent (mtr (snd (looped parseSCM (r, evs)))) = of_nat (length (fst (looped parseSCM (r, evs))))"
    and "authFailures (mtr (snd (looped parseSCM (r, evs)))) = of_nat (length (filter (auth_rejected r) (heard evs)))"
  using replies_counted [of parseSCM r evs] auth_counted [of parseSCM r evs] assms by (auto simp: looped_def metrics0_def)

lemma responder_sums:
  assumes "\<forall>(r, evs) \<in> set rs. mtr r = metrics0"
  shows "sum_list (map (\<lambda>r. repliesSent (mtr r)) (map (snd \<circ> looped parseSCM) rs)) =
      of_nat (\<Sum>x \<leftarrow> rs. length (fst (looped parseSCM x)))"
    and "sum_list (map (\<lambda>r. authFailures (mtr r)) (map (snd \<circ> looped parseSCM) rs)) =
      of_nat (\<Sum>(r, evs) \<leftarrow> rs. length (filter (auth_rejected r) (heard evs)))"
  using assms by (induction rs) (auto simp: looped_counts)

text \<open>
  C25: The metrics page is exact. Let the data path run on each CPU over any packets, the reader over any reads,
  any number of responders over any frames and the two watchers over any scans and link events, all counters
  starting at zero and none reaching its 64 bits. Then a reader of the page, whatever the name of the node
  (line breaks, quotes and braces included), finds exactly nine samples: as observations the number of records
  submitted on all CPUs, as drops the number of records lost to a full ring buffer, as parse errors the
  number of short records, as read errors the number of failed reads, as replies the number of frames the
  responders sent, as authentication failures the number of probes that asked for an answer and did not verify, as
  gauges the sizes of the two watchers' tables, and 1 for a running agent. The
  tap manager is not closed before (its close does not store the gauge).
\<close>

theorem metrics_exact:
  assumes "runStart y ag o1 = (Inr rn, ag1)" "ag_mtr ag = metrics0" "foldl run_step (rn, ag1) ops = (rn', ag')"
    and "\<forall>op1 \<in> set ops. \<not> closes_taps op1" "taps_attached rn' < 2 ^ 64" "vx_attached rn' < 2 ^ 64"
    and "RingClosed \<notin> set es" "rd_mtr s = metrics0" "length es < 2 ^ 64"
    and "\<forall>(r, evs) \<in> set rs. mtr r = metrics0" "(\<Sum>x \<leftarrow> rs. length (fst (looped parseSCM x))) < 2 ^ 64"
    and "(\<Sum>(r, evs) \<leftarrow> rs. length (filter (auth_rejected r) (heard evs))) < 2 ^ 64"
    and "(\<Sum>(m, xs) \<leftarrow> cs. length (recorded m xs)) < 2 ^ 64" "(\<Sum>(m, xs) \<leftarrow> cs. overflowed m xs) < 2 ^ 64"
  shows "let page = serveMetrics isPrint nodeID (cpu_stats (map cpu_run cs))
      (process_metrics (snd (readLoop u b s es)) (map (snd \<circ> looped parseSCM) rs) ag') ''/metrics'' in
    ht_status page = 200 \<and>
    scrape (ht_body page) =
      [(''traceflow_observations_total'', \<Sum>(m, xs) \<leftarrow> cs. length (recorded m xs)),
       (''traceflow_ringbuf_drops_total'', \<Sum>(m, xs) \<leftarrow> cs. overflowed m xs),
       (''traceflow_parse_errors_total'', length (filter is_short es)),
       (''traceflow_ringbuf_read_errors_total'', length (filter is_error es)),
       (''traceflow_replies_sent_total'', \<Sum>x \<leftarrow> rs. length (fst (looped parseSCM x))),
       (''traceflow_auth_failures_total'', \<Sum>(r, evs) \<leftarrow> rs. length (filter (auth_rejected r) (heard evs))),
       (''traceflow_taps_watched'', taps_attached rn'),
       (''traceflow_vxlan_ifaces_watched'', vx_attached rn'),
       (''traceflow_up'', 1)]"
proof -
  let ?m = "process_metrics (snd (readLoop u b s es)) (map (snd \<circ> looped parseSCM) rs) ag'"
  have "length (filter is_short es) < 2 ^ 64" "length (filter is_error es) < 2 ^ 64"
    using length_filter_le [of is_short es] length_filter_le [of is_error es] assms(9) by linarith+
  then have rd: "unat (parseErrors ?m) = length (filter is_short es)" "unat (readErrors ?m) = length (filter is_error es)"
    using readLoop_counts [OF assms(7), of u b s] assms(8) by (simp_all add: process_metrics_def metrics0_def unat_count)
  have "gauges_ok (rn', ag')" using run_gauges [OF assms(1,2,4)] assms(3) by simp
  then have wt: "unat (tapsWatched ?m) = taps_attached rn'" "unat (vxlanWatched ?m) = vx_attached rn'"
    using assms(5,6) by (simp_all add: process_metrics_def gauges_ok_def unat_count)
  have rp: "unat (repliesSent ?m) = (\<Sum>x \<leftarrow> rs. length (fst (looped parseSCM x)))"
    "unat (authFailures ?m) = (\<Sum>(r, evs) \<leftarrow> rs. length (filter (auth_rejected r) (heard evs)))"
    using responder_sums [OF assms(10), of parseSCM] assms(11,12) by (simp_all only: process_metrics_def unat_count metrics.select_convs)
  have bp: "unat (sumPerCPU (cpu_stats (map cpu_run cs)) 0) = (\<Sum>(m, xs) \<leftarrow> cs. length (recorded m xs))"
    "unat (sumPerCPU (cpu_stats (map cpu_run cs)) 1) = (\<Sum>(m, xs) \<leftarrow> cs. overflowed m xs)"
    using assms(13,14) by (simp_all only: cpu_stats_sums unat_count)
  show ?thesis by (simp add: serveMetrics_def metrics_path scrape_page rd wt rp bp Let_def)
qed

text \<open>A run in which a packet is recorded, a read fails, a probe is not authentic and a tap is attached.\<close>

definition keyed_agent :: rstate where
  "keyed_agent = (Responder_Props.demo_agent 0)\<lparr>r_hmacKey := [1]\<rparr>"

theorem metrics_exact_witness:
  "\<exists>rn ag1 rn' ag'. runStart demo_sys Watch.demo_agent demo_opts = (Inr rn, ag1) \<and>
     foldl run_step (rn, ag1) [TapOp (Scan demo_sys (\<lambda>ks. ks) [demo_port ''tap0''])] = (rn', ag') \<and>
     scrape (ht_body (serveMetrics (\<lambda>_. True) ''n1'' (cpu_stats (map cpu_run [(demo_maps, [(demo_benv, demo_skb demo_frame, 0)])]))
       (process_metrics (snd (readLoop (\<lambda>_. ''run'') (\<lambda>_. None) demo_reader [RingError]))
          (map (snd \<circ> looped (\<lambda>_. None)) [(keyed_agent, [RecvFrame demo_frame [] True])]) ag') ''/metrics'')) =
      [(''traceflow_observations_total'', 1), (''traceflow_ringbuf_drops_total'', 0), (''traceflow_parse_errors_total'', 0),
       (''traceflow_ringbuf_read_errors_total'', 1), (''traceflow_replies_sent_total'', 0), (''traceflow_auth_failures_total'', 1),
       (''traceflow_taps_watched'', 1), (''traceflow_vxlan_ifaces_watched'', 0), (''traceflow_up'', 1)]"
proof -
  let ?scan = "TapOp (Scan demo_sys (\<lambda>ks. ks) [demo_port ''tap0''])"
  have st: "case runStart demo_sys Watch.demo_agent demo_opts of (Inl e, ag1) \<Rightarrow> False
      | (Inr rn, ag1) \<Rightarrow> taps_attached (fst (run_step (rn, ag1) ?scan)) = 1 \<and> vx_attached (fst (run_step (rn, ag1) ?scan)) = 0"
    by code_simp
  then obtain rn ag1 where r: "runStart demo_sys Watch.demo_agent demo_opts = (Inr rn, ag1)" by (auto split: prod.splits sum.splits)
  obtain rn' ag' where r': "foldl run_step (rn, ag1) [?scan] = (rn', ag')" by fastforce
  have n: "taps_attached rn' = 1" "vx_attached rn' = 0" using st r r' by simp_all
  have m: "ag_mtr Watch.demo_agent = metrics0" "rd_mtr demo_reader = metrics0"
    by (simp_all add: Watch.demo_agent_def demo_reader_def)
  have c: "length (recorded demo_maps [(demo_benv, demo_skb demo_frame, 0)]) = 1"
    "overflowed demo_maps [(demo_benv, demo_skb demo_frame, 0)] = 0"
    "length (fst (looped (\<lambda>_. None) (keyed_agent, [RecvFrame demo_frame [] True]))) = 0"
    "length (filter (auth_rejected keyed_agent) (heard [RecvFrame demo_frame [] True])) = 1" by code_simp+
  have k: "mtr keyed_agent = metrics0" by (simp add: keyed_agent_def Responder_Props.demo_agent_def)
  show ?thesis
    using metrics_exact [OF r m(1) r' _ _ _ _ m(2), of "[RingError]" "[(keyed_agent, [RecvFrame demo_frame [] True])]" "\<lambda>_. None"
        "[(demo_maps, [(demo_benv, demo_skb demo_frame, 0)])]" "\<lambda>_. True" "''n1''" "\<lambda>_. ''run''" "\<lambda>_. None"] c k n r r'
    by (simp add: Let_def is_short_def is_error_def)
qed

end
