(* ===== verification/Flags.thy ===== *)
theory Flags
  imports Strconv
begin

text \<open>
  The standard library's package \<^verbatim>\<open>flag\<close> as the three programs use it: declared flags of four kinds, the
  reading of an argument list (\<^verbatim>\<open>FlagSet.Parse\<close>, exiting on error), and \<^verbatim>\<open>time.ParseDuration\<close>, which scales the
  fraction of a number in floating point; that product is the parameter \<open>fraction\<close>. The interface
  \<open>command_line\<close> states when a record of options can be written as arguments and read back.
\<close>

section \<open>time.ParseDuration\<close>

text \<open>\<^verbatim>\<open>leadingInt\<close>: the digits at the front of a text; no result when they exceed \<open>2\<^sup>6\<^sup>3\<close>.\<close>

fun leadingInt :: "nat \<Rightarrow> string \<Rightarrow> (nat \<times> string) option" where
  "leadingInt x [] = Some (x, [])"
| "leadingInt x (c # cs) =
     (if \<not> is_digit c then Some (x, c # cs)
      else if x > 2 ^ 63 div 10 then None
      else let x = x * 10 + (of_char c - 48) in
        if x > 2 ^ 63 then None else leadingInt x cs)"

text \<open>\<^verbatim>\<open>leadingFraction\<close>: the digits after the point and how many of them count; once the value is too large
  the remaining digits are dropped.\<close>

fun leadingFraction :: "nat \<Rightarrow> nat \<Rightarrow> string \<Rightarrow> nat \<times> nat \<times> string" where
  "leadingFraction x k [] = (x, k, [])"
| "leadingFraction x k (c # cs) =
     (if \<not> is_digit c then (x, k, c # cs)
      else if x > (2 ^ 63 - 1) div 10 then (x, k, dropWhile is_digit cs)
      else let y = x * 10 + (of_char c - 48) in
        if y > 2 ^ 63 then (x, k, dropWhile is_digit cs) else leadingFraction y (k + 1) cs)"

definition unitMap :: "(string \<times> nat) list" where
  "unitMap = [(''ns'', 1), (''us'', 1000), ([char_of (0xC2 :: nat), char_of (0xB5 :: nat), CHR ''s''], 1000),
     ([char_of (0xCE :: nat), char_of (0xBC :: nat), CHR ''s''], 1000), (''ms'', 1000000), (''s'', 1000000000),
     (''m'', 60 * 1000000000), (''h'', 3600 * 1000000000)]"

text \<open>One group of a duration, a number and its unit: its nanoseconds and the rest of the text.
  \<open>fraction f unit k\<close> is \<open>f \<cdot> (unit / 10\<^sup>k)\<close> as the floating-point unit computes it, cut to an integer.\<close>

definition duration_group :: "(nat \<Rightarrow> nat \<Rightarrow> nat \<Rightarrow> nat) \<Rightarrow> string \<Rightarrow> (nat \<times> string) option" where
  "duration_group fraction s =
     (if \<not> (hd s = CHR ''.'' \<or> is_digit (hd s)) then None
      else case leadingInt 0 s of
        None \<Rightarrow> None
      | Some (v, s1) \<Rightarrow>
          let point = (s1 \<noteq> [] \<and> hd s1 = CHR ''.'');
              (f, k, s2) = (if point then leadingFraction 0 0 (tl s1) else (0, 0, s1));
              u = takeWhile (\<lambda>c. \<not> (c = CHR ''.'' \<or> is_digit c)) s2
          in if length s1 = length s \<and> \<not> (point \<and> length s2 < length (tl s1)) then None
             else if u = [] then None
             else case map_of unitMap u of
               None \<Rightarrow> None
             | Some unit \<Rightarrow>
                 if v > 2 ^ 63 div unit then None
                 else let v = v * unit + (if f > 0 then fraction f unit k else 0) in
                   if v > 2 ^ 63 then None else Some (v, drop (length u) s2))"

text \<open>The loop over the groups; \<open>d\<close> is a 64-bit sum.\<close>

lemma leadingInt_length: "leadingInt x s = Some (v, s') \<Longrightarrow> length s' \<le> length s"
  by (induction x s rule: leadingInt.induct) (auto simp: Let_def split: if_splits)

lemma leadingFraction_length: "leadingFraction x k s = (f, k', s') \<Longrightarrow> length s' \<le> length s"
  by (induction x k s rule: leadingFraction.induct) (auto simp: Let_def length_dropWhile_le le_SucI split: if_splits)

lemma duration_group_length:
  assumes "duration_group fraction s = Some (v, s')"
  shows "length s' < length s"
proof (cases "leadingInt 0 s")
  case None
  then show ?thesis using assms by (simp add: duration_group_def split: if_splits)
next
  case (Some p)
  obtain w s1 where p: "p = (w, s1)" by (cases p)
  let ?point = "s1 \<noteq> [] \<and> hd s1 = CHR ''.''"
  obtain f k s2 where q: "(if ?point then leadingFraction 0 0 (tl s1) else (0, 0, s1)) = (f, k, s2)"
    by (metis prod_cases3)
  let ?u = "takeWhile (\<lambda>c. \<not> (c = CHR ''.'' \<or> is_digit c)) s2"
  have s2: "length s2 \<le> length s1"
    using q leadingFraction_length [of 0 0 "tl s1"] by (auto split: if_splits)
  have s1: "length s1 \<le> length s" using leadingInt_length Some p by simp
  from assms Some p q have "?u \<noteq> []" and s': "s' = drop (length ?u) s2"
    by (simp_all only: duration_group_def option.case prod.case Let_def split: if_splits option.splits) auto
  moreover have "length ?u \<le> length s2" by (rule length_takeWhile_le)
  ultimately show ?thesis using s1 s2 by (cases "?u") auto
qed

function duration_groups :: "(nat \<Rightarrow> nat \<Rightarrow> nat \<Rightarrow> nat) \<Rightarrow> nat \<Rightarrow> string \<Rightarrow> nat option" where
  "duration_groups fraction d s =
     (if s = [] then Some d
      else case duration_group fraction s of
        None \<Rightarrow> None
      | Some (v, s') \<Rightarrow>
          let d = (d + v) mod 2 ^ 64 in
          if d > 2 ^ 63 then None else duration_groups fraction d s')"
  by pat_completeness auto
termination
  by (relation "measure (\<lambda>(_, _, s). length s)") (auto dest: duration_group_length)

declare duration_groups.simps [simp del]

definition ParseDuration :: "(nat \<Rightarrow> nat \<Rightarrow> nat \<Rightarrow> nat) \<Rightarrow> string \<Rightarrow> int option" where
  "ParseDuration fraction s =
     (let neg = (s \<noteq> [] \<and> hd s = CHR ''-'');
          s = (if s \<noteq> [] \<and> (hd s = CHR ''-'' \<or> hd s = CHR ''+'') then tl s else s)
      in if s = ''0'' then Some 0
         else if s = [] then None
         else case duration_groups fraction 0 s of
           None \<Rightarrow> None
         | Some d \<Rightarrow> if neg then Some (- int d) else if d > 2 ^ 63 - 1 then None else Some (int d))"

section \<open>Flag sets\<close>

text \<open>A declared flag stores its value into the options of type \<open>'st\<close>.\<close>

datatype 'st flag_def =
    StringFlag "string \<Rightarrow> 'st \<Rightarrow> 'st"
  | IntFlag "int \<Rightarrow> 'st \<Rightarrow> 'st"
  | BoolFlag "bool \<Rightarrow> 'st \<Rightarrow> 'st"
  | DurationFlag "int \<Rightarrow> 'st \<Rightarrow> 'st"

datatype flag_error = ErrHelp | BadSyntax string | NotDefined string | NeedsArgument string | InvalidValue string string

fun set_flag :: "(nat \<Rightarrow> nat \<Rightarrow> nat \<Rightarrow> nat) \<Rightarrow> 'st flag_def \<Rightarrow> string \<Rightarrow> 'st \<Rightarrow> 'st option" where
  "set_flag fraction (StringFlag u) v st = Some (u v st)"
| "set_flag fraction (IntFlag u) v st = map_option (\<lambda>i. u i st) (ParseInt0 v)"
| "set_flag fraction (BoolFlag u) v st = map_option (\<lambda>b. u b st) (ParseBool v)"
| "set_flag fraction (DurationFlag u) v st = map_option (\<lambda>i. u i st) (ParseDuration fraction v)"

definition is_bool_flag :: "'st flag_def \<Rightarrow> bool" where
  "is_bool_flag d = (case d of BoolFlag _ \<Rightarrow> True | _ \<Rightarrow> False)"

text \<open>The options after the flags, and the arguments that are left: reading stops at the first argument
  that is not a flag, and after a double dash.\<close>

function parse_flags ::
  "(nat \<Rightarrow> nat \<Rightarrow> nat \<Rightarrow> nat) \<Rightarrow> (string \<times> 'st flag_def) list \<Rightarrow> 'st \<Rightarrow> string list \<Rightarrow> flag_error + 'st \<times> string list" where
  "parse_flags fraction formal st [] = Inr (st, [])"
| "parse_flags fraction formal st (s # rest) =
     (if length s < 2 \<or> hd s \<noteq> CHR ''-'' then Inr (st, s # rest)
      else if s = ''--'' then Inr (st, rest)
      else
        let name = drop (if s ! 1 = CHR ''-'' then 2 else 1) s in
        if name = [] \<or> hd name = CHR ''-'' \<or> hd name = CHR ''='' then Inl (BadSyntax s)
        else
          let hasValue = (CHR ''='' \<in> set name);
              value = tl (dropWhile (\<lambda>c. c \<noteq> CHR ''='') name);
              name = takeWhile (\<lambda>c. c \<noteq> CHR ''='') name
          in case map_of formal name of
               None \<Rightarrow> Inl (if name = ''help'' \<or> name = ''h'' then ErrHelp else NotDefined name)
             | Some d \<Rightarrow>
                 if hasValue \<or> is_bool_flag d then
                   let v = (if hasValue then value else ''true'') in
                   (case set_flag fraction d v st of
                      None \<Rightarrow> Inl (InvalidValue name v)
                    | Some st \<Rightarrow> parse_flags fraction formal st rest)
                 else
                   (case rest of
                      [] \<Rightarrow> Inl (NeedsArgument name)
                    | v # rest' \<Rightarrow>
                        (case set_flag fraction d v st of
                           None \<Rightarrow> Inl (InvalidValue name v)
                         | Some st \<Rightarrow> parse_flags fraction formal st rest')))"
  by pat_completeness auto
termination
  by (relation "measure (\<lambda>(_, _, _, args). length args)") auto

declare parse_flags.simps(2) [simp del]

text \<open>The process ends with this status when reading fails: 0 after printing the help text, 2 otherwise.\<close>

definition flag_exit :: "flag_error \<Rightarrow> nat" where
  "flag_exit e = (if e = ErrHelp then 0 else 2)"

section \<open>Durations read back\<close>

text \<open>A duration written in nanoseconds is read back.\<close>

definition duration_string :: "int \<Rightarrow> string" where
  "duration_string i = int_string i @ ''ns''"

lemma foldl_digits_ge: "(a :: nat) \<le> foldl (\<lambda>a c. 10 * a + digit_val c) a s"
proof (induction s arbitrary: a)
  case (Cons c s)
  then show ?case using le_trans [OF _ Cons.IH [of "10 * a + digit_val c"], of a] by simp
qed simp

lemma leadingInt_digits:
  assumes "\<And>c. c \<in> set s \<Longrightarrow> is_digit c" "foldl (\<lambda>a c. 10 * a + digit_val c) a s \<le> 2 ^ 63"
    and "r = [] \<or> \<not> is_digit (hd r)"
  shows "leadingInt a (s @ r) = Some (foldl (\<lambda>a c. 10 * a + digit_val c) a s, r)"
  using assms
proof (induction s arbitrary: a)
  case Nil
  then show ?case by (cases r) auto
next
  case (Cons c s)
  have d: "48 \<le> (of_char c :: nat)" "(of_char c :: nat) \<le> 57" using Cons.prems(1) [of c] by (simp_all add: is_digit_def)
  then have v: "digit_val c = of_char c - 48" by (simp add: digit_val_def Let_def)
  have le: "10 * a + digit_val c \<le> 2 ^ 63"
    using le_trans [OF foldl_digits_ge Cons.prems(2) [simplified foldl.simps]] .
  then have "a \<le> 2 ^ 63 div 10" by simp
  with le v Cons show ?case by (simp add: mult.commute [of a 10] Let_def)
qed

lemma ParseDuration_duration_string [simp]:
  assumes "- (2 ^ 63) \<le> i" "i < 2 ^ 63"
  shows "ParseDuration fraction (duration_string i) = Some i"
proof -
  let ?n = "nat \<bar>i\<bar>"
  have n: "?n \<le> 2 ^ 63" using assms by (simp add: abs_le_iff nat_le_iff)
  have "leadingInt 0 (dec_string ?n @ ''ns'') = Some (?n, ''ns'')"
    using leadingInt_digits [of "dec_string ?n" 0 "''ns''"] dec_string_digits [of _ ?n] n dec_val [of ?n]
    by (auto simp: num_val_def is_digit_def)
  moreover have "is_digit (hd (dec_string ?n))" by (rule dec_string_digits [of _ ?n]) simp
  ultimately have "duration_group fraction (dec_string ?n @ ''ns'') = Some (?n, [])"
    using n by (simp add: duration_group_def unitMap_def is_digit_def [of "CHR ''n''"] is_digit_def [of "CHR ''s''"])
  then have g: "duration_groups fraction 0 (dec_string ?n @ ''ns'') = Some ?n"
    using n by (simp add: duration_groups.simps [of _ _ "dec_string _ @ _"] duration_groups.simps [of _ _ "[]"])
  have z: "dec_string ?n @ ''ns'' \<noteq> ''0''" by (cases "dec_string ?n") auto
  show ?thesis
    using assms g z by (auto simp: ParseDuration_def duration_string_def int_string_def dec_string_sign Let_def)
qed

section \<open>Options as arguments\<close>

text \<open>A flag with its value as one word, and when a name can stand there.\<close>

definition flag_word :: "string \<times> string \<Rightarrow> string" where
  "flag_word = (\<lambda>(n, t). ''--'' @ n @ ''='' @ t)"

definition flag_name :: "string \<Rightarrow> bool" where
  "flag_name n \<longleftrightarrow> n \<noteq> [] \<and> hd n \<noteq> CHR ''-'' \<and> CHR ''='' \<notin> set n"

text \<open>The options after a list of settings.\<close>

fun apply_settings ::
  "(nat \<Rightarrow> nat \<Rightarrow> nat \<Rightarrow> nat) \<Rightarrow> (string \<times> 'st flag_def) list \<Rightarrow> 'st \<Rightarrow> (string \<times> string) list \<Rightarrow> 'st option" where
  "apply_settings fraction formal st [] = Some st"
| "apply_settings fraction formal st ((n, t) # ss) =
     (case map_of formal n of
        None \<Rightarrow> None
      | Some d \<Rightarrow> (case set_flag fraction d t st of None \<Rightarrow> None | Some st \<Rightarrow> apply_settings fraction formal st ss))"

definition positional :: "string list \<Rightarrow> bool" where
  "positional ws \<longleftrightarrow> ws = [] \<or> hd (hd ws) \<noteq> CHR ''-'' \<or> length (hd ws) < 2"

lemma parse_flag_word:
  assumes "flag_name n"
  shows "parse_flags fraction formal st (flag_word (n, t) # rest) =
    (case map_of formal n of
       None \<Rightarrow> Inl (if n = ''help'' \<or> n = ''h'' then ErrHelp else NotDefined n)
     | Some d \<Rightarrow> (case set_flag fraction d t st of
         None \<Rightarrow> Inl (InvalidValue n t)
       | Some st \<Rightarrow> parse_flags fraction formal st rest))"
proof -
  let ?nt = "n @ ''='' @ t"
  have n: "n \<noteq> []" "hd n \<noteq> CHR ''-''" "CHR ''='' \<notin> set n"
    using assms by (simp_all add: flag_name_def)
  moreover have "hd n \<noteq> CHR ''=''" using hd_in_set [OF n(1)] n(3) by metis
  ultimately have n: "n \<noteq> []" "hd n \<noteq> CHR ''-''" "CHR ''='' \<notin> set n" "hd n \<noteq> CHR ''=''" by simp_all
  then have "takeWhile (\<lambda>c. c \<noteq> CHR ''='') ?nt = n" "dropWhile (\<lambda>c. c \<noteq> CHR ''='') ?nt = ''='' @ t"
    by (auto simp: takeWhile_append2 dropWhile_append2 takeWhile_append dropWhile_append)
  with n show ?thesis
    by (simp add: flag_word_def parse_flags.simps(2) Let_def split: option.split)
qed

lemma parse_settings:
  assumes "\<And>n t. (n, t) \<in> set ss \<Longrightarrow> flag_name n" "apply_settings fraction formal st ss = Some x"
  shows "parse_flags fraction formal st (map flag_word ss @ rest) = parse_flags fraction formal x rest"
  using assms
proof (induction ss arbitrary: st)
  case (Cons s ss)
  obtain n t where s: "s = (n, t)" by (cases s)
  have n: "flag_name n" using Cons.prems(1) [of n t] s by simp
  obtain d y where d: "map_of formal n = Some d" "set_flag fraction d t st = Some y" "apply_settings fraction formal y ss = Some x"
    using Cons.prems(2) by (auto simp: s split: option.splits)
  have "parse_flags fraction formal y (map flag_word ss @ rest) = parse_flags fraction formal x rest"
    by (rule Cons.IH [OF _ d(3)]) (rule Cons.prems(1), erule list.set_intros(2))
  then show ?case by (simp add: s parse_flag_word [OF n] d)
qed simp

text \<open>What a program's flag set promises: the options of every well-formed record can be written as
  settings, and the settings, applied to the defaults, give the record.\<close>

locale command_line =
  fixes fraction :: "nat \<Rightarrow> nat \<Rightarrow> nat \<Rightarrow> nat"
    and formal :: "(string \<times> 'st flag_def) list"
    and init :: 'st
    and settings :: "'st \<Rightarrow> (string \<times> string) list"
    and wf :: "'st \<Rightarrow> bool"
  assumes names: "n \<in> fst ` set formal \<Longrightarrow> flag_name n"
    and declared: "(n, t) \<in> set (settings x) \<Longrightarrow> n \<in> fst ` set formal"
    and settings: "wf x \<Longrightarrow> apply_settings fraction formal init (settings x) = Some x"
begin

lemma settings_read:
  "wf x \<Longrightarrow> parse_flags fraction formal init (map flag_word (settings x) @ rest) = parse_flags fraction formal x rest"
  by (rule parse_settings) (auto intro: names declared settings)

text \<open>Reading stops at the first word that is no flag, and leaves it.\<close>

lemma roundtrip:
  "wf x \<Longrightarrow> positional ws \<Longrightarrow> parse_flags fraction formal init (map flag_word (settings x) @ ws) = Inr (x, ws)"
  using settings_read [of x ws] by (cases ws) (auto simp: positional_def parse_flags.simps(2))

text \<open>A flag that is not declared is refused, whatever was read before it.\<close>

lemma undeclared:
  assumes "wf x" "flag_name n" "n \<notin> fst ` set formal" "n \<noteq> ''help''" "n \<noteq> ''h''"
  shows "parse_flags fraction formal init (map flag_word (settings x) @ flag_word (n, t) # rest) = Inl (NotDefined n)"
proof -
  have "map_of formal n = None" using assms(3) by (simp add: map_of_eq_None_iff)
  then show ?thesis using assms by (simp add: settings_read parse_flag_word)
qed

text \<open>A later setting of a flag replaces an earlier one, and a value the flag cannot take ends the program.\<close>

lemma overridden:
  assumes "wf x" "map_of formal n = Some d"
  shows "parse_flags fraction formal init (map flag_word (settings x) @ flag_word (n, t) # rest) =
    (case set_flag fraction d t x of
       None \<Rightarrow> Inl (InvalidValue n t)
     | Some y \<Rightarrow> parse_flags fraction formal y rest)"
proof -
  have "flag_name n" using names map_of_SomeD [OF assms(2)] by force
  then show ?thesis using assms by (simp add: settings_read parse_flag_word)
qed

end

end
