(* ===== verification/As_Vm.thy ===== *)
theory As_Vm
  imports End_To_End Ovs
begin

text \<open>
  The client's entry point (\<^verbatim>\<open>client/main.go\<close>): the choice of the sub-command and the option \<^verbatim>\<open>--as-vm\<close>, which
  takes the source addresses of a probe from the OVS port named by \<^verbatim>\<open>--iface\<close>. The flags are the argument
  here; theory \<open>Command_Line\<close> reads them from the argument list.
\<close>

section \<open>Sending as a VM\<close>

datatype client_exit = Usage | AsVMNeedsIface | AsVMLookup ovs_error | AsVMUnresolved string string string | Fatal fatal

text \<open>The loop over the port's addresses takes the first of the family of the destination.\<close>

definition sourceFor :: "flags \<Rightarrow> Port \<Rightarrow> fatal + flags" where
  "sourceFor f port =
     (if f_src f \<noteq> [] then Inr f
      else case mustIP (f_dst f) of
        Inl x \<Rightarrow> Inl x
      | Inr dst \<Rightarrow>
          let wantV6 = isV6 dst in
          Inr (case List.find (\<lambda>ip. isV6 ip = wantV6) (p_IPs port) of
                 None \<Rightarrow> f
               | Some ip \<Rightarrow> f\<lparr>f_src := ip_string ip\<rparr>))"

definition applyAsVM :: "(string list \<Rightarrow> string option) \<Rightarrow> flags \<Rightarrow> (client_exit + flags) go" where
  "applyAsVM runCmd f =
     (if \<not> f_asVM f then Some (Inr f)
      else if f_iface f = [] then Some (Inl AsVMNeedsIface)
      else do {
        r \<leftarrow> LookupPort runCmd (f_iface f);
        case r of Inl err \<Rightarrow> Some (Inl (AsVMLookup err))
        | Inr port \<Rightarrow>
            let f = (if f_srcMAC f = [] then f\<lparr>f_srcMAC := p_MAC port\<rparr> else f) in
            Some (case sourceFor f port of
                    Inl x \<Rightarrow> Inl (Fatal x)
                  | Inr f \<Rightarrow>
                      if f_src f = [] \<or> f_srcMAC f = [] then Inl (AsVMUnresolved (f_src f) (f_srcMAC f) (f_iface f))
                      else Inr f) })"

section \<open>The entry point\<close>

definition one_reply :: "outcome \<Rightarrow> (client_exit + sent list \<times> capture list) go" where
  "one_reply r = do {
     x \<leftarrow> r;
     Some (case x of Inl e \<Rightarrow> Inl (Fatal e) | Inr (s, c) \<Rightarrow> Inr (s, case c of None \<Rightarrow> [] | Some cap \<Rightarrow> [cap])) }"

definition all_replies :: "(fatal + sent list \<times> capture list) go \<Rightarrow> (client_exit + sent list \<times> capture list) go" where
  "all_replies r = do { x \<leftarrow> r; Some (case x of Inl e \<Rightarrow> Inl (Fatal e) | Inr sc \<Rightarrow> Inr sc) }"

text \<open>\<open>f\<close> are the flags as parsed; \<open>evs1\<close> to \<open>evs3\<close> what the sniffer delivers in the waits of the
  sub-command.\<close>

definition client_main ::
  "(string list \<Rightarrow> string option) \<Rightarrow> env \<Rightarrow> string \<Rightarrow> flags \<Rightarrow> sniff list \<Rightarrow> sniff list \<Rightarrow> sniff list \<Rightarrow>
     (client_exit + sent list \<times> capture list) go" where
  "client_main runCmd e cmd f evs1 evs2 evs3 =
     (if f_dst f = [] then Some (Inl Usage)
      else do {
        a \<leftarrow> applyAsVM runCmd f;
        case a of Inl x \<Rightarrow> Some (Inl x)
        | Inr f \<Rightarrow>
            if cmd = ''icmp'' then one_reply (runICMP e f evs1)
            else if cmd = ''udp'' then one_reply (runUDP e f evs1)
            else if cmd = ''htcp'' then all_replies (runTCP e f False evs1 evs2 evs3)
            else if cmd = ''tcp'' then all_replies (runTCP e f True evs1 evs2 evs3)
            else if cmd = ''vxlan'' then one_reply (runVXLAN e f evs1)
            else Some (Inl Usage) })"

section \<open>Properties\<close>

lemma ParseNBAddresses_lengths:
  assumes "ParseNBAddresses data = Some (Some ips)" "ip \<in> set ips"
  shows "length ip = 16"
proof -
  have entry: "length x = 16" if "x \<in> set (entryIPs t)" for x t
    using that ParseIP_length by (auto simp: entryIPs_def List.map_filter_def)
  from assms obtain t where "ip \<in> set (entryIPs t)" by (auto simp: ParseNBAddresses_eq Let_def split: if_splits)
  then show ?thesis by (rule entry)
qed

lemma LookupPort_lengths:
  assumes "LookupPort runCmd name = Some (Inr port)" "ip \<in> set (p_IPs port)"
  shows "length ip = 16"
proof -
  obtain i where r: "resolveIPs runCmd i = Some (p_IPs port)"
    using assms(1) by (auto simp: LookupPort_def portOf_def split: option.splits list.splits bind_splits)
  then obtain data ips where "ParseNBAddresses data = Some (Some ips)" "ip \<in> set ips"
    using assms(2) by (auto simp: resolveIPs_def split: if_splits option.splits bind_splits)
  then show ?thesis by (rule ParseNBAddresses_lengths)
qed

text \<open>The addresses a probe is sent with: explicit options first, then what OVS says of the port.\<close>

definition vm_mac :: "flags \<Rightarrow> Port \<Rightarrow> string" where
  "vm_mac f port = (if f_srcMAC f \<noteq> [] then f_srcMAC f else p_MAC port)"

definition vm_src :: "flags \<Rightarrow> Port \<Rightarrow> bytes \<Rightarrow> bytes option" where
  "vm_src f port dst =
     (if f_src f \<noteq> [] then Some (case ParseIP (f_src f) of None \<Rightarrow> [] | Some ip \<Rightarrow> ip)
      else List.find (\<lambda>ip. isV6 ip = isV6 dst) (p_IPs port))"

lemma applyAsVM_port:
  assumes "f_asVM f" "f_iface f \<noteq> []" "vm_mac f port \<noteq> []"
    and "LookupPort runCmd (f_iface f) = Some (Inr port)" "ParseIP (f_dst f) = Some dst"
  shows "\<exists>t. applyAsVM runCmd f = Some (case vm_src f port dst of
      None \<Rightarrow> Inl (AsVMUnresolved [] (vm_mac f port) (f_iface f))
    | Some ip \<Rightarrow> Inr (f\<lparr>f_srcMAC := vm_mac f port, f_src := t\<rparr>)) \<and>
    (\<forall>ip. vm_src f port dst = Some ip \<longrightarrow> srcIP e (f\<lparr>f_srcMAC := vm_mac f port, f_src := t\<rparr>) dst = Inr ip)"
proof (cases "f_src f = []")
  case False
  have "f\<lparr>f_srcMAC := vm_mac f port, f_src := f_src f\<rparr> = (if f_srcMAC f = [] then f\<lparr>f_srcMAC := p_MAC port\<rparr> else f)"
    by (simp add: vm_mac_def)
  then show ?thesis using assms False
    by (intro exI [of _ "f_src f"]) (simp add: applyAsVM_def sourceFor_def vm_src_def vm_mac_def srcIP_def Let_def split: if_splits)
next
  case True
  show ?thesis
  proof (cases "List.find (\<lambda>ip. isV6 ip = isV6 dst) (p_IPs port)")
    case None
    then show ?thesis using assms True
      by (simp add: applyAsVM_def sourceFor_def mustIP_def vm_src_def vm_mac_def Let_def split: if_splits)
  next
    case (Some ip)
    then have "length ip = 16" using LookupPort_lengths [OF assms(4)] by (auto simp: find_Some_iff)
    then have ip: "ip_string ip \<noteq> []" "ParseIP (ip_string ip) = Some ip"
      using ip_string_plain [of ip] ParseIP_ip_string [of ip] by auto
    have "f\<lparr>f_srcMAC := vm_mac f port, f_src := t\<rparr> = (if f_srcMAC f = [] then f\<lparr>f_srcMAC := p_MAC port\<rparr> else f)\<lparr>f_src := t\<rparr>" for t
      by (simp add: vm_mac_def)
    then show ?thesis using assms True Some ip
      by (intro exI [of _ "ip_string ip"])
        (simp add: applyAsVM_def sourceFor_def mustIP_def vm_src_def vm_mac_def srcIP_def Let_def split: if_splits)
  qed
qed

text \<open>A frame on the interface of the flags, with the given source addresses, to the given destination.\<close>

definition from_to :: "bytes \<Rightarrow> bytes \<Rightarrow> bytes \<Rightarrow> bool" where
  "from_to src dst l3 \<longleftrightarrow>
     (\<exists>tos proto l4. l3 = (if isV6 dst then IPv6 tos TTLMax proto src dst l4 else IPv4 tos TTLMax proto src dst l4))"

definition sent_as :: "env \<Rightarrow> flags \<Rightarrow> string \<Rightarrow> bytes \<Rightarrow> bytes \<Rightarrow> sent \<Rightarrow> bool" where
  "sent_as e f macText src dst s \<longleftrightarrow>
     (\<exists>idx hw dmac mac l3.
        ifByName e (f_iface f) = Some (idx, hw) \<and> ParseMAC (f_dstMAC f) = Some dmac \<and> ParseMAC macText = Some mac \<and>
        from_to src dst l3 \<and>
        s = Frame idx
          (let et = (if isV6 dst then EtherTypeIPv6 else EtherTypeIPv4)
           in if 0 < f_vlan f then EthernetVLAN dmac mac (of_int (f_vlan f)) et l3 else Ethernet dmac mac et l3))"

lemma sendL2_as: "sendL2 e f l3 (isV6 dst) = Inr s \<Longrightarrow> f_srcMAC f \<noteq> [] \<Longrightarrow> from_to src dst l3 \<Longrightarrow> sent_as e f (f_srcMAC f) src dst s"
  unfolding sent_as_def by (auto simp: sendL2_def Let_def split: option.splits if_splits)

lemma sendL2_port: "sendL2 e (f\<lparr>f_dport := d\<rparr>) l3 v6 = sendL2 e f l3 v6"
  by (cases f) (hypsubst, unfold sendL2_def flags.select_convs flags.update_convs, rule refl)

lemma from_to_built:
  "from_to src dst (fst (icmpL3 src dst i n p))" "from_to src dst (fst (udpL3 src dst sp dp p))"
  "from_to src dst (tcpL3 src dst sp dp sq ak fl p)"
  "from_to src dst (if isV6 dst then IPv6 tos TTLMax q src dst a else IPv4 tos TTLMax q src dst b)"
  by (cases "isV6 dst"; simp add: icmpL3_def udpL3_def tcpL3_def from_to_def; blast)+

lemma l3_family: "snd (icmpL3 src dst i n p) = isV6 dst" "snd (udpL3 src dst sp dp p) = isV6 dst"
  by (simp_all add: icmpL3_def udpL3_def)

lemma await_total: "\<exists>c. await f i mt evs s = Some (Inr ([s], c))"
  by (simp add: await_def recvMatch_eq)

text \<open>What the environment has to answer for anything to be sent.\<close>

definition can_send :: "env \<Rightarrow> flags \<Rightarrow> string \<Rightarrow> bool" where
  "can_send e f macText \<longleftrightarrow> ifByName e (f_iface f) \<noteq> None \<and> f_dstMAC f \<noteq> [] \<and> ParseMAC (f_dstMAC f) \<noteq> None \<and>
     ParseMAC macText \<noteq> None \<and> sniffOK e \<and> sendOK e"

text \<open>The flags as \<^verbatim>\<open>--as-vm\<close> leaves them; what each sub-command sends with them, and that it sends.\<close>

definition vm_flags :: "env \<Rightarrow> flags \<Rightarrow> bytes \<Rightarrow> bytes \<Rightarrow> bool" where
  "vm_flags e f src dst \<longleftrightarrow> f_iface f \<noteq> [] \<and> f_srcMAC f \<noteq> [] \<and> ParseIP (f_dst f) = Some dst \<and> srcIP e f dst = Inr src"

lemma vm_flagsD:
  assumes "vm_flags e f src dst"
  shows "f_iface f \<noteq> []" "f_srcMAC f \<noteq> []" "ParseIP (f_dst f) = Some dst" "srcIP e f dst = Inr src"
  using assms by (simp_all add: vm_flags_def)

lemma emit_as:
  assumes vm: "vm_flags e f src dst" and "emit e (f\<lparr>f_dport := d\<rparr>) a l3 (isV6 dst) = Inr s" "from_to src dst l3"
  shows "sent_as e f (f_srcMAC f) src dst s"
proof -
  have "emit e (f\<lparr>f_dport := d\<rparr>) a l3 (isV6 dst) = sendL2 e f l3 (isV6 dst)" using vm_flagsD(1) [OF vm] by (simp add: emit_def sendL2_port)
  then show ?thesis using sendL2_as [OF _ vm_flagsD(2) [OF vm] assms(3)] assms(2) by simp
qed

lemma emit_ok:
  assumes "vm_flags e f src dst" "can_send e f (f_srcMAC f)"
  shows "\<exists>s. emit e (f\<lparr>f_dport := d\<rparr>) a l3 (isV6 dst) = Inr s"
  using vm_flagsD(1,2) [OF assms(1)] assms(2) by (auto simp: emit_def sendL2_port) (auto simp: sendL2_def can_send_def Let_def)

lemma port_id: "f\<lparr>f_dport := f_dport f\<rparr> = f" for f :: flags
  by simp

text \<open>The end that three sub-commands share: start the sniffer, send one packet, wait if asked to.\<close>

lemma one_probe:
  assumes vm: "vm_flags e f src dst"
    and "bindE (startSniffer e) (\<lambda>sn. bindE (emit e (f\<lparr>f_dport := d\<rparr>) a l3 (isV6 dst)) (await g i m evs)) = Some (Inr (ss, c))"
    and "from_to src dst l3"
  shows "ss \<noteq> [] \<and> (\<forall>s \<in> set ss. sent_as e f (f_srcMAC f) src dst s)"
proof -
  obtain s where s: "emit e (f\<lparr>f_dport := d\<rparr>) a l3 (isV6 dst) = Inr s" "await g i m evs s = Some (Inr (ss, c))"
    using assms(2) by (auto elim!: bindE_InrE)
  then have "ss = [s]" using await_total [of g i m evs s] by auto
  then show ?thesis using emit_as [OF vm s(1) assms(3)] by simp
qed

lemma one_probe_ok:
  assumes "vm_flags e f src dst" "can_send e f (f_srcMAC f)"
  shows "\<exists>ss c. bindE (startSniffer e) (\<lambda>sn. bindE (emit e (f\<lparr>f_dport := d\<rparr>) a l3 (isV6 dst)) (await g i m evs)) = Some (Inr (ss, c))"
proof -
  obtain s where "emit e (f\<lparr>f_dport := d\<rparr>) a l3 (isV6 dst) = Inr s" using emit_ok [OF assms] by blast
  moreover obtain c where "await g i m evs s = Some (Inr ([s], c))" using await_total by blast
  ultimately show ?thesis using assms(2) by (simp add: startSniffer_def can_send_def)
qed

lemma runICMP_as:
  assumes vm: "vm_flags e f src dst"
  shows "runICMP e f evs = Some (Inr (ss, c)) \<Longrightarrow> ss \<noteq> [] \<and> (\<forall>s \<in> set ss. sent_as e f (f_srcMAC f) src dst s)"
  "can_send e f (f_srcMAC f) \<Longrightarrow> \<exists>ss c. runICMP e f evs = Some (Inr (ss, c))"
proof -
  note dst = vm_flagsD(3) [OF vm] and src = vm_flagsD(4) [OF vm]
  let ?l3 = "fst (icmpL3 src dst 0x1234 1 (payload f (fst (newMeta e f))))"
  have r: "runICMP e f evs = bindE (startSniffer e) (\<lambda>sn. bindE (emit e f dst ?l3 (isV6 dst)) (await f (snd (newMeta e f)) isEchoReply evs))"
    by (simp add: runICMP_def mustIP_def dst src split_def l3_family Let_def)
  show "runICMP e f evs = Some (Inr (ss, c)) \<Longrightarrow> ss \<noteq> [] \<and> (\<forall>s \<in> set ss. sent_as e f (f_srcMAC f) src dst s)"
    unfolding r using one_probe [OF vm, of "f_dport f", unfolded port_id] from_to_built(1) by blast
  show "can_send e f (f_srcMAC f) \<Longrightarrow> \<exists>ss c. runICMP e f evs = Some (Inr (ss, c))"
    unfolding r using one_probe_ok [OF vm, of "f_dport f", unfolded port_id] by blast
qed

lemma runUDP_as:
  assumes vm: "vm_flags e f src dst"
  shows "runUDP e f evs = Some (Inr (ss, c)) \<Longrightarrow> ss \<noteq> [] \<and> (\<forall>s \<in> set ss. sent_as e f (f_srcMAC f) src dst s)"
  "can_send e f (f_srcMAC f) \<Longrightarrow> \<exists>ss c. runUDP e f evs = Some (Inr (ss, c))"
proof -
  note dst = vm_flagsD(3) [OF vm] and src = vm_flagsD(4) [OF vm]
  let ?d = "if f_dport f = 0 then 7 else f_dport f"
  let ?f = "f\<lparr>f_dport := ?d\<rparr>" and ?m = "\<lambda>c. c_proto c = ProtoUDP \<and> c_dstPort c = of_int (f_sport f)"
  let ?l3 = "fst (udpL3 src dst (of_int (f_sport f)) (of_int ?d) (payload f (fst (newMeta e f))))"
  have same: "payload ?f = payload f" "newMeta e ?f = newMeta e f" "srcIP e ?f = srcIP e f"
    by (simp_all add: payload_def newMeta_def srcIP_def fun_eq_iff)
  have r: "runUDP e f evs = bindE (startSniffer e) (\<lambda>sn. bindE (emit e ?f dst ?l3 (isV6 dst)) (await ?f (snd (newMeta e f)) ?m evs))"
    using same by (cases "f_dport f = 0") (simp_all add: runUDP_def mustIP_def dst src split_def l3_family Let_def)
  show "runUDP e f evs = Some (Inr (ss, c)) \<Longrightarrow> ss \<noteq> [] \<and> (\<forall>s \<in> set ss. sent_as e f (f_srcMAC f) src dst s)"
    unfolding r using one_probe [OF vm] from_to_built(2) by blast
  show "can_send e f (f_srcMAC f) \<Longrightarrow> \<exists>ss c. runUDP e f evs = Some (Inr (ss, c))"
    unfolding r using one_probe_ok [OF vm] by blast
qed

lemma runVXLAN_as:
  assumes vm: "vm_flags e f src dst"
  shows "runVXLAN e f evs = Some (Inr (ss, c)) \<Longrightarrow> ss \<noteq> [] \<and> (\<forall>s \<in> set ss. sent_as e f (f_srcMAC f) src dst s)"
  "can_send e f (f_srcMAC f) \<Longrightarrow> f_vni f \<noteq> 0 \<and> f_innerSrc f \<noteq> [] \<and> f_innerDst f \<noteq> [] \<and>
     ParseIP (f_innerSrc f) \<noteq> None \<and> ParseIP (f_innerDst f) \<noteq> None \<Longrightarrow> \<exists>ss c. runVXLAN e f evs = Some (Inr (ss, c))"
proof -
  note dst = vm_flagsD(3) [OF vm] and src = vm_flagsD(4) [OF vm]
  let ?m = "\<lambda>c. c_vni c = of_int (f_vni f) \<and> isEchoReply c"
  let ?seg = "\<lambda>a b. VXLAN (of_int (f_vni f)) (Ethernet dummyMAC dummyMAC (if snd (icmpL3 a b 0x1234 1 (payload f (fst (newMeta e f)))) then EtherTypeIPv6 else EtherTypeIPv4)
      (fst (icmpL3 a b 0x1234 1 (payload f (fst (newMeta e f))))))"
  let ?l3 = "\<lambda>a b. if isV6 dst then IPv6 0 TTLMax ProtoUDP src dst (UDP6 src dst (of_int (f_sport f)) VXLANPort (?seg a b))
      else IPv4 0 TTLMax ProtoUDP src dst (UDP src dst (of_int (f_sport f)) VXLANPort (?seg a b))"
  let ?rest = "\<lambda>a b. bindE (startSniffer e) (\<lambda>sn. bindE (emit e f dst (?l3 a b) (isV6 dst)) (await f (snd (newMeta e f)) ?m evs))"
  have r: "runVXLAN e f evs = (if f_innerSrc f = [] \<or> f_innerDst f = [] \<or> f_vni f = 0 then Some (Inl NeedVXLANFlags)
      else bindE (mustIP (f_innerSrc f)) (\<lambda>a. bindE (mustIP (f_innerDst f)) (?rest a)))"
    by (simp add: runVXLAN_def mustIP_def [of "f_dst f"] dst src split_def Let_def)
  show "ss \<noteq> [] \<and> (\<forall>s \<in> set ss. sent_as e f (f_srcMAC f) src dst s)" if h: "runVXLAN e f evs = Some (Inr (ss, c))"
  proof (cases "f_innerSrc f = [] \<or> f_innerDst f = [] \<or> f_vni f = 0")
    case True
    with h show ?thesis by (simp add: r)
  next
    case False
    with h have "bindE (mustIP (f_innerSrc f)) (\<lambda>a. bindE (mustIP (f_innerDst f)) (?rest a)) = Some (Inr (ss, c))"
      unfolding r by (simp only: if_False)
    then obtain a where "bindE (mustIP (f_innerDst f)) (?rest a) = Some (Inr (ss, c))" by (rule bindE_InrE)
    then obtain b where "?rest a b = Some (Inr (ss, c))" by (rule bindE_InrE)
    then show ?thesis by (rule one_probe [OF vm, of "f_dport f", unfolded port_id]) (rule from_to_built(4))
  qed
  show "\<exists>ss c. runVXLAN e f evs = Some (Inr (ss, c))" if c: "can_send e f (f_srcMAC f)" and
    i: "f_vni f \<noteq> 0 \<and> f_innerSrc f \<noteq> [] \<and> f_innerDst f \<noteq> [] \<and> ParseIP (f_innerSrc f) \<noteq> None \<and> ParseIP (f_innerDst f) \<noteq> None"
  proof -
    obtain a b where "mustIP (f_innerSrc f) = Inr a" "mustIP (f_innerDst f) = Inr b" using i by (auto simp: mustIP_def)
    then show ?thesis
      unfolding r using i one_probe_ok [OF vm c, of "f_dport f", unfolded port_id] by (simp only: simp_thms if_False bindE_Inr)
  qed
qed

lemma runTCP_as:
  assumes vm: "vm_flags e f src dst"
  shows "runTCP e f d evs1 evs2 evs3 = Some (Inr (ss, cs)) \<Longrightarrow> ss \<noteq> [] \<and> (\<forall>s \<in> set ss. sent_as e f (f_srcMAC f) src dst s)"
  "can_send e f (f_srcMAC f) \<Longrightarrow> \<exists>ss cs. runTCP e f d evs1 evs2 evs3 = Some (Inr (ss, cs))"
proof -
  note dst = vm_flagsD(3) [OF vm] and src = vm_flagsD(4) [OF vm]
  define g where "g = (if f_dport f = 0 then f\<lparr>f_dport := 80\<rparr> else f)"
  have em: "emit e g a l3 (isV6 dst) = emit e (f\<lparr>f_dport := if f_dport f = 0 then 80 else f_dport f\<rparr>) a l3 (isV6 dst)" for a l3
    by (simp add: g_def)
  have as: "sent_as e f (f_srcMAC f) src dst s" if "emit e g dst (tcpL3 src dst sp dp sq ak fl p) (isV6 dst) = Inr s" for sp dp sq ak fl p s
    using emit_as [OF vm that [unfolded em] from_to_built(3)] .
  have g: "srcIP e g dst = Inr src" "mustIP (f_dst g) = Inr dst"
    using src dst by (auto simp: g_def srcIP_def mustIP_def split: if_splits)
  show "runTCP e f d evs1 evs2 evs3 = Some (Inr (ss, cs)) \<Longrightarrow> ss \<noteq> [] \<and> (\<forall>s \<in> set ss. sent_as e f (f_srcMAC f) src dst s)"
    unfolding runTCP_def g_def [symmetric]
    by (auto simp: g split_def Let_def split: if_splits option.splits bind_splits elim!: bindE_InrE dest!: as)
  show "\<exists>ss cs. runTCP e f d evs1 evs2 evs3 = Some (Inr (ss, cs))" if c: "can_send e f (f_srcMAC f)"
  proof -
    define E where "E = (\<lambda>l3. case emit e g dst l3 (isV6 dst) of Inr s \<Rightarrow> s | Inl x \<Rightarrow> Packet [] [])"
    have ok: "emit e g dst l3 (isV6 dst) = Inr (E l3)" for l3
      using emit_ok [OF vm c, of "if f_dport f = 0 then 80 else f_dport f" dst l3] by (auto simp: em E_def)
    have sn: "startSniffer e = Inr ()" using c by (simp add: startSniffer_def can_send_def)
    show ?thesis
      unfolding runTCP_def g_def [symmetric] by (simp add: g sn ok split_def Let_def recvMatch_eq split: list.split)
  qed
qed

lemma one_reply_InrD: "one_reply r = Some (Inr (ss, cs)) \<Longrightarrow> \<exists>c. r = Some (Inr (ss, c))"
  by (auto simp: one_reply_def split: bind_splits sum.splits)

lemma all_replies_InrD: "all_replies r = Some (Inr y) \<Longrightarrow> r = Some (Inr y)"
  by (auto simp: all_replies_def split: bind_splits sum.splits)

lemma replies_Inr:
  "\<exists>ss c. r = Some (Inr (ss, c)) \<Longrightarrow> \<exists>ss cs. one_reply r = Some (Inr (ss, cs))"
  "\<exists>ss cs. q = Some (Inr (ss, cs)) \<Longrightarrow> \<exists>ss cs. all_replies q = Some (Inr (ss, cs))"
  by (auto simp: one_reply_def all_replies_def)

text \<open>
  C27: Whatever the sub-command, a run with \<^verbatim>\<open>--as-vm\<close> sends only frames with the VM's addresses. Let OVS know the port named by
  \<^verbatim>\<open>--iface\<close>. The source MAC address is that of \<^verbatim>\<open>--src-mac\<close> when given, otherwise the one OVS records for the
  port; the source IP address is that of \<^verbatim>\<open>--src\<close> when given (as far as it parses), otherwise the
  first of the port's addresses that has the family of the destination. When there is neither, the run ends with an
  error and sends nothing. Otherwise all frames of a successful run, of icmp, udp, htcp, tcp and vxlan (there the outer
  packet), tagged or not, leave on the tap with these addresses and the given destination, and at least one leaves; and the run
  is successful when the tap exists, the MAC addresses parse, the sockets work and, for vxlan, the inner addresses and the VNI are given.
\<close>

theorem as_vm_source:
  assumes "f_asVM f" "f_iface f \<noteq> []" "f_dst f \<noteq> []" "ParseIP (f_dst f) = Some dst" "vm_mac f port \<noteq> []"
    and "LookupPort runCmd (f_iface f) = Some (Inr port)" "cmd \<in> {''icmp'', ''udp'', ''htcp'', ''tcp'', ''vxlan''}"
  shows "case vm_src f port dst of
      None \<Rightarrow> client_main runCmd e cmd f evs1 evs2 evs3 = Some (Inl (AsVMUnresolved [] (vm_mac f port) (f_iface f)))
    | Some src \<Rightarrow>
        (\<forall>ss cs. client_main runCmd e cmd f evs1 evs2 evs3 = Some (Inr (ss, cs)) \<longrightarrow>
           ss \<noteq> [] \<and> (\<forall>s \<in> set ss. sent_as e f (vm_mac f port) src dst s)) \<and>
        (can_send e f (vm_mac f port) \<and>
         (cmd = ''vxlan'' \<longrightarrow> f_vni f \<noteq> 0 \<and> f_innerSrc f \<noteq> [] \<and> f_innerDst f \<noteq> [] \<and>
            ParseIP (f_innerSrc f) \<noteq> None \<and> ParseIP (f_innerDst f) \<noteq> None) \<longrightarrow>
           (\<exists>ss cs. client_main runCmd e cmd f evs1 evs2 evs3 = Some (Inr (ss, cs))))"
proof (cases "vm_src f port dst")
  case None
  then show ?thesis using applyAsVM_port [OF assms(1,2,5,6,4), of e] assms(3) by (auto simp: client_main_def)
next
  case (Some src)
  obtain t where t: "applyAsVM runCmd f = Some (Inr (f\<lparr>f_srcMAC := vm_mac f port, f_src := t\<rparr>))"
      "srcIP e (f\<lparr>f_srcMAC := vm_mac f port, f_src := t\<rparr>) dst = Inr src"
    using applyAsVM_port [OF assms(1,2,5,6,4), of e] Some by auto
  define g where "g = f\<lparr>f_srcMAC := vm_mac f port, f_src := t\<rparr>"
  have vm: "vm_flags e g src dst" using assms(2,4,5) t(2) by (simp add: vm_flags_def g_def)
  have same: "sent_as e g (f_srcMAC g) src dst = sent_as e f (vm_mac f port) src dst" "can_send e g (f_srcMAC g) = can_send e f (vm_mac f port)"
    "f_vni g = f_vni f" "f_innerSrc g = f_innerSrc f" "f_innerDst g = f_innerDst f"
    by (simp_all add: g_def fun_eq_iff sent_as_def can_send_def)
  have main: "client_main runCmd e cmd f evs1 evs2 evs3 =
      (if cmd = ''icmp'' then one_reply (runICMP e g evs1) else if cmd = ''udp'' then one_reply (runUDP e g evs1)
       else if cmd = ''htcp'' then all_replies (runTCP e g False evs1 evs2 evs3)
       else if cmd = ''tcp'' then all_replies (runTCP e g True evs1 evs2 evs3) else one_reply (runVXLAN e g evs1))"
    using assms(3,7) t(1) by (auto simp: client_main_def g_def)
  note as = runICMP_as [OF vm, unfolded same] runUDP_as [OF vm, unfolded same] runVXLAN_as [OF vm, unfolded same] runTCP_as [OF vm, unfolded same]
  have "ss \<noteq> [] \<and> (\<forall>s \<in> set ss. sent_as e f (vm_mac f port) src dst s)"
    if "client_main runCmd e cmd f evs1 evs2 evs3 = Some (Inr (ss, cs))" for ss cs
    using that as(1,3,5,7) unfolding main
    by (cases "cmd = ''icmp''"; cases "cmd = ''udp''"; cases "cmd = ''htcp''"; cases "cmd = ''tcp''")
      (simp_all, (blast dest: one_reply_InrD all_replies_InrD)+)
  moreover have "\<exists>ss cs. client_main runCmd e cmd f evs1 evs2 evs3 = Some (Inr (ss, cs))"
    if "can_send e f (vm_mac f port)" "cmd = ''vxlan'' \<longrightarrow> f_vni f \<noteq> 0 \<and> f_innerSrc f \<noteq> [] \<and> f_innerDst f \<noteq> [] \<and>
      ParseIP (f_innerSrc f) \<noteq> None \<and> ParseIP (f_innerDst f) \<noteq> None"
    using replies_Inr(1) [OF as(2) [OF that(1)]] replies_Inr(1) [OF as(4) [OF that(1)]] replies_Inr(2) [OF as(8) [OF that(1)]]
      replies_Inr(1) [OF as(6) [OF that(1)]] that(2) assms(7) unfolding main
    by (cases "cmd = ''icmp''"; cases "cmd = ''udp''"; cases "cmd = ''htcp''"; cases "cmd = ''tcp''") simp_all
  ultimately show ?thesis by (simp add: Some)
qed

definition vm_ips :: "bytes list" where
  "vm_ips = [[0xfd, 0] @ replicate 13 0 @ [1], v4InV6Prefix @ [10, 0, 0, 2]]"

definition demo_cmd :: "string list \<Rightarrow> string option" where
  "demo_cmd args = (if hd args = ''ovs-vsctl''
     then Some (table_text [''name'', ''external_ids'', ''mac_in_use'']
       [\<lparr>v_name = ''tap0'', v_eids = [(''iface-id'', ''vm1'')], v_mac = [''02:00:00:00:00:01'']\<rparr>])
     else Some (addresses_text [join '' '' (''02:00:00:00:00:01'' # map ip_string vm_ips)]))"

definition demo_asvm :: flags where
  "demo_asvm = \<lparr>f_src = [], f_dst = ''10.0.0.3'', f_innerSrc = [], f_innerDst = [], f_sport = 40000, f_dport = 0, f_vni = 0, f_vlan = 0,
     f_iface = ''tap0'', f_dstMAC = ''02:00:00:00:00:02'', f_srcMAC = [], f_asVM = True, f_hmacKey = [], f_response = False, f_deliver = False\<rparr>"

definition demo_host :: env where
  "demo_host = \<lparr>dialLocal = (\<lambda>_. None), ifByName = (\<lambda>_. Some (3, replicate 6 9)), newUUID = replicate 16 7, nowNano = 5, sniffOK = True, sendOK = True\<rparr>"

theorem as_vm_source_witness:
  "\<exists>ss cs. client_main demo_cmd demo_host ''tcp'' demo_asvm [] [] [] = Some (Inr (ss, cs)) \<and> ss \<noteq> [] \<and>
     (\<forall>s \<in> set ss. sent_as demo_host demo_asvm ''02:00:00:00:00:01'' (v4InV6Prefix @ [10, 0, 0, 2]) (v4InV6Prefix @ [10, 0, 0, 3]) s)"
proof -
  let ?port = "\<lparr>p_Name = ''tap0'', p_MAC = ''02:00:00:00:00:01'', p_IPs = vm_ips\<rparr>"
  have mac: "ParseIP ''02:00:00:00:00:01'' = None" by code_simp
  have len: "\<forall>ip \<in> set vm_ips. length ip = 16" by (simp add: vm_ips_def v4InV6Prefix_def)
  then have to16: "map To16 vm_ips = vm_ips" by (simp add: map_idI)
  have "entryIPs (join '' '' (''02:00:00:00:00:01'' # map ip_string vm_ips)) = vm_ips"
    using entryIPs_entry [OF mac, of vm_ips] len to16 by (simp add: plain_def)
  moreover have "valid_utf8 (join '' '' (''02:00:00:00:00:01'' # map ip_string vm_ips))"
    using len by (intro valid_entry) (auto simp: plain_def)
  ultimately have ips: "resolveIPs demo_cmd ''vm1'' = Some vm_ips"
    by (simp add: resolveIPs_def demo_cmd_def read_addresses_text ParseNBAddresses_eq asTable_encTable ovsList_encSet column_def del: join.simps)
  have l: "LookupPort demo_cmd ''tap0'' = Some (Inr ?port)"
    using ips by (simp add: LookupPort_def demo_cmd_def [of "''ovs-vsctl'' # _"] read_table_text valid_vif_def valid_ascii
        ParseInterfaces_def asTable_encTable ifaceRows_cells portOf_def iface_of_def eid_def del: list.map)
      (simp add: iface_of_def eid_def)
  have m: "ParseMAC ''02:00:00:00:00:01'' = Some [2, 0, 0, 0, 0, 1]" "ParseMAC ''02:00:00:00:00:02'' = Some [2, 0, 0, 0, 0, 2]"
      "ParseIP ''10.0.0.3'' = Some (v4InV6Prefix @ [10, 0, 0, 3])" by code_simp+
  have v: "List.find (\<lambda>ip. isV6 ip = isV6 (v4InV6Prefix @ [10, 0, 0, 3])) vm_ips = Some (v4InV6Prefix @ [10, 0, 0, 2])"
      "\<not> isV6 (v4InV6Prefix @ [10, 0, 0, 3])" by code_simp+
  have src: "vm_src demo_asvm ?port (v4InV6Prefix @ [10, 0, 0, 3]) = Some (v4InV6Prefix @ [10, 0, 0, 2])"
    "vm_mac demo_asvm ?port = ''02:00:00:00:00:01''" "can_send demo_host demo_asvm ''02:00:00:00:00:01''"
    using v m by (simp_all add: vm_src_def vm_mac_def can_send_def demo_asvm_def demo_host_def)
  have "f_asVM demo_asvm" "f_iface demo_asvm = ''tap0''" "f_dst demo_asvm = ''10.0.0.3''" by (simp_all add: demo_asvm_def)
  then show ?thesis
    using as_vm_source [of demo_asvm "v4InV6Prefix @ [10, 0, 0, 3]" ?port demo_cmd "''tcp''" demo_host "[]" "[]" "[]"] l m src
    by auto
qed

end
