(* ===== verification/Command_Line.thy ===== *)
theory Command_Line
  imports Flags As_Vm Agent Collector
begin

text \<open>
  The command lines of the three programs: the flag sets of the client (\<^verbatim>\<open>client/main.go\<close>), the agent
  (\<^verbatim>\<open>agent/main.go\<close>) and the collector (\<^verbatim>\<open>collector/main.go\<close>), their defaults, and each \<^verbatim>\<open>main\<close> from the words it
  is started with. Each flag set is an instance of \<open>command_line\<close>: whatever options a program can have
  can be written as arguments, and the program started with them has these options.
\<close>

section \<open>Client\<close>

text \<open>The flags with the time a reply is waited for, in nanoseconds. The key is stored as its bytes.\<close>

record client_flags = flags +
  f_timeout :: int

definition text_bytes :: "string \<Rightarrow> bytes" where
  "text_bytes = map (\<lambda>c. of_nat (of_char c))"

definition newFlags :: client_flags where
  "newFlags = \<lparr>f_src = [], f_dst = [], f_innerSrc = [], f_innerDst = [], f_sport = 40000, f_dport = 0, f_vni = 0,
     f_vlan = 0, f_iface = [], f_dstMAC = [], f_srcMAC = [], f_asVM = False, f_hmacKey = [], f_response = False,
     f_deliver = False, f_timeout = 2 * 1000000000\<rparr>"

definition flagSet :: "(string \<times> client_flags flag_def) list" where
  "flagSet =
    [(''src'', StringFlag (\<lambda>s. f_src_update (\<lambda>_. s))),
     (''dst'', StringFlag (\<lambda>s. f_dst_update (\<lambda>_. s))),
     (''inner-src'', StringFlag (\<lambda>s. f_innerSrc_update (\<lambda>_. s))),
     (''inner-dst'', StringFlag (\<lambda>s. f_innerDst_update (\<lambda>_. s))),
     (''sport'', IntFlag (\<lambda>i. f_sport_update (\<lambda>_. i))),
     (''dport'', IntFlag (\<lambda>i. f_dport_update (\<lambda>_. i))),
     (''vni'', IntFlag (\<lambda>i. f_vni_update (\<lambda>_. i))),
     (''vlan'', IntFlag (\<lambda>i. f_vlan_update (\<lambda>_. i))),
     (''iface'', StringFlag (\<lambda>s. f_iface_update (\<lambda>_. s))),
     (''dst-mac'', StringFlag (\<lambda>s. f_dstMAC_update (\<lambda>_. s))),
     (''src-mac'', StringFlag (\<lambda>s. f_srcMAC_update (\<lambda>_. s))),
     (''as-vm'', BoolFlag (\<lambda>b. f_asVM_update (\<lambda>_. b))),
     (''hmac-key'', StringFlag (\<lambda>s. f_hmacKey_update (\<lambda>_. text_bytes s))),
     (''response'', BoolFlag (\<lambda>b. f_response_update (\<lambda>_. b))),
     (''deliver'', BoolFlag (\<lambda>b. f_deliver_update (\<lambda>_. b))),
     (''timeout'', DurationFlag (\<lambda>i. f_timeout_update (\<lambda>_. i)))]"

text \<open>The words of a command line are the program's name, the sub-command and the flags; without a
  sub-command, and without a destination, the usage text is printed.\<close>

datatype client_stop = BadFlags flag_error | Stop client_exit

definition client_process ::
  "(string list \<Rightarrow> string option) \<Rightarrow> (nat \<Rightarrow> nat \<Rightarrow> nat \<Rightarrow> nat) \<Rightarrow> env \<Rightarrow> string list \<Rightarrow>
     sniff list \<Rightarrow> sniff list \<Rightarrow> sniff list \<Rightarrow> (client_stop + sent list \<times> capture list) go" where
  "client_process runCmd fraction e args evs1 evs2 evs3 =
     (if length args < 2 then Some (Inl (Stop Usage))
      else case parse_flags fraction flagSet newFlags (drop 2 args) of
        Inl err \<Rightarrow> Some (Inl (BadFlags err))
      | Inr (f, _) \<Rightarrow> do {
          r \<leftarrow> client_main runCmd e (args ! 1) (flags.truncate f) evs1 evs2 evs3;
          Some (case r of Inl x \<Rightarrow> Inl (Stop x) | Inr y \<Rightarrow> Inr y) })"

text \<open>The status the process ends with: \<^verbatim>\<open>usage\<close> exits with 2, \<^verbatim>\<open>log.Fatal\<close> with 1.\<close>

fun client_status :: "client_stop + 'a \<Rightarrow> nat" where
  "client_status (Inl (BadFlags err)) = flag_exit err"
| "client_status (Inl (Stop x)) = (if x = Usage then 2 else 1)"
| "client_status (Inr _) = 0"

section \<open>Agent\<close>

definition agent_defaults :: agent_flags where
  "agent_defaults = \<lparr>fl_iface = [], fl_ifaceType = ''auto'', fl_nodeID = [], fl_respond = True, fl_tcpRespond = True,
     fl_localIP = [], fl_watch = False, fl_watchInterval = 5 * 1000000000, fl_watchVXLAN = False, fl_metricsAddr = [],
     fl_hmacKey = [], fl_az = [], fl_collectorURL = [], fl_otlpEndpoint = [], fl_xdp = False, fl_xdpTCEgress = False\<rparr>"

definition agent_flagSet :: "(string \<times> agent_flags flag_def) list" where
  "agent_flagSet =
    [(''iface'', StringFlag (\<lambda>s. fl_iface_update (\<lambda>_. s))),
     (''iface-type'', StringFlag (\<lambda>s. fl_ifaceType_update (\<lambda>_. s))),
     (''node-id'', StringFlag (\<lambda>s. fl_nodeID_update (\<lambda>_. s))),
     (''respond'', BoolFlag (\<lambda>b. fl_respond_update (\<lambda>_. b))),
     (''tcp-respond'', BoolFlag (\<lambda>b. fl_tcpRespond_update (\<lambda>_. b))),
     (''local-ip'', StringFlag (\<lambda>s. fl_localIP_update (\<lambda>_. s))),
     (''watch'', BoolFlag (\<lambda>b. fl_watch_update (\<lambda>_. b))),
     (''watch-interval'', DurationFlag (\<lambda>i. fl_watchInterval_update (\<lambda>_. i))),
     (''watch-vxlan'', BoolFlag (\<lambda>b. fl_watchVXLAN_update (\<lambda>_. b))),
     (''metrics-addr'', StringFlag (\<lambda>s. fl_metricsAddr_update (\<lambda>_. s))),
     (''hmac-key'', StringFlag (\<lambda>s. fl_hmacKey_update (\<lambda>_. text_bytes s))),
     (''az'', StringFlag (\<lambda>s. fl_az_update (\<lambda>_. s))),
     (''collector-url'', StringFlag (\<lambda>s. fl_collectorURL_update (\<lambda>_. s))),
     (''otlp-endpoint'', StringFlag (\<lambda>s. fl_otlpEndpoint_update (\<lambda>_. s))),
     (''xdp'', BoolFlag (\<lambda>b. fl_xdp_update (\<lambda>_. b))),
     (''xdp-tc-egress'', BoolFlag (\<lambda>b. fl_xdpTCEgress_update (\<lambda>_. b)))]"

datatype agent_stop = AgentFlags flag_error | AgentOpts opt_error

definition agent_options ::
  "(nat \<Rightarrow> nat \<Rightarrow> nat \<Rightarrow> nat) \<Rightarrow> string \<Rightarrow> string list \<Rightarrow> agent_stop + opts" where
  "agent_options fraction hostname args =
     (case parse_flags fraction agent_flagSet agent_defaults (tl args) of
        Inl err \<Rightarrow> Inl (AgentFlags err)
      | Inr (f, _) \<Rightarrow> (case main_opts hostname f of Inl e \<Rightarrow> Inl (AgentOpts e) | Inr op \<Rightarrow> Inr op))"

section \<open>Collector\<close>

record collector_flags =
  cf_addr :: string
  cf_maxRuns :: int

definition collector_defaults :: collector_flags where
  "collector_defaults = \<lparr>cf_addr = '':8080'', cf_maxRuns = 10000\<rparr>"

definition collector_flagSet :: "(string \<times> collector_flags flag_def) list" where
  "collector_flagSet =
    [(''addr'', StringFlag (\<lambda>s. cf_addr_update (\<lambda>_. s))),
     (''max-runs'', IntFlag (\<lambda>i. cf_maxRuns_update (\<lambda>_. i)))]"

text \<open>The address the collector listens on and the store it starts with.\<close>

definition collector_start :: "(nat \<Rightarrow> nat \<Rightarrow> nat \<Rightarrow> nat) \<Rightarrow> string list \<Rightarrow> flag_error + string \<times> store" where
  "collector_start fraction args =
     (case parse_flags fraction collector_flagSet collector_defaults (tl args) of
        Inl err \<Rightarrow> Inl err
      | Inr (f, _) \<Rightarrow> Inr (cf_addr f, newStore (cf_maxRuns f)))"

section \<open>Options written as arguments\<close>

definition bytes_text :: "bytes \<Rightarrow> string" where
  "bytes_text = map (\<lambda>b. char_of (unat b))"

lemma text_bytes_bytes_text [simp]: "text_bytes (bytes_text bs) = bs"
proof (induction bs)
  case (Cons b bs)
  have "unat b < 256" using unsigned_less [of b, where 'a = nat] by simp
  with Cons show ?case by (simp add: text_bytes_def bytes_text_def)
qed (simp add: text_bytes_def bytes_text_def)

definition int64 :: "int \<Rightarrow> bool" where
  "int64 i \<longleftrightarrow> - (2 ^ 63) \<le> i \<and> i < 2 ^ 63"

definition client_settings :: "client_flags \<Rightarrow> (string \<times> string) list" where
  "client_settings f =
    [(''src'', f_src f), (''dst'', f_dst f), (''inner-src'', f_innerSrc f), (''inner-dst'', f_innerDst f),
     (''sport'', int_string (f_sport f)), (''dport'', int_string (f_dport f)), (''vni'', int_string (f_vni f)),
     (''vlan'', int_string (f_vlan f)), (''iface'', f_iface f), (''dst-mac'', f_dstMAC f), (''src-mac'', f_srcMAC f),
     (''as-vm'', bool_string (f_asVM f)), (''hmac-key'', bytes_text (f_hmacKey f)),
     (''response'', bool_string (f_response f)), (''deliver'', bool_string (f_deliver f)),
     (''timeout'', duration_string (f_timeout f))]"

definition wf_client :: "client_flags \<Rightarrow> bool" where
  "wf_client f \<longleftrightarrow> int64 (f_sport f) \<and> int64 (f_dport f) \<and> int64 (f_vni f) \<and> int64 (f_vlan f) \<and> int64 (f_timeout f)"

interpretation clientcl: command_line fraction flagSet newFlags client_settings wf_client
  for fraction
  by unfold_locales (auto simp: flagSet_def client_settings_def flag_name_def newFlags_def wf_client_def int64_def)

definition agent_settings :: "agent_flags \<Rightarrow> (string \<times> string) list" where
  "agent_settings f =
    [(''iface'', fl_iface f), (''iface-type'', fl_ifaceType f), (''node-id'', fl_nodeID f),
     (''respond'', bool_string (fl_respond f)), (''tcp-respond'', bool_string (fl_tcpRespond f)),
     (''local-ip'', fl_localIP f), (''watch'', bool_string (fl_watch f)),
     (''watch-interval'', duration_string (fl_watchInterval f)), (''watch-vxlan'', bool_string (fl_watchVXLAN f)),
     (''metrics-addr'', fl_metricsAddr f), (''hmac-key'', bytes_text (fl_hmacKey f)), (''az'', fl_az f),
     (''collector-url'', fl_collectorURL f), (''otlp-endpoint'', fl_otlpEndpoint f),
     (''xdp'', bool_string (fl_xdp f)), (''xdp-tc-egress'', bool_string (fl_xdpTCEgress f))]"

definition wf_agent :: "agent_flags \<Rightarrow> bool" where
  "wf_agent f \<longleftrightarrow> int64 (fl_watchInterval f)"

interpretation agentcl: command_line fraction agent_flagSet agent_defaults agent_settings wf_agent
  for fraction
  by unfold_locales (auto simp: agent_flagSet_def agent_settings_def flag_name_def agent_defaults_def wf_agent_def int64_def)

definition collector_settings :: "collector_flags \<Rightarrow> (string \<times> string) list" where
  "collector_settings f = [(''addr'', cf_addr f), (''max-runs'', int_string (cf_maxRuns f))]"

definition wf_collector :: "collector_flags \<Rightarrow> bool" where
  "wf_collector f \<longleftrightarrow> int64 (cf_maxRuns f)"

interpretation collcl: command_line fraction collector_flagSet collector_defaults collector_settings wf_collector
  for fraction
  by unfold_locales (auto simp: collector_flagSet_def collector_settings_def flag_name_def collector_defaults_def wf_collector_def int64_def)

section \<open>Properties\<close>

text \<open>C28: options survive the command line. For every record of client flags whose integers are 64-bit, the
  client started with them written as words (and any positional words after them) runs the sub-command
  with exactly these flags, every character of the addresses, names and key included; likewise the agent
  resolves exactly the written options and the collector starts with the written capacity and address.
  None of them accepts a flag it does not declare: the client then stops with status 2, sending nothing.\<close>

theorem command_lines_exact:
  assumes "wf_client f" "wf_agent g" "wf_collector c" "positional ws"
    and "flag_name n" "n \<notin> fst ` set flagSet" "n \<noteq> ''help''" "n \<noteq> ''h''"
  shows "client_process runCmd fraction e (prog # cmd # map flag_word (client_settings f) @ ws) evs1 evs2 evs3 =
      map_option (map_sum Stop id) (client_main runCmd e cmd (flags.truncate f) evs1 evs2 evs3) \<and>
    agent_options fraction host (prog # map flag_word (agent_settings g) @ ws) = map_sum AgentOpts id (main_opts host g) \<and>
    collector_start fraction (prog # map flag_word (collector_settings c) @ ws) = Inr (cf_addr c, newStore (cf_maxRuns c)) \<and>
    (let r = client_process runCmd fraction e
        (prog # cmd # map flag_word (client_settings f) @ flag_word (n, t) # rest) evs1 evs2 evs3
     in r = Some (Inl (BadFlags (NotDefined n))) \<and> map_option client_status r = Some 2)"
proof (intro conjI)
  show "client_process runCmd fraction e (prog # cmd # map flag_word (client_settings f) @ ws) evs1 evs2 evs3 =
      map_option (map_sum Stop id) (client_main runCmd e cmd (flags.truncate f) evs1 evs2 evs3)"
    using clientcl.roundtrip [OF assms(1,4), of fraction]
    by (cases "client_main runCmd e cmd (flags.truncate f) evs1 evs2 evs3")
      (auto simp: client_process_def split: sum.split)
  show "agent_options fraction host (prog # map flag_word (agent_settings g) @ ws) = map_sum AgentOpts id (main_opts host g)"
    using agentcl.roundtrip [OF assms(2,4), of fraction] by (auto simp: agent_options_def split: sum.split)
  show "collector_start fraction (prog # map flag_word (collector_settings c) @ ws) = Inr (cf_addr c, newStore (cf_maxRuns c))"
    using collcl.roundtrip [OF assms(3,4), of fraction] by (simp add: collector_start_def)
  show "let r = client_process runCmd fraction e
        (prog # cmd # map flag_word (client_settings f) @ flag_word (n, t) # rest) evs1 evs2 evs3
     in r = Some (Inl (BadFlags (NotDefined n))) \<and> map_option client_status r = Some 2"
    using clientcl.undeclared [OF assms(1,5-8), of fraction t rest] by (simp add: client_process_def flag_exit_def)
qed

theorem command_lines_exact_witness:
  "client_process (\<lambda>_. None :: string option) (\<lambda>_ _ _. 0) demo_host
     (''client'' # ''icmp'' # map flag_word (client_settings newFlags) @ []) [] [] [] = Some (Inl (Stop Usage)) \<and>
   agent_options (\<lambda>_ _ _. 0) ''h'' (''client'' # map flag_word (agent_settings agent_defaults) @ []) = Inl (AgentOpts NeedMode) \<and>
   collector_start (\<lambda>_ _ _. 0) (''client'' # map flag_word (collector_settings collector_defaults) @ []) = Inr ('':8080'', newStore 10000)"
proof -
  have "wf_client newFlags" "wf_agent agent_defaults" "wf_collector collector_defaults" "positional []" "flag_name ''verbose''"
    "''verbose'' \<notin> fst ` set flagSet"
    by (simp_all add: wf_client_def newFlags_def int64_def wf_agent_def agent_defaults_def wf_collector_def
        collector_defaults_def positional_def flag_name_def flagSet_def)
  note c = command_lines_exact [OF this, of "\<lambda>_. None :: string option" "\<lambda>_ _ _. 0" demo_host
      "''client''" "''icmp''" "[]" "[]" "[]" "''h''" "''1''" "[]"]
  have "client_main (\<lambda>_. None :: string option) demo_host ''icmp'' (flags.truncate newFlags) [] [] [] = Some (Inl Usage)"
    by (simp add: client_main_def newFlags_def flags.truncate_def)
  moreover have "main_opts ''h'' agent_defaults = Inl NeedMode" by (simp add: main_opts_def agent_defaults_def)
  ultimately show ?thesis using c by (simp add: collector_defaults_def)
qed

lemma bindE_InrD: "bindE m k = Some (Inr y) \<Longrightarrow> \<exists>x. m = Inr x \<and> k x = Some (Inr y)"
  by (cases m) (simp_all add: bindE_def)

lemma mustIP_InrD: "mustIP s = Inr ip \<Longrightarrow> ParseIP s = Some ip"
  by (simp add: mustIP_def split: option.splits)

lemma applyAsVM_dst: "applyAsVM runCmd f = Some (Inr f') \<Longrightarrow> f_dst f' = f_dst f"
  by (auto simp: applyAsVM_def sourceFor_def Let_def split: if_splits sum.splits option.splits bind_splits)

lemma startSniffer_InrD: "startSniffer e = Inr x \<Longrightarrow> sniffOK e"
  by (simp add: startSniffer_def split: if_splits)

lemma await_probe: "await f i match evs s = Some (Inr (ss, c)) \<Longrightarrow> ss = [s]"
  by (auto simp: await_def split: if_splits bind_splits)

text \<open>A sub-command that ends well has a destination that parses, a sniffer, and has sent something.\<close>

definition sent_probe :: "env \<Rightarrow> flags \<Rightarrow> sent list \<Rightarrow> bool" where
  "sent_probe e f ss \<longleftrightarrow> ParseIP (f_dst f) \<noteq> None \<and> sniffOK e \<and> ss \<noteq> []"

lemma runICMP_probe: "runICMP e f evs = Some (Inr (ss, c)) \<Longrightarrow> sent_probe e f ss"
  by (auto simp: runICMP_def sent_probe_def Let_def split_def dest!: bindE_InrD mustIP_InrD startSniffer_InrD await_probe)

lemma runUDP_probe: "runUDP e f evs = Some (Inr (ss, c)) \<Longrightarrow> sent_probe e f ss"
  by (auto simp: runUDP_def sent_probe_def Let_def split_def split: if_splits
      dest!: bindE_InrD mustIP_InrD startSniffer_InrD await_probe)

lemma runVXLAN_probe: "runVXLAN e f evs = Some (Inr (ss, c)) \<Longrightarrow> sent_probe e f ss"
  by (auto simp: runVXLAN_def sent_probe_def Let_def split_def split: if_splits
      dest!: bindE_InrD mustIP_InrD startSniffer_InrD await_probe)

lemma runTCP_probe: "runTCP e f d evs1 evs2 evs3 = Some (Inr (ss, cs)) \<Longrightarrow> sent_probe e f ss"
  by (auto simp: runTCP_def sent_probe_def Let_def split_def split: if_splits bind_splits option.splits
      dest!: bindE_InrD mustIP_InrD startSniffer_InrD)

lemmas run_probes = runICMP_probe runUDP_probe runVXLAN_probe runTCP_probe

lemma client_main_sent:
  assumes "client_main runCmd e cmd f evs1 evs2 evs3 = Some (Inr (ss, cs))"
  shows "cmd \<in> {''icmp'', ''udp'', ''htcp'', ''tcp'', ''vxlan''} \<and> sent_probe e f ss"
proof -
  obtain f' where f': "applyAsVM runCmd f = Some (Inr f')"
    using assms by (auto simp: client_main_def split: if_splits bind_splits sum.splits)
  have "cmd \<in> {''icmp'', ''udp'', ''htcp'', ''tcp'', ''vxlan''} \<and> sent_probe e f' ss"
    using assms f' by (auto simp: client_main_def split: if_splits dest!: one_reply_InrD all_replies_InrD dest: run_probes)
  then show ?thesis using applyAsVM_dst [OF f'] by (simp add: sent_probe_def)
qed

text \<open>C29: the client's exit status tells whether a probe was sent. A process that ends with status 0 either
  printed the help text or was given one of the five sub-commands and a destination that parses as an
  address, had a working sniffer, and sent at least one packet; every other command line (too few
  words, an unknown sub-command, a bad flag, a missing or malformed destination) ends with another status.\<close>

theorem client_exit_zero:
  assumes "client_process runCmd fraction e args evs1 evs2 evs3 = Some r" "client_status r = 0"
  shows "r = Inl (BadFlags ErrHelp) \<or>
    (\<exists>f ws ss cs. 2 \<le> length args \<and> args ! 1 \<in> {''icmp'', ''udp'', ''htcp'', ''tcp'', ''vxlan''} \<and>
       parse_flags fraction flagSet newFlags (drop 2 args) = Inr (f, ws) \<and>
       ParseIP (f_dst f) \<noteq> None \<and> sniffOK e \<and> r = Inr (ss, cs) \<and> ss \<noteq> [])"
proof -
  have long: "2 \<le> length args"
    using assms by (auto simp: client_process_def not_less [symmetric] split: if_splits)
  show ?thesis
  proof (cases "parse_flags fraction flagSet newFlags (drop 2 args)")
    case (Inl err)
    then show ?thesis using assms long by (auto simp: client_process_def flag_exit_def split: if_splits)
  next
    case (Inr p)
    obtain f ws where p: "p = (f, ws)" by (cases p)
    obtain ss cs where m: "client_main runCmd e (args ! 1) (flags.truncate f) evs1 evs2 evs3 = Some (Inr (ss, cs))"
      and r: "r = Inr (ss, cs)"
      using assms Inr p long by (auto simp: client_process_def split: bind_splits sum.splits if_splits)
    show ?thesis
      using client_main_sent [OF m] r long Inr p by (auto simp: sent_probe_def flags.truncate_def)
  qed
qed

theorem client_exit_zero_witness:
  "\<exists>ss cs. client_process (\<lambda>_. None :: string option) (\<lambda>_ _ _. 0) demo_host
     [''client'', ''icmp'', ''--src=10.0.0.2'', ''--dst'', ''10.0.0.3''] [] [] [] = Some (Inr (ss, cs)) \<and> ss \<noteq> []"
proof -
  let ?r = "client_process (\<lambda>_. None :: string option) (\<lambda>_ _ _. 0) demo_host
     [''client'', ''icmp'', ''--src=10.0.0.2'', ''--dst'', ''10.0.0.3''] [] [] []"
  have ip: "ParseIP ''10.0.0.3'' = Some (v4InV6Prefix @ [10, 0, 0, 3])" "ParseIP ''10.0.0.2'' = Some (v4InV6Prefix @ [10, 0, 0, 2])"
    by code_simp+
  have "parse_flags (\<lambda>_ _ _. 0) flagSet newFlags [''--src=10.0.0.2'', ''--dst'', ''10.0.0.3''] =
      Inr (newFlags\<lparr>f_src := ''10.0.0.2'', f_dst := ''10.0.0.3''\<rparr>, [])"
    by (simp add: parse_flags.simps(2) flagSet_def Let_def is_bool_flag_def)
  then obtain x where r: "?r = Some (Inr x)"
    by (simp add: client_process_def client_main_def applyAsVM_def newFlags_def flags.truncate_def one_reply_def runICMP_def
        mustIP_def ip srcIP_def bindE_def startSniffer_def demo_host_def emit_def sendIP_def icmpL3_def isV6_def To4_def v4InV6Prefix_def
        newMeta_def await_def split_def Let_def)
  moreover have "client_status (Inr x :: client_stop + _) = 0" by simp
  ultimately show ?thesis using client_exit_zero by (fastforce simp: r)
qed

end
