(* ===== verification/Spec2Isabelle.thy ===== *)
theory Spec2Isabelle
  imports End_To_End Agent_Run Whole_System Metrics_Page Command_Line
begin

text \<open>
  \<^bold>\<open>A verification development of traceflow\<close>, a path tracer for overlay networks.

  \<^bold>\<open>The program.\<close> A client sends probe packets marked in the IP traffic class, whose payload starts
  with a control block (run id, two flags, send time, optional HMAC). On every host an eBPF program
  records each marked packet it sees as an 88-byte observation in a ring buffer; an agent reads the
  ring buffer, enriches the records and ships them to a collector, which groups them by run id and
  serves each run as a path ordered by hop. On the host of the destination VM the agent's responder
  reads raw frames and answers probes that ask for it (ICMP, UDP, a small TCP server, all of them
  also inside VXLAN); the client's sniffer recognises the answer by its run id.

  \<^bold>\<open>Theories and sources.\<close>
  \<^item> \<open>Go_Prelude\<close>: Go's integers, slices, panics, \<^verbatim>\<open>encoding/binary\<close>, \<^verbatim>\<open>copy\<close>, maps; the interfaces
    \<open>go_map_laws\<close> and \<open>invariant_machine\<close>. A value of type \<open>'a go\<close> is \<open>None\<close> when the code
    panics; index and slice expressions are checked, so freedom from panics is proved, not assumed.
  \<^item> \<open>Net_IP\<close>, \<open>Net_Parse\<close>: \<^verbatim>\<open>net.IP\<close> with \<^verbatim>\<open>To4\<close>, \<^verbatim>\<open>To16\<close>, \<^verbatim>\<open>String\<close>; \<^verbatim>\<open>net.ParseIP\<close> and \<^verbatim>\<open>net.ParseMAC\<close>. The
    text form determines the address, and parsing undoes printing.
  \<^item> \<open>Sha256\<close>: \<^verbatim>\<open>crypto/sha256\<close>, \<^verbatim>\<open>crypto/hmac\<close>, executable.
  \<^item> \<open>Tfmeta\<close> (\<^verbatim>\<open>internal/tfmeta/tfmeta.go\<close>): the control block. Round trip, every branch of decoding,
    exactness of authentication; interfaces \<open>codec\<close> and \<open>payload_auth\<close>.
  \<^item> \<open>Pkt\<close> (\<^verbatim>\<open>internal/pkt/pkt.go\<close>): the packet builders as sequences of stores, their layouts, and the
    checksums: equal to RFC 1071, and everything emitted passes the receiver's test.
  \<^item> \<open>Frames\<close> (\<^verbatim>\<open>agent/responder.go\<close>, parsers): parsing undoes building; no input panics; interface
    \<open>framing\<close>, interpreted for IPv4, IPv6 and Ethernet.
  \<^item> \<open>Utf8\<close>, \<open>Strconv\<close>: what the programs use of \<^verbatim>\<open>unicode/utf8\<close> and \<^verbatim>\<open>strconv\<close>: decoding runes, quoting a
    string, reading and writing integers and booleans.
  \<^item> \<open>Json\<close>: \<^verbatim>\<open>encoding/json\<close> on text: the scanner's grammar with its nesting limit, unquoting, both forms of
    writing, and how members are stored into the fields of a struct. Reading what was written gives
    the value back, bytes that are not UTF-8 replaced.
  \<^item> \<open>Metrics\<close>, \<open>Metrics_Page\<close> (\<^verbatim>\<open>agent/metrics.go\<close>): the counters, the page and both handlers. A scraper finds
    on the page exactly nine samples, whatever the node is called: the numbers of packets, lost records, parse and
    read errors, replies and authentication failures there have been, the sizes of the watchers' tables, and 1.
  \<^item> \<open>Responder\<close> (\<^verbatim>\<open>agent/responder.go\<close>): the state \<open>rstate\<close> (the struct with the counters it updates),
    one definition per function, the receive loop over a list of receive events.
  \<^item> \<open>Responder_Correct\<close>, \<open>Responder_Props\<close>: the abstract reply policy \<open>warrants\<close> and that the
    layered code implements it exactly; what an answer contains; no answer is ever answered; VXLAN
    re-encapsulation; no panic over any run.
  \<^item> \<open>Responder_Tcp\<close>: sequence numbers over a TCP dialogue of any length, isolation of connections (up to
    the code's bound on the table), which connections the flow table holds and how many, exactness of the counters of
    replies and of authentication failures.
  \<^item> \<open>Observation\<close> (\<^verbatim>\<open>internal/observation/observation.go\<close>; the layout of \<^verbatim>\<open>struct observation\<close> in
    \<^verbatim>\<open>bpf/traceflow.h\<close>): decoding, enrichment, latency and clock skew, the interface-name cache.
  \<^item> \<open>Go_Time\<close>: \<^verbatim>\<open>time.Date\<close> and \<^verbatim>\<open>time.Parse\<close> of RFC 3339 text, the fast path and the general parser. The conversion
    of days to dates is the Gregorian calendar; parsing undoes formatting; the two parsers agree.
  \<^item> \<open>Collector\<close> (\<^verbatim>\<open>collector/main.go\<close>): the store as the code has it (a map and a slice) refines a
    bounded first-in first-out queue of runs (not LRU, as the READMEs have it); completeness below the cap; order of a path; the HTTP handlers.
  \<^item> \<open>Go_Url\<close>: what the handlers use of \<^verbatim>\<open>net/url\<close> and \<^verbatim>\<open>net/http\<close>: percent-encoding, query parameters, and how the
    multiplexer cleans a path and finds its handler. What was escaped is read back.
  \<^item> \<open>Client\<close> (\<^verbatim>\<open>client/main.go\<close>, \<^verbatim>\<open>client/sniffer.go\<close>): the sub-commands with every fatal exit, the
    decoder of marked frames and the wait for a reply.
  \<^item> \<open>End_To_End\<close>: client and responder together. The two copies of the parsers agree; the first
    matching frame is returned; ping, UDP, VXLAN and TCP probes of the client complete against a
    responder with the same key that serves the destination.
  \<^item> \<open>Attach\<close> (\<^verbatim>\<open>agent/attach.go\<close>): XDP, TCX and clsact with their fallbacks over the kernel's links and
    filters \<open>knet\<close>; interfaces \<open>ledger\<close> and \<open>attacher\<close>. Attaching is all or nothing, detaching gives
    back exactly what was attached.
  \<^item> \<open>Ovs\<close> (\<^verbatim>\<open>internal/ovs/ovs.go\<close>): the OVSDB and OVN parsers over JSON text, discovery and lookups.
    What OVSDB writes is read back; no output makes them panic.
  \<^item> \<open>Emit\<close> (\<^verbatim>\<open>agent/emit.go\<close>, \<^verbatim>\<open>agent/otlp.go\<close>): enrichment, the bounded queue and the goroutine that drains
    it as interleaved steps, the shutdown of both sinks in order, the cache of logical switches, the spans.
  \<^item> \<open>Agent\<close> (\<^verbatim>\<open>agent/main.go\<close>): options, the table of local addresses, the static attachment, the
    ring-buffer loop. The reader loses nothing and invents nothing, and its error counters are exact.
  \<^item> \<open>Watch\<close> (\<^verbatim>\<open>agent/watch.go\<close>) and \<open>Vxlan_Watch\<close> (\<^verbatim>\<open>agent/vxlanwatch.go\<close>): the two watchers as state machines
    over \<open>agent\<close>, the state they share. They hold exactly what their tables say and give it back;
    the registered addresses and VNIs are those of the attached devices; the VXLAN watcher refines a
    map from devices to VNIs; the tap watcher follows what OVS reports.
  \<^item> \<open>Agent_Run\<close> (\<^verbatim>\<open>run\<close> of \<^verbatim>\<open>agent/main.go\<close>): the start with its early returns, any interleaving of the two
    watchers, the deferred calls at the end and what the goroutines, which nobody joins, may still do between these
    calls and until the exit (\<open>late_ops\<close>): a run leaves no link, filter or socket behind but those that late
    operations attach again.
  \<^item> \<open>As_Vm\<close> (\<^verbatim>\<open>client/main.go\<close>): the dispatch of sub-commands and the option \<^verbatim>\<open>--as-vm\<close>: whose addresses the
    frames of each sub-command carry.
  \<^item> \<open>Flags\<close>, \<open>Command_Line\<close> (\<^verbatim>\<open>client/main.go\<close>, \<^verbatim>\<open>agent/main.go\<close>, \<^verbatim>\<open>collector/main.go\<close>): the package \<^verbatim>\<open>flag\<close> with
    \<^verbatim>\<open>time.ParseDuration\<close>, the flag sets of the three programs and each \<^verbatim>\<open>main\<close> from its argument list to
    its exit status; interface \<open>command_line\<close>, interpreted for all three. Options written as words come
    back unchanged; the client ends with status 0 only when it printed help or sent a probe.
  \<^item> \<open>Pipeline\<close>: the JSON form of an observation, what the collector decodes and answers, and the path of
    the observations of several agents through their queues into the collector's store and out again.
  \<^item> \<open>Bpf\<close> (\<^verbatim>\<open>bpf/traceflow.c\<close>, \<^verbatim>\<open>bpf/traceflow.h\<close>): the eBPF program, one definition per function. A pointer into
    the packet is an offset; a load is \<open>None\<close> when it is out of bounds, so that safety of the loads is
    proved. \<open>bpf_maps\<close> holds the maps, \<open>bpf_env\<close> what the kernel's helpers answer.
  \<^item> \<open>Bpf_Views\<close>, \<open>Bpf_Props\<close>: what the parsers see of a frame, and the abstract classifier \<open>classify\<close>.
  \<^item> \<open>Intercept\<close>: the eBPF program implements the classifier over any packets; its records are decoded
    by the agent's reader; a probe is answered by the responder exactly when the program takes it off
    the wire (under the conditions stated; lemmas show where the two part); only probes for local VMs are ever dropped.
  \<^item> \<open>Trace\<close>: a ping of the client, forwarded by \<open>k\<close> routers, is recorded with its run id and hop \<open>k\<close>,
    whether it was sent as a frame or as an IP packet; the echo reply is recorded as such, so a path can be split in both.
  \<^item> \<open>Whole_System\<close>: packets, data paths, readers, queues and collector together (\<open>host\<close>). The path of a run is
    what the hosts recorded of it; the path of a ping is its route.

  \<^bold>\<open>How the parts are composed.\<close> The client's frames are the responder's input in \<open>End_To_End\<close>. Ring-buffer
  records become observations in \<open>Agent.readLoop\<close>, which hands them to \<open>Emit.emit_obs\<close>; what the queue
  posts is the input of \<open>Collector.serve\<close> in \<open>Pipeline\<close>. The ports \<open>Ovs.DiscoverPorts\<close> returns drive
  \<open>Watch.reconcile\<close>, whose attachments are those of \<open>Attach.attachIface\<close>; both watchers and the static
  attachment run inside \<open>Agent_Run.run_agent\<close>. The frames of \<open>Trace\<close> and \<open>Intercept\<close> go both through
  \<open>Bpf.bpf_handle\<close>, whose records are the input of \<open>Agent.readLoop\<close>, and through \<open>Responder.handle\<close>, which
  reads the local addresses \<open>Agent.addLocalIPs\<close> has written. In \<open>Whole_System\<close> a host is a run of
  \<open>Bpf.bpf_handle\<close> over what arrives, whose records its reader hands (\<open>emissions\<close>, which is what
  \<open>Agent.readLoop\<close> emits) to an emitter interleaved with its shipping goroutine; the posts of all hosts, in
  any order, are what the collector serves.

  \<^bold>\<open>Parameters.\<close> System calls and third-party code are arguments: what a socket delivers (\<open>recv\<close>,
  \<open>sniff\<close>), whether a send succeeds, how control messages are split; the answers of the host to the
  client (\<open>env\<close>: routing, interfaces, a fresh UUID, the clock) and to the agent (\<open>sys\<close>, with the kernel's
  answers to attaching in \<open>attach_env\<close>); the answers of the kernel's helpers to the eBPF program
  (\<open>bpf_env\<close>) and the packet it is called with (\<open>sk_buff\<close>, \<open>xdp_md\<close>); the output of a command (\<open>runCmd\<close>),
  the order of a range over a Go map (\<open>rangeOrder\<close>), the text form of a UUID (\<open>uuidString\<close>, \<open>uuidParse\<close>), the
  interface table; the library's table of printable characters (\<open>isPrint\<close>) and the
  floating-point product in \<^verbatim>\<open>time.ParseDuration\<close> (\<open>fraction\<close>), arbitrary in every theorem. The hypothesis
  \<open>wf_env\<close> says that a UUID has 16 bytes and \<open>uuid_text\<close> that its text is plain,
  not empty and its own; a range visits every key once. The hypothesis \<open>good_env\<close>
  says that a filter that is there can be deleted: \<^verbatim>\<open>delBPFFilter\<close> logs when the kernel refuses that and goes on,
  which is modelled; the filter then stays.

  \<^bold>\<open>Bounds.\<close> Loops are recursive functions with termination proofs: the VLAN loop runs over at most two
  tags as in the code, the folding loop of the checksum decreases its argument, eviction consumes
  the order. The receive loop and the waits run over the finite list of what has been received, of
  any length. Checksum theorems cover buffers of up to 131070 bytes, more than any IP packet. The
  flow table's cap of 4096 and the queue's of 1024 are the code's own, as are the eBPF program's two VLAN
  tags and four IPv6 extension headers. The shipping loop ends after as many posts as were waiting.
  Reading JSON is limited by the library's nesting depth of 10000; the elements of an array are read
  with the length of the text as fuel, which is enough because each takes a character at least. The
  metrics are exact while the counters stay below \<open>2\<^sup>6\<^sup>4\<close>.

  \<^bold>\<open>Not modelled.\<close> Usage texts, logging and signals (output and process control only); the system calls
  behind sockets and the listening HTTP servers; batching and export of started spans in the
  OpenTelemetry library; the loader that \<^verbatim>\<open>bpf2go\<close> generates, which is not in the repository; the order in which a repeated
  member of a JSON object with \<^verbatim>\<open>null\<close> elements reuses the slice read before it; the texts of the JSON
  decoder's error messages (\<open>errText\<close>); requests with the method \<^verbatim>\<open>CONNECT\<close> and the page of a redirect.
\<close>

end
